(* ===== verification/Prelude.thy ===== *)
theory Prelude
  imports Main "HOL-Library.Word"
begin

unbundle bit_operations_syntax

section \<open>Shared types, the error monad and list lemmas\<close>

text \<open>
  What the component theories share: names for the machine types, the error monad that
  carries C++ exceptions and undefined behaviour as values, subtraction on size_t with
  its wrap-around written out, and the lemmas on lists of equally long memory blocks.
\<close>

named_theorems err_simps \<open>evaluation rules of the error monad\<close>
named_theorems block_simps \<open>facts about concatenated memory blocks\<close>

type_synonym u8 = "8 word"
type_synonym u16 = "16 word"
type_synonym u32 = "32 word"
type_synonym u64 = "64 word"
type_synonym byte = u8

subsection \<open>Faults and the error monad\<close>

text \<open>
  A C++ operation either returns, throws, or runs into undefined behaviour. A run is a
  value of \<open>fault + 'a\<close>: \<open>Inl\<close> names what went wrong. \<open>NullDeref\<close>, \<open>DanglingPtr\<close>,
  \<open>HeapOverflow\<close>, \<open>DivByZero\<close>, \<open>BadLength\<close>, \<open>SignedOverflow\<close>,
  \<open>ShiftRange\<close> (a shift by the width or more) and \<open>IteratorRange\<close> (a container operation on its
  end iterator) are undefined behaviour or traps,
  \<open>AssertFailed\<close> is a failed \<open>assert\<close>; \<open>OutOfRange\<close>, \<open>LengthError\<close> and \<open>BadAlloc\<close> are exceptions of the standard library, and
  \<open>Diverge\<close> is a loop that used up its fuel.
\<close>

datatype fault =
    NullDeref
  | DanglingPtr
  | HeapOverflow
  | DivByZero
  | BadLength
  | SignedOverflow
  | ShiftRange
  | IteratorRange
  | AssertFailed
  | OutOfRange
  | LengthError
  | BadAlloc
  | LogicError string
  | Diverge

type_synonym 'a res = "fault + 'a"

definition bindE :: "'e + 'a \<Rightarrow> ('a \<Rightarrow> 'e + 'b) \<Rightarrow> 'e + 'b" where
  "bindE m f = (case m of Inl e \<Rightarrow> Inl e | Inr x \<Rightarrow> f x)"

lemma bindE_Inr [simp, err_simps]: "bindE (Inr x) f = f x"
  by (simp add: bindE_def)

lemma bindE_Inl [simp, err_simps]: "bindE (Inl e) f = Inl e"
  by (simp add: bindE_def)

lemma bindE_assoc: "bindE (bindE m f) g = bindE m (\<lambda>x. bindE (f x) g)"
  by (cases m) simp_all

lemma bindE_eq_Inr: "bindE m f = Inr y \<longleftrightarrow> (\<exists>x. m = Inr x \<and> f x = Inr y)"
  by (cases m) simp_all

lemma bindE_eq_Inl:
  "bindE m f = Inl e \<longleftrightarrow> m = Inl e \<or> (\<exists>x. m = Inr x \<and> f x = Inl e)"
  by (cases m) simp_all

lemma bindE_cong [fundef_cong]:
  "m = m' \<Longrightarrow> (\<And>x. m' = Inr x \<Longrightarrow> f x = g x) \<Longrightarrow> bindE m f = bindE m' g"
  by (cases m') simp_all

subsection \<open>size_t\<close>

text \<open>Subtraction on \<open>size_t\<close> (64 bits) wraps; additions in the code stay far below.\<close>

definition size_max :: nat where
  "size_max = 2 ^ 64"

definition sz_sub :: "nat \<Rightarrow> nat \<Rightarrow> nat" where
  "sz_sub a b = (if b \<le> a then a - b else size_max + a - b)"

lemma sz_sub_le [simp]: "b \<le> a \<Longrightarrow> sz_sub a b = a - b"
  by (simp add: sz_sub_def)

lemma size_max_pos [simp]: "0 < size_max"
  by (simp add: size_max_def)

subsection \<open>Conversion to int\<close>

text \<open>The 32-bit value of a wider integer, as \<open>static_cast<int>\<close> gives it.\<close>

definition to_int :: "int \<Rightarrow> int" where
  "to_int v = sint (word_of_int v :: 32 word)"

lemma to_int_id [simp]: "0 \<le> v \<Longrightarrow> v < 2 ^ 31 \<Longrightarrow> to_int v = v"
  by (simp add: to_int_def sint_sbintrunc' signed_take_bit_int_eq_self)

lemma to_int_negative: "2 ^ 31 \<le> v \<Longrightarrow> v < 2 ^ 32 \<Longrightarrow> to_int v < 0"
proof -
  assume v: "2 ^ 31 \<le> v" "v < 2 ^ 32"
  have "to_int v = (v + 2 ^ 31) mod 2 ^ 32 - 2 ^ 31" by (simp add: to_int_def int_word_sint)
  moreover have "(v + 2 ^ 31) mod 2 ^ 32 = v - 2 ^ 31" using v mod_add_self2 [of "v - 2 ^ 31" "2 ^ 32"] by (simp add: ac_simps)
  ultimately show ?thesis using v by simp
qed

subsection \<open>Lists read by index, and overwriting a slice\<close>

definition nth_opt :: "'a list \<Rightarrow> nat \<Rightarrow> 'a option" where
  "nth_opt xs i = (if i < length xs then Some (xs ! i) else None)"

lemma nth_opt_Some [simp]: "i < length xs \<Longrightarrow> nth_opt xs i = Some (xs ! i)"
  by (simp add: nth_opt_def)

lemma nth_opt_None [simp]: "length xs \<le> i \<Longrightarrow> nth_opt xs i = None"
  by (simp add: nth_opt_def)

lemma nth_opt_append1 [simp]: "i < length xs \<Longrightarrow> nth_opt (xs @ ys) i = Some (xs ! i)"
  by (simp add: nth_opt_def nth_append)

lemma option_eqI: "(\<And>w. x = Some w \<longleftrightarrow> y = Some w) \<Longrightarrow> x = y"
  by (cases x; cases y) auto

definition overwrite :: "'a list \<Rightarrow> nat \<Rightarrow> 'a list \<Rightarrow> 'a list" where
  "overwrite xs p ys = take p xs @ ys @ drop (p + length ys) xs"

lemma length_overwrite [simp, block_simps]:
  "p + length ys \<le> length xs \<Longrightarrow> length (overwrite xs p ys) = length xs"
  by (simp add: overwrite_def)

lemma overwrite_Nil [simp]: "overwrite xs p [] = xs"
  by (simp add: overwrite_def)

lemma take_overwrite_before [block_simps]:
  "n \<le> p \<Longrightarrow> p \<le> length xs \<Longrightarrow> take n (overwrite xs p ys) = take n xs"
  by (simp add: overwrite_def min_absorb1)

lemma take_overwrite_all [block_simps]:
  "p \<le> length xs \<Longrightarrow> take (p + length ys) (overwrite xs p ys) = take p xs @ ys"
  by (simp add: overwrite_def)

lemma overwrite_overwrite [block_simps]:
  "p + length ys + length zs \<le> length xs \<Longrightarrow>
   overwrite (overwrite xs p ys) (p + length ys) zs = overwrite xs p (ys @ zs)"
  by (simp add: overwrite_def min_absorb2 ac_simps)

lemma overwrite_append [block_simps]:
  "p + length ys \<le> length xs \<Longrightarrow> overwrite (xs @ zs) p ys = overwrite xs p ys @ zs"
  by (simp add: overwrite_def)

subsection \<open>Blocks of equal size\<close>

definition all_len :: "nat \<Rightarrow> 'a list list \<Rightarrow> bool" where
  "all_len B xss \<longleftrightarrow> (\<forall>xs \<in> set xss. length xs = B)"

lemma all_len_Nil [simp]: "all_len B []"
  by (simp add: all_len_def)

lemma all_len_Cons [simp]: "all_len B (xs # xss) \<longleftrightarrow> length xs = B \<and> all_len B xss"
  by (simp add: all_len_def)

lemma all_len_append [simp]: "all_len B (xss @ yss) \<longleftrightarrow> all_len B xss \<and> all_len B yss"
  by (auto simp: all_len_def)

lemma length_concat_blocks [block_simps]:
  "all_len B xss \<Longrightarrow> length (concat xss) = B * length xss"
  by (induction xss) simp_all

lemma take_drop_concat_blocks:
  "all_len B xss \<Longrightarrow> i < length xss \<Longrightarrow> d + n \<le> B \<Longrightarrow>
   take n (drop (i * B + d) (concat xss)) = take n (drop d (xss ! i))"
proof (induction xss arbitrary: i)
  case Nil
  then show ?case by simp
next
  case (Cons xs xss)
  then show ?case by (cases i) (simp_all add: add.assoc)
qed

lemma concat_update_block:
  "all_len B xss \<Longrightarrow> i < length xss \<Longrightarrow> d + length ys \<le> B \<Longrightarrow>
   concat (xss[i := overwrite (xss ! i) d ys]) = overwrite (concat xss) (i * B + d) ys"
proof (induction xss arbitrary: i)
  case Nil
  then show ?case by simp
next
  case (Cons xs xss)
  show ?case
  proof (cases i)
    case 0
    with Cons.prems show ?thesis by (simp add: overwrite_def)
  next
    case (Suc j)
    with Cons show ?thesis by (simp add: overwrite_def add.assoc)
  qed
qed

lemma map_update_distinct:
  "distinct ns \<Longrightarrow> i < length ns \<Longrightarrow>
   map (\<lambda>a. if a = ns ! i then y else f a) ns = (map f ns)[i := y]"
  by (rule nth_equalityI) (auto simp: nth_list_update nth_eq_iff_index_eq)

lemma div_block:
  assumes "0 < B" and "d < (B::nat)"
  shows "(i * B + d) div B = i" and "(i * B + d) mod B = d"
  using assms by simp_all

lemma take_drop_take_drop:
  "take m (drop p xs) @ take n (drop (p + m) xs) = take (m + n) (drop p xs)"
  by (simp add: take_add add.commute)

subsection \<open>Characters and decimal numerals\<close>

text \<open>\<open>std::string\<close> is a list of characters; \<open>c_str\<close> is what a C function sees of it.\<close>

definition NUL :: char where
  "NUL = CHR 0x00"

definition c_str :: "string \<Rightarrow> string" where
  "c_str s = takeWhile (\<lambda>c. c \<noteq> NUL) s"

definition digit :: "nat \<Rightarrow> char" where
  "digit d = char_of (48 + d)"

fun show_nat :: "nat \<Rightarrow> string" where
  "show_nat n = (if n < 10 then [digit n] else show_nat (n div 10) @ [digit (n mod 10)])"

declare show_nat.simps [simp del]

definition is_digit :: "char \<Rightarrow> bool" where
  "is_digit c \<longleftrightarrow> 48 \<le> (of_char c :: nat) \<and> (of_char c :: nat) \<le> 57"

definition read_nat :: "string \<Rightarrow> nat" where
  "read_nat s = foldl (\<lambda>n c. 10 * n + (of_char c - 48)) 0 s"

lemma of_char_digit: "d < 10 \<Longrightarrow> (of_char (digit d) :: nat) = 48 + d"
  unfolding digit_def by (simp add: of_char_of)

lemma is_digit_digit: "d < 10 \<Longrightarrow> is_digit (digit d)"
  by (simp add: is_digit_def of_char_digit)

lemma read_nat_snoc: "read_nat (s @ [c]) = 10 * read_nat s + (of_char c - 48)"
  by (simp add: read_nat_def)

lemma read_show_nat [simp]: "read_nat (show_nat n) = n"
proof (induction n rule: show_nat.induct)
  case (1 n)
  show ?case
  proof (cases "n < 10")
    case True
    then show ?thesis by (subst show_nat.simps) (simp add: read_nat_def of_char_digit)
  next
    case False
    then show ?thesis using 1 by (subst show_nat.simps) (simp add: read_nat_snoc of_char_digit)
  qed
qed

lemma show_nat_digits: "c \<in> set (show_nat n) \<Longrightarrow> is_digit c"
proof (induction n rule: show_nat.induct)
  case (1 n)
  then show ?case
    by (subst (asm) show_nat.simps) (auto simp: is_digit_digit split: if_splits)
qed

lemma show_nat_nonempty [simp]: "show_nat n \<noteq> []"
  by (subst show_nat.simps) simp

lemma show_nat_length: "n < 10 ^ k \<Longrightarrow> 0 < k \<Longrightarrow> length (show_nat n) \<le> k"
proof (induction k arbitrary: n)
  case 0
  then show ?case by simp
next
  case (Suc k)
  show ?case
  proof (cases "n < 10")
    case True
    then show ?thesis by (subst show_nat.simps) simp
  next
    case False
    with Suc.prems have "0 < k" by (cases k) simp_all
    moreover have "n div 10 < 10 ^ k" using Suc.prems by (simp add: less_mult_imp_div_less mult.commute)
    ultimately show ?thesis using Suc.IH False by (subst show_nat.simps) simp
  qed
qed

end
