(* ===== verification/Endian.thy ===== *)
theory Endian
  imports Prelude
begin

section \<open>Byte order (net/Endian.h)\<close>

text \<open>
  \<open>hostToNetwork\<close> and \<open>networkToHost\<close> of \<open>spike/net/Endian.h\<close> are \<open>htobe16/32/64\<close> and
  \<open>be16/32/64toh\<close>, chosen by the size of the integer. The host is taken to be
  little-endian (the build targets x86-64), so each of them reverses the bytes.
  \<open>mem_bytes\<close> is the object representation of an integer as \<open>memcpy\<close> sees it, lowest
  address first; \<open>of_mem_bytes\<close> reads it back.
\<close>

definition mem_bytes :: "'a::len word \<Rightarrow> byte list" where
  "mem_bytes w = map (\<lambda>i. ucast (drop_bit (8 * i) w)) [0..<LENGTH('a) div 8]"

fun of_mem_bytes :: "byte list \<Rightarrow> 'a::len word" where
  "of_mem_bytes [] = 0"
| "of_mem_bytes (b # bs) = ucast b OR push_bit 8 (of_mem_bytes bs)"

definition byteswap :: "'a::len word \<Rightarrow> 'a word" where
  "byteswap w = of_mem_bytes (rev (mem_bytes w))"

text \<open>The six templates: one per width and direction, all over the same byte swap.\<close>

definition hostToNetwork :: "'a::len word \<Rightarrow> 'a word" where
  "hostToNetwork host = byteswap host"

definition networkToHost :: "'a::len word \<Rightarrow> 'a word" where
  "networkToHost net = byteswap net"

subsection \<open>Round trips\<close>

lemma length_mem_bytes [simp]: "length (mem_bytes (w :: 'a::len word)) = LENGTH('a) div 8"
  by (simp add: mem_bytes_def)

lemma bit_of_mem_bytes:
  "bit (of_mem_bytes bs :: 'a::len word) n \<longleftrightarrow>
     n < LENGTH('a) \<and> n div 8 < length bs \<and> bit (bs ! (n div 8)) (n mod 8)"
proof (induction bs arbitrary: n)
  case Nil
  then show ?case by simp
next
  case (Cons b bs)
  show ?case
  proof (cases "n < 8")
    case True
    then show ?thesis
      by (auto simp: bit_or_iff bit_push_bit_iff bit_ucast_iff dest: bit_imp_le_length)
  next
    case False
    then obtain m where n: "n = 8 + m" using le_Suc_ex not_less by blast
    have "\<not> bit b n" using False by (auto dest: bit_imp_le_length)
    moreover have "(8 + m) div 8 = Suc (m div 8)" by simp
    ultimately show ?thesis
      by (auto simp: n bit_or_iff bit_push_bit_iff bit_ucast_iff Cons.IH dest: bit_imp_le_length)
  qed
qed

lemma nth_mem_bytes:
  "i < LENGTH('a) div 8 \<Longrightarrow> mem_bytes (w :: 'a::len word) ! i = ucast (drop_bit (8 * i) w)"
  by (simp add: mem_bytes_def)

lemma bit_byte_slice:
  "r < 8 \<Longrightarrow> bit (ucast (drop_bit q (w :: 'a::len word)) :: byte) r = bit w (q + r)"
  by (auto simp: bit_ucast_iff bit_drop_bit_eq dest: bit_imp_le_length)

lemma div8_less: "(L::nat) mod 8 = 0 \<Longrightarrow> n < L \<Longrightarrow> n div 8 < L div 8"
  by (rule less_mult_imp_div_less) (simp add: mod_0_imp_dvd)

lemma of_mem_bytes_mem_bytes:
  assumes "LENGTH('a) mod 8 = 0"
  shows "of_mem_bytes (mem_bytes (w :: 'a::len word)) = w"
proof (rule bit_word_eqI)
  fix n assume n: "n < LENGTH('a)"
  from assms n have d: "n div 8 < LENGTH('a) div 8" by (rule div8_less)
  have sum: "8 * (n div 8) + n mod 8 = n" by (rule mult_div_mod_eq)
  have "bit (of_mem_bytes (mem_bytes w) :: 'a word) n = bit (mem_bytes w ! (n div 8)) (n mod 8)"
    using n d by (simp only: bit_of_mem_bytes length_mem_bytes simp_thms)
  also have "\<dots> = bit w (8 * (n div 8) + n mod 8)"
    unfolding nth_mem_bytes [OF d] by (rule bit_byte_slice) simp
  finally show "bit (of_mem_bytes (mem_bytes w) :: 'a word) n = bit w n"
    by (simp only: sum)
qed

lemma mem_bytes_of_mem_bytes:
  assumes "8 * length bs = LENGTH('a)"
  shows "mem_bytes (of_mem_bytes bs :: 'a::len word) = bs"
proof (rule nth_equalityI)
  show "length (mem_bytes (of_mem_bytes bs :: 'a word)) = length bs"
    using assms by simp
next
  fix i assume "i < length (mem_bytes (of_mem_bytes bs :: 'a word))"
  then have i: "i < length bs" using assms by simp
  show "mem_bytes (of_mem_bytes bs :: 'a word) ! i = bs ! i"
  proof (rule bit_word_eqI)
    fix m assume m: "m < LENGTH(8)"
    then have "(8 * i + m) div 8 = i" "(8 * i + m) mod 8 = m" "8 * i + m < LENGTH('a)"
      and "i < LENGTH('a) div 8"
      using i assms by auto
    then show "bit (mem_bytes (of_mem_bytes bs :: 'a word) ! i) m = bit (bs ! i) m"
      using i m assms
      by (simp add: nth_mem_bytes bit_ucast_iff bit_drop_bit_eq bit_of_mem_bytes)
  qed
qed

lemma mem_bytes_byteswap:
  assumes "LENGTH('a) mod 8 = 0"
  shows "mem_bytes (byteswap (w :: 'a::len word)) = rev (mem_bytes w)"
  unfolding byteswap_def using assms by (intro mem_bytes_of_mem_bytes) auto

lemma byteswap_byteswap:
  assumes "LENGTH('a) mod 8 = 0"
  shows "byteswap (byteswap (w :: 'a::len word)) = w"
  by (simp add: byteswap_def [of "byteswap w"] mem_bytes_byteswap assms of_mem_bytes_mem_bytes)

lemma networkToHost_hostToNetwork:
  "LENGTH('a) mod 8 = 0 \<Longrightarrow> networkToHost (hostToNetwork (w :: 'a::len word)) = w"
  by (simp add: networkToHost_def hostToNetwork_def byteswap_byteswap)

text \<open>On the wire the most significant byte comes first.\<close>

lemma hd_hostToNetwork:
  fixes w :: "'a::len word"
  assumes "LENGTH('a) mod 8 = 0" and "8 \<le> LENGTH('a)"
  shows "hd (mem_bytes (hostToNetwork w)) = ucast (drop_bit (LENGTH('a) - 8) w)"
proof -
  have ne: "0 < LENGTH('a) div 8" using assms(2) by (simp add: div_greater_zero_iff)
  have "hd (rev (mem_bytes w)) = mem_bytes w ! (LENGTH('a) div 8 - 1)"
    using ne by (simp add: hd_rev last_conv_nth flip: length_0_conv)
  moreover have "8 * (LENGTH('a) div 8 - 1) = LENGTH('a) - 8"
    using assms(1) by (simp add: algebra_simps mod_0_imp_dvd)
  ultimately show ?thesis
    using ne assms by (simp add: hostToNetwork_def mem_bytes_byteswap nth_mem_bytes)
qed

text \<open>The byte swap commutes with the bitwise operations.\<close>

lemma bit_byteswap:
  fixes w :: "'a::len word"
  assumes L: "LENGTH('a) mod 8 = 0"
  shows "bit (byteswap w) n \<longleftrightarrow> n < LENGTH('a) \<and> bit w (8 * (LENGTH('a) div 8 - Suc (n div 8)) + n mod 8)"
proof (cases "n < LENGTH('a)")
  case True
  have d: "n div 8 < LENGTH('a) div 8" using L True by (rule div8_less)
  then have "bit (byteswap w) n = bit (rev (mem_bytes w) ! (n div 8)) (n mod 8)"
    using True by (simp only: byteswap_def bit_of_mem_bytes length_rev length_mem_bytes simp_thms)
  also have "\<dots> = bit (mem_bytes w ! (LENGTH('a) div 8 - Suc (n div 8))) (n mod 8)"
    using d by (simp only: rev_nth length_mem_bytes)
  also have "\<dots> = bit w (8 * (LENGTH('a) div 8 - Suc (n div 8)) + n mod 8)"
  proof -
    have "LENGTH('a) div 8 - Suc (n div 8) < LENGTH('a) div 8" using d by linarith
    then show ?thesis by (simp only: nth_mem_bytes) (rule bit_byte_slice, simp)
  qed
  finally show ?thesis using True by blast
next
  case False
  then show ?thesis by (auto dest: bit_imp_le_length)
qed

lemma byteswap_or:
  "LENGTH('a) mod 8 = 0 \<Longrightarrow> byteswap (v OR w :: 'a::len word) = byteswap v OR byteswap w"
  by (rule bit_word_eqI) (simp only: bit_byteswap bit_or_iff simp_thms conj_disj_distribL)

lemma byteswap_and:
  "LENGTH('a) mod 8 = 0 \<Longrightarrow> byteswap (v AND w :: 'a::len word) = byteswap v AND byteswap w"
  by (rule bit_word_eqI) (auto simp only: bit_byteswap bit_and_iff)

lemma byteswap_not:
  assumes "LENGTH('a) mod 8 = 0"
  shows "byteswap (NOT (w :: 'a::len word)) = NOT (byteswap w)"
proof (rule bit_word_eqI)
  fix n assume n: "n < LENGTH('a)"
  have "n div 8 < LENGTH('a) div 8" using assms n by (rule div8_less)
  then have "8 * (LENGTH('a) div 8 - Suc (n div 8)) + n mod 8 < 8 * (LENGTH('a) div 8)" by linarith
  moreover have "8 * (LENGTH('a) div 8) = LENGTH('a)" using assms by (simp add: mod_0_imp_dvd)
  ultimately have "8 * (LENGTH('a) div 8 - Suc (n div 8)) + n mod 8 < LENGTH('a)" by linarith
  with n show "bit (byteswap (NOT w)) n = bit (NOT (byteswap w)) n"
    by (simp only: bit_byteswap [OF assms] bit_not_iff possible_bit_word simp_thms)
qed

end
