(* ===== verification/ByteArray.thy ===== *)
theory ByteArray
  imports Endian
begin

section \<open>The block-linked byte buffer (net/ByteArray)\<close>

text \<open>
  \<open>ByteArray\<close> of \<open>spike/net/ByteArray.{h,cpp}\<close>: a byte stream kept in a singly linked list
  of blocks of \<open>m_baseSize\<close> bytes, with a write pointer and a read pointer, each a position
  counted from the start of the stream and a pointer to the block it lies in. The blocks
  live in an explicit store \<open>heap\<close>, because the code relinks them through aliases; a pointer
  is an optional address, and reading through \<open>None\<close> is the null dereference the code would
  commit. \<open>uninit a i\<close> is the unspecified byte that \<open>new char[]\<close> leaves at offset \<open>i\<close>
  of the block allocated at address \<open>a\<close>: every theorem holds for any choice of it.
\<close>

subsection \<open>State\<close>

type_synonym addr = nat

record node =
  n_ptr :: "byte list"
  n_next :: "addr option"
  n_size :: nat

record pointer =
  p_pos :: nat
  p_cur :: "addr option"

record byte_array =
  heap :: "addr \<rightharpoonup> node"
  fresh :: addr
  uninit :: "addr \<Rightarrow> nat \<Rightarrow> byte"
  m_baseSize :: nat
  m_writePos :: pointer
  m_readPos :: pointer
  m_capacity :: nat
  m_root :: addr

record iovec =
  iov_node :: addr
  iov_off :: nat
  iov_len :: nat

definition new_Node :: "(addr \<Rightarrow> nat \<Rightarrow> byte) \<Rightarrow> addr \<Rightarrow> nat \<Rightarrow> node" where
  "new_Node junk a s = \<lparr>n_ptr = map (junk a) [0..<s], n_next = None, n_size = s\<rparr>"

definition ba_create :: "(addr \<Rightarrow> nat \<Rightarrow> byte) \<Rightarrow> nat \<Rightarrow> byte_array" where
  "ba_create junk base_size =
     \<lparr>heap = [0 \<mapsto> new_Node junk 0 base_size], fresh = 1, uninit = junk,
      m_baseSize = base_size,
      m_writePos = \<lparr>p_pos = 0, p_cur = Some 0\<rparr>,
      m_readPos = \<lparr>p_pos = 0, p_cur = Some 0\<rparr>,
      m_capacity = base_size, m_root = 0\<rparr>"

definition deref :: "(addr \<rightharpoonup> node) \<Rightarrow> addr option \<Rightarrow> node res" where
  "deref h p = (case p of None \<Rightarrow> Inl NullDeref
     | Some a \<Rightarrow> (case h a of None \<Rightarrow> Inl DanglingPtr | Some n \<Rightarrow> Inr n))"

text \<open>\<open>pos % m_baseSize\<close>, which traps when the block size is 0.\<close>

definition offset_of :: "byte_array \<Rightarrow> nat \<Rightarrow> nat res" where
  "offset_of b p = (if m_baseSize b = 0 then Inl DivByZero else Inr (p mod m_baseSize b))"

text \<open>\<open>memcpy\<close> out of and into the block a pointer names; outside the block is a fault.\<close>

definition load :: "(addr \<rightharpoonup> node) \<Rightarrow> addr option \<Rightarrow> nat \<Rightarrow> nat \<Rightarrow> byte list res" where
  "load h p off len = bindE (deref h p) (\<lambda>n.
     if off + len \<le> length (n_ptr n) then Inr (take len (drop off (n_ptr n)))
     else Inl HeapOverflow)"

definition store :: "(addr \<rightharpoonup> node) \<Rightarrow> addr option \<Rightarrow> nat \<Rightarrow> byte list \<Rightarrow> (addr \<rightharpoonup> node) res" where
  "store h p off bs = bindE (deref h p) (\<lambda>n.
     if off + length bs \<le> length (n_ptr n)
     then Inr (h(the p \<mapsto> n\<lparr>n_ptr := overwrite (n_ptr n) off bs\<rparr>))
     else Inl HeapOverflow)"

definition getReadSize :: "byte_array \<Rightarrow> nat" where
  "getReadSize b = sz_sub (p_pos (m_writePos b)) (p_pos (m_readPos b))"

definition getSize :: "byte_array \<Rightarrow> nat" where
  "getSize b = p_pos (m_writePos b)"

definition getCapacity :: "byte_array \<Rightarrow> nat" where
  "getCapacity b = sz_sub (m_capacity b) (p_pos (m_writePos b))"

subsection \<open>Growing\<close>

text \<open>
  The loop of \<open>addCapacity\<close>: \<open>count\<close> times, allocate a block, hang it on \<open>tmp->next\<close>
  and move on. It starts from the block of the write pointer and overwrites whatever
  followed it. \<open>ceil(1.0 * size / m_baseSize)\<close> is the integer ceiling for every size
  below \<open>2^53\<close>, where the double is exact.
\<close>

definition ceil_div :: "nat \<Rightarrow> nat \<Rightarrow> nat" where
  "ceil_div x y = (x + y - 1) div y"

fun grow_loop :: "nat \<Rightarrow> byte_array \<Rightarrow> addr option \<Rightarrow> addr option \<Rightarrow> (byte_array \<times> addr option) res" where
  "grow_loop 0 b tmp first = Inr (b, first)"
| "grow_loop (Suc k) b tmp first = bindE (deref (heap b) tmp) (\<lambda>n.
     let a = fresh b;
         h = (heap b)(a \<mapsto> new_Node (uninit b) a (m_baseSize b), the tmp \<mapsto> n\<lparr>n_next := Some a\<rparr>);
         b' = b\<lparr>heap := h, fresh := Suc a, m_capacity := m_capacity b + m_baseSize b\<rparr>
     in grow_loop k b' (Some a) (if first = None then Some a else first))"

definition addCapacity :: "byte_array \<Rightarrow> nat \<Rightarrow> byte_array res" where
  "addCapacity b sz =
     (if sz = 0 then Inr b else
      let old_cap = getCapacity b in
      if sz \<le> old_cap then Inr b else
      if m_baseSize b = 0 then Inl DivByZero else
      let count = ceil_div (sz - old_cap) (m_baseSize b) in
      bindE (grow_loop count b (p_cur (m_writePos b)) None) (\<lambda>(b', first).
        if old_cap = 0 then Inr (b'\<lparr>m_writePos := (m_writePos b')\<lparr>p_cur := first\<rparr>\<rparr>)
        else Inr b'))"

subsection \<open>Writing and reading\<close>

text \<open>
  Every loop over the blocks runs on fuel. Each round but the last uses up at least one
  byte, because a block is never empty, so one more than the number of bytes is enough.
\<close>

fun write_loop :: "nat \<Rightarrow> byte_array \<Rightarrow> byte list \<Rightarrow> nat \<Rightarrow> nat \<Rightarrow> byte_array res" where
  "write_loop 0 b buf npos ncap = Inl Diverge"
| "write_loop (Suc fuel) b buf npos ncap =
     (if buf = [] then Inr b
      else if length buf \<le> ncap then
        bindE (store (heap b) (p_cur (m_writePos b)) npos buf) (\<lambda>h.
        bindE (deref h (p_cur (m_writePos b))) (\<lambda>n.
          let c = (if n_size n = npos + length buf then n_next n else p_cur (m_writePos b)) in
          write_loop fuel (b\<lparr>heap := h,
              m_writePos := \<lparr>p_pos = p_pos (m_writePos b) + length buf, p_cur = c\<rparr>\<rparr>) [] npos ncap))
      else
        bindE (store (heap b) (p_cur (m_writePos b)) npos (take ncap buf)) (\<lambda>h.
        bindE (deref h (p_cur (m_writePos b))) (\<lambda>n.
        bindE (deref h (n_next n)) (\<lambda>n'.
          write_loop fuel (b\<lparr>heap := h,
              m_writePos := \<lparr>p_pos = p_pos (m_writePos b) + ncap, p_cur = n_next n\<rparr>\<rparr>)
            (drop ncap buf) 0 (n_size n')))))"

definition ba_write :: "byte_array \<Rightarrow> byte list \<Rightarrow> byte_array res" where
  "ba_write b buf =
     (if buf = [] then Inr b else
      bindE (addCapacity b (length buf)) (\<lambda>b.
      bindE (offset_of b (p_pos (m_writePos b))) (\<lambda>npos.
      bindE (deref (heap b) (p_cur (m_writePos b))) (\<lambda>n.
        write_loop (Suc (length buf)) b buf npos (sz_sub (n_size n) npos)))))"

text \<open>The body shared by both reads: collect bytes from block \<open>c\<close> on, returning the last block.\<close>

fun read_loop :: "nat \<Rightarrow> (addr \<rightharpoonup> node) \<Rightarrow> pointer \<Rightarrow> nat \<Rightarrow> nat \<Rightarrow> nat \<Rightarrow> byte list \<Rightarrow> (byte list \<times> pointer) res" where
  "read_loop 0 h r sz npos ncap acc = Inl Diverge"
| "read_loop (Suc fuel) h r sz npos ncap acc =
     (if sz = 0 then Inr (acc, r)
      else if sz \<le> ncap then
        bindE (load h (p_cur r) npos sz) (\<lambda>bs.
        bindE (deref h (p_cur r)) (\<lambda>n.
          let c = (if n_size n = npos + sz then n_next n else p_cur r) in
          read_loop fuel h \<lparr>p_pos = p_pos r + sz, p_cur = c\<rparr> 0 npos ncap (acc @ bs)))
      else
        bindE (load h (p_cur r) npos ncap) (\<lambda>bs.
        bindE (deref h (p_cur r)) (\<lambda>n.
        bindE (deref h (n_next n)) (\<lambda>n'.
          read_loop fuel h \<lparr>p_pos = p_pos r + ncap, p_cur = n_next n\<rparr>
            (sz - ncap) 0 (n_size n') (acc @ bs)))))"

definition ba_read :: "byte_array \<Rightarrow> nat \<Rightarrow> (byte list \<times> byte_array) res" where
  "ba_read b sz =
     (if sz > getReadSize b then Inl OutOfRange else
      bindE (offset_of b (p_pos (m_readPos b))) (\<lambda>npos.
      bindE (deref (heap b) (p_cur (m_readPos b))) (\<lambda>n.
      bindE (read_loop (Suc sz) (heap b) (m_readPos b) sz npos (sz_sub (n_size n) npos) []) (\<lambda>(bs, r).
        Inr (bs, b\<lparr>m_readPos := r\<rparr>)))))"

text \<open>
  The positioned read starts in the block of the read pointer, whatever \<open>position\<close> is.
\<close>

definition ba_read_at :: "byte_array \<Rightarrow> nat \<Rightarrow> nat \<Rightarrow> byte list res" where
  "ba_read_at b sz position =
     (if sz > sz_sub (p_pos (m_writePos b)) position then Inl OutOfRange else
      bindE (offset_of b position) (\<lambda>npos.
      bindE (deref (heap b) (p_cur (m_readPos b))) (\<lambda>n.
      bindE (read_loop (Suc sz) (heap b) \<lparr>p_pos = position, p_cur = p_cur (m_readPos b)\<rparr>
               sz npos (sz_sub (n_size n) npos) []) (\<lambda>(bs, r). Inr bs))))"

definition ba_toString :: "byte_array \<Rightarrow> byte list res" where
  "ba_toString b =
     (if getReadSize b = 0 then Inr []
      else ba_read_at b (getReadSize b) (p_pos (m_readPos b)))"

text \<open>\<open>toHexString\<close>: two lower-case digits and a blank for each byte, a new line every 32.\<close>

definition hex_digit :: "nat \<Rightarrow> char" where
  "hex_digit d = (if d < 10 then char_of (48 + d) else char_of (87 + d))"

fun hex_loop :: "nat \<Rightarrow> byte list \<Rightarrow> string" where
  "hex_loop i [] = []"
| "hex_loop i (c # cs) =
     (if i > 0 \<and> i mod 32 = 0 then [CHR 0x0A] else []) @
     [hex_digit (unat c div 16), hex_digit (unat c mod 16), CHR '' ''] @ hex_loop (i + 1) cs"

definition ba_toHexString :: "byte_array \<Rightarrow> string res" where
  "ba_toHexString b = bindE (ba_toString b) (\<lambda>str. Inr (hex_loop 0 str))"

subsection \<open>Clearing and destruction\<close>

fun free_loop :: "nat \<Rightarrow> (addr \<rightharpoonup> node) \<Rightarrow> addr option \<Rightarrow> (addr \<rightharpoonup> node) res" where
  "free_loop 0 h tmp = Inl Diverge"
| "free_loop (Suc fuel) h tmp =
     (case tmp of None \<Rightarrow> Inr h
      | Some a \<Rightarrow> bindE (deref h tmp) (\<lambda>n. free_loop fuel (h(a := None)) (n_next n)))"

text \<open>A list holds at most \<open>fresh b\<close> blocks, so \<open>fresh b + 1\<close> rounds are enough.\<close>

definition ba_clear :: "byte_array \<Rightarrow> byte_array res" where
  "ba_clear b =
     bindE (deref (heap b) (Some (m_root b))) (\<lambda>r.
     bindE (free_loop (Suc (fresh b)) (heap b) (n_next r)) (\<lambda>h.
     bindE (deref h (Some (m_root b))) (\<lambda>r'.
       Inr (b\<lparr>heap := h(m_root b \<mapsto> r'\<lparr>n_next := None\<rparr>),
              m_capacity := m_baseSize b,
              m_writePos := \<lparr>p_pos = 0, p_cur = Some (m_root b)\<rparr>,
              m_readPos := \<lparr>p_pos = 0, p_cur = Some (m_root b)\<rparr>\<rparr>))))"

definition ba_destroy :: "byte_array \<Rightarrow> (addr \<rightharpoonup> node) res" where
  "ba_destroy b = free_loop (Suc (fresh b)) (heap b) (Some (m_root b))"

subsection \<open>Scatter-gather access\<close>

fun iov_loop :: "nat \<Rightarrow> (addr \<rightharpoonup> node) \<Rightarrow> addr option \<Rightarrow> nat \<Rightarrow> nat \<Rightarrow> nat \<Rightarrow> iovec list \<Rightarrow> iovec list res" where
  "iov_loop 0 h c len npos ncap buffers = Inl Diverge"
| "iov_loop (Suc fuel) h c len npos ncap buffers =
     (if len = 0 then Inr buffers
      else if len \<le> ncap then
        bindE (deref h c) (\<lambda>n.
          iov_loop fuel h c 0 npos ncap
            (buffers @ [\<lparr>iov_node = the c, iov_off = npos, iov_len = len\<rparr>]))
      else
        bindE (deref h c) (\<lambda>n.
        bindE (deref h (n_next n)) (\<lambda>n'.
          iov_loop fuel h (n_next n) (len - ncap) 0 (n_size n')
            (buffers @ [\<lparr>iov_node = the c, iov_off = npos, iov_len = ncap\<rparr>]))))"

definition getReadBuffers :: "byte_array \<Rightarrow> nat \<Rightarrow> (nat \<times> iovec list) res" where
  "getReadBuffers b len =
     (let len = (if len > getReadSize b then getReadSize b else len) in
      if len = 0 then Inr (0, []) else
      bindE (offset_of b (p_pos (m_readPos b))) (\<lambda>npos.
      bindE (deref (heap b) (p_cur (m_readPos b))) (\<lambda>n.
      bindE (iov_loop (Suc len) (heap b) (p_cur (m_readPos b)) len npos (sz_sub (n_size n) npos) [])
        (\<lambda>iovs. Inr (len, iovs)))))"

fun walk :: "nat \<Rightarrow> (addr \<rightharpoonup> node) \<Rightarrow> addr option \<Rightarrow> addr option res" where
  "walk 0 h c = Inr c"
| "walk (Suc count) h c = bindE (deref h c) (\<lambda>n. walk count h (n_next n))"

definition getReadBuffers_at :: "byte_array \<Rightarrow> nat \<Rightarrow> nat \<Rightarrow> (nat \<times> iovec list) res" where
  "getReadBuffers_at b len position =
     (let len = (if len > getReadSize b then getReadSize b else len) in
      if len = 0 then Inr (0, []) else
      bindE (offset_of b position) (\<lambda>npos.
      bindE (walk (position div m_baseSize b) (heap b) (Some (m_root b))) (\<lambda>c.
      bindE (deref (heap b) c) (\<lambda>n.
      bindE (iov_loop (Suc len) (heap b) c len npos (sz_sub (n_size n) npos) [])
        (\<lambda>iovs. Inr (len, iovs))))))"

definition getWriteBuffers :: "byte_array \<Rightarrow> nat \<Rightarrow> (byte_array \<times> nat \<times> iovec list) res" where
  "getWriteBuffers b len =
     (if len = 0 then Inr (b, 0, []) else
      bindE (addCapacity b len) (\<lambda>b.
      bindE (offset_of b (p_pos (m_writePos b))) (\<lambda>npos.
      bindE (deref (heap b) (p_cur (m_writePos b))) (\<lambda>n.
      bindE (iov_loop (Suc len) (heap b) (p_cur (m_writePos b)) len npos (sz_sub (n_size n) npos) [])
        (\<lambda>iovs. Inr (b, len, iovs))))))"

fun advance_loop :: "nat \<Rightarrow> (addr \<rightharpoonup> node) \<Rightarrow> pointer \<Rightarrow> nat \<Rightarrow> nat \<Rightarrow> nat \<Rightarrow> pointer res" where
  "advance_loop 0 h p len npos ncap = Inl Diverge"
| "advance_loop (Suc fuel) h p len npos ncap =
     (if len = 0 then Inr p
      else if len \<le> ncap then
        bindE (deref h (p_cur p)) (\<lambda>n.
          let c = (if n_size n = npos + len then n_next n else p_cur p) in
          advance_loop fuel h \<lparr>p_pos = p_pos p + len, p_cur = c\<rparr> 0 npos ncap)
      else
        bindE (deref h (p_cur p)) (\<lambda>n.
        bindE (deref h (n_next n)) (\<lambda>n'.
          advance_loop fuel h \<lparr>p_pos = p_pos p + ncap, p_cur = n_next n\<rparr>
            (len - ncap) 0 (n_size n'))))"

definition addWritePosition :: "byte_array \<Rightarrow> int \<Rightarrow> byte_array res" where
  "addWritePosition b len =
     bindE (offset_of b (p_pos (m_writePos b))) (\<lambda>npos.
     bindE (deref (heap b) (p_cur (m_writePos b))) (\<lambda>n.
     bindE (advance_loop (Suc (nat len)) (heap b) (m_writePos b) (nat len) npos (sz_sub (n_size n) npos))
       (\<lambda>w. Inr (b\<lparr>m_writePos := w\<rparr>))))"

definition addReadPosition :: "byte_array \<Rightarrow> int \<Rightarrow> byte_array res" where
  "addReadPosition b len =
     bindE (offset_of b (p_pos (m_readPos b))) (\<lambda>npos.
     bindE (deref (heap b) (p_cur (m_readPos b))) (\<lambda>n.
     bindE (advance_loop (Suc (nat len)) (heap b) (m_readPos b) (nat len) npos (sz_sub (n_size n) npos))
       (\<lambda>r. Inr (b\<lparr>m_readPos := r\<rparr>))))"

text \<open>
  What \<open>sendmsg\<close> and \<open>recvmsg\<close> do with the vectors: gather the bytes they name, or fill
  them front to back with the bytes that arrived.
\<close>

fun gather :: "(addr \<rightharpoonup> node) \<Rightarrow> iovec list \<Rightarrow> byte list res" where
  "gather h [] = Inr []"
| "gather h (v # vs) = bindE (load h (Some (iov_node v)) (iov_off v) (iov_len v)) (\<lambda>bs.
     bindE (gather h vs) (\<lambda>rest. Inr (bs @ rest)))"

fun scatter :: "(addr \<rightharpoonup> node) \<Rightarrow> iovec list \<Rightarrow> byte list \<Rightarrow> (addr \<rightharpoonup> node) res" where
  "scatter h [] bs = Inr h"
| "scatter h (v # vs) bs = bindE (store h (Some (iov_node v)) (iov_off v) (take (iov_len v) bs)) (\<lambda>h.
     scatter h vs (drop (iov_len v) bs))"

subsection \<open>Files\<close>

text \<open>
  \<open>toFile\<close> and \<open>fromFile\<close>. Whether the file opens is the argument \<open>opened\<close>; the bytes
  that reach the file, or that the file holds, are a list. \<open>ostream::write\<close> with a
  negative count is outside its contract and modelled as the fault \<open>BadLength\<close>.
\<close>

fun toFile_loop :: "nat \<Rightarrow> byte_array \<Rightarrow> int \<Rightarrow> int \<Rightarrow> addr option \<Rightarrow> byte list \<Rightarrow> byte list res" where
  "toFile_loop 0 b read_size pos c out = Inl Diverge"
| "toFile_loop (Suc fuel) b read_size pos c out =
     (if read_size \<le> 0 then Inr out
      else bindE (offset_of b (nat pos)) (\<lambda>diff.
        let len = (if read_size > int (m_baseSize b) then int (m_baseSize b) else read_size) - int diff in
        bindE (deref (heap b) c) (\<lambda>n.
        if len < 0 then Inl BadLength
        else bindE (load (heap b) c diff (nat len)) (\<lambda>bs.
          toFile_loop fuel b (read_size - len) (pos + len) (n_next n) (out @ bs)))))"

definition ba_toFile :: "bool \<Rightarrow> byte_array \<Rightarrow> (bool \<times> byte list) res" where
  "ba_toFile opened b =
     (if \<not> opened then Inr (False, []) else
      bindE (toFile_loop (getReadSize b + fresh b + 2) b (int (getReadSize b))
               (int (p_pos (m_readPos b))) (p_cur (m_readPos b)) [])
        (\<lambda>out. Inr (True, out)))"

fun fromFile_loop :: "nat \<Rightarrow> byte_array \<Rightarrow> byte list \<Rightarrow> byte_array res" where
  "fromFile_loop 0 b file = Inl Diverge"
| "fromFile_loop (Suc fuel) b file =
     bindE (ba_write b (take (m_baseSize b) file)) (\<lambda>b'.
       if length file < m_baseSize b then Inr b'
       else fromFile_loop fuel b' (drop (m_baseSize b) file))"

definition ba_fromFile :: "bool \<Rightarrow> byte_array \<Rightarrow> byte list \<Rightarrow> (bool \<times> byte_array) res" where
  "ba_fromFile opened b file =
     (if \<not> opened then Inr (False, b) else
      bindE (fromFile_loop (Suc (length file)) b file) (\<lambda>b'. Inr (True, b')))"

end
