(* ===== verification/ByteArray_Props.thy ===== *)
theory ByteArray_Props
  imports ByteArray
begin

section \<open>Correctness of the byte buffer\<close>

text \<open>
  The layout invariant of the block list (\<open>ba_inv\<close>), its abstraction to the stream of
  bytes written so far and the number of them consumed (\<open>ba_repr\<close>), and the behaviour of
  every operation of \<open>ByteArray\<close> over that abstraction.
\<close>

subsection \<open>Chains of blocks\<close>

definition chain :: "(addr \<rightharpoonup> node) \<Rightarrow> nat \<Rightarrow> addr list \<Rightarrow> bool" where
  "chain h B ns \<longleftrightarrow> distinct ns \<and>
     (\<forall>i < length ns. \<exists>n. h (ns ! i) = Some n \<and> n_next n = nth_opt ns (Suc i) \<and>
        n_size n = B \<and> length (n_ptr n) = B)"

definition block :: "(addr \<rightharpoonup> node) \<Rightarrow> addr \<Rightarrow> byte list" where
  "block h a = n_ptr (the (h a))"

definition contents :: "(addr \<rightharpoonup> node) \<Rightarrow> addr list \<Rightarrow> byte list" where
  "contents h ns = concat (map (block h) ns)"

lemma chain_distinct: "chain h B ns \<Longrightarrow> distinct ns"
  by (simp add: chain_def)

lemma chain_node:
  assumes "chain h B ns" and "i < length ns"
  obtains n where "h (ns ! i) = Some n" and "n_next n = nth_opt ns (Suc i)"
    and "n_size n = B" and "length (n_ptr n) = B" and "block h (ns ! i) = n_ptr n"
  using assms unfolding chain_def block_def by (metis option.sel)

lemma length_block: "chain h B ns \<Longrightarrow> i < length ns \<Longrightarrow> length (block h (ns ! i)) = B"
  by (erule (1) chain_node) simp

lemma chain_all_len: "chain h B ns \<Longrightarrow> all_len B (map (block h) ns)"
  by (auto simp: all_len_def in_set_conv_nth length_block)

lemma length_contents: "chain h B ns \<Longrightarrow> length (contents h ns) = B * length ns"
  using length_concat_blocks [OF chain_all_len] by (simp add: contents_def)

lemma deref_chain:
  assumes "chain h B ns" and "i < length ns"
  obtains n where "deref h (Some (ns ! i)) = Inr n" and "n_next n = nth_opt ns (Suc i)"
    and "n_size n = B"
  using chain_node [OF assms] by (metis deref_def option.simps(5))

lemma load_chain:
  assumes "chain h B ns" and "i < length ns" and "d + n \<le> B"
  shows "load h (Some (ns ! i)) d n = Inr (take n (drop (i * B + d) (contents h ns)))"
proof -
  obtain nd where nd: "h (ns ! i) = Some nd" "length (n_ptr nd) = B" "block h (ns ! i) = n_ptr nd"
    using chain_node [OF assms(1,2)] by metis
  have "take n (drop (i * B + d) (contents h ns)) = take n (drop d (n_ptr nd))"
    unfolding contents_def
    using take_drop_concat_blocks [OF chain_all_len [OF assms(1)], of i d n] assms nd by simp
  then show ?thesis using assms nd by (simp add: load_def deref_def)
qed

lemma store_chain:
  assumes "chain h B ns" and "i < length ns" and "d + length bs \<le> B"
  obtains h' where "store h (Some (ns ! i)) d bs = Inr h'" and "chain h' B ns"
    and "contents h' ns = overwrite (contents h ns) (i * B + d) bs"
    and "\<And>a. a \<notin> set ns \<Longrightarrow> h' a = h a"
proof -
  obtain n where n: "h (ns ! i) = Some n" "n_next n = nth_opt ns (Suc i)" "n_size n = B"
      "length (n_ptr n) = B" "block h (ns ! i) = n_ptr n"
    using chain_node [OF assms(1,2)] by metis
  let ?n = "n\<lparr>n_ptr := overwrite (n_ptr n) d bs\<rparr>"
  let ?h = "h(ns ! i \<mapsto> ?n)"
  have st: "store h (Some (ns ! i)) d bs = Inr ?h"
    using n assms by (simp add: store_def deref_def)
  have ch: "chain ?h B ns"
    unfolding chain_def
  proof (intro conjI allI impI)
    show "distinct ns" using assms(1) by (rule chain_distinct)
    fix j assume j: "j < length ns"
    show "\<exists>m. ?h (ns ! j) = Some m \<and> n_next m = nth_opt ns (Suc j) \<and> n_size m = B \<and>
        length (n_ptr m) = B"
    proof (cases "j = i")
      case True
      then show ?thesis using n assms by simp
    next
      case False
      then have "ns ! j \<noteq> ns ! i"
        using j assms chain_distinct by (simp add: nth_eq_iff_index_eq)
      then show ?thesis using assms(1) j by (simp add: chain_def)
    qed
  qed
  have bl: "block ?h = (\<lambda>a. if a = ns ! i then overwrite (block h (ns ! i)) d bs else block h a)"
    using n by (auto simp: block_def fun_eq_iff)
  have "map (block ?h) ns = (map (block h) ns)[i := overwrite (map (block h) ns ! i) d bs]"
    unfolding bl using map_update_distinct [OF chain_distinct [OF assms(1)] assms(2)] assms(2)
    by simp
  then have "contents ?h ns = overwrite (contents h ns) (i * B + d) bs"
    unfolding contents_def
    using concat_update_block [OF chain_all_len [OF assms(1)], of i d bs] assms by simp
  moreover have "\<And>a. a \<notin> set ns \<Longrightarrow> ?h a = h a" using assms(2) by auto
  ultimately show thesis using that st ch by blast
qed

subsection \<open>Positions inside a chain\<close>

definition ptr_at :: "addr list \<Rightarrow> nat \<Rightarrow> nat \<Rightarrow> addr option" where
  "ptr_at ns B p = nth_opt ns (p div B)"

lemma ptr_at_block: "d < B \<Longrightarrow> i < length ns \<Longrightarrow> ptr_at ns B (i * B + d) = Some (ns ! i)"
  by (simp add: ptr_at_def)

lemma ptr_at_end: "0 < B \<Longrightarrow> ptr_at ns B (B * length ns) = None"
  by (simp add: ptr_at_def)

lemma ptr_at_step:
  "0 < B \<Longrightarrow> d < B \<Longrightarrow> i < length ns \<Longrightarrow> d + n \<le> B \<Longrightarrow>
   ptr_at ns B (i * B + d + n) = (if B = d + n then nth_opt ns (Suc i) else Some (ns ! i))"
proof (cases "B = d + n")
  case True
  assume "0 < B"
  moreover have "i * B + d + n = Suc i * B" using True by simp
  ultimately show ?thesis using True by (simp add: ptr_at_def del: mult_Suc)
next
  case False
  assume "0 < B" "i < length ns" "d + n \<le> B"
  then show ?thesis using False ptr_at_block [of "d + n" B i ns] by (simp add: add.assoc)
qed

lemma more_blocks:
  assumes "i * B + d + n \<le> B * L" and "B < d + (n::nat)"
  shows "Suc i < L"
proof -
  have "B * Suc i < B * L" using assms by (simp add: mult.commute)
  then show ?thesis by (simp only: mult_less_cancel1)
qed

lemma in_blocks: "i * B + d < B * (L::nat) \<Longrightarrow> i < L"
  by (metis add_lessD1 mult.commute mult_less_cancel1)

subsection \<open>The loops over the blocks\<close>

lemma write_loop_chain:
  assumes "chain (heap b) B ns" and "0 < B" and "length buf < fuel"
    and "d < B" and "i < length ns" and "i * B + d + length buf \<le> B * length ns"
    and "m_writePos b = \<lparr>p_pos = i * B + d, p_cur = Some (ns ! i)\<rparr>"
  shows "\<exists>h'. write_loop fuel b buf d (B - d) =
           Inr (b\<lparr>heap := h', m_writePos := \<lparr>p_pos = i * B + d + length buf,
                  p_cur = ptr_at ns B (i * B + d + length buf)\<rparr>\<rparr>) \<and>
         chain h' B ns \<and> contents h' ns = overwrite (contents (heap b) ns) (i * B + d) buf \<and>
         (\<forall>a. a \<notin> set ns \<longrightarrow> h' a = heap b a)"
  using assms
proof (induction fuel arbitrary: b buf d i)
  case 0
  then show ?case by simp
next
  case (Suc fuel)
  note ch = Suc.prems(1) and B = Suc.prems(2) and d = Suc.prems(4) and i = Suc.prems(5)
    and w = Suc.prems(7)
  consider (nil) "buf = []" | (fits) "buf \<noteq> []" "length buf \<le> B - d" | (spills) "B - d < length buf"
    by (cases "buf = []"; cases "length buf \<le> B - d") auto
  then show ?case
  proof cases
    case nil
    have "b = b\<lparr>heap := heap b, m_writePos := \<lparr>p_pos = i * B + d, p_cur = Some (ns ! i)\<rparr>\<rparr>"
      using w by (metis byte_array.surjective byte_array.update_convs(1,5))
    then show ?thesis using nil ch d i by (intro exI [of _ "heap b"]) (simp add: ptr_at_block)
  next
    case fits
    then have le: "d + length buf \<le> B" using d by simp
    obtain h' where st: "store (heap b) (Some (ns ! i)) d buf = Inr h'" and ch': "chain h' B ns"
      and co: "contents h' ns = overwrite (contents (heap b) ns) (i * B + d) buf"
      and fr: "\<And>a. a \<notin> set ns \<Longrightarrow> h' a = heap b a"
      using store_chain [OF ch i le] by blast
    obtain n where de: "deref h' (Some (ns ! i)) = Inr n" and nx: "n_next n = nth_opt ns (Suc i)"
      and sz: "n_size n = B"
      using deref_chain [OF ch' i] by blast
    obtain f where "fuel = Suc f" using Suc.prems(3) fits by (cases fuel) auto
    then show ?thesis
      using fits st ch' co fr de nx sz w ptr_at_step [OF B d i le] by (auto simp: Let_def)
  next
    case spills
    let ?m = "B - d"
    have le: "d + length (take ?m buf) \<le> B" and len: "length (take ?m buf) = ?m"
      using spills d by simp_all
    have si: "Suc i < length ns" using Suc.prems(6) spills d by (intro more_blocks [of i B d]) auto
    obtain h' where st: "store (heap b) (Some (ns ! i)) d (take ?m buf) = Inr h'"
      and ch': "chain h' B ns"
      and co: "contents h' ns = overwrite (contents (heap b) ns) (i * B + d) (take ?m buf)"
      and fr: "\<And>a. a \<notin> set ns \<Longrightarrow> h' a = heap b a"
      using store_chain [OF ch i le] by blast
    obtain n where de: "deref h' (Some (ns ! i)) = Inr n" and nx: "n_next n = Some (ns ! Suc i)"
      using deref_chain [OF ch' i] si by (metis nth_opt_Some)
    obtain n' where de': "deref h' (Some (ns ! Suc i)) = Inr n'" and sz': "n_size n' = B"
      using deref_chain [OF ch' si] by blast
    let ?b = "b\<lparr>heap := h', m_writePos := \<lparr>p_pos = Suc i * B + 0, p_cur = Some (ns ! Suc i)\<rparr>\<rparr>"
    have pos: "i * B + d + ?m = Suc i * B" using d by simp
    have rest: "length (drop ?m buf) = length buf - ?m" by simp
    have tot: "Suc i * B + length (drop ?m buf) = i * B + d + length buf"
      using spills d by simp
    have step: "write_loop (Suc fuel) b buf d ?m = write_loop fuel ?b (drop ?m buf) 0 (B - 0)"
      using spills st de nx de' sz' w d by (auto simp: add.commute)
    have "\<exists>h''. write_loop fuel ?b (drop ?m buf) 0 (B - 0) =
           Inr (?b\<lparr>heap := h'', m_writePos := \<lparr>p_pos = Suc i * B + 0 + length (drop ?m buf),
                  p_cur = ptr_at ns B (Suc i * B + 0 + length (drop ?m buf))\<rparr>\<rparr>) \<and>
         chain h'' B ns \<and>
         contents h'' ns = overwrite (contents (heap ?b) ns) (Suc i * B + 0) (drop ?m buf) \<and>
         (\<forall>a. a \<notin> set ns \<longrightarrow> h'' a = heap ?b a)"
      using Suc.prems spills d si B ch' tot by (intro Suc.IH) auto
    then obtain h'' where eq: "write_loop fuel ?b (drop ?m buf) 0 (B - 0) =
           Inr (b\<lparr>heap := h'', m_writePos := \<lparr>p_pos = i * B + d + length buf,
                  p_cur = ptr_at ns B (i * B + d + length buf)\<rparr>\<rparr>)"
      and ch'': "chain h'' B ns"
      and co'': "contents h'' ns = overwrite (contents h' ns) (Suc i * B) (drop ?m buf)"
      and fr'': "\<And>a. a \<notin> set ns \<Longrightarrow> h'' a = h' a"
      using tot by (auto simp: ac_simps)
    have "contents h'' ns = overwrite (contents (heap b) ns) (i * B + d) buf"
      using overwrite_overwrite [of "i * B + d" "take ?m buf" "drop ?m buf" "contents (heap b) ns"]
        length_contents [OF ch] Suc.prems(6) spills d pos
      by (simp add: co'' co len)
    then show ?thesis unfolding step eq using ch'' fr'' fr by auto
  qed
qed

lemma read_loop_chain:
  assumes "chain h B ns" and "0 < B" and "sz < fuel" and "d < B" and "i < length ns"
    and "i * B + d + sz \<le> B * length ns" and "r = \<lparr>p_pos = q, p_cur = Some (ns ! i)\<rparr>"
  shows "read_loop fuel h r sz d (B - d) acc =
           Inr (acc @ take sz (drop (i * B + d) (contents h ns)),
                \<lparr>p_pos = q + sz, p_cur = ptr_at ns B (i * B + d + sz)\<rparr>)"
  using assms
proof (induction fuel arbitrary: r sz d i q acc)
  case 0
  then show ?case by simp
next
  case (Suc fuel)
  note ch = Suc.prems(1) and B = Suc.prems(2) and d = Suc.prems(4) and i = Suc.prems(5)
    and r = Suc.prems(7)
  obtain n where de: "deref h (Some (ns ! i)) = Inr n" and nx: "n_next n = nth_opt ns (Suc i)"
    and sn: "n_size n = B"
    using deref_chain [OF ch i] by blast
  consider (nil) "sz = 0" | (fits) "0 < sz" "sz \<le> B - d" | (spills) "B - d < sz" by linarith
  then show ?case
  proof cases
    case nil
    then show ?thesis using r d i by (simp add: ptr_at_block)
  next
    case fits
    then have le: "d + sz \<le> B" using d by simp
    obtain f where "fuel = Suc f" using Suc.prems(3) fits by (cases fuel) auto
    then show ?thesis
      using fits load_chain [OF ch i le] de nx sn r ptr_at_step [OF B d i le] by (auto simp: Let_def)
  next
    case spills
    let ?m = "B - d"
    have le: "d + ?m \<le> B" using d by simp
    have si: "Suc i < length ns" using Suc.prems(6) spills d by (intro more_blocks [of i B d]) auto
    obtain n' where de': "deref h (Some (ns ! Suc i)) = Inr n'" and sz': "n_size n' = B"
      using deref_chain [OF ch si] by blast
    let ?acc = "acc @ take ?m (drop (i * B + d) (contents h ns))"
    let ?r = "\<lparr>p_pos = q + ?m, p_cur = Some (ns ! Suc i)\<rparr>"
    have step: "read_loop (Suc fuel) h r sz d ?m acc = read_loop fuel h ?r (sz - ?m) 0 (B - 0) ?acc"
      using spills load_chain [OF ch i le] de nx de' sz' r d si by auto
    have tot: "Suc i * B + 0 + (sz - ?m) = i * B + d + sz" "q + ?m + (sz - ?m) = q + sz"
        "Suc i * B + 0 = i * B + d + ?m" "?m + (sz - ?m) = sz"
        "i * B + d + ?m + (sz - ?m) = i * B + d + sz"
      using spills d by auto
    have "read_loop fuel h ?r (sz - ?m) 0 (B - 0) ?acc =
        Inr (?acc @ take (sz - ?m) (drop (Suc i * B + 0) (contents h ns)),
             \<lparr>p_pos = q + ?m + (sz - ?m), p_cur = ptr_at ns B (Suc i * B + 0 + (sz - ?m))\<rparr>)"
      using Suc.prems spills d si B ch tot(1) by (intro Suc.IH) auto
    also have "\<dots> = Inr (acc @ take (?m + (sz - ?m)) (drop (i * B + d) (contents h ns)),
             \<lparr>p_pos = q + sz, p_cur = ptr_at ns B (i * B + d + sz)\<rparr>)"
      by (simp only: tot(2,3,5) take_drop_take_drop append_assoc)
    finally show ?thesis unfolding step tot(4) .
  qed
qed

lemma advance_loop_chain:
  assumes "chain h B ns" and "0 < B" and "len < fuel" and "d < B" and "i < length ns"
    and "i * B + d + len \<le> B * length ns" and "p = \<lparr>p_pos = q, p_cur = Some (ns ! i)\<rparr>"
  shows "advance_loop fuel h p len d (B - d) =
           Inr \<lparr>p_pos = q + len, p_cur = ptr_at ns B (i * B + d + len)\<rparr>"
  using assms
proof (induction fuel arbitrary: p len d i q)
  case 0
  then show ?case by simp
next
  case (Suc fuel)
  note ch = Suc.prems(1) and B = Suc.prems(2) and d = Suc.prems(4) and i = Suc.prems(5)
    and p = Suc.prems(7)
  obtain n where de: "deref h (Some (ns ! i)) = Inr n" and nx: "n_next n = nth_opt ns (Suc i)"
    and sn: "n_size n = B"
    using deref_chain [OF ch i] by blast
  consider (nil) "len = 0" | (fits) "0 < len" "len \<le> B - d" | (spills) "B - d < len" by linarith
  then show ?case
  proof cases
    case nil
    then show ?thesis using p d i by (simp add: ptr_at_block)
  next
    case fits
    then have le: "d + len \<le> B" using d by simp
    obtain f where "fuel = Suc f" using Suc.prems(3) fits by (cases fuel) auto
    then show ?thesis
      using fits de nx sn p ptr_at_step [OF B d i le] by (auto simp: Let_def)
  next
    case spills
    let ?m = "B - d"
    have si: "Suc i < length ns" using Suc.prems(6) spills d by (intro more_blocks [of i B d]) auto
    obtain n' where de': "deref h (Some (ns ! Suc i)) = Inr n'" and sz': "n_size n' = B"
      using deref_chain [OF ch si] by blast
    have tot: "Suc i * B + 0 + (len - ?m) = i * B + d + len" "q + ?m + (len - ?m) = q + len"
      using spills d by auto
    have "advance_loop (Suc fuel) h p len d ?m =
        advance_loop fuel h \<lparr>p_pos = q + ?m, p_cur = Some (ns ! Suc i)\<rparr> (len - ?m) 0 (B - 0)"
      using spills de nx de' sz' p d si by auto
    also have "\<dots> = Inr \<lparr>p_pos = q + ?m + (len - ?m), p_cur = ptr_at ns B (Suc i * B + 0 + (len - ?m))\<rparr>"
      using Suc.prems spills d si B ch tot by (intro Suc.IH) auto
    finally show ?thesis unfolding tot .
  qed
qed

text \<open>
  \<open>iov_cover ns B p iovs\<close>: the vectors name consecutive slices of the blocks, from
  stream position \<open>p\<close> on.
\<close>

fun iov_cover :: "addr list \<Rightarrow> nat \<Rightarrow> nat \<Rightarrow> iovec list \<Rightarrow> bool" where
  "iov_cover ns B p [] = True"
| "iov_cover ns B p (v # vs) =
     (\<exists>i < length ns. p = i * B + iov_off v \<and> iov_node v = ns ! i \<and>
        iov_off v + iov_len v \<le> B \<and> iov_cover ns B (p + iov_len v) vs)"

definition iov_total :: "iovec list \<Rightarrow> nat" where
  "iov_total iovs = sum_list (map iov_len iovs)"

lemma iov_total_simps [simp]: "iov_total [] = 0" "iov_total (v # vs) = iov_len v + iov_total vs"
  by (simp_all add: iov_total_def)

lemma gather_cover:
  "chain h B ns \<Longrightarrow> iov_cover ns B p iovs \<Longrightarrow>
   gather h iovs = Inr (take (iov_total iovs) (drop p (contents h ns)))"
proof (induction iovs arbitrary: p)
  case Nil
  then show ?case by simp
next
  case (Cons v vs)
  then obtain i where i: "i < length ns" "p = i * B + iov_off v" "iov_node v = ns ! i"
      "iov_off v + iov_len v \<le> B" "iov_cover ns B (p + iov_len v) vs"
    by auto
  have "load h (Some (iov_node v)) (iov_off v) (iov_len v) =
      Inr (take (iov_len v) (drop p (contents h ns)))"
    unfolding i(2,3) using Cons.prems(1) i(1,4) by (rule load_chain)
  then show ?case
    using Cons.IH [OF Cons.prems(1) i(5)]
    by (simp only: gather.simps bindE_Inr iov_total_simps take_drop_take_drop)
qed

lemma scatter_cover:
  "chain h B ns \<Longrightarrow> iov_cover ns B p iovs \<Longrightarrow> length bs \<le> iov_total iovs \<Longrightarrow>
   p + iov_total iovs \<le> B * length ns \<Longrightarrow>
   \<exists>h'. scatter h iovs bs = Inr h' \<and> chain h' B ns \<and>
        contents h' ns = overwrite (contents h ns) p bs \<and> (\<forall>a. a \<notin> set ns \<longrightarrow> h' a = h a)"
proof (induction iovs arbitrary: p h bs)
  case Nil
  then show ?case by simp
next
  case (Cons v vs)
  then obtain i where i: "i < length ns" "p = i * B + iov_off v" "iov_node v = ns ! i"
      "iov_off v + iov_len v \<le> B" "iov_cover ns B (p + iov_len v) vs"
    by auto
  let ?t = "take (iov_len v) bs" and ?d = "drop (iov_len v) bs"
  have le: "iov_off v + length ?t \<le> B" using i(4) by simp
  obtain h1 where st: "store h (Some (iov_node v)) (iov_off v) ?t = Inr h1" and ch1: "chain h1 B ns"
    and co1: "contents h1 ns = overwrite (contents h ns) p ?t"
    and fr1: "\<And>a. a \<notin> set ns \<Longrightarrow> h1 a = h a"
    using store_chain [OF Cons.prems(1) i(1) le] unfolding i(2,3) by blast
  have pre: "length ?d \<le> iov_total vs" "p + iov_len v + iov_total vs \<le> B * length ns"
    using Cons.prems(3,4) by auto
  obtain h2 where sc: "scatter h1 vs ?d = Inr h2" and ch2: "chain h2 B ns"
    and co2: "contents h2 ns = overwrite (contents h1 ns) (p + iov_len v) ?d"
    and fr2: "\<forall>a. a \<notin> set ns \<longrightarrow> h2 a = h1 a"
    using Cons.IH [OF ch1 i(5) pre] by blast
  have "contents h2 ns = overwrite (contents h ns) p bs"
  proof (cases "iov_len v \<le> length bs")
    case True
    have len: "length (contents h ns) = B * length ns" using Cons.prems(1) by (rule length_contents)
    have "p + length ?t + length ?d \<le> length (contents h ns)"
      using True pre unfolding len by simp
    from overwrite_overwrite [OF this] show ?thesis using True by (simp add: co1 co2)
  next
    case False
    then show ?thesis by (simp add: co1 co2)
  qed
  then show ?case using st sc ch2 fr1 fr2 by auto
qed

lemma iov_loop_chain:
  assumes "chain h B ns" and "0 < B" and "len < fuel" and "d < B" and "i < length ns"
    and "i * B + d + len \<le> B * length ns"
  shows "\<exists>iovs. iov_loop fuel h (Some (ns ! i)) len d (B - d) acc = Inr (acc @ iovs) \<and>
           iov_total iovs = len \<and> iov_cover ns B (i * B + d) iovs"
  using assms
proof (induction fuel arbitrary: len d i acc)
  case 0
  then show ?case by simp
next
  case (Suc fuel)
  note ch = Suc.prems(1) and B = Suc.prems(2) and d = Suc.prems(4) and i = Suc.prems(5)
  obtain n where de: "deref h (Some (ns ! i)) = Inr n" and nx: "n_next n = nth_opt ns (Suc i)"
    using deref_chain [OF ch i] by blast
  consider (nil) "len = 0" | (fits) "0 < len" "len \<le> B - d" | (spills) "B - d < len" by linarith
  then show ?case
  proof cases
    case nil
    then show ?thesis by simp
  next
    case fits
    then have le: "d + len \<le> B" using d by simp
    obtain f where "fuel = Suc f" using Suc.prems(3) fits by (cases fuel) auto
    then show ?thesis using fits de le i by auto
  next
    case spills
    let ?m = "B - d"
    have si: "Suc i < length ns" using Suc.prems(6) spills d by (intro more_blocks [of i B d]) auto
    obtain n' where de': "deref h (Some (ns ! Suc i)) = Inr n'" and sz': "n_size n' = B"
      using deref_chain [OF ch si] by blast
    let ?v = "\<lparr>iov_node = ns ! i, iov_off = d, iov_len = ?m\<rparr>"
    have tot: "Suc i * B + 0 + (len - ?m) = i * B + d + len" "Suc i * B + 0 = i * B + d + ?m"
        "?m + (len - ?m) = len"
      using spills d by auto
    have step: "iov_loop (Suc fuel) h (Some (ns ! i)) len d ?m acc =
        iov_loop fuel h (Some (ns ! Suc i)) (len - ?m) 0 (B - 0) (acc @ [?v])"
      using spills de nx de' sz' d si by auto
    have "\<exists>iovs. iov_loop fuel h (Some (ns ! Suc i)) (len - ?m) 0 (B - 0) (acc @ [?v]) =
             Inr ((acc @ [?v]) @ iovs) \<and> iov_total iovs = len - ?m \<and>
           iov_cover ns B (Suc i * B + 0) iovs"
      using Suc.prems spills d si B ch tot(1) by (intro Suc.IH) auto
    then obtain iovs where "iov_loop fuel h (Some (ns ! Suc i)) (len - ?m) 0 (B - 0) (acc @ [?v]) =
             Inr (acc @ ?v # iovs)" and "iov_total iovs = len - ?m"
      and "iov_cover ns B (i * B + d + ?m) iovs"
      unfolding tot(2) by auto
    then show ?thesis unfolding step using spills tot(3) d i by (intro exI [of _ "?v # iovs"]) auto
  qed
qed

declare write_loop.simps [simp del] read_loop.simps [simp del] advance_loop.simps [simp del]
  iov_loop.simps [simp del]

subsection \<open>Growing a chain\<close>

text \<open>
  \<open>open_chain\<close> leaves open what follows the last block: the growth loop starts from such a
  prefix, whatever hung behind it before, and closes it again.
\<close>

definition open_chain :: "(addr \<rightharpoonup> node) \<Rightarrow> nat \<Rightarrow> addr list \<Rightarrow> bool" where
  "open_chain h B ns \<longleftrightarrow> distinct ns \<and>
     (\<forall>i < length ns. \<exists>n. h (ns ! i) = Some n \<and>
        (Suc i < length ns \<longrightarrow> n_next n = Some (ns ! Suc i)) \<and> n_size n = B \<and> length (n_ptr n) = B)"

lemma open_chain_prefix:
  assumes "chain h B ns"
  shows "open_chain h B (take k ns)"
  unfolding open_chain_def
proof (intro conjI allI impI)
  show "distinct (take k ns)" using chain_distinct [OF assms] by (rule distinct_take)
  fix i assume i: "i < length (take k ns)"
  then obtain n where "h (ns ! i) = Some n" "n_next n = nth_opt ns (Suc i)" "n_size n = B"
      "length (n_ptr n) = B"
    using chain_node [OF assms, of i] by auto
  then show "\<exists>n. h (take k ns ! i) = Some n \<and>
      (Suc i < length (take k ns) \<longrightarrow> n_next n = Some (take k ns ! Suc i)) \<and>
      n_size n = B \<and> length (n_ptr n) = B"
    using i by auto
qed

lemma chain_open: "chain h B ns \<Longrightarrow> open_chain h B ns"
  using open_chain_prefix [of h B ns "length ns"] by simp

lemma last_nth: "ns \<noteq> [] \<Longrightarrow> last ns = ns ! (length ns - 1)"
  by (rule last_conv_nth)

lemma chain_extend:
  assumes oc: "open_chain h B ns" and ne: "ns \<noteq> []" and a: "a \<notin> set ns"
    and m: "n_size m = B" "length (n_ptr m) = B" "n_next m = None"
    and l: "h (last ns) = Some n"
  shows "chain (h(a \<mapsto> m, last ns \<mapsto> n\<lparr>n_next := Some a\<rparr>)) B (ns @ [a])" (is "chain ?h B _")
    and "contents (h(a \<mapsto> m, last ns \<mapsto> n\<lparr>n_next := Some a\<rparr>)) (ns @ [a]) = contents h ns @ n_ptr m"
proof -
  have al: "a \<noteq> last ns" using a ne by auto
  show "chain ?h B (ns @ [a])"
    unfolding chain_def
  proof (intro conjI allI impI)
    show "distinct (ns @ [a])" using oc a by (simp add: open_chain_def)
    fix i assume "i < length (ns @ [a])"
    then consider (new) "i = length ns" | (last) "Suc i = length ns" | (old) "Suc i < length ns"
      by fastforce
    then show "\<exists>n. ?h ((ns @ [a]) ! i) = Some n \<and> n_next n = nth_opt (ns @ [a]) (Suc i) \<and>
        n_size n = B \<and> length (n_ptr n) = B"
    proof cases
      case new
      then show ?thesis using m al by simp
    next
      case last
      then have "ns ! i = last ns" using ne by (simp add: last_nth flip: last)
      moreover have "n_size n = B" "length (n_ptr n) = B"
        using oc last l calculation unfolding open_chain_def by (metis lessI option.sel)+
      ultimately show ?thesis using last by (simp add: nth_append nth_opt_def)
    next
      case old
      then have "ns ! i \<noteq> last ns"
        using oc ne by (simp add: last_nth nth_eq_iff_index_eq open_chain_def)
      moreover have "ns ! i \<noteq> a" using a old by auto
      ultimately show ?thesis
        using oc old unfolding open_chain_def by (auto simp: nth_append dest!: spec [of _ i])
    qed
  qed
  have eq: "map (block ?h) ns = map (block h) ns" using a l by (auto simp: block_def)
  show "contents ?h (ns @ [a]) = contents h ns @ n_ptr m"
    unfolding contents_def map_append concat_append eq using al by (simp add: block_def)
qed

lemma upt_snoc_front: "a < b \<Longrightarrow> [a] @ [Suc a..<b] = [a..<b]"
  by (simp add: upt_conv_Cons)

lemma grow_loop_chain:
  assumes "open_chain (heap b) (m_baseSize b) ns" and "ns \<noteq> []" and "\<forall>a \<in> set ns. a < fresh b"
    and "0 < k \<or> chain (heap b) (m_baseSize b) ns"
  shows "\<exists>h' first' junk. grow_loop k b (Some (last ns)) first =
           Inr (b\<lparr>heap := h', fresh := fresh b + k, m_capacity := m_capacity b + k * m_baseSize b\<rparr>, first') \<and>
         chain h' (m_baseSize b) (ns @ [fresh b..<fresh b + k]) \<and>
         contents h' (ns @ [fresh b..<fresh b + k]) = contents (heap b) ns @ junk"
  using assms
proof (induction k arbitrary: b ns first)
  case 0
  have "b = b\<lparr>heap := heap b, fresh := fresh b + 0, m_capacity := m_capacity b + 0 * m_baseSize b\<rparr>"
    by simp
  then show ?case using 0 by (intro exI [of _ "heap b"]) auto
next
  case (Suc k)
  let ?a = "fresh b"
  let ?m = "new_Node (uninit b) ?a (m_baseSize b)"
  have "length ns - 1 < length ns" using Suc.prems(2) by simp
  then obtain n where n: "heap b (last ns) = Some n"
    using Suc.prems(1,2) unfolding open_chain_def last_nth [OF Suc.prems(2)] by meson
  define h where "h = (heap b)(?a \<mapsto> ?m, last ns \<mapsto> n\<lparr>n_next := Some ?a\<rparr>)"
  define b1 where "b1 = b\<lparr>heap := h, fresh := Suc ?a, m_capacity := m_capacity b + m_baseSize b\<rparr>"
  have na: "?a \<notin> set ns" using Suc.prems(3) by auto
  note ext = chain_extend [OF Suc.prems(1,2) na _ _ _ n, of ?m]
  have ch: "chain h (m_baseSize b) (ns @ [?a])"
    and co: "contents h (ns @ [?a]) = contents (heap b) ns @ n_ptr ?m"
    using ext by (simp_all add: new_Node_def h_def)
  have b1: "heap b1 = h" "m_baseSize b1 = m_baseSize b" "fresh b1 = Suc ?a"
      "m_capacity b1 = m_capacity b + m_baseSize b"
    by (simp_all add: b1_def)
  have fr1: "\<forall>a \<in> set ns. a < Suc ?a" using Suc.prems(3) by (simp add: less_SucI)
  obtain h' first' junk where
    eq: "grow_loop k b1 (Some (last (ns @ [?a]))) (if first = None then Some ?a else first) =
        Inr (b1\<lparr>heap := h', fresh := fresh b1 + k, m_capacity := m_capacity b1 + k * m_baseSize b1\<rparr>, first')"
    and ch': "chain h' (m_baseSize b1) ((ns @ [?a]) @ [fresh b1..<fresh b1 + k])"
    and co': "contents h' ((ns @ [?a]) @ [fresh b1..<fresh b1 + k]) = contents (heap b1) (ns @ [?a]) @ junk"
    using Suc.IH [of b1 "ns @ [?a]" "if first = None then Some ?a else first"] ch chain_open [OF ch]
      fr1 b1 by (auto simp del: upt_Suc append_assoc)
  have app: "(ns @ [?a]) @ [fresh b1..<fresh b1 + k] = ns @ [?a..<?a + Suc k]"
    using upt_snoc_front [of ?a "?a + Suc k"] by (simp add: b1 del: upt_Suc)
  have "grow_loop (Suc k) b (Some (last ns)) first =
      grow_loop k b1 (Some (last (ns @ [?a]))) (if first = None then Some ?a else first)"
    using n by (simp add: deref_def Let_def b1_def h_def)
  also have "\<dots> = Inr (b\<lparr>heap := h', fresh := ?a + Suc k, m_capacity := m_capacity b + Suc k * m_baseSize b\<rparr>, first')"
    unfolding eq by (simp add: b1_def ac_simps)
  finally show ?case
    using ch' [unfolded app, unfolded b1] co' [unfolded app, unfolded b1 co append_assoc] by blast
qed

subsection \<open>The layout invariant and its abstraction\<close>

definition ba_inv :: "byte_array \<Rightarrow> addr list \<Rightarrow> bool" where
  "ba_inv b ns \<longleftrightarrow>
     0 < m_baseSize b \<and> ns \<noteq> [] \<and> m_root b = hd ns \<and>
     chain (heap b) (m_baseSize b) ns \<and> (\<forall>a \<in> set ns. a < fresh b) \<and>
     m_capacity b = m_baseSize b * length ns \<and> m_capacity b < size_max \<and>
     p_pos (m_writePos b) \<le> m_capacity b \<and> p_pos (m_readPos b) \<le> p_pos (m_writePos b) \<and>
     p_cur (m_writePos b) = ptr_at ns (m_baseSize b) (p_pos (m_writePos b)) \<and>
     p_cur (m_readPos b) = ptr_at ns (m_baseSize b) (p_pos (m_readPos b))"

text \<open>
  \<open>ba_repr b W k\<close>: the buffer holds the stream \<open>W\<close> of all bytes written since it was
  created or cleared, of which the first \<open>k\<close> have been consumed.
\<close>

definition ba_repr :: "byte_array \<Rightarrow> byte list \<Rightarrow> nat \<Rightarrow> bool" where
  "ba_repr b W k \<longleftrightarrow> (\<exists>ns. ba_inv b ns \<and> W = take (p_pos (m_writePos b)) (contents (heap b) ns) \<and>
     k = p_pos (m_readPos b))"

text \<open>
  A write of \<open>n\<close> bytes goes through when the write pointer lies inside a block, and either
  the bytes fit in the capacity at hand or that block is the last one. A buffer is
  \<open>ba_tight\<close> when at most one block is not yet full, which is what writing alone gives.
\<close>

definition ba_tight :: "byte_array \<Rightarrow> bool" where
  "ba_tight b \<longleftrightarrow> m_capacity b - p_pos (m_writePos b) \<le> m_baseSize b"

definition can_write :: "byte_array \<Rightarrow> nat \<Rightarrow> bool" where
  "can_write b n \<longleftrightarrow> n = 0 \<or>
     p_pos (m_writePos b) < m_capacity b \<and>
     (n \<le> m_capacity b - p_pos (m_writePos b) \<or>
      ba_tight b \<and> p_pos (m_writePos b) + n + m_baseSize b < size_max)"

lemma ba_inv_length: "ba_inv b ns \<Longrightarrow> length (contents (heap b) ns) = m_capacity b"
  by (simp add: ba_inv_def length_contents)

lemma ba_repr_length: "ba_repr b W k \<Longrightarrow> length W = p_pos (m_writePos b) \<and> k \<le> length W"
  unfolding ba_repr_def using ba_inv_length by (auto simp: ba_inv_def)

lemma ba_repr_readSize: "ba_repr b W k \<Longrightarrow> getReadSize b = length W - k"
  using ba_repr_length unfolding ba_repr_def getReadSize_def by fastforce

text \<open>Where a position below the capacity lies: block \<open>i\<close>, offset \<open>d\<close>.\<close>

lemma ba_pos:
  assumes "ba_inv b ns" and "p < m_capacity b"
  shows "p div m_baseSize b < length ns" and "p mod m_baseSize b < m_baseSize b"
    and "p div m_baseSize b * m_baseSize b + p mod m_baseSize b = p"
    and "offset_of b p = Inr (p mod m_baseSize b)"
    and "ptr_at ns (m_baseSize b) p = Some (ns ! (p div m_baseSize b))"
proof -
  have B: "0 < m_baseSize b" and cap: "m_capacity b = m_baseSize b * length ns"
    using assms(1) by (simp_all add: ba_inv_def)
  show i: "p div m_baseSize b < length ns"
    using assms(2) unfolding cap by (simp add: less_mult_imp_div_less mult.commute)
  show "p mod m_baseSize b < m_baseSize b" using B by simp
  show "p div m_baseSize b * m_baseSize b + p mod m_baseSize b = p" by (rule div_mult_mod_eq)
  show "offset_of b p = Inr (p mod m_baseSize b)" using B by (simp add: offset_of_def)
  show "ptr_at ns (m_baseSize b) p = Some (ns ! (p div m_baseSize b))"
    using i by (simp add: ptr_at_def)
qed

lemma ptr_at_append: "ptr_at ns B p = Some a \<Longrightarrow> ptr_at (ns @ ms) B p = Some a"
  unfolding ptr_at_def nth_opt_def by (auto simp: nth_append split: if_splits)

lemma ba_inv_create:
  "0 < sz \<Longrightarrow> sz < size_max \<Longrightarrow> ba_inv (ba_create junk sz) [0]"
  by (auto simp: ba_inv_def ba_create_def chain_def new_Node_def ptr_at_def)

lemma ba_repr_create:
  assumes "0 < sz" and "sz < size_max"
  shows "ba_repr (ba_create junk sz) [] 0" and "ba_tight (ba_create junk sz)"
  using ba_inv_create [OF assms] by (auto simp: ba_repr_def ba_create_def ba_tight_def)

subsection \<open>Growing\<close>

lemma ceil_div_bounds:
  assumes "0 < B" and "0 < x"
  shows "x \<le> ceil_div x B * B" and "ceil_div x B * B < x + B" and "0 < ceil_div x B"
proof -
  have "(x + B - 1) mod B < B" and "(x + B - 1) div B * B + (x + B - 1) mod B = x + B - 1"
    using assms(1) by simp_all
  then show 1: "x \<le> ceil_div x B * B" and "ceil_div x B * B < x + B"
    using assms unfolding ceil_div_def by linarith+
  show "0 < ceil_div x B" using 1 assms(2) by (cases "ceil_div x B") auto
qed

lemma ba_tight_last:
  assumes "ba_inv b ns" and "ba_tight b" and "p_pos (m_writePos b) < m_capacity b"
  shows "ns ! (p_pos (m_writePos b) div m_baseSize b) = last ns"
proof -
  let ?B = "m_baseSize b" and ?w = "p_pos (m_writePos b)"
  have B: "0 < ?B" and ne: "ns \<noteq> []" and cap: "m_capacity b = ?B * length ns"
    using assms(1) by (simp_all add: ba_inv_def)
  note pos = ba_pos [OF assms(1,3)]
  have "?B * length ns \<le> ?w + ?B" using assms(2) unfolding ba_tight_def cap by simp
  moreover have "?w < ?B + ?B * (?w div ?B)" by (rule dividend_less_times_div [OF B])
  ultimately have "?B * length ns < ?B * (?w div ?B + 2)" by (simp add: algebra_simps)
  then have "length ns < ?w div ?B + 2" by (simp only: mult_less_cancel1)
  then have "?w div ?B = length ns - 1" using pos(1) by linarith
  then show ?thesis using ne by (simp add: last_nth)
qed

lemma addCapacity_grow:
  assumes inv: "ba_inv b ns" and tight: "ba_tight b"
    and w: "p_pos (m_writePos b) < m_capacity b"
    and n: "m_capacity b - p_pos (m_writePos b) < n"
    and bound: "p_pos (m_writePos b) + n + m_baseSize b < size_max"
  shows "\<exists>b' ns' junk. addCapacity b n = Inr b' \<and> ba_inv b' ns' \<and>
           contents (heap b') ns' = contents (heap b) ns @ junk \<and>
           m_writePos b' = m_writePos b \<and> m_readPos b' = m_readPos b \<and>
           m_baseSize b' = m_baseSize b \<and>
           p_pos (m_writePos b) + n \<le> m_capacity b' \<and>
           m_capacity b' < p_pos (m_writePos b) + n + m_baseSize b"
proof -
  let ?B = "m_baseSize b" and ?w = "p_pos (m_writePos b)"
  define old where "old = m_capacity b - ?w"
  define k where "k = ceil_div (n - old) ?B"
  have B: "0 < ?B" and ne: "ns \<noteq> []" and cap: "m_capacity b = ?B * length ns"
    and ch: "chain (heap b) ?B ns" and fr: "\<forall>a \<in> set ns. a < fresh b"
    and le: "?w \<le> m_capacity b" "p_pos (m_readPos b) \<le> ?w"
    and cw: "p_cur (m_writePos b) = ptr_at ns ?B ?w"
    and cr: "p_cur (m_readPos b) = ptr_at ns ?B (p_pos (m_readPos b))" and rt: "m_root b = hd ns"
    using inv by (simp_all add: ba_inv_def)
  have old: "getCapacity b = old" "0 < old" "old < n"
    using le w n by (simp_all add: getCapacity_def old_def)
  have k: "n - old \<le> k * ?B" "k * ?B < n - old + ?B" "0 < k"
    unfolding k_def using ceil_div_bounds [OF B, of "n - old"] old by simp_all
  have cur: "p_cur (m_writePos b) = Some (last ns)"
    using ba_pos(5) [OF inv w] ba_tight_last [OF inv tight w] cw by simp
  obtain h' f' junk where
    g: "grow_loop k b (Some (last ns)) None =
        Inr (b\<lparr>heap := h', fresh := fresh b + k, m_capacity := m_capacity b + k * ?B\<rparr>, f')"
    and ch': "chain h' ?B (ns @ [fresh b..<fresh b + k])"
    and co': "contents h' (ns @ [fresh b..<fresh b + k]) = contents (heap b) ns @ junk"
    using grow_loop_chain [OF chain_open [OF ch] ne fr, of k None] ch by auto
  let ?b = "b\<lparr>heap := h', fresh := fresh b + k, m_capacity := m_capacity b + k * ?B\<rparr>"
  have "addCapacity b n = Inr ?b"
    unfolding addCapacity_def using old B g cur by (simp add: Let_def k_def)
  moreover have "ptr_at (ns @ [fresh b..<fresh b + k]) ?B ?w = ptr_at ns ?B ?w"
      "ptr_at (ns @ [fresh b..<fresh b + k]) ?B (p_pos (m_readPos b)) = ptr_at ns ?B (p_pos (m_readPos b))"
    using ba_pos(5) [OF inv w] ba_pos(5) [OF inv, of "p_pos (m_readPos b)"] le w
    by (simp_all add: ptr_at_append)
  then have "ba_inv ?b (ns @ [fresh b..<fresh b + k])"
    using B ne cap ch' fr le cw cr rt k bound old
    by (auto simp: ba_inv_def old_def algebra_simps)
  moreover have "?w + n \<le> m_capacity ?b" "m_capacity ?b < ?w + n + ?B"
    using k old le by (simp_all add: old_def)
  ultimately show ?thesis using co' by (intro exI [of _ ?b]) auto
qed

subsection \<open>Writing\<close>

text \<open>
  The room for a write: growing when needed gives a buffer with the same stream and enough
  capacity behind the write pointer.
\<close>

lemma addCapacity_room:
  assumes inv: "ba_inv b ns" and cw: "can_write b n" and n: "0 < n"
  shows "\<exists>b' ns' junk. addCapacity b n = Inr b' \<and> ba_inv b' ns' \<and>
           contents (heap b') ns' = contents (heap b) ns @ junk \<and>
           m_writePos b' = m_writePos b \<and> m_readPos b' = m_readPos b \<and>
           m_baseSize b' = m_baseSize b \<and> p_pos (m_writePos b) < m_capacity b' \<and>
           p_pos (m_writePos b) + n \<le> m_capacity b' \<and>
           (ba_tight b \<longrightarrow> m_capacity b' \<le> p_pos (m_writePos b) + n + m_baseSize b) \<and>
           (n \<le> m_capacity b - p_pos (m_writePos b) \<longrightarrow> b' = b)"
proof (cases "n \<le> m_capacity b - p_pos (m_writePos b)")
  case True
  have w: "p_pos (m_writePos b) < m_capacity b" using cw n by (simp add: can_write_def)
  then have "addCapacity b n = Inr b" using True by (simp add: addCapacity_def getCapacity_def)
  then show ?thesis using inv w True
    by (intro exI [of _ b] exI [of _ ns] exI [of _ "[]"]) (auto simp: ba_tight_def)
next
  case False
  then have w: "p_pos (m_writePos b) < m_capacity b" and t: "ba_tight b"
    and bd: "p_pos (m_writePos b) + n + m_baseSize b < size_max"
    using cw n by (auto simp: can_write_def)
  obtain b' ns' junk where "addCapacity b n = Inr b'" "ba_inv b' ns'"
      "contents (heap b') ns' = contents (heap b) ns @ junk" "m_writePos b' = m_writePos b"
      "m_readPos b' = m_readPos b" "m_baseSize b' = m_baseSize b"
      "p_pos (m_writePos b) + n \<le> m_capacity b'"
      "m_capacity b' < p_pos (m_writePos b) + n + m_baseSize b"
    using addCapacity_grow [OF inv t w _ bd] False by auto
  then show ?thesis using n False
    by (intro exI [of _ b'] exI [of _ ns'] exI [of _ junk]) simp
qed

lemma ba_write_inv:
  assumes inv: "ba_inv b ns" and cw: "can_write b (length buf)"
  shows "\<exists>b' ns'. ba_write b buf = Inr b' \<and> ba_inv b' ns' \<and>
           take (p_pos (m_writePos b')) (contents (heap b') ns') =
             take (p_pos (m_writePos b)) (contents (heap b) ns) @ buf \<and>
           p_pos (m_writePos b') = p_pos (m_writePos b) + length buf \<and>
           m_readPos b' = m_readPos b \<and> m_baseSize b' = m_baseSize b \<and> (ba_tight b \<longrightarrow> ba_tight b') \<and>
           (length buf \<le> m_capacity b - p_pos (m_writePos b) \<longrightarrow> m_capacity b' = m_capacity b)"
proof (cases "buf = []")
  case True
  then show ?thesis using inv by (auto simp: ba_write_def)
next
  case False
  let ?w = "p_pos (m_writePos b)"
  obtain b1 ns1 junk where ac: "addCapacity b (length buf) = Inr b1" and inv1: "ba_inv b1 ns1"
    and co1: "contents (heap b1) ns1 = contents (heap b) ns @ junk"
    and same: "m_writePos b1 = m_writePos b" "m_readPos b1 = m_readPos b" "m_baseSize b1 = m_baseSize b"
    and w1: "?w < m_capacity b1" and fit: "?w + length buf \<le> m_capacity b1"
    and t1: "ba_tight b \<Longrightarrow> m_capacity b1 \<le> ?w + length buf + m_baseSize b"
    and sm: "length buf \<le> m_capacity b - ?w \<Longrightarrow> b1 = b"
    using addCapacity_room [OF inv cw] False by auto
  let ?B = "m_baseSize b1"
  define i d where "i = ?w div ?B" and "d = ?w mod ?B"
  note pos = ba_pos [OF inv1 w1, folded i_def d_def]
  have ch: "chain (heap b1) ?B ns1" and B: "0 < ?B" and cap: "m_capacity b1 = ?B * length ns1"
    and cur: "p_cur (m_writePos b1) = Some (ns1 ! i)"
    using inv1 pos(5) same by (simp_all add: ba_inv_def)
  obtain n where de: "deref (heap b1) (Some (ns1 ! i)) = Inr n" and sn: "n_size n = ?B"
    using deref_chain [OF ch pos(1)] by blast
  have wp: "m_writePos b1 = \<lparr>p_pos = i * ?B + d, p_cur = Some (ns1 ! i)\<rparr>"
    using cur pos(3) same by (cases "m_writePos b1") simp
  have "i * ?B + d + length buf \<le> ?B * length ns1" using fit pos(3) cap by simp
  from write_loop_chain [OF ch B _ pos(2,1) this wp, of "Suc (length buf)"] obtain h' where
    wl: "write_loop (Suc (length buf)) b1 buf d (?B - d) =
        Inr (b1\<lparr>heap := h', m_writePos := \<lparr>p_pos = ?w + length buf,
               p_cur = ptr_at ns1 ?B (?w + length buf)\<rparr>\<rparr>)"
    and ch': "chain h' ?B ns1" and co': "contents h' ns1 = overwrite (contents (heap b1) ns1) ?w buf"
    unfolding pos(3) by auto
  let ?b = "b1\<lparr>heap := h', m_writePos := \<lparr>p_pos = ?w + length buf,
               p_cur = ptr_at ns1 ?B (?w + length buf)\<rparr>\<rparr>"
  have eq: "ba_write b buf = Inr ?b"
    using False ac pos(2,4) de sn wl wp cur same by (simp add: ba_write_def)
  have invb: "ba_inv ?b ns1" using inv1 ch' fit same by (auto simp: ba_inv_def)
  have wl': "?w \<le> length (contents (heap b) ns)" using inv ba_inv_length [OF inv] by (simp add: ba_inv_def)
  have "take (?w + length buf) (contents h' ns1) = take ?w (contents (heap b) ns) @ buf"
    unfolding co' using take_overwrite_all [of ?w "contents (heap b1) ns1" buf] co1 wl' by simp
  then show ?thesis using eq invb same t1 sm by (intro exI [of _ ?b] exI [of _ ns1]) (auto simp: ba_tight_def)
qed

lemma ba_write_repr:
  assumes "ba_repr b W k" and "can_write b (length buf)"
  shows "\<exists>b'. ba_write b buf = Inr b' \<and> ba_repr b' (W @ buf) k \<and>
           m_baseSize b' = m_baseSize b \<and> (ba_tight b \<longrightarrow> ba_tight b') \<and>
           (length buf \<le> m_capacity b - p_pos (m_writePos b) \<longrightarrow> m_capacity b' = m_capacity b)"
  using assms ba_write_inv unfolding ba_repr_def by metis

text \<open>
  Once the last block is exactly full, the write pointer is null and every further write
  dereferences it: \<open>addCapacity\<close> starts from the write pointer before it looks at
  \<open>old_cap == 0\<close>.
\<close>

lemma addCapacity_full:
  assumes inv: "ba_inv b ns" and full: "p_pos (m_writePos b) = m_capacity b" and n: "0 < n"
  shows "addCapacity b n = Inl NullDeref"
proof -
  have B: "0 < m_baseSize b" and cur: "p_cur (m_writePos b) = None"
    using inv full ptr_at_end by (auto simp: ba_inv_def)
  have "0 < ceil_div n (m_baseSize b)" using ceil_div_bounds(3) [OF B n] .
  then obtain c where "ceil_div n (m_baseSize b) = Suc c" by (cases "ceil_div n (m_baseSize b)") auto
  then show ?thesis using n full B cur by (simp add: addCapacity_def getCapacity_def Let_def deref_def)
qed

lemma ba_write_full:
  assumes "ba_repr b W k" and "p_pos (m_writePos b) = m_capacity b" and "buf \<noteq> []"
  shows "ba_write b buf = Inl NullDeref"
  using assms addCapacity_full unfolding ba_repr_def ba_write_def by fastforce

subsection \<open>Reading\<close>

lemma ba_inv_read_facts:
  assumes inv: "ba_inv b ns" and r: "p_pos (m_readPos b) < m_capacity b"
  obtains i d n where "i < length ns" and "d < m_baseSize b"
    and "i * m_baseSize b + d = p_pos (m_readPos b)" and "offset_of b (p_pos (m_readPos b)) = Inr d"
    and "p_cur (m_readPos b) = Some (ns ! i)" and "deref (heap b) (Some (ns ! i)) = Inr n"
    and "n_size n = m_baseSize b"
    and "m_readPos b = \<lparr>p_pos = p_pos (m_readPos b), p_cur = Some (ns ! i)\<rparr>"
proof -
  note pos = ba_pos [OF inv r]
  have ch: "chain (heap b) (m_baseSize b) ns" using inv by (simp add: ba_inv_def)
  obtain n where "deref (heap b) (Some (ns ! (p_pos (m_readPos b) div m_baseSize b))) = Inr n"
      "n_size n = m_baseSize b"
    using deref_chain [OF ch pos(1)] by blast
  moreover have "p_cur (m_readPos b) = Some (ns ! (p_pos (m_readPos b) div m_baseSize b))"
    using pos(5) inv by (simp add: ba_inv_def)
  ultimately show thesis using that pos by (metis pointer.surjective old.unit.exhaust)
qed

lemma take_drop_stream:
  "r + n \<le> w \<Longrightarrow> take n (drop r (take w xs)) = take n (drop r xs)"
  by (simp add: drop_take min_absorb1)

lemma ba_read_inv:
  assumes inv: "ba_inv b ns" and n: "p_pos (m_readPos b) + n \<le> p_pos (m_writePos b)"
    and r: "p_pos (m_readPos b) < m_capacity b"
  shows "ba_read b n = Inr (take n (drop (p_pos (m_readPos b)) (contents (heap b) ns)),
           b\<lparr>m_readPos := \<lparr>p_pos = p_pos (m_readPos b) + n,
              p_cur = ptr_at ns (m_baseSize b) (p_pos (m_readPos b) + n)\<rparr>\<rparr>)"
proof -
  let ?B = "m_baseSize b" and ?r = "p_pos (m_readPos b)"
  obtain i d nd where pos: "i < length ns" "d < ?B" "i * ?B + d = ?r" "offset_of b ?r = Inr d"
      "p_cur (m_readPos b) = Some (ns ! i)" and de: "deref (heap b) (Some (ns ! i)) = Inr nd"
      "n_size nd = ?B" and rp: "m_readPos b = \<lparr>p_pos = ?r, p_cur = Some (ns ! i)\<rparr>"
    by (rule ba_inv_read_facts [OF inv r])
  have ch: "chain (heap b) ?B ns" and B: "0 < ?B" and le: "?r \<le> p_pos (m_writePos b)"
    and cap: "p_pos (m_writePos b) \<le> ?B * length ns"
    using inv by (simp_all add: ba_inv_def)
  have sz: "n \<le> getReadSize b" using n le by (simp add: getReadSize_def)
  have "i * ?B + d + n \<le> ?B * length ns" using n cap pos(3) by simp
  from read_loop_chain [OF ch B _ pos(2,1) this rp, of "Suc n" "[]"] show ?thesis
    using sz pos de by (simp add: ba_read_def)
qed

lemma ba_inv_set_read:
  assumes "ba_inv b ns" and "p_pos (m_readPos b) + n \<le> p_pos (m_writePos b)"
  shows "ba_inv (b\<lparr>m_readPos := \<lparr>p_pos = p_pos (m_readPos b) + n,
           p_cur = ptr_at ns (m_baseSize b) (p_pos (m_readPos b) + n)\<rparr>\<rparr>) ns"
  using assms by (auto simp: ba_inv_def)

lemma ba_read_repr:
  assumes "ba_repr b W k" and "k + n \<le> length W" and "k < m_capacity b"
  shows "\<exists>b'. ba_read b n = Inr (take n (drop k W), b') \<and> ba_repr b' W (k + n) \<and>
           m_writePos b' = m_writePos b \<and> m_capacity b' = m_capacity b \<and> m_baseSize b' = m_baseSize b"
proof -
  obtain ns where inv: "ba_inv b ns" and W: "W = take (p_pos (m_writePos b)) (contents (heap b) ns)"
    and k: "k = p_pos (m_readPos b)"
    using assms(1) by (auto simp: ba_repr_def)
  have n: "p_pos (m_readPos b) + n \<le> p_pos (m_writePos b)"
    using assms(2) k ba_repr_length [OF assms(1)] by simp
  show ?thesis
    using ba_read_inv [OF inv n] ba_inv_set_read [OF inv n] assms(3) n
    by (auto simp: ba_repr_def k W take_drop_stream)
qed

lemma ba_read_short:
  "ba_repr b W k \<Longrightarrow> length W < k + n \<Longrightarrow> ba_read b n = Inl OutOfRange"
  using ba_repr_readSize [of b W k] ba_repr_length [of b W k] by (auto simp: ba_read_def)

text \<open>With every byte of a full buffer consumed, even reading nothing dereferences null.\<close>

lemma ba_read_at_end:
  assumes "ba_repr b W k" and "k = m_capacity b"
  shows "ba_read b 0 = Inl NullDeref"
proof -
  obtain ns where inv: "ba_inv b ns" and "p_pos (m_readPos b) = m_baseSize b * length ns"
    using assms by (auto simp: ba_repr_def ba_inv_def)
  then have "p_cur (m_readPos b) = None" and "0 < m_baseSize b"
    using ptr_at_end [of "m_baseSize b" ns] by (simp_all add: ba_inv_def)
  then show ?thesis by (simp add: ba_read_def offset_of_def deref_def)
qed

lemma ba_toString_repr:
  assumes "ba_repr b W k"
  shows "ba_toString b = Inr (drop k W)"
proof (cases "k = length W")
  case True
  then show ?thesis using ba_repr_readSize [OF assms] by (simp add: ba_toString_def)
next
  case False
  obtain ns where inv: "ba_inv b ns" and W: "W = take (p_pos (m_writePos b)) (contents (heap b) ns)"
    and k: "k = p_pos (m_readPos b)"
    using assms by (auto simp: ba_repr_def)
  let ?B = "m_baseSize b" and ?n = "length W - k"
  have lw: "length W = p_pos (m_writePos b)" and le: "k \<le> length W"
    using ba_repr_length [OF assms] by auto
  have r: "p_pos (m_readPos b) < m_capacity b" using False le lw k inv by (auto simp: ba_inv_def)
  obtain i d nd where pos: "i < length ns" "d < ?B" "i * ?B + d = p_pos (m_readPos b)"
      "offset_of b (p_pos (m_readPos b)) = Inr d" "p_cur (m_readPos b) = Some (ns ! i)"
    and de: "deref (heap b) (Some (ns ! i)) = Inr nd" "n_size nd = ?B"
    by (rule ba_inv_read_facts [OF inv r])
  have ch: "chain (heap b) ?B ns" and B: "0 < ?B" and cap: "p_pos (m_writePos b) \<le> ?B * length ns"
    using inv by (simp_all add: ba_inv_def)
  have bound: "i * ?B + d + ?n \<le> ?B * length ns" using le lw cap pos(3) k by simp
  have "ba_toString b = Inr (take ?n (drop (p_pos (m_readPos b)) (contents (heap b) ns)))"
    using ba_repr_readSize [OF assms] False le pos de k lw
      read_loop_chain [OF ch B _ pos(2,1) bound refl, of "Suc ?n" "p_pos (m_readPos b)" "[]"]
    by (simp add: ba_toString_def ba_read_at_def)
  also have "take ?n (drop (p_pos (m_readPos b)) (contents (heap b) ns)) = drop k W"
    using take_drop_stream [of k ?n "length W" "contents (heap b) ns"] le W lw
    by (simp add: k [symmetric])
  finally show ?thesis .
qed

subsection \<open>Clearing and destruction\<close>

lemma free_loop_chain:
  assumes "\<forall>i. j \<le> i \<longrightarrow> i < length ns \<longrightarrow> (\<exists>n. h (ns ! i) = Some n \<and> n_next n = nth_opt ns (Suc i))"
    and "distinct ns" and "length ns - j < fuel"
  shows "free_loop fuel h (nth_opt ns j) = Inr (\<lambda>a. if a \<in> set (drop j ns) then None else h a)"
  using assms
proof (induction fuel arbitrary: h j)
  case 0
  then show ?case by simp
next
  case (Suc fuel)
  show ?case
  proof (cases "j < length ns")
    case False
    then show ?thesis by simp
  next
    case True
    obtain n where n: "h (ns ! j) = Some n" "n_next n = nth_opt ns (Suc j)"
      using Suc.prems(1) True by blast
    have "\<forall>i. Suc j \<le> i \<longrightarrow> i < length ns \<longrightarrow>
        (\<exists>n. (h(ns ! j := None)) (ns ! i) = Some n \<and> n_next n = nth_opt ns (Suc i))"
      using Suc.prems(1,2) True by (auto simp: nth_eq_iff_index_eq)
    then have "free_loop fuel (h(ns ! j := None)) (nth_opt ns (Suc j)) =
        Inr (\<lambda>a. if a \<in> set (drop (Suc j) ns) then None else (h(ns ! j := None)) a)"
      using Suc.prems True by (intro Suc.IH) auto
    also have "\<dots> = Inr (\<lambda>a. if a \<in> set (drop j ns) then None else h a)"
      using True by (auto simp: fun_eq_iff simp flip: Cons_nth_drop_Suc)
    finally show ?thesis using True n by (simp add: deref_def)
  qed
qed

lemma ba_inv_fuel: "ba_inv b ns \<Longrightarrow> length ns \<le> fresh b"
proof -
  assume inv: "ba_inv b ns"
  then have "set ns \<subseteq> {..<fresh b}" and d: "distinct ns"
    by (auto simp: ba_inv_def chain_def)
  then have "card (set ns) \<le> card {..<fresh b}" by (intro card_mono) auto
  then show ?thesis using d by (simp add: distinct_card)
qed

lemma chain_links:
  "chain h B ns \<Longrightarrow>
   \<forall>i. j \<le> i \<longrightarrow> i < length ns \<longrightarrow> (\<exists>n. h (ns ! i) = Some n \<and> n_next n = nth_opt ns (Suc i))"
  unfolding chain_def by blast

lemma ba_destroy_frees:
  assumes "ba_inv b ns"
  shows "ba_destroy b = Inr (\<lambda>a. if a \<in> set ns then None else heap b a)"
proof -
  have ch: "chain (heap b) (m_baseSize b) ns" and rt: "nth_opt ns 0 = Some (m_root b)"
    using assms by (auto simp: ba_inv_def hd_conv_nth)
  from free_loop_chain [OF chain_links [OF ch] chain_distinct [OF ch], of 0 "Suc (fresh b)"]
  show ?thesis using rt ba_inv_fuel [OF assms] by (simp add: ba_destroy_def)
qed

lemma ba_clear_inv:
  assumes inv: "ba_inv b ns"
  shows "\<exists>b'. ba_clear b = Inr b' \<and> ba_inv b' [m_root b] \<and> p_pos (m_writePos b') = 0 \<and>
           p_pos (m_readPos b') = 0 \<and> m_baseSize b' = m_baseSize b \<and> m_capacity b' = m_baseSize b \<and>
           (\<forall>a \<in> set (tl ns). heap b' a = None) \<and> (\<forall>a. a \<notin> set ns \<longrightarrow> heap b' a = heap b a)"
proof -
  have ch: "chain (heap b) (m_baseSize b) ns" and rt: "m_root b = hd ns" and ne: "ns \<noteq> []"
    using inv by (auto simp: ba_inv_def)
  obtain r rs where ns: "ns = r # rs" using ne by (cases ns) auto
  obtain n where n: "heap b r = Some n" "n_next n = nth_opt ns (Suc 0)" "n_size n = m_baseSize b"
      "length (n_ptr n) = m_baseSize b"
    using chain_node [OF ch, of 0] ns by auto
  have d: "r \<notin> set rs" using chain_distinct [OF ch] ns by simp
  have fl: "free_loop (Suc (fresh b)) (heap b) (n_next n) = Inr (\<lambda>a. if a \<in> set rs then None else heap b a)"
    using free_loop_chain [OF chain_links [OF ch] chain_distinct [OF ch], of "Suc 0" "Suc (fresh b)"]
      ba_inv_fuel [OF inv] by (simp add: n ns)
  let ?h = "(\<lambda>a. if a \<in> set rs then None else heap b a)(r \<mapsto> n\<lparr>n_next := None\<rparr>)"
  let ?b = "b\<lparr>heap := ?h, m_capacity := m_baseSize b,
     m_writePos := \<lparr>p_pos = 0, p_cur = Some r\<rparr>, m_readPos := \<lparr>p_pos = 0, p_cur = Some r\<rparr>\<rparr>"
  have "ba_clear b = Inr ?b" using n d fl rt ns by (simp add: ba_clear_def deref_def del: free_loop.simps)
  moreover have "ba_inv ?b [r]" using inv n ns by (auto simp: ba_inv_def chain_def ptr_at_def)
  ultimately show ?thesis using ns rt d by (intro exI [of _ ?b]) auto
qed

lemma ba_clear_repr:
  assumes "ba_repr b W k"
  shows "\<exists>b'. ba_clear b = Inr b' \<and> ba_repr b' [] 0 \<and> ba_tight b' \<and> m_baseSize b' = m_baseSize b"
proof -
  obtain ns where "ba_inv b ns" using assms by (auto simp: ba_repr_def)
  from ba_clear_inv [OF this] show ?thesis by (auto simp: ba_repr_def ba_tight_def)
qed

subsection \<open>Scatter-gather access\<close>

lemma ba_inv_write_facts:
  assumes inv: "ba_inv b ns" and w: "p_pos (m_writePos b) < m_capacity b"
  obtains i d n where "i < length ns" and "d < m_baseSize b"
    and "i * m_baseSize b + d = p_pos (m_writePos b)" and "offset_of b (p_pos (m_writePos b)) = Inr d"
    and "p_cur (m_writePos b) = Some (ns ! i)" and "deref (heap b) (Some (ns ! i)) = Inr n"
    and "n_size n = m_baseSize b"
    and "m_writePos b = \<lparr>p_pos = p_pos (m_writePos b), p_cur = Some (ns ! i)\<rparr>"
proof -
  note pos = ba_pos [OF inv w]
  have ch: "chain (heap b) (m_baseSize b) ns" using inv by (simp add: ba_inv_def)
  obtain n where "deref (heap b) (Some (ns ! (p_pos (m_writePos b) div m_baseSize b))) = Inr n"
      "n_size n = m_baseSize b"
    using deref_chain [OF ch pos(1)] by blast
  moreover have "p_cur (m_writePos b) = Some (ns ! (p_pos (m_writePos b) div m_baseSize b))"
    using pos(5) inv by (simp add: ba_inv_def)
  ultimately show thesis using that pos by (metis pointer.surjective old.unit.exhaust)
qed

lemma addReadPosition_inv:
  assumes inv: "ba_inv b ns" and n: "p_pos (m_readPos b) + n \<le> p_pos (m_writePos b)"
    and r: "p_pos (m_readPos b) < m_capacity b"
  shows "addReadPosition b (int n) = Inr (b\<lparr>m_readPos := \<lparr>p_pos = p_pos (m_readPos b) + n,
           p_cur = ptr_at ns (m_baseSize b) (p_pos (m_readPos b) + n)\<rparr>\<rparr>)"
proof -
  let ?B = "m_baseSize b" and ?r = "p_pos (m_readPos b)"
  obtain i d nd where pos: "i < length ns" "d < ?B" "i * ?B + d = ?r" "offset_of b ?r = Inr d"
      "p_cur (m_readPos b) = Some (ns ! i)" and de: "deref (heap b) (Some (ns ! i)) = Inr nd"
      "n_size nd = ?B" and rp: "m_readPos b = \<lparr>p_pos = ?r, p_cur = Some (ns ! i)\<rparr>"
    by (rule ba_inv_read_facts [OF inv r])
  have ch: "chain (heap b) ?B ns" and B: "0 < ?B" and cap: "p_pos (m_writePos b) \<le> ?B * length ns"
    using inv by (simp_all add: ba_inv_def)
  have "i * ?B + d + n \<le> ?B * length ns" using n cap pos(3) by simp
  from advance_loop_chain [OF ch B _ pos(2,1) this rp, of "Suc n"] show ?thesis
    using pos de by (simp add: addReadPosition_def)
qed

lemma addWritePosition_inv:
  assumes inv: "ba_inv b ns" and n: "p_pos (m_writePos b) + n \<le> m_capacity b"
    and w: "p_pos (m_writePos b) < m_capacity b"
  shows "addWritePosition b (int n) = Inr (b\<lparr>m_writePos := \<lparr>p_pos = p_pos (m_writePos b) + n,
           p_cur = ptr_at ns (m_baseSize b) (p_pos (m_writePos b) + n)\<rparr>\<rparr>)"
proof -
  let ?B = "m_baseSize b" and ?w = "p_pos (m_writePos b)"
  obtain i d nd where pos: "i < length ns" "d < ?B" "i * ?B + d = ?w" "offset_of b ?w = Inr d"
      "p_cur (m_writePos b) = Some (ns ! i)" and de: "deref (heap b) (Some (ns ! i)) = Inr nd"
      "n_size nd = ?B" and wp: "m_writePos b = \<lparr>p_pos = ?w, p_cur = Some (ns ! i)\<rparr>"
    by (rule ba_inv_write_facts [OF inv w])
  have ch: "chain (heap b) ?B ns" and B: "0 < ?B" and cap: "m_capacity b = ?B * length ns"
    using inv by (simp_all add: ba_inv_def)
  have "i * ?B + d + n \<le> ?B * length ns" using n cap pos(3) by simp
  from advance_loop_chain [OF ch B _ pos(2,1) this wp, of "Suc n"] show ?thesis
    using pos de by (simp add: addWritePosition_def)
qed

lemma getReadBuffers_repr:
  assumes "ba_repr b W k"
  shows "\<exists>iovs. getReadBuffers b len = Inr (min len (length W - k), iovs) \<and>
           iov_total iovs = min len (length W - k) \<and>
           gather (heap b) iovs = Inr (take len (drop k W))"
proof (cases "min len (length W - k) = 0")
  case True
  then show ?thesis using ba_repr_readSize [OF assms] by (auto simp: getReadBuffers_def Let_def)
next
  case False
  obtain ns where inv: "ba_inv b ns" and W: "W = take (p_pos (m_writePos b)) (contents (heap b) ns)"
    and k: "k = p_pos (m_readPos b)"
    using assms by (auto simp: ba_repr_def)
  let ?B = "m_baseSize b" and ?n = "min len (length W - k)"
  have lw: "length W = p_pos (m_writePos b)" and le: "k \<le> length W"
    using ba_repr_length [OF assms] by auto
  have r: "p_pos (m_readPos b) < m_capacity b" using False le lw k inv by (auto simp: ba_inv_def)
  obtain i d nd where pos: "i < length ns" "d < ?B" "i * ?B + d = p_pos (m_readPos b)"
      "offset_of b (p_pos (m_readPos b)) = Inr d" "p_cur (m_readPos b) = Some (ns ! i)"
    and de: "deref (heap b) (Some (ns ! i)) = Inr nd" "n_size nd = ?B"
    by (rule ba_inv_read_facts [OF inv r])
  have ch: "chain (heap b) ?B ns" and B: "0 < ?B" and cap: "p_pos (m_writePos b) \<le> ?B * length ns"
    using inv by (simp_all add: ba_inv_def)
  have bound: "i * ?B + d + ?n \<le> ?B * length ns" using le lw cap pos(3) k by simp
  obtain iovs where il: "iov_loop (Suc ?n) (heap b) (Some (ns ! i)) ?n d (?B - d) [] = Inr iovs"
    and tot: "iov_total iovs = ?n" and cov: "iov_cover ns ?B (i * ?B + d) iovs"
    using iov_loop_chain [OF ch B _ pos(2,1) bound, of "Suc ?n" "[]"] by auto
  have "gather (heap b) iovs = Inr (take ?n (drop k (contents (heap b) ns)))"
    using gather_cover [OF ch cov] unfolding tot pos(3) k .
  also have "take ?n (drop k (contents (heap b) ns)) =
      take ?n (drop k (take (length W) (contents (heap b) ns)))"
    by (rule take_drop_stream [symmetric]) (use le in linarith)
  also have "\<dots> = take ?n (drop k W)" using W lw by simp
  also have "\<dots> = take len (drop k W)" by (simp add: min_def)
  finally have "gather (heap b) iovs = Inr (take len (drop k W))" .
  moreover have "(if len > getReadSize b then getReadSize b else len) = ?n"
    using ba_repr_readSize [OF assms] by (simp add: min_def)
  then have "getReadBuffers b len = Inr (?n, iovs)"
    unfolding getReadBuffers_def Let_def using False pos de il
    by (simp only: if_False bindE_Inr sz_sub_le less_imp_le)
  ultimately show ?thesis using tot by blast
qed

text \<open>
  Receiving: \<open>getWriteBuffers\<close> hands out the vectors, the kernel fills them with the bytes
  that arrived, \<open>addWritePosition\<close> commits them. Together they append those bytes.
\<close>

lemma getWriteBuffers_inv:
  assumes inv: "ba_inv b ns" and cw: "can_write b len" and len: "0 < len"
  shows "\<exists>b' ns' junk iovs. getWriteBuffers b len = Inr (b', len, iovs) \<and> ba_inv b' ns' \<and>
           contents (heap b') ns' = contents (heap b) ns @ junk \<and>
           m_writePos b' = m_writePos b \<and> m_readPos b' = m_readPos b \<and>
           m_baseSize b' = m_baseSize b \<and> p_pos (m_writePos b) < m_capacity b' \<and>
           p_pos (m_writePos b) + len \<le> m_capacity b' \<and>
           iov_total iovs = len \<and> iov_cover ns' (m_baseSize b) (p_pos (m_writePos b)) iovs"
proof -
  let ?w = "p_pos (m_writePos b)"
  obtain b1 ns1 junk where ac: "addCapacity b len = Inr b1" and inv1: "ba_inv b1 ns1"
    and co1: "contents (heap b1) ns1 = contents (heap b) ns @ junk"
    and same: "m_writePos b1 = m_writePos b" "m_readPos b1 = m_readPos b" "m_baseSize b1 = m_baseSize b"
    and w1: "?w < m_capacity b1" and fit: "?w + len \<le> m_capacity b1"
    using addCapacity_room [OF inv cw len] by blast
  let ?B = "m_baseSize b1"
  have w1': "p_pos (m_writePos b1) < m_capacity b1" using w1 same by simp
  obtain i d nd where pos: "i < length ns1" "d < ?B" "i * ?B + d = p_pos (m_writePos b1)"
      "offset_of b1 (p_pos (m_writePos b1)) = Inr d" "p_cur (m_writePos b1) = Some (ns1 ! i)"
    and de: "deref (heap b1) (Some (ns1 ! i)) = Inr nd" "n_size nd = ?B"
    by (rule ba_inv_write_facts [OF inv1 w1'])
  have ch: "chain (heap b1) ?B ns1" and B: "0 < ?B" and cap: "m_capacity b1 = ?B * length ns1"
    using inv1 by (simp_all add: ba_inv_def)
  have bound: "i * ?B + d + len \<le> ?B * length ns1" using fit cap pos(3) same by simp
  obtain iovs where il: "iov_loop (Suc len) (heap b1) (Some (ns1 ! i)) len d (?B - d) [] = Inr iovs"
    and tot: "iov_total iovs = len" and cov: "iov_cover ns1 ?B (i * ?B + d) iovs"
    using iov_loop_chain [OF ch B _ pos(2,1) bound, of "Suc len" "[]"] by auto
  have "getWriteBuffers b len = Inr (b1, len, iovs)"
    using len ac pos de il by (simp add: getWriteBuffers_def)
  then show ?thesis using inv1 co1 same w1 fit tot cov pos(3) by auto
qed

lemma ba_recv_repr:
  assumes repr: "ba_repr b W k" and cw: "can_write b len" and bs: "0 < length bs" "length bs \<le> len"
  shows "\<exists>b1 iovs h b2. getWriteBuffers b len = Inr (b1, len, iovs) \<and> iov_total iovs = len \<and>
           scatter (heap b1) iovs bs = Inr h \<and>
           addWritePosition (b1\<lparr>heap := h\<rparr>) (int (length bs)) = Inr b2 \<and> ba_repr b2 (W @ bs) k"
proof -
  let ?w = "p_pos (m_writePos b)" and ?B = "m_baseSize b"
  obtain ns where inv: "ba_inv b ns" and W: "W = take ?w (contents (heap b) ns)"
    and k: "k = p_pos (m_readPos b)"
    using repr by (auto simp: ba_repr_def)
  have len: "0 < len" using bs by (rule less_le_trans)
  obtain b1 ns1 junk iovs where gw: "getWriteBuffers b len = Inr (b1, len, iovs)"
    and inv1: "ba_inv b1 ns1" and co1: "contents (heap b1) ns1 = contents (heap b) ns @ junk"
    and same: "m_writePos b1 = m_writePos b" "m_readPos b1 = m_readPos b" "m_baseSize b1 = ?B"
    and w1: "?w < m_capacity b1" and fit: "?w + len \<le> m_capacity b1"
    and tot: "iov_total iovs = len" and cov: "iov_cover ns1 ?B ?w iovs"
    using getWriteBuffers_inv [OF inv cw len] by blast
  have ch: "chain (heap b1) ?B ns1" and cap: "m_capacity b1 = ?B * length ns1"
    using inv1 same by (simp_all add: ba_inv_def)
  obtain h where sc: "scatter (heap b1) iovs bs = Inr h" and ch': "chain h ?B ns1"
    and co': "contents h ns1 = overwrite (contents (heap b1) ns1) ?w bs"
    using scatter_cover [OF ch cov] bs(2) fit tot cap by auto
  let ?b = "b1\<lparr>heap := h\<rparr>"
  have invb: "ba_inv ?b ns1" using inv1 ch' same by (auto simp: ba_inv_def)
  have fit': "p_pos (m_writePos ?b) + length bs \<le> m_capacity ?b" using fit bs same by simp
  let ?b2 = "?b\<lparr>m_writePos := \<lparr>p_pos = ?w + length bs, p_cur = ptr_at ns1 ?B (?w + length bs)\<rparr>\<rparr>"
  have aw: "addWritePosition ?b (int (length bs)) = Inr ?b2"
    using addWritePosition_inv [OF invb fit'] w1 same by simp
  have inv2: "ba_inv ?b2 ns1" using invb fit' same by (auto simp: ba_inv_def)
  have "?w \<le> length (contents (heap b) ns)" using inv ba_inv_length [OF inv] by (simp add: ba_inv_def)
  then have "take (?w + length bs) (contents h ns1) = W @ bs"
    unfolding co' using take_overwrite_all [of ?w "contents (heap b1) ns1" bs] co1 W by simp
  then have "ba_repr ?b2 (W @ bs) k" using inv2 k same by (auto simp: ba_repr_def)
  then show ?thesis using gw tot sc aw by blast
qed

lemma ba_send_repr:
  assumes "ba_repr b W k" and "0 < n" and "k + n \<le> length W"
  shows "\<exists>b'. addReadPosition b (int n) = Inr b' \<and> ba_repr b' W (k + n)"
proof -
  obtain ns where inv: "ba_inv b ns" and W: "W = take (p_pos (m_writePos b)) (contents (heap b) ns)"
    and k: "k = p_pos (m_readPos b)"
    using assms(1) by (auto simp: ba_repr_def)
  have n: "p_pos (m_readPos b) + n \<le> p_pos (m_writePos b)"
    using assms(3) k ba_repr_length [OF assms(1)] by simp
  then have r: "p_pos (m_readPos b) < m_capacity b" using inv assms(2) by (auto simp: ba_inv_def)
  show ?thesis
    using addReadPosition_inv [OF inv n r] ba_inv_set_read [OF inv n] by (auto simp: ba_repr_def k W)
qed

subsection \<open>Files\<close>

text \<open>
  Once the position is at the start of a block, \<open>toFile\<close> writes out exactly the unread bytes.
\<close>

lemma toFile_loop_aligned:
  assumes "chain (heap b) (m_baseSize b) ns" and "0 < m_baseSize b" and "rs < fuel"
    and "i * m_baseSize b + rs \<le> m_baseSize b * length ns"
  shows "toFile_loop fuel b (int rs) (int (i * m_baseSize b)) (nth_opt ns i) out =
           Inr (out @ take rs (drop (i * m_baseSize b) (contents (heap b) ns)))"
  using assms
proof (induction fuel arbitrary: rs i out)
  case 0
  then show ?case by simp
next
  case (Suc fuel)
  let ?B = "m_baseSize b"
  note ch = Suc.prems(1) and B = Suc.prems(2)
  show ?case
  proof (cases "rs = 0")
    case True
    then show ?thesis by simp
  next
    case False
    then have i: "i < length ns" using Suc.prems(4) by (intro in_blocks [of i ?B 0]) linarith
    obtain n where de: "deref (heap b) (Some (ns ! i)) = Inr n" and nx: "n_next n = nth_opt ns (Suc i)"
      using deref_chain [OF ch i] by blast
    let ?l = "min rs ?B"
    have le: "0 + ?l \<le> ?B" by simp
    have ld: "load (heap b) (Some (ns ! i)) 0 ?l = Inr (take ?l (drop (i * ?B) (contents (heap b) ns)))"
      using load_chain [OF ch i le] by simp
    have of0: "offset_of b (nat (int (i * ?B))) = Inr 0" using B by (simp only: nat_int) (simp add: offset_of_def)
    have len: "(if int rs > int ?B then int ?B else int rs) - int 0 = int ?l" by simp
    have step: "toFile_loop (Suc fuel) b (int rs) (int (i * ?B)) (nth_opt ns i) out =
        toFile_loop fuel b (int (rs - ?l)) (int (i * ?B + ?l)) (nth_opt ns (Suc i))
          (out @ take ?l (drop (i * ?B) (contents (heap b) ns)))"
      unfolding toFile_loop.simps of0 bindE_Inr Let_def len
      using False i de nx ld by (simp add: of_nat_diff)
    show ?thesis
    proof (cases "rs \<le> ?B")
      case True
      then obtain f where "fuel = Suc f" using Suc.prems(3) False by (cases fuel) auto
      then show ?thesis unfolding step using True by simp
    next
      case False
      then have l: "?l = ?B" and p: "i * ?B + ?B = Suc i * ?B" by simp_all
      have bound: "Suc i * ?B + (rs - ?B) \<le> ?B * length ns" using Suc.prems(4) False by simp
      have rsB: "?B + (rs - ?B) = rs" using False by simp
      have "toFile_loop fuel b (int (rs - ?B)) (int (Suc i * ?B)) (nth_opt ns (Suc i))
          (out @ take ?B (drop (i * ?B) (contents (heap b) ns))) =
          Inr ((out @ take ?B (drop (i * ?B) (contents (heap b) ns))) @
            take (rs - ?B) (drop (Suc i * ?B) (contents (heap b) ns)))"
        using Suc.prems False B bound by (intro Suc.IH) auto
      also have "\<dots> = Inr (out @ take rs (drop (i * ?B) (contents (heap b) ns)))"
        using take_drop_take_drop [of ?B "i * ?B" "contents (heap b) ns" "rs - ?B", unfolded rsB]
        by (simp add: add.commute)
      finally show ?thesis unfolding step l p .
    qed
  qed
qed

lemma ba_toFile_aligned:
  assumes "ba_repr b W k" and "k mod m_baseSize b = 0"
  shows "ba_toFile True b = Inr (True, drop k W)"
proof -
  obtain ns where inv: "ba_inv b ns" and W: "W = take (p_pos (m_writePos b)) (contents (heap b) ns)"
    and k: "k = p_pos (m_readPos b)"
    using assms(1) by (auto simp: ba_repr_def)
  let ?B = "m_baseSize b" and ?n = "length W - k"
  have lw: "length W = p_pos (m_writePos b)" and le: "k \<le> length W"
    using ba_repr_length [OF assms(1)] by auto
  have ch: "chain (heap b) ?B ns" and B: "0 < ?B" and cap: "p_pos (m_writePos b) \<le> ?B * length ns"
    and cr: "p_cur (m_readPos b) = nth_opt ns (k div ?B)"
    using inv by (simp_all add: ba_inv_def k ptr_at_def)
  have al: "k div ?B * ?B = k" using assms(2) by (simp add: mod_0_imp_dvd)
  have bound: "k div ?B * ?B + ?n \<le> ?B * length ns" using le lw cap al by simp
  have "ba_toFile True b = Inr (True, take ?n (drop k (contents (heap b) ns)))"
    using toFile_loop_aligned [OF ch B _ bound, of "?n + fresh b + 2" "[]"]
      ba_repr_readSize [OF assms(1)] by (simp add: ba_toFile_def al cr flip: k)
  also have "take ?n (drop k (contents (heap b) ns)) = take ?n (drop k (take (length W) (contents (heap b) ns)))"
    by (rule take_drop_stream [symmetric]) (use le in linarith)
  finally show ?thesis using W lw by simp
qed

lemma ba_fromFile_fresh:
  assumes "0 < sz" and "3 * sz < size_max"
  shows "length file \<le> sz \<Longrightarrow>
      \<exists>b'. ba_fromFile True (ba_create junk sz) file = Inr (True, b') \<and> ba_repr b' file 0"
    and "sz < length file \<Longrightarrow> ba_fromFile True (ba_create junk sz) file = Inl NullDeref"
proof -
  let ?b = "ba_create junk sz"
  have r: "ba_repr ?b [] 0" and t: "ba_tight ?b" using assms by (simp_all add: ba_repr_create)
  have B: "m_baseSize ?b = sz" and C: "m_capacity ?b = sz" "p_pos (m_writePos ?b) = 0"
    by (simp_all add: ba_create_def)
  have cw: "can_write ?b (length (take sz file))" using assms C B by (simp add: can_write_def)
  have "length (take sz file) \<le> m_capacity ?b - p_pos (m_writePos ?b)" using C by simp
  then obtain b' where w: "ba_write ?b (take sz file) = Inr b'" and r': "ba_repr b' (take sz file) 0"
    and B': "m_baseSize b' = sz" and C': "m_capacity b' = sz"
    using ba_write_repr [OF r cw] B C by auto
  have step: "fromFile_loop (Suc fuel) ?b file =
      (if length file < sz then Inr b' else fromFile_loop fuel b' (drop sz file))" for fuel
    using w B by simp
  note fromFile_loop.simps [simp del]
  show "\<exists>b'. ba_fromFile True ?b file = Inr (True, b') \<and> ba_repr b' file 0" if le: "length file \<le> sz"
  proof (cases "length file < sz")
    case True
    then show ?thesis using step r' by (simp add: ba_fromFile_def)
  next
    case False
    then have l: "length file = sz" using le by simp
    then obtain f where f: "length file = Suc f" using assms by (cases "length file") auto
    have "fromFile_loop (Suc f) b' [] = Inr b'"
      using assms B' by (simp add: fromFile_loop.simps ba_write_def)
    then show ?thesis using step [of "Suc f"] r' l f by (simp add: ba_fromFile_def)
  qed
  show "ba_fromFile True ?b file = Inl NullDeref" if gt: "sz < length file"
  proof -
    obtain f where f: "length file = Suc f" using gt by (cases "length file") auto
    have "p_pos (m_writePos b') = sz" using ba_repr_length [OF r'] gt by simp
    then have "ba_write b' (take sz (drop sz file)) = Inl NullDeref"
      using gt assms C' by (intro ba_write_full [OF r']) auto
    then show ?thesis using step [of "Suc f"] f gt B' by (simp add: ba_fromFile_def fromFile_loop.simps)
  qed
qed

section \<open>The buffer's contract\<close>

lemma create_simps [simp]:
  "m_baseSize (ba_create junk sz) = sz" "m_capacity (ba_create junk sz) = sz"
  "p_pos (m_writePos (ba_create junk sz)) = 0"
  by (simp_all add: ba_create_def)

lemma create4: "ba_repr (ba_create (\<lambda>_ _. 0) 4) [] 0" "can_write (ba_create (\<lambda>_ _. 0) 4) 6"
proof -
  show "ba_repr (ba_create (\<lambda>_ _. 0) 4) [] 0" by (rule ba_repr_create) (simp_all add: size_max_def)
  have "ba_tight (ba_create (\<lambda>_ _. 0) 4)" by (rule ba_repr_create) (simp_all add: size_max_def)
  then show "can_write (ba_create (\<lambda>_ _. 0) 4) 6" by (simp add: can_write_def size_max_def)
qed

lemma create4_write:
  "length bs = 6 \<Longrightarrow> \<exists>b'. ba_write (ba_create (\<lambda>_ _. 0) 4) bs = Inr b' \<and> ba_repr b' bs 0"
  using ba_write_repr [OF create4(1), of bs] create4(2) by auto

text \<open>
  C3: \<open>write\<close> appends. On a buffer that holds the stream \<open>W\<close> with \<open>k\<close> bytes consumed, and
  whose write pointer lies inside a block, writing \<open>buf\<close> returns, whatever block boundaries it
  crosses and however many blocks it has to allocate, and leaves the stream \<open>W @ buf\<close>, the
  consumed count and the block size as they were.
\<close>

theorem ba_write_appends:
  assumes "ba_repr b W k" and "can_write b (length buf)"
  shows "\<exists>b'. ba_write b buf = Inr b' \<and> ba_repr b' (W @ buf) k \<and> m_baseSize b' = m_baseSize b"
  using ba_write_repr [OF assms] by blast

theorem ba_write_appends_witness:
  "\<exists>b'. ba_write (ba_create (\<lambda>_ _. 0) 4) [1, 2, 3, 4, 5, 6] = Inr b' \<and>
     ba_repr b' [1, 2, 3, 4, 5, 6] 0 \<and> m_baseSize b' = 4"
proof -
  have "length ([1, 2, 3, 4, 5, 6] :: byte list) = 6" by simp
  then have "can_write (ba_create (\<lambda>_ _. 0) 4) (length ([1, 2, 3, 4, 5, 6] :: byte list))"
    using create4(2) by (simp only:)
  from ba_write_appends [OF create4(1) this] show ?thesis by simp
qed

text \<open>
  C12: \<open>read\<close> is first in, first out. While bytes are unread, reading \<open>n\<close> bytes returns exactly the
  next \<open>n\<close> bytes of the stream and consumes them; asking for more than \<open>getReadSize()\<close> throws
  \<open>std::out_of_range\<close>.
\<close>

theorem ba_read_fifo:
  assumes "ba_repr b W k" and "k < length W"
  shows "if n \<le> getReadSize b
         then \<exists>b'. ba_read b n = Inr (take n (drop k W), b') \<and> ba_repr b' W (k + n)
         else ba_read b n = Inl OutOfRange"
proof -
  have "k < m_capacity b"
    using assms ba_repr_length [OF assms(1)] by (auto simp: ba_repr_def ba_inv_def)
  then have "k + n \<le> length W \<Longrightarrow> \<exists>b'. ba_read b n = Inr (take n (drop k W), b') \<and> ba_repr b' W (k + n)"
    using ba_read_repr [OF assms(1)] by blast
  moreover have "n \<le> getReadSize b \<longleftrightarrow> k + n \<le> length W"
    using ba_repr_readSize [OF assms(1)] assms(2) by auto
  ultimately show ?thesis using ba_read_short [OF assms(1), of n] by simp
qed

lemma written6: obtains b where "ba_repr b [1, 2, 3, 4, 5, 6] 0"
  using create4_write [of "[1, 2, 3, 4, 5, 6]"] by auto

theorem ba_read_fifo_witness:
  "\<exists>b b'. ba_read b 5 = Inr ([1, 2, 3, 4, 5], b') \<and> ba_read b 7 = Inl OutOfRange"
proof -
  obtain b where b: "ba_repr b [1, 2, 3, 4, 5, 6] 0" by (rule written6)
  then show ?thesis
    using ba_read_fifo [OF b, of 5] ba_read_fifo [OF b, of 7] ba_repr_readSize [OF b] by force
qed

text \<open>
  \<open>toString\<close> returns the unread bytes and nothing else, for any buffer and in particular for an
  empty one.
\<close>

theorem ba_toString_unread:
  assumes "ba_repr b W k"
  shows "ba_toString b = Inr (drop k W)"
  using assms by (rule ba_toString_repr)

theorem ba_toString_unread_witness: "\<exists>b. ba_toString b = Inr [1, 2, 3, 4, 5, 6]"
proof -
  obtain b where "ba_repr b [1, 2, 3, 4, 5, 6] 0" by (rule written6)
  from ba_toString_unread [OF this] show ?thesis by auto
qed

text \<open>
  C32: Receiving through vectors. \<open>getWriteBuffers\<close> reserves room and hands out vectors that
  cover exactly \<open>len\<close> bytes of the free space; when \<open>recvmsg\<close> fills them with the \<open>bs\<close> that
  arrived and \<open>addWritePosition\<close> is told so, the buffer holds \<open>W @ bs\<close>.
\<close>

theorem ba_receive_appends:
  assumes "ba_repr b W k" and "can_write b len" and "0 < length bs" and "length bs \<le> len"
  shows "\<exists>b1 iovs h b2. getWriteBuffers b len = Inr (b1, len, iovs) \<and> iov_total iovs = len \<and>
           scatter (heap b1) iovs bs = Inr h \<and>
           addWritePosition (b1\<lparr>heap := h\<rparr>) (int (length bs)) = Inr b2 \<and> ba_repr b2 (W @ bs) k"
  using assms by (rule ba_recv_repr)

theorem ba_receive_appends_witness:
  "\<exists>b1 iovs h b2. getWriteBuffers (ba_create (\<lambda>_ _. 0) 4) 6 = Inr (b1, 6, iovs) \<and> iov_total iovs = 6 \<and>
     scatter (heap b1) iovs [7, 8, 9, 10, 11] = Inr h \<and>
     addWritePosition (b1\<lparr>heap := h\<rparr>) 5 = Inr b2 \<and> ba_repr b2 [7, 8, 9, 10, 11] 0"
  using ba_receive_appends [OF create4, of "[7, 8, 9, 10, 11]"] by simp

text \<open>
  C33: Sending through vectors. The vectors of \<open>getReadBuffers\<close> cover the first
  \<open>min len (getReadSize())\<close> unread bytes, gathering them yields those bytes, and advancing the
  read pointer by what was sent consumes exactly them.
\<close>

theorem ba_send_consumes:
  assumes "ba_repr b W k" and "0 < len" and "k < length W"
  shows "\<exists>n iovs b'. getReadBuffers b len = Inr (n, iovs) \<and> n = min len (getReadSize b) \<and>
           gather (heap b) iovs = Inr (take n (drop k W)) \<and>
           addReadPosition b (int n) = Inr b' \<and> ba_repr b' W (k + n)"
proof -
  let ?n = "min len (length W - k)"
  have "0 < ?n" and "k + ?n \<le> length W" using assms(2,3) by auto
  from ba_send_repr [OF assms(1) this] getReadBuffers_repr [OF assms(1), of len] show ?thesis
    using ba_repr_readSize [OF assms(1)] by (auto simp: min_def split: if_splits)
qed

theorem ba_send_consumes_witness:
  "\<exists>b iovs b'. getReadBuffers b 5 = Inr (5, iovs) \<and> gather (heap b) iovs = Inr [1, 2, 3, 4, 5] \<and>
     addReadPosition b 5 = Inr b' \<and> ba_repr b' [1, 2, 3, 4, 5, 6] 5"
proof -
  obtain b where b: "ba_repr b [1, 2, 3, 4, 5, 6] 0" by (rule written6)
  show ?thesis using ba_send_consumes [OF b, of 5] ba_repr_readSize [OF b] by (auto simp: min_def)
qed

text \<open>
  C34: \<open>clear\<close> empties the buffer for reuse and the destructor frees every block of the list and
  nothing else: no block is leaked and none is freed twice.
\<close>

theorem ba_clear_and_destroy:
  assumes "ba_inv b ns"
  shows "(\<exists>b'. ba_clear b = Inr b' \<and> ba_repr b' [] 0 \<and> m_baseSize b' = m_baseSize b) \<and>
         ba_destroy b = Inr (\<lambda>a. if a \<in> set ns then None else heap b a)"
  using ba_clear_repr [of b "take (p_pos (m_writePos b)) (contents (heap b) ns)" "p_pos (m_readPos b)"]
    ba_destroy_frees [OF assms] assms by (auto simp: ba_repr_def)

theorem ba_clear_and_destroy_witness:
  "ba_destroy (ba_create (\<lambda>_ _. 0) 4) = Inr (\<lambda>a. if a \<in> set [0] then None else heap (ba_create (\<lambda>_ _. 0) 4) a)"
proof -
  have "ba_inv (ba_create (\<lambda>_ _. 0) 4) [0]" by (rule ba_inv_create) (simp_all add: size_max_def)
  from ba_clear_and_destroy [OF this] show ?thesis by blast
qed

text \<open>
  The write pointer of a full buffer is null. Once the bytes written fill the last block
  exactly, every further non-empty write dereferences it: \<open>addCapacity\<close> hangs the new
  block on \<open>m_writePos.cur->next\<close> before it looks at \<open>old_cap == 0\<close>.
\<close>

theorem ba_write_full_crashes:
  assumes "ba_repr b W k" and "length W = m_capacity b" and "buf \<noteq> []"
  shows "ba_write b buf = Inl NullDeref"
  using assms ba_write_full [OF assms(1)] ba_repr_length [OF assms(1)] by simp

theorem ba_write_full_crashes_witness:
  "\<exists>b. ba_write (ba_create (\<lambda>_ _. 0) 4) [1, 2, 3, 4] = Inr b \<and> ba_write b [5] = Inl NullDeref"
proof -
  have "can_write (ba_create (\<lambda>_ _. 0) 4) (length ([1, 2, 3, 4] :: byte list))"
    by (simp add: can_write_def)
  from ba_write_repr [OF create4(1) this] obtain b where
    w: "ba_write (ba_create (\<lambda>_ _. 0) 4) [1, 2, 3, 4] = Inr b" and "ba_repr b [1, 2, 3, 4] 0"
    and "m_capacity b = 4" by auto
  then have "ba_write b [5] = Inl NullDeref" by (intro ba_write_full_crashes) auto
  with w show ?thesis by blast
qed

text \<open>
  Files. \<open>toFile\<close> writes exactly the unread bytes when the read pointer is at the start of a
  block, and \<open>fromFile\<close> on a fresh buffer stores exactly the file when it fits in one block; a file
  longer than one block fills the first block exactly and crashes in the second \<open>write\<close>.
\<close>

theorem ba_files:
  assumes "ba_repr b W k" and "k mod m_baseSize b = 0" and "0 < sz" and "3 * sz < size_max"
  shows "ba_toFile True b = Inr (True, drop k W) \<and>
         (if length file \<le> sz
          then \<exists>b'. ba_fromFile True (ba_create junk sz) file = Inr (True, b') \<and> ba_repr b' file 0
          else ba_fromFile True (ba_create junk sz) file = Inl NullDeref)"
  using ba_toFile_aligned [OF assms(1,2)] ba_fromFile_fresh [OF assms(3,4)] by auto

theorem ba_files_witness:
  "ba_fromFile True (ba_create (\<lambda>_ _. 0) 4) [1, 2, 3, 4, 5] = Inl NullDeref \<and>
   (\<exists>b. ba_toFile True b = Inr (True, [1, 2, 3, 4, 5, 6]))"
proof -
  obtain b where b: "ba_repr b [1, 2, 3, 4, 5, 6] 0" by (rule written6)
  show ?thesis
    using ba_files [OF b, of 4 "[1, 2, 3, 4, 5]" "\<lambda>_ _. 0"] by (auto simp: size_max_def)
qed

end
