(* ===== verification/Serializer.thy ===== *)
theory Serializer
  imports ByteArray_Props
begin

section \<open>Typed reads and writes of the byte buffer (net/ByteArray)\<close>

text \<open>
  The \<open>writeX\<close> and \<open>readX\<close> members of \<open>spike/net/ByteArray.cpp\<close>: fixed-width integers in
  network byte order, base-128 varints, zigzag, floating point by its object representation,
  and strings with five kinds of length prefix. A signed integer is the word of its width,
  read by \<open>sint\<close>; a float or a double is the word of its bits. Signed overflow, which the
  zigzag encoders can run into, is undefined behaviour and a fault here.
\<close>

subsection \<open>Fixed width\<close>

definition writeFint8 :: "byte_array \<Rightarrow> u8 \<Rightarrow> byte_array res" where
  "writeFint8 b value = ba_write b (mem_bytes value)"

definition writeFuint8 :: "byte_array \<Rightarrow> u8 \<Rightarrow> byte_array res" where
  "writeFuint8 b value = ba_write b (mem_bytes value)"

definition writeFint16 :: "byte_array \<Rightarrow> u16 \<Rightarrow> byte_array res" where
  "writeFint16 b value = (let v = hostToNetwork value in ba_write b (mem_bytes v))"

definition writeFuint16 :: "byte_array \<Rightarrow> u16 \<Rightarrow> byte_array res" where
  "writeFuint16 b value = (let v = hostToNetwork value in ba_write b (mem_bytes v))"

text \<open>\<open>writeFint32\<close> computes the swapped \<open>v\<close> and then writes \<open>value\<close>.\<close>

definition writeFint32 :: "byte_array \<Rightarrow> u32 \<Rightarrow> byte_array res" where
  "writeFint32 b value = (let v = hostToNetwork value in ba_write b (mem_bytes value))"

definition writeFuint32 :: "byte_array \<Rightarrow> u32 \<Rightarrow> byte_array res" where
  "writeFuint32 b value = (let v = hostToNetwork value in ba_write b (mem_bytes v))"

definition writeFint64 :: "byte_array \<Rightarrow> u64 \<Rightarrow> byte_array res" where
  "writeFint64 b value = (let v = hostToNetwork value in ba_write b (mem_bytes v))"

definition writeFuint64 :: "byte_array \<Rightarrow> u64 \<Rightarrow> byte_array res" where
  "writeFuint64 b value = (let v = hostToNetwork value in ba_write b (mem_bytes v))"

definition readFint8 :: "byte_array \<Rightarrow> (u8 \<times> byte_array) res" where
  "readFint8 b = bindE (ba_read b 1) (\<lambda>(v, b). Inr (of_mem_bytes v, b))"

definition readFuint8 :: "byte_array \<Rightarrow> (u8 \<times> byte_array) res" where
  "readFuint8 b = bindE (ba_read b 1) (\<lambda>(v, b). Inr (of_mem_bytes v, b))"

definition readFint16 :: "byte_array \<Rightarrow> (u16 \<times> byte_array) res" where
  "readFint16 b = bindE (ba_read b 2) (\<lambda>(v, b). Inr (networkToHost (of_mem_bytes v), b))"

definition readFuint16 :: "byte_array \<Rightarrow> (u16 \<times> byte_array) res" where
  "readFuint16 b = bindE (ba_read b 2) (\<lambda>(v, b). Inr (networkToHost (of_mem_bytes v), b))"

definition readFint32 :: "byte_array \<Rightarrow> (u32 \<times> byte_array) res" where
  "readFint32 b = bindE (ba_read b 4) (\<lambda>(v, b). Inr (networkToHost (of_mem_bytes v), b))"

definition readFuint32 :: "byte_array \<Rightarrow> (u32 \<times> byte_array) res" where
  "readFuint32 b = bindE (ba_read b 4) (\<lambda>(v, b). Inr (networkToHost (of_mem_bytes v), b))"

definition readFint64 :: "byte_array \<Rightarrow> (u64 \<times> byte_array) res" where
  "readFint64 b = bindE (ba_read b 8) (\<lambda>(v, b). Inr (networkToHost (of_mem_bytes v), b))"

definition readFuint64 :: "byte_array \<Rightarrow> (u64 \<times> byte_array) res" where
  "readFuint64 b = bindE (ba_read b 8) (\<lambda>(v, b). Inr (networkToHost (of_mem_bytes v), b))"

subsection \<open>Zigzag\<close>

definition EncodeZigzag32 :: "u32 \<Rightarrow> u32 res" where
  "EncodeZigzag32 v =
     (if sint v < 0
      then if - sint v \<ge> 2 ^ 31 then Inl SignedOverflow else Inr ((- v) * 2 - 1)
      else if sint v * 2 \<ge> 2 ^ 31 then Inl SignedOverflow else Inr (v * 2))"

definition EncodeZigzag64 :: "u64 \<Rightarrow> u64 res" where
  "EncodeZigzag64 v =
     (if sint v < 0
      then if - sint v \<ge> 2 ^ 63 then Inl SignedOverflow else Inr ((- v) * 2 - 1)
      else if sint v * 2 \<ge> 2 ^ 63 then Inl SignedOverflow else Inr (v * 2))"

definition DecodeZigzag32 :: "u32 \<Rightarrow> u32" where
  "DecodeZigzag32 v = (drop_bit 1 v) XOR (- (v AND 1))"

definition DecodeZigzag64 :: "u64 \<Rightarrow> u64" where
  "DecodeZigzag64 v = (drop_bit 1 v) XOR (- (v AND 1))"

subsection \<open>Varints\<close>

text \<open>
  The array \<open>tmp\<close> that \<open>writeUint32\<close> and \<open>writeUint64\<close> fill: the two loops are the same text
  at two widths. \<open>tmp\<close> has 5 and 10 elements; that the loop stays inside is a theorem.
\<close>

function varint_bytes :: "'a::len word \<Rightarrow> byte list" where
  "varint_bytes value =
     (if unat value \<ge> 0x80
      then ucast ((value AND 0x7F) OR 0x80) # varint_bytes (drop_bit 7 value)
      else [ucast value])"
  by pat_completeness auto
termination
proof (relation "measure unat")
  fix v :: "'a word" assume "unat v \<ge> 0x80"
  then show "(drop_bit 7 v, v) \<in> measure unat"
    by (simp only: in_measure unat_drop_bit_eq) (simp add: drop_bit_eq_div)
qed simp

declare varint_bytes.simps [simp del]

definition writeUint32 :: "byte_array \<Rightarrow> u32 \<Rightarrow> byte_array res" where
  "writeUint32 b value = ba_write b (varint_bytes value)"

definition writeUint64 :: "byte_array \<Rightarrow> u64 \<Rightarrow> byte_array res" where
  "writeUint64 b value = ba_write b (varint_bytes value)"

definition writeInt32 :: "byte_array \<Rightarrow> u32 \<Rightarrow> byte_array res" where
  "writeInt32 b value = bindE (EncodeZigzag32 value) (\<lambda>v. writeUint32 b v)"

definition writeInt64 :: "byte_array \<Rightarrow> u64 \<Rightarrow> byte_array res" where
  "writeInt64 b value = bindE (EncodeZigzag64 value) (\<lambda>v. writeUint64 b v)"

text \<open>The loop \<open>for (int i = 0; i < width; i += 7)\<close> of \<open>readUint32\<close> and \<open>readUint64\<close>.\<close>

function readVarint_loop :: "byte_array \<Rightarrow> nat \<Rightarrow> 'a::len word \<Rightarrow> ('a word \<times> byte_array) res" where
  "readVarint_loop b i result =
     (if i < LENGTH('a) then
        bindE (readFuint8 b) (\<lambda>(c, b).
          if unat c < 0x80 then Inr (result OR push_bit i (ucast c), b)
          else readVarint_loop b (i + 7) (result OR push_bit i (ucast (c AND 0x7f))))
      else Inr (result, b))"
  by pat_completeness auto
termination
  by (relation "measure (\<lambda>(b, i, r :: 'a word). LENGTH('a) - i)") auto

declare readVarint_loop.simps [simp del]

definition readUint32 :: "byte_array \<Rightarrow> (u32 \<times> byte_array) res" where
  "readUint32 b = readVarint_loop b 0 0"

definition readUint64 :: "byte_array \<Rightarrow> (u64 \<times> byte_array) res" where
  "readUint64 b = readVarint_loop b 0 0"

definition readInt32 :: "byte_array \<Rightarrow> (u32 \<times> byte_array) res" where
  "readInt32 b = bindE (readUint32 b) (\<lambda>(v, b). Inr (DecodeZigzag32 v, b))"

definition readInt64 :: "byte_array \<Rightarrow> (u64 \<times> byte_array) res" where
  "readInt64 b = bindE (readUint64 b) (\<lambda>(v, b). Inr (DecodeZigzag64 v, b))"

subsection \<open>Floating point\<close>

definition writeFloat :: "byte_array \<Rightarrow> u32 \<Rightarrow> byte_array res" where
  "writeFloat b value = (let v = of_mem_bytes (mem_bytes value) in writeFuint32 b v)"

definition writeDouble :: "byte_array \<Rightarrow> u64 \<Rightarrow> byte_array res" where
  "writeDouble b value = (let v = of_mem_bytes (mem_bytes value) in writeFuint64 b v)"

definition readFloat :: "byte_array \<Rightarrow> (u32 \<times> byte_array) res" where
  "readFloat b = bindE (readFuint32 b) (\<lambda>(v, b). Inr (of_mem_bytes (mem_bytes v), b))"

definition readDouble :: "byte_array \<Rightarrow> (u64 \<times> byte_array) res" where
  "readDouble b = bindE (readFuint64 b) (\<lambda>(v, b). Inr (of_mem_bytes (mem_bytes v), b))"

subsection \<open>Strings\<close>

text \<open>The length argument is converted to the integer type of the prefix, modulo its width.\<close>

definition writeStringF16 :: "byte_array \<Rightarrow> byte list \<Rightarrow> byte_array res" where
  "writeStringF16 b value =
     bindE (writeFuint16 b (of_nat (length value))) (\<lambda>b. ba_write b value)"

definition writeStringF32 :: "byte_array \<Rightarrow> byte list \<Rightarrow> byte_array res" where
  "writeStringF32 b value =
     bindE (writeFuint32 b (of_nat (length value))) (\<lambda>b. ba_write b value)"

definition writeStringF64 :: "byte_array \<Rightarrow> byte list \<Rightarrow> byte_array res" where
  "writeStringF64 b value =
     bindE (writeFuint64 b (of_nat (length value))) (\<lambda>b. ba_write b value)"

definition writeStringVint :: "byte_array \<Rightarrow> byte list \<Rightarrow> byte_array res" where
  "writeStringVint b value =
     bindE (writeUint64 b (of_nat (length value))) (\<lambda>b. ba_write b value)"

definition writeStringWithoutLength :: "byte_array \<Rightarrow> byte list \<Rightarrow> byte_array res" where
  "writeStringWithoutLength b value = ba_write b value"

text \<open>
  \<open>buff.resize(len); read(&buff[0], len)\<close>, the tail of every string reader. \<open>resize\<close> throws
  \<open>std::length_error\<close> above \<open>max_size()\<close>, which is \<open>2^62 - 1\<close> in libstdc++.
\<close>

definition string_max_size :: nat where
  "string_max_size = 2 ^ 62 - 1"

definition resize_and_read :: "byte_array \<Rightarrow> nat \<Rightarrow> (byte list \<times> byte_array) res" where
  "resize_and_read b len = (if len > string_max_size then Inl LengthError else ba_read b len)"

definition readStringF16 :: "byte_array \<Rightarrow> (byte list \<times> byte_array) res" where
  "readStringF16 b = bindE (readFuint16 b) (\<lambda>(len, b). resize_and_read b (unat len))"

definition readStringF32 :: "byte_array \<Rightarrow> (byte list \<times> byte_array) res" where
  "readStringF32 b = bindE (readFuint32 b) (\<lambda>(len, b). resize_and_read b (unat len))"

definition readStringF64 :: "byte_array \<Rightarrow> (byte list \<times> byte_array) res" where
  "readStringF64 b = bindE (readFuint64 b) (\<lambda>(len, b). resize_and_read b (unat len))"

definition readStringVint :: "byte_array \<Rightarrow> (byte list \<times> byte_array) res" where
  "readStringVint b = bindE (readUint64 b) (\<lambda>(len, b). resize_and_read b (unat len))"

end
