(* ===== verification/Serializer_Props.thy ===== *)
theory Serializer_Props
  imports Serializer
begin

section \<open>Typed reads and writes: round trips\<close>

text \<open>
  The contract between the buffer and its typed accessors is the locale \<open>byte_stream\<close>:
  bytes come out in the order they went in, and a read past the end throws. \<open>codec\<close> adds a
  typed writer and reader over a stream that agree on an encoding; inside it a value
  written is the value read, and any sequence of writes and reads behaves as a queue of
  values. Both are interpreted on \<open>ByteArray\<close>, \<open>codec\<close> once for each type.
\<close>

subsection \<open>A byte stream\<close>

locale byte_stream =
  fixes wr :: "'s \<Rightarrow> byte list \<Rightarrow> 's res"
    and rd :: "'s \<Rightarrow> nat \<Rightarrow> (byte list \<times> 's) res"
    and repr :: "'s \<Rightarrow> byte list \<Rightarrow> nat \<Rightarrow> bool"
    and room :: "'s \<Rightarrow> nat \<Rightarrow> bool"
  assumes write_law: "repr s W k \<Longrightarrow> room s (length bs) \<Longrightarrow>
      \<exists>s'. wr s bs = Inr s' \<and> repr s' (W @ bs) k"
    and write_room: "repr s W k \<Longrightarrow> room s (length bs + n) \<Longrightarrow> wr s bs = Inr s' \<Longrightarrow> room s' n"
    and room_mono: "room s (m + n) \<Longrightarrow> room s m"
    and read_law: "repr s W k \<Longrightarrow> k + n \<le> length W \<Longrightarrow> k < length W \<Longrightarrow>
      \<exists>s'. rd s n = Inr (take n (drop k W), s') \<and> repr s' W (k + n)"
    and read_room: "room s m \<Longrightarrow> rd s n = Inr (bs, s') \<Longrightarrow> room s' m"
    and read_short: "repr s W k \<Longrightarrow> length W < k + n \<Longrightarrow> rd s n = Inl OutOfRange"
    and repr_le: "repr s W k \<Longrightarrow> k \<le> length W"
begin

lemma write_then:
  assumes "repr s W k" and "room s (length bs + n)"
  obtains s' where "wr s bs = Inr s'" and "repr s' (W @ bs) k" and "room s' n"
  using assms write_law write_room room_mono by blast

lemma read_prefix:
  assumes "repr s W k" and "drop k W = bs @ rest" and "bs @ rest \<noteq> []"
  obtains s' where "rd s (length bs) = Inr (bs, s')" and "repr s' W (k + length bs)"
    and "drop (k + length bs) W = rest"
proof -
  have l: "length W - k = length bs + length rest" using arg_cong [OF assms(2), of length] by simp
  have "k < length W" using assms(2,3) by (metis drop_eq_Nil not_less)
  with l have "k + length bs \<le> length W" by simp
  from read_law [OF assms(1) this \<open>k < length W\<close>] obtain s'
    where "rd s (length bs) = Inr (bs, s')" and "repr s' W (k + length bs)"
    unfolding assms(2) by auto
  moreover have "drop (k + length bs) W = rest"
    using assms(2) by (metis add.commute append_eq_conv_conj drop_drop)
  ultimately show thesis by (rule that)
qed

end

subsection \<open>A typed accessor pair\<close>

datatype 'v queue_op = Put 'v | Get

fun run_stream ::
  "('s \<Rightarrow> 'v \<Rightarrow> 's res) \<Rightarrow> ('s \<Rightarrow> ('v \<times> 's) res) \<Rightarrow> 's \<Rightarrow> 'v queue_op list \<Rightarrow> ('v list \<times> 's) res" where
  "run_stream put get s [] = Inr ([], s)"
| "run_stream put get s (Put v # ops) = bindE (put s v) (\<lambda>s. run_stream put get s ops)"
| "run_stream put get s (Get # ops) = bindE (get s) (\<lambda>(v, s).
     bindE (run_stream put get s ops) (\<lambda>(vs, s). Inr (v # vs, s)))"

fun run_queue :: "'v list \<Rightarrow> 'v queue_op list \<Rightarrow> 'v list res" where
  "run_queue q [] = Inr []"
| "run_queue q (Put v # ops) = run_queue (q @ [v]) ops"
| "run_queue q (Get # ops) = (case q of [] \<Rightarrow> Inl OutOfRange
     | v # q' \<Rightarrow> bindE (run_queue q' ops) (\<lambda>vs. Inr (v # vs)))"

fun put_values :: "'v queue_op list \<Rightarrow> 'v list" where
  "put_values [] = []"
| "put_values (Put v # ops) = v # put_values ops"
| "put_values (Get # ops) = put_values ops"

locale codec = byte_stream wr rd repr room
  for wr :: "'s \<Rightarrow> byte list \<Rightarrow> 's res"
    and rd :: "'s \<Rightarrow> nat \<Rightarrow> (byte list \<times> 's) res"
    and repr :: "'s \<Rightarrow> byte list \<Rightarrow> nat \<Rightarrow> bool"
    and room :: "'s \<Rightarrow> nat \<Rightarrow> bool" +
  fixes put :: "'s \<Rightarrow> 'v \<Rightarrow> 's res"
    and get :: "'s \<Rightarrow> ('v \<times> 's) res"
    and enc :: "'v \<Rightarrow> byte list"
    and valid :: "'v \<Rightarrow> bool"
  assumes put_law: "valid v \<Longrightarrow> repr s W k \<Longrightarrow> room s (length (enc v) + n) \<Longrightarrow>
      \<exists>s'. put s v = Inr s' \<and> repr s' (W @ enc v) k \<and> room s' n"
    and get_law: "valid v \<Longrightarrow> repr s W k \<Longrightarrow> drop k W = enc v @ rest \<Longrightarrow>
      \<exists>s'. get s = Inr (v, s') \<and> repr s' W (k + length (enc v)) \<and> drop (k + length (enc v)) W = rest"
    and get_room: "room s m \<Longrightarrow> get s = Inr (v, s') \<Longrightarrow> room s' m"
    and get_empty: "repr s W (length W) \<Longrightarrow> get s = Inl OutOfRange"
begin

lemma roundtrip:
  assumes "valid v" and "repr s W (length W)" and "room s (length (enc v))"
  shows "\<exists>s'. bindE (put s v) get = Inr (v, s') \<and> repr s' (W @ enc v) (length (W @ enc v))"
proof -
  obtain s1 where put: "put s v = Inr s1" and r: "repr s1 (W @ enc v) (length W)"
    using put_law [of v s W "length W" 0] assms by auto
  have "drop (length W) (W @ enc v) = enc v @ []" by simp
  from get_law [OF assms(1) r this] put show ?thesis by auto
qed

text \<open>The stream refines a queue: the unread bytes are the encodings of the queued values.\<close>

lemma queue_refinement:
  assumes "repr s W k" and "drop k W = concat (map enc q)"
    and "\<forall>v \<in> set q \<union> set (put_values ops). valid v"
    and "room s (length (concat (map enc (put_values ops))))"
  shows "map_sum id fst (run_stream put get s ops) = run_queue q ops"
  using assms
proof (induction ops arbitrary: s W k q)
  case Nil
  then show ?case by simp
next
  case (Cons op ops)
  show ?case
  proof (cases op)
    case (Put v)
    obtain s' where put: "put s v = Inr s'" and r: "repr s' (W @ enc v) k"
      and room: "room s' (length (concat (map enc (put_values ops))))"
      using put_law [of v s W k] Cons.prems Put by fastforce
    have "drop k (W @ enc v) = concat (map enc (q @ [v]))"
      using Cons.prems(2) repr_le [OF Cons.prems(1)] by simp
    from Cons.IH [OF r this _ room] Cons.prems(3) show ?thesis by (simp add: Put put)
  next
    case Get
    show ?thesis
    proof (cases q)
      case Nil
      then have "k = length W" using Cons.prems(1,2) repr_le by fastforce
      with Cons.prems(1) get_empty show ?thesis by (auto simp: Get Nil)
    next
      case (Cons v q')
      have dr: "drop k W = enc v @ concat (map enc q')" using Cons.prems(2) Cons by simp
      have v: "valid v" using Cons.prems(3) Cons by simp
      obtain s' where get: "get s = Inr (v, s')" and r: "repr s' W (k + length (enc v))"
        and dr': "drop (k + length (enc v)) W = concat (map enc q')"
        using get_law [OF v Cons.prems(1) dr] by auto
      have room: "room s' (length (concat (map enc (put_values ops))))"
        using get_room [OF _ get] Cons.prems(4) Get by simp
      from Cons.IH [OF r dr' _ room] Cons.prems(3)
      have "map_sum id fst (run_stream put get s' ops) = run_queue q' ops" by (simp add: Cons Get id_def)
      then show ?thesis by (cases "run_stream put get s' ops") (auto simp: Get Cons get dest: sym)
    qed
  qed
qed

end

subsection \<open>The buffer is a byte stream\<close>

text \<open>
  The room of a buffer is the capacity at hand with the write pointer inside a block:
  growth has its own, narrower, condition (\<open>can_write\<close>).
\<close>

definition ba_room :: "byte_array \<Rightarrow> nat \<Rightarrow> bool" where
  "ba_room b n \<longleftrightarrow> n = 0 \<or> p_pos (m_writePos b) < m_capacity b \<and> n \<le> m_capacity b - p_pos (m_writePos b)"

lemma ba_room_can_write: "ba_room b n \<Longrightarrow> can_write b n"
  by (auto simp: ba_room_def can_write_def)

lemma ba_write_room:
  assumes "ba_repr b W k" and "ba_room b (length bs + n)" and "ba_write b bs = Inr b'"
  shows "ba_room b' n"
proof (cases "n = 0")
  case True
  then show ?thesis by (simp add: ba_room_def)
next
  case False
  then have r: "p_pos (m_writePos b) < m_capacity b" "length bs + n \<le> m_capacity b - p_pos (m_writePos b)"
    using assms(2) by (auto simp: ba_room_def)
  then have cw: "can_write b (length bs)" by (auto simp: can_write_def)
  from ba_write_repr [OF assms(1) cw] r assms(3)
  have "ba_repr b' (W @ bs) k" and cap: "m_capacity b' = m_capacity b" by auto
  then have "p_pos (m_writePos b') = p_pos (m_writePos b) + length bs"
    using ba_repr_length [of b' "W @ bs" k] ba_repr_length [OF assms(1)] by simp
  with cap r False show ?thesis unfolding ba_room_def by linarith
qed

lemma ba_repr_cap: "ba_repr b W k \<Longrightarrow> length W \<le> m_capacity b"
  using ba_repr_length [of b W k] by (auto simp: ba_repr_def ba_inv_def)

lemma ba_read_frame: "ba_read b n = Inr (bs, b') \<Longrightarrow> m_writePos b' = m_writePos b \<and> m_capacity b' = m_capacity b"
  by (auto simp: ba_read_def bindE_eq_Inr split: if_splits prod.splits)

interpretation ba: byte_stream ba_write ba_read ba_repr ba_room
proof (unfold_locales, goal_cases)
  case (1 s W k bs)
  then show ?case using ba_write_repr ba_room_can_write by blast
next
  case (2 s W k bs n s')
  then show ?case by (rule ba_write_room)
next
  case (3 s m n)
  then show ?case by (auto simp: ba_room_def)
next
  case (4 s W k n)
  then have "k < m_capacity s" using ba_repr_cap by fastforce
  with 4 ba_read_repr show ?case by blast
next
  case (5 s m n bs s')
  then show ?case using ba_read_frame by (auto simp: ba_room_def)
next
  case (6 s W k n)
  then show ?case by (rule ba_read_short)
next
  case (7 s W k)
  then show ?case using ba_repr_length by blast
qed

subsection \<open>Fixed-width integers\<close>

lemma length_hostToNetwork [simp]:
  "length (mem_bytes (hostToNetwork (w :: 'a::len word))) = LENGTH('a) div 8"
  by simp

text \<open>Each typed accessor is one write, or one read followed by a pure conversion.\<close>

lemma put_one_write:
  assumes "\<And>s v. put s v = ba_write s (enc v)"
    and "ba_repr s W k" and "ba_room s (length (enc v) + n)"
  shows "\<exists>s'. put s v = Inr s' \<and> ba_repr s' (W @ enc v) k \<and> ba_room s' n"
  using ba.write_then [OF assms(2,3)] assms(1) by metis

lemma get_one_read:
  assumes get: "\<And>s. get s = bindE (ba_read s m) (\<lambda>(bs, s). Inr (dec bs, s))"
    and enc: "length (enc v) = m" "dec (enc v) = v" "0 < m"
    and "ba_repr s W k" and "drop k W = enc v @ rest"
  shows "\<exists>s'. get s = Inr (v, s') \<and> ba_repr s' W (k + length (enc v)) \<and>
           drop (k + length (enc v)) W = rest"
proof -
  have "enc v @ rest \<noteq> []" using enc by auto
  from ba.read_prefix [OF assms(5,6) this] obtain s' where
    "ba_read s m = Inr (enc v, s')" and "ba_repr s' W (k + length (enc v))"
    and "drop (k + length (enc v)) W = rest"
    unfolding enc(1) by blast
  then show ?thesis using enc by (simp add: get)
qed

lemma get_one_room:
  assumes get: "\<And>s. get s = bindE (ba_read s m) (\<lambda>(bs, s). Inr (dec bs, s))"
    and "ba_room s n" and "get s = Inr (v, s')"
  shows "ba_room s' n"
  using assms by (auto simp: bindE_eq_Inr intro: ba.read_room)

lemma get_one_empty:
  assumes get: "\<And>s. get s = bindE (ba_read s m) (\<lambda>(bs, s). Inr (dec bs, s))"
    and "0 < m" and "ba_repr s W (length W)"
  shows "get s = Inl OutOfRange"
  using ba.read_short [OF assms(3), of m] assms(2) by (simp add: get)

lemma codec_one:
  assumes put: "\<And>s v. put s v = ba_write s (enc v)"
    and get: "\<And>s. get s = bindE (ba_read s m) (\<lambda>(bs, s). Inr (dec bs, s))"
    and enc: "\<And>v. length (enc v) = m" "\<And>v. dec (enc v) = v" "0 < m"
  shows "codec ba_write ba_read ba_repr ba_room put get enc (\<lambda>_. True)"
proof (unfold_locales, goal_cases)
  case 1
  then show ?case using put_one_write [of put enc, OF put] by blast
next
  case 2
  then show ?case using get_one_read [of get m dec enc, OF get enc] by blast
next
  case 3
  then show ?case using get_one_room [of get m dec, OF get] by blast
next
  case 4
  then show ?case using get_one_empty [of get m dec, OF get enc(3)] by blast
qed

lemma networkToHost_mem [simp]:
  "LENGTH('a) mod 8 = 0 \<Longrightarrow>
   networkToHost (of_mem_bytes (mem_bytes (hostToNetwork w)) :: 'a::len word) = w"
  by (simp add: of_mem_bytes_mem_bytes networkToHost_hostToNetwork)

lemmas fixed_defs = writeFint8_def writeFuint8_def writeFint16_def writeFuint16_def
  writeFuint32_def writeFint64_def writeFuint64_def writeFloat_def writeDouble_def
  readFint8_def readFuint8_def readFint16_def readFuint16_def readFuint32_def
  readFint64_def readFuint64_def readFloat_def readDouble_def Let_def
  of_mem_bytes_mem_bytes case_prod_unfold

interpretation fint8: codec ba_write ba_read ba_repr ba_room writeFint8 readFint8 mem_bytes "\<lambda>_. True"
  by (rule codec_one [where m = 1 and dec = of_mem_bytes]) (simp_all add: fixed_defs)

interpretation fuint8: codec ba_write ba_read ba_repr ba_room writeFuint8 readFuint8 mem_bytes "\<lambda>_. True"
  by (rule codec_one [where m = 1 and dec = of_mem_bytes]) (simp_all add: fixed_defs)

interpretation fint16: codec ba_write ba_read ba_repr ba_room writeFint16 readFint16
    "\<lambda>v. mem_bytes (hostToNetwork v)" "\<lambda>_. True"
  by (rule codec_one [where m = 2 and dec = "\<lambda>bs. networkToHost (of_mem_bytes bs)"])
     (simp_all add: fixed_defs networkToHost_hostToNetwork)

interpretation fuint16: codec ba_write ba_read ba_repr ba_room writeFuint16 readFuint16
    "\<lambda>v. mem_bytes (hostToNetwork v)" "\<lambda>_. True"
  by (rule codec_one [where m = 2 and dec = "\<lambda>bs. networkToHost (of_mem_bytes bs)"])
     (simp_all add: fixed_defs networkToHost_hostToNetwork)

interpretation fuint32: codec ba_write ba_read ba_repr ba_room writeFuint32 readFuint32
    "\<lambda>v. mem_bytes (hostToNetwork v)" "\<lambda>_. True"
  by (rule codec_one [where m = 4 and dec = "\<lambda>bs. networkToHost (of_mem_bytes bs)"])
     (simp_all add: fixed_defs networkToHost_hostToNetwork)

interpretation fint64: codec ba_write ba_read ba_repr ba_room writeFint64 readFint64
    "\<lambda>v. mem_bytes (hostToNetwork v)" "\<lambda>_. True"
  by (rule codec_one [where m = 8 and dec = "\<lambda>bs. networkToHost (of_mem_bytes bs)"])
     (simp_all add: fixed_defs networkToHost_hostToNetwork)

interpretation fuint64: codec ba_write ba_read ba_repr ba_room writeFuint64 readFuint64
    "\<lambda>v. mem_bytes (hostToNetwork v)" "\<lambda>_. True"
  by (rule codec_one [where m = 8 and dec = "\<lambda>bs. networkToHost (of_mem_bytes bs)"])
     (simp_all add: fixed_defs networkToHost_hostToNetwork)

interpretation float: codec ba_write ba_read ba_repr ba_room writeFloat readFloat
    "\<lambda>v. mem_bytes (hostToNetwork v)" "\<lambda>_. True"
  by (rule codec_one [where m = 4 and dec = "\<lambda>bs. networkToHost (of_mem_bytes bs)"])
     (simp_all add: fixed_defs networkToHost_hostToNetwork bindE_assoc)

interpretation double: codec ba_write ba_read ba_repr ba_room writeDouble readDouble
    "\<lambda>v. mem_bytes (hostToNetwork v)" "\<lambda>_. True"
  by (rule codec_one [where m = 8 and dec = "\<lambda>bs. networkToHost (of_mem_bytes bs)"])
     (simp_all add: fixed_defs networkToHost_hostToNetwork bindE_assoc)

subsection \<open>Varints\<close>

lemma varint_small: "unat w < 128 \<Longrightarrow> varint_bytes w = [ucast w]"
  by (subst varint_bytes.simps) simp

lemma varint_large:
  "128 \<le> unat w \<Longrightarrow> varint_bytes w = ucast ((w AND 0x7F) OR 0x80) # varint_bytes (drop_bit 7 w)"
  by (subst varint_bytes.simps) simp

lemma varint_nonempty [simp]: "varint_bytes w \<noteq> []"
  by (subst varint_bytes.simps) simp

lemma unat_drop7: "unat (drop_bit 7 (w :: 'a::len word)) = unat w div 128"
  by (simp only: unat_drop_bit_eq) (simp add: drop_bit_eq_div)

lemma varint_length:
  "unat w < 128 ^ n \<Longrightarrow> 0 < n \<Longrightarrow> length (varint_bytes w) \<le> n"
proof (induction n arbitrary: w)
  case 0
  then show ?case by simp
next
  case (Suc n)
  show ?case
  proof (cases "unat w < 128")
    case True
    then show ?thesis by (simp add: varint_small)
  next
    case False
    with Suc.prems have n: "0 < n" by (cases n) simp_all
    have "unat (drop_bit 7 w) < 128 ^ n"
      using Suc.prems(1) by (simp add: unat_drop7 less_mult_imp_div_less mult.commute)
    from Suc.IH [OF this n] False show ?thesis by (simp add: varint_large)
  qed
qed

lemma read_byte:
  assumes "ba_repr s W k" and "drop k W = c # rest"
  obtains s' where "readFuint8 s = Inr (c, s')" and "ba_repr s' W (k + 1)" and "drop (k + 1) W = rest"
proof -
  from assms(2) have "drop k W = [c] @ rest" by simp
  from ba.read_prefix [OF assms(1) this] obtain s' where "ba_read s (length [c]) = Inr ([c], s')"
    and "ba_repr s' W (k + length [c])" and "drop (k + length [c]) W = rest" by blast
  then show thesis by (intro that [of s']) (simp_all add: readFuint8_def)
qed

lemma bit_0x80: "bit (0x80 :: 'b::len word) n \<longleftrightarrow> n = 7 \<and> 7 < LENGTH('b)"
  using bit_exp_iff [where 'a = "'b word", of 7 n] by (auto dest: bit_imp_le_length)

lemma and_0x7F: "(w :: 'b::len word) AND 0x7F = take_bit 7 w"
  by (simp add: take_bit_eq_mask mask_eq_exp_minus_1)

lemma byte_top: "bit (c :: byte) 7 \<Longrightarrow> 128 \<le> unat c"
proof -
  assume "bit c 7"
  then have "bit (unat c) 7" by transfer (simp add: bit_nat_iff bit_take_bit_iff)
  then have "unat c div 2 ^ 7 \<noteq> 0" by (metis bit_iff_odd dvd_0_right)
  then show ?thesis by (simp add: div_eq_0_iff)
qed

lemma varint_head:
  assumes "7 < LENGTH('a)"
  shows "ucast ((w AND 0x7F) OR 0x80) AND (0x7F :: byte) = ucast (take_bit 7 (w :: 'a::len word))"
    and "128 \<le> unat (ucast ((w AND 0x7F) OR 0x80) :: byte)"
proof -
  show "ucast ((w AND 0x7F) OR 0x80) AND (0x7F :: byte) = ucast (take_bit 7 w)"
    by (rule bit_word_eqI)
       (use assms in \<open>auto simp only: and_0x7F bit_ucast_iff bit_and_iff bit_or_iff bit_take_bit_iff bit_0x80\<close>)
  have b: "bit (ucast ((w AND 0x7F) OR 0x80) :: byte) 7"
    using assms by (simp only: bit_ucast_iff bit_or_iff bit_0x80) simp
  show "128 \<le> unat (ucast ((w AND 0x7F) OR 0x80) :: byte)"
    using b by (rule byte_top)
qed

lemma readVarint_loop_step:
  "i < LENGTH('a) \<Longrightarrow> readFuint8 b = Inr (c, b') \<Longrightarrow>
   readVarint_loop b i (result :: 'a::len word) =
     (if unat c < 0x80 then Inr (result OR push_bit i (ucast c), b')
      else readVarint_loop b' (i + 7) (result OR push_bit i (ucast (c AND 0x7f))))"
  by (subst readVarint_loop.simps) simp

lemma varint_reassemble:
  "(r OR push_bit i (ucast (ucast (take_bit 7 w) :: byte))) OR push_bit (i + 7) (drop_bit 7 w) =
   r OR push_bit i (w :: 'a::len word)"
proof (rule bit_word_eqI)
  fix n assume "n < LENGTH('a)"
  have "7 + (n - (i + 7)) = n - i" if "i + 7 \<le> n" using that by simp
  then show "bit ((r OR push_bit i (ucast (ucast (take_bit 7 w) :: byte))) OR
      push_bit (i + 7) (drop_bit 7 w)) n = bit (r OR push_bit i w) n"
    by (cases "i + 7 \<le> n")
       (auto simp: bit_or_iff bit_push_bit_iff bit_ucast_iff bit_take_bit_iff bit_drop_bit_eq)
qed

lemma readVarint_loop_repr:
  assumes "ba_repr s W k" and "drop k W = varint_bytes w @ rest"
    and "i < LENGTH('a)" and "unat w < 2 ^ (LENGTH('a) - i)"
  shows "\<exists>s'. readVarint_loop s i (r :: 'a::len word) = Inr (r OR push_bit i w, s') \<and>
           ba_repr s' W (k + length (varint_bytes w)) \<and> drop (k + length (varint_bytes w)) W = rest"
  using assms
proof (induction w arbitrary: s k i r rule: varint_bytes.induct)
  case (1 w)
  show ?case
  proof (cases "unat w < 128")
    case True
    then have vb: "varint_bytes w = [ucast w]" by (rule varint_small)
    then have "drop k W = ucast w # rest" using "1.prems"(2) by simp
    then obtain s' where rd: "readFuint8 s = Inr (ucast w, s')" and "ba_repr s' W (k + 1)"
      and "drop (k + 1) W = rest" using read_byte [OF "1.prems"(1)] by blast
    moreover have "unat (ucast w :: byte) = unat w" using True
      by (simp add: unsigned_ucast_eq unsigned_take_bit_eq take_bit_eq_mod)
    moreover from this have "(ucast (ucast w :: byte) :: 'a word) = w"
      by (metis of_nat_unat ucast_id)
    ultimately show ?thesis using True vb by (simp add: readVarint_loop_step [OF "1.prems"(3) rd])
  next
    case False
    let ?c = "ucast ((w AND 0x7F) OR 0x80) :: byte" and ?w = "drop_bit 7 w"
    from False have vb: "varint_bytes w = ?c # varint_bytes ?w" by (simp add: varint_large)
    have "(2::nat) ^ 7 \<le> unat w" using False by simp
    also note "1.prems"(4)
    finally have "7 < LENGTH('a) - i" by (rule power_less_imp_less_exp [rotated]) simp
    then have i: "i + 7 < LENGTH('a)" by simp
    have "drop k W = ?c # (varint_bytes ?w @ rest)" using "1.prems"(2) vb by simp
    then obtain s' where rd: "readFuint8 s = Inr (?c, s')" and r': "ba_repr s' W (k + 1)"
      and d': "drop (k + 1) W = varint_bytes ?w @ rest" using read_byte [OF "1.prems"(1)] by blast
    have len: "7 < LENGTH('a)" using i by simp
    note head = varint_head [OF len, of w]
    define m where "m = LENGTH('a) - (i + 7)"
    have m: "LENGTH('a) - i = m + 7" using i by (simp add: m_def)
    have "unat w < 2 ^ m * 128" using "1.prems"(4) unfolding m by (simp add: power_add)
    then have bnd: "unat ?w < 2 ^ (LENGTH('a) - (i + 7))"
      unfolding unat_drop7 m_def [symmetric] by (rule less_mult_imp_div_less)
    have "128 \<le> unat w" using False by simp
    from "1.IH" [OF this r' d' i bnd] obtain s'' where
      "readVarint_loop s' (i + 7) (r OR push_bit i (ucast (?c AND 0x7f))) =
         Inr ((r OR push_bit i (ucast (?c AND 0x7f))) OR push_bit (i + 7) ?w, s'')"
      and "ba_repr s'' W (k + 1 + length (varint_bytes ?w))"
      and "drop (k + 1 + length (varint_bytes ?w)) W = rest" by blast
    then show ?thesis
      using head vb by (simp add: readVarint_loop_step [OF "1.prems"(3) rd] varint_reassemble)
  qed
qed

subsection \<open>Zigzag\<close>

lemma bit_dbl: "bit (v * 2 :: 'a::len word) n \<longleftrightarrow> 0 < n \<and> n < LENGTH('a) \<and> bit v (n - 1)"
  using bit_double_iff [of v n] by (auto simp: mult.commute dest: bit_imp_le_length)

lemma zigzag_pos:
  "\<not> bit v (LENGTH('a) - 1) \<Longrightarrow> drop_bit 1 (v * 2) XOR - ((v * 2) AND 1) = (v :: 'a::len word)"
proof -
  assume top: "\<not> bit v (LENGTH('a) - 1)"
  have z: "(v * 2) AND 1 = 0"
    by (rule bit_word_eqI) (auto simp: bit_and_iff bit_dbl bit_1_iff)
  have "drop_bit 1 (v * 2) = v"
  proof (rule bit_word_eqI)
    fix n assume "n < LENGTH('a)"
    then show "bit (drop_bit 1 (v * 2)) n = bit v n"
      using top by (cases "n = LENGTH('a) - 1") (auto simp: bit_drop_bit_eq bit_dbl)
  qed
  then show ?thesis unfolding z by simp
qed

lemma zigzag_neg:
  "bit v (LENGTH('a) - 1) \<Longrightarrow> drop_bit 1 (- v * 2 - 1) XOR - ((- v * 2 - 1) AND 1) = (v :: 'a::len word)"
proof -
  assume top: "bit v (LENGTH('a) - 1)"
  have e: "- v * 2 - 1 = NOT (v * 2)" by (simp add: not_eq_complement)
  have o: "NOT (v * 2) AND 1 = 1"
    by (rule bit_word_eqI) (auto simp: bit_and_iff bit_dbl bit_1_iff bit_not_iff)
  have "NOT (drop_bit 1 (NOT (v * 2))) = v"
  proof (rule bit_word_eqI)
    fix n assume "n < LENGTH('a)"
    then show "bit (NOT (drop_bit 1 (NOT (v * 2)))) n = bit v n"
      using top by (cases "n = LENGTH('a) - 1")
        (auto simp: bit_drop_bit_eq bit_dbl bit_not_iff dest: bit_imp_le_length)
  qed
  then show ?thesis unfolding e o by simp
qed

lemma sint_neg_bit: "sint v < 0 \<longleftrightarrow> bit (v :: 'a::len word) (LENGTH('a) - 1)"
  by (simp add: bit_last_iff)

lemma zigzag32_roundtrip: "EncodeZigzag32 v = Inr e \<Longrightarrow> DecodeZigzag32 e = v"
  unfolding EncodeZigzag32_def DecodeZigzag32_def
  using zigzag_pos [of v] zigzag_neg [of v] sint_neg_bit [of v] by (auto split: if_splits)

lemma zigzag64_roundtrip: "EncodeZigzag64 v = Inr e \<Longrightarrow> DecodeZigzag64 e = v"
  unfolding EncodeZigzag64_def DecodeZigzag64_def
  using zigzag_pos [of v] zigzag_neg [of v] sint_neg_bit [of v] by (auto split: if_splits)

lemma zigzag32_defined:
  "(\<exists>e. EncodeZigzag32 v = Inr e) \<longleftrightarrow> - (2 ^ 31) < sint v \<and> sint v < 2 ^ 30"
  by (auto simp: EncodeZigzag32_def)

lemma zigzag64_defined:
  "(\<exists>e. EncodeZigzag64 v = Inr e) \<longleftrightarrow> - (2 ^ 63) < sint v \<and> sint v < 2 ^ 62"
  by (auto simp: EncodeZigzag64_def)

subsection \<open>Varints and strings are codecs\<close>

lemma readVarint_room:
  "ba_room s m \<Longrightarrow> readVarint_loop s i (r :: 'a::len word) = Inr (v, s') \<Longrightarrow> ba_room s' m"
proof (induction s i r arbitrary: v rule: readVarint_loop.induct)
  case (1 s i r)
  show ?case
  proof (cases "i < LENGTH('a)")
    case True
    then obtain c s1 where rd: "readFuint8 s = Inr (c, s1)"
      using "1.prems"(2) by (subst (asm) readVarint_loop.simps) (auto simp: bindE_eq_Inr)
    have room: "ba_room s1 m" by (rule fuint8.get_room [OF "1.prems"(1) rd])
    show ?thesis
    proof (cases "unat c < 0x80")
      case True
      then show ?thesis using "1.prems"(2) room \<open>i < LENGTH('a)\<close>
        by (simp add: readVarint_loop_step [OF _ rd])
    next
      case False
      then show ?thesis using "1.IH" [OF \<open>i < LENGTH('a)\<close> rd refl False room] "1.prems"(2)
        \<open>i < LENGTH('a)\<close> by (simp add: readVarint_loop_step [OF _ rd])
    qed
  next
    case False
    then show ?thesis using "1.prems" by (subst (asm) readVarint_loop.simps) simp
  qed
qed

lemma codec_varint:
  "codec ba_write ba_read ba_repr ba_room (\<lambda>s v. ba_write s (varint_bytes v))
     (\<lambda>s. readVarint_loop s 0 (0 :: 'a::len word)) varint_bytes (\<lambda>_. True)"
proof (unfold_locales, goal_cases)
  case 1
  then show ?case using put_one_write [of "\<lambda>s v. ba_write s (varint_bytes v)" varint_bytes] by blast
next
  case (2 v s W k rest)
  then show ?case using readVarint_loop_repr [of s W k v rest 0 0] by simp
next
  case 3
  then show ?case by (rule readVarint_room)
next
  case (4 s W)
  then show ?case
    using fuint8.get_empty by (subst readVarint_loop.simps) simp
qed

interpretation uint32: codec ba_write ba_read ba_repr ba_room writeUint32 readUint32 varint_bytes "\<lambda>_. True"
  using codec_varint [where 'a = 32] by (simp add: writeUint32_def [abs_def] readUint32_def [abs_def])

interpretation uint64: codec ba_write ba_read ba_repr ba_room writeUint64 readUint64 varint_bytes "\<lambda>_. True"
  using codec_varint [where 'a = 64] by (simp add: writeUint64_def [abs_def] readUint64_def [abs_def])

text \<open>A writer that first maps its value, and a reader that maps it back.\<close>

lemma codec_map:
  assumes c: "codec ba_write ba_read ba_repr ba_room put get enc (\<lambda>_. True)"
    and inv: "\<And>v e. f v = Inr e \<Longrightarrow> g e = v"
  shows "codec ba_write ba_read ba_repr ba_room (\<lambda>s v. bindE (f v) (put s))
           (\<lambda>s. bindE (get s) (\<lambda>(e, s). Inr (g e, s))) (\<lambda>v. enc (projr (f v))) (\<lambda>v. \<not> isl (f v))"
proof (unfold_locales, goal_cases)
  case (1 v s W k n)
  then show ?case using codec.put_law [OF c TrueI, of s W k] by (cases "f v") auto
next
  case (2 v s W k rest)
  then obtain e where "f v = Inr e" by (cases "f v") auto
  with 2 codec.get_law [OF c TrueI, of s W k e rest] inv show ?case by auto
next
  case 3
  then show ?case using codec.get_room [OF c] by (auto simp: bindE_eq_Inr)
next
  case 4
  then show ?case using codec.get_empty [OF c] by simp
qed

interpretation int32: codec ba_write ba_read ba_repr ba_room writeInt32 readInt32
    "\<lambda>v. varint_bytes (projr (EncodeZigzag32 v))" "\<lambda>v. \<not> isl (EncodeZigzag32 v)"
  using codec_map [OF uint32.codec_axioms zigzag32_roundtrip]
  by (simp add: writeInt32_def [abs_def] readInt32_def [abs_def])

interpretation int64: codec ba_write ba_read ba_repr ba_room writeInt64 readInt64
    "\<lambda>v. varint_bytes (projr (EncodeZigzag64 v))" "\<lambda>v. \<not> isl (EncodeZigzag64 v)"
  using codec_map [OF uint64.codec_axioms zigzag64_roundtrip]
  by (simp add: writeInt64_def [abs_def] readInt64_def [abs_def])

lemma codec_string:
  fixes enc :: "'a::len word \<Rightarrow> byte list"
  assumes c: "codec ba_write ba_read ba_repr ba_room put get enc (\<lambda>_. True)"
  shows "codec ba_write ba_read ba_repr ba_room
           (\<lambda>s v. bindE (put s (of_nat (length v))) (\<lambda>s. ba_write s v))
           (\<lambda>s. bindE (get s) (\<lambda>(len, s). resize_and_read s (unat len)))
           (\<lambda>v. enc (of_nat (length v)) @ v)
           (\<lambda>v. v \<noteq> [] \<and> length v < 2 ^ LENGTH('a) \<and> length v \<le> string_max_size)"
proof (unfold_locales, goal_cases)
  case (1 v s W k n)
  let ?e = "enc (of_nat (length v))"
  have "ba_room s (length ?e + (length v + n))" using 1(3) by (simp add: add.assoc)
  from codec.put_law [OF c TrueI 1(2) this] obtain s1 where "put s (of_nat (length v)) = Inr s1"
    and r: "ba_repr s1 (W @ ?e) k" and room: "ba_room s1 (length v + n)" by blast
  moreover obtain s2 where "ba_write s1 v = Inr s2" and "ba_repr s2 ((W @ ?e) @ v) k" and "ba_room s2 n"
    using ba.write_then [OF r room] .
  ultimately show ?case by simp
next
  case (2 v s W k rest)
  let ?e = "enc (of_nat (length v))"
  have len: "unat (of_nat (length v) :: 'a word) = length v"
    using 2(1) by (simp add: unsigned_of_nat take_bit_nat_eq_self)
  from 2(3) have "drop k W = ?e @ (v @ rest)" by simp
  from codec.get_law [OF c TrueI 2(2) this] obtain s1 where g: "get s = Inr (of_nat (length v), s1)"
    and r: "ba_repr s1 W (k + length ?e)" and d: "drop (k + length ?e) W = v @ rest" by blast
  have "v @ rest \<noteq> []" using 2(1) by simp
  from ba.read_prefix [OF r d this] obtain s2 where "ba_read s1 (length v) = Inr (v, s2)"
    and "ba_repr s2 W (k + length ?e + length v)" and "drop (k + length ?e + length v) W = rest" by blast
  with g 2(1) len show ?case by (simp add: resize_and_read_def add.assoc)
next
  case (3 s m v s')
  then obtain len s1 where g: "get s = Inr (len, s1)" and r: "ba_read s1 (unat len) = Inr (v, s')"
    by (auto simp: bindE_eq_Inr resize_and_read_def split: if_splits)
  show ?case using ba.read_room [OF codec.get_room [OF c 3(1) g] r] .
next
  case 4
  then show ?case using codec.get_empty [OF c] by simp
qed

interpretation stringF16: codec ba_write ba_read ba_repr ba_room writeStringF16 readStringF16
    "\<lambda>v. mem_bytes (hostToNetwork (of_nat (length v) :: u16)) @ v"
    "\<lambda>v. v \<noteq> [] \<and> length v < 2 ^ 16 \<and> length v \<le> string_max_size"
  using codec_string [OF fuint16.codec_axioms]
  by (simp add: writeStringF16_def [abs_def] readStringF16_def [abs_def])

interpretation stringF32: codec ba_write ba_read ba_repr ba_room writeStringF32 readStringF32
    "\<lambda>v. mem_bytes (hostToNetwork (of_nat (length v) :: u32)) @ v"
    "\<lambda>v. v \<noteq> [] \<and> length v < 2 ^ 32 \<and> length v \<le> string_max_size"
  using codec_string [OF fuint32.codec_axioms]
  by (simp add: writeStringF32_def [abs_def] readStringF32_def [abs_def])

interpretation stringF64: codec ba_write ba_read ba_repr ba_room writeStringF64 readStringF64
    "\<lambda>v. mem_bytes (hostToNetwork (of_nat (length v) :: u64)) @ v"
    "\<lambda>v. v \<noteq> [] \<and> length v < 2 ^ 64 \<and> length v \<le> string_max_size"
  using codec_string [OF fuint64.codec_axioms]
  by (simp add: writeStringF64_def [abs_def] readStringF64_def [abs_def])

interpretation stringVint: codec ba_write ba_read ba_repr ba_room writeStringVint readStringVint
    "\<lambda>v. varint_bytes (of_nat (length v) :: u64) @ v"
    "\<lambda>v. v \<noteq> [] \<and> length v < 2 ^ 64 \<and> length v \<le> string_max_size"
  using codec_string [OF uint64.codec_axioms]
  by (simp add: writeStringVint_def [abs_def] readStringVint_def [abs_def])

section \<open>The contract of the typed accessors\<close>

lemma ba_room_le: "ba_room b n \<Longrightarrow> m \<le> n \<Longrightarrow> ba_room b m"
  by (auto simp: ba_room_def)

lemma create64: "ba_repr (ba_create (\<lambda>_ _. 0) 64) [] (length ([] :: byte list))"
  using ba_repr_create(1) [of 64] by (simp add: size_max_def)

lemma create64_room: "n \<le> 64 \<Longrightarrow> ba_room (ba_create (\<lambda>_ _. 0) 64) n"
  by (auto simp: ba_room_def)

text \<open>
  Fixed-width integers are a queue. Any interleaving of \<open>writeFuint64\<close> and
  \<open>readFuint64\<close> that fits in the room at hand returns what the same interleaving of enqueue and
  dequeue on an abstract queue of values returns, \<open>std::out_of_range\<close> on an empty one included.
\<close>

theorem fuint64_queue:
  assumes "ba_repr b W (length W)" and "ba_room b (8 * length (put_values ops))"
  shows "map_sum id fst (run_stream writeFuint64 readFuint64 b ops) = run_queue [] ops"
proof (rule fuint64.queue_refinement [OF assms(1)])
  have "length (concat (map (\<lambda>v :: u64. mem_bytes (hostToNetwork v)) vs)) = 8 * length vs" for vs
    by (induction vs) simp_all
  then show "ba_room b (length (concat (map (\<lambda>v. mem_bytes (hostToNetwork v)) (put_values ops))))"
    using assms(2) by simp
qed simp_all

theorem fuint64_queue_witness:
  "map_sum id fst (run_stream writeFuint64 readFuint64 (ba_create (\<lambda>_ _. 0) 64) [Put 7, Put 9, Get, Put 1, Get])
     = Inr [7, 9]"
  using fuint64_queue [OF create64, of "[Put 7, Put 9, Get, Put 1, Get]"] create64_room
  by simp

text \<open>
  C35: Varints. The loop of \<open>writeUint32\<close> stays inside \<open>tmp[5]\<close> and that of
  \<open>writeUint64\<close> inside \<open>tmp[10]\<close>, and the readers return what was written, consuming
  exactly the bytes written.
\<close>

theorem varint_roundtrip:
  assumes "ba_repr b W (length W)" and "ba_room b 10"
  shows "length (varint_bytes (v :: u32)) \<le> 5 \<and> length (varint_bytes (w :: u64)) \<le> 10 \<and>
         (\<exists>b'. bindE (writeUint32 b v) readUint32 = Inr (v, b') \<and>
            ba_repr b' (W @ varint_bytes v) (length W + length (varint_bytes v))) \<and>
         (\<exists>b'. bindE (writeUint64 b w) readUint64 = Inr (w, b') \<and>
            ba_repr b' (W @ varint_bytes w) (length W + length (varint_bytes w)))"
proof -
  have "unat v < 2 ^ LENGTH(32)" and "unat w < 2 ^ LENGTH(64)" by (rule unsigned_less)+
  then have l: "length (varint_bytes v) \<le> 5" "length (varint_bytes w) \<le> 10"
    by (intro varint_length; simp)+
  then have "ba_room b (length (varint_bytes v))" "ba_room b (length (varint_bytes w))"
    using ba_room_le [OF assms(2)] by simp_all
  with l uint32.roundtrip [OF TrueI assms(1)] uint64.roundtrip [OF TrueI assms(1)]
  show ?thesis by simp
qed

theorem varint_roundtrip_witness:
  "\<exists>b'. bindE (writeUint32 (ba_create (\<lambda>_ _. 0) 64) 300) readUint32 = Inr (300, b')"
proof -
  have "ba_room (ba_create (\<lambda>_ _. 0) 64) 10" by (rule create64_room) simp
  from varint_roundtrip [OF create64 this, of 300] show ?thesis by blast
qed

text \<open>
  Zigzag. \<open>EncodeZigzag32\<close> is free of signed overflow exactly on the values above
  \<open>- 2^31\<close> and below \<open>2^30\<close> (\<open>v * 2\<close> is computed on \<open>int32_t\<close>), and there a value written by
  \<open>writeInt32\<close> is the value \<open>readInt32\<close> returns; outside, the write is undefined behaviour.
\<close>

theorem zigzag_domain_roundtrip:
  assumes "ba_repr b W (length W)" and "ba_room b 5"
  shows "if - (2 ^ 31) < sint v \<and> sint v < 2 ^ 30
         then \<exists>b'. bindE (writeInt32 b v) readInt32 = Inr (v, b')
         else writeInt32 b v = Inl SignedOverflow"
proof (cases "- (2 ^ 31) < sint v \<and> sint v < 2 ^ 30")
  case True
  then obtain e where e: "EncodeZigzag32 v = Inr e" using zigzag32_defined by blast
  have "unat e < 2 ^ LENGTH(32)" by (rule unsigned_less)
  then have "length (varint_bytes e) \<le> 5" by (intro varint_length) simp_all
  then have "ba_room b (length (varint_bytes (projr (EncodeZigzag32 v))))"
    using ba_room_le [OF assms(2)] e by simp
  from int32.roundtrip [OF _ assms(1) this] e True show ?thesis by auto
next
  case False
  then have "EncodeZigzag32 v = Inl SignedOverflow"
    using sint_ge [of v] by (auto simp: EncodeZigzag32_def)
  with False show ?thesis by (auto simp: writeInt32_def)
qed

theorem zigzag_domain_roundtrip_witness:
  "(\<exists>b'. bindE (writeInt32 (ba_create (\<lambda>_ _. 0) 64) (- 7)) readInt32 = Inr (- 7, b')) \<and>
   writeInt32 (ba_create (\<lambda>_ _. 0) 64) 0x40000000 = Inl SignedOverflow"
proof -
  have r: "ba_room (ba_create (\<lambda>_ _. 0) 64) 5" by (rule create64_room) simp
  show ?thesis
    using zigzag_domain_roundtrip [OF create64 r, where v = "- 7"]
      zigzag_domain_roundtrip [OF create64 r, where v = "0x40000000"]
    by simp
qed

text \<open>
  Strings with a varint length are a queue: non-empty strings written by
  \<open>writeStringVint\<close> come back whole and in order from \<open>readStringVint\<close>, for any interleaving
  that fits in the room at hand.
\<close>

theorem stringVint_queue:
  assumes "ba_repr b W (length W)"
    and "\<forall>v \<in> set (put_values ops). v \<noteq> [] \<and> length v < 2 ^ 64 \<and> length v \<le> string_max_size"
    and "ba_room b (length (concat (map (\<lambda>v. varint_bytes (of_nat (length v) :: u64) @ v) (put_values ops))))"
  shows "map_sum id fst (run_stream writeStringVint readStringVint b ops) = run_queue [] ops"
  by (rule stringVint.queue_refinement [OF assms(1)]) (use assms in simp_all)

theorem stringVint_queue_witness:
  "map_sum id fst (run_stream writeStringVint readStringVint (ba_create (\<lambda>_ _. 0) 64)
      [Put [1, 2, 3], Put [4], Get, Get]) = Inr [[1, 2, 3], [4]]"
proof -
  let ?ops = "[Put [1, 2, 3], Put [4], Get, Get] :: byte list queue_op list"
  have "length (concat (map (\<lambda>v. varint_bytes (of_nat (length v) :: u64) @ v) (put_values ?ops))) \<le> 64"
    by (simp add: varint_small)
  from stringVint_queue [OF create64 _ create64_room [OF this]] show ?thesis
    by (simp add: string_max_size_def)
qed

text \<open>
  \<open>writeFint32\<close> does not swap: it computes \<open>v = hostToNetwork(value)\<close> and then writes
  \<open>value\<close>, so \<open>readFint32\<close> returns the value with its bytes reversed.
\<close>

theorem writeFint32_unswapped:
  assumes "ba_repr b W (length W)" and "ba_room b 4"
  shows "\<exists>b'. bindE (writeFint32 b v) readFint32 = Inr (byteswap v, b') \<and>
           ba_repr b' (W @ mem_bytes v) (length W + 4)"
proof -
  have "ba_room b (length (mem_bytes v) + 0)" using assms(2) by simp
  then obtain s1 where w: "ba_write b (mem_bytes v) = Inr s1" and r: "ba_repr s1 (W @ mem_bytes v) (length W)"
    using ba.write_then [OF assms(1)] by blast
  have d: "drop (length W) (W @ mem_bytes v) = mem_bytes v @ []" by simp
  have "length (mem_bytes v) = 4" by simp
  then have ne: "mem_bytes v @ [] \<noteq> []" by (metis append_Nil2 list.size(3) zero_neq_numeral)
  obtain s2 where "ba_read s1 (length (mem_bytes v)) = Inr (mem_bytes v, s2)"
    and "ba_repr s2 (W @ mem_bytes v) (length W + length (mem_bytes v))"
    by (rule ba.read_prefix [OF r d ne])
  then show ?thesis
    using w by (simp add: writeFint32_def readFint32_def networkToHost_def of_mem_bytes_mem_bytes)
qed

theorem writeFint32_unswapped_witness:
  "\<exists>b'. bindE (writeFint32 (ba_create (\<lambda>_ _. 0) 64) 1) readFint32 = Inr (byteswap 1, b')"
proof -
  have "ba_room (ba_create (\<lambda>_ _. 0) 64) 4" by (rule create64_room) simp
  from writeFint32_unswapped [OF create64 this, of 1] show ?thesis by blast
qed

end
