(* ===== verification/Address.thy ===== *)
theory Address
  imports Endian "HOL-Library.List_Lexorder" "HOL-Library.Char_ord"
begin

section \<open>Socket addresses (net/Address)\<close>

text \<open>
  \<open>spike/net/Address.{h,cpp}\<close>: the class hierarchy of addresses over the C structures they
  wrap. The structures keep their fields as raw integers and bytes, so a field in network
  order is the byte-swapped host value. \<open>addr_bytes\<close> is the object representation that
  \<open>memcmp\<close> and \<open>Address::Create\<close> see. The resolver calls \<open>getaddrinfo\<close>, \<open>getifaddrs\<close> and
  \<open>inet_pton\<close> are arguments.
\<close>

subsection \<open>The C structures\<close>

record sockaddr_in =
  sin_family :: u16
  sin_port :: u16
  s_addr :: u32
  sin_zero :: "byte list"

record sockaddr_in6 =
  sin6_family :: u16
  sin6_port :: u16
  sin6_flowinfo :: u32
  s6_addr :: "byte list"
  sin6_scope_id :: u32

record sockaddr_un =
  sun_family :: u16
  sun_path :: "byte list"

record sockaddr_any =
  sa_family :: u16
  sa_data :: "byte list"

datatype address =
    IPv4Address sockaddr_in
  | IPv6Address sockaddr_in6
  | UnixAddress sockaddr_un nat
  | UnknownAddress sockaddr_any

definition AF_UNSPEC :: u16 where "AF_UNSPEC = 0"
definition AF_UNIX :: u16 where "AF_UNIX = 1"
definition AF_INET :: u16 where "AF_INET = 2"
definition AF_INET6 :: u16 where "AF_INET6 = 10"

text \<open>\<open>sizeof(sun_path)\<close> and \<open>offsetof(sockaddr_un, sun_path)\<close>.\<close>

definition sun_path_size :: nat where "sun_path_size = 108"
definition sun_path_offset :: nat where "sun_path_offset = 2"

definition addr_bytes :: "address \<Rightarrow> byte list" where
  "addr_bytes a = (case a of
     IPv4Address s \<Rightarrow> mem_bytes (sin_family s) @ mem_bytes (sin_port s) @ mem_bytes (s_addr s) @ sin_zero s
   | IPv6Address s \<Rightarrow> mem_bytes (sin6_family s) @ mem_bytes (sin6_port s) @ mem_bytes (sin6_flowinfo s) @
       s6_addr s @ mem_bytes (sin6_scope_id s)
   | UnixAddress s len \<Rightarrow> mem_bytes (sun_family s) @ sun_path s
   | UnknownAddress s \<Rightarrow> mem_bytes (sa_family s) @ sa_data s)"

definition getAddrLen :: "address \<Rightarrow> nat" where
  "getAddrLen a = (case a of IPv4Address s \<Rightarrow> 16 | IPv6Address s \<Rightarrow> 28
     | UnixAddress s len \<Rightarrow> len | UnknownAddress s \<Rightarrow> 16)"

definition addr_ok :: "address \<Rightarrow> bool" where
  "addr_ok a = (case a of IPv4Address s \<Rightarrow> length (sin_zero s) = 8
     | IPv6Address s \<Rightarrow> length (s6_addr s) = 16
     | UnixAddress s len \<Rightarrow> length (sun_path s) = sun_path_size \<and> len \<le> sun_path_offset + sun_path_size
     | UnknownAddress s \<Rightarrow> length (sa_data s) = 14)"

definition getFamily :: "address \<Rightarrow> int" where
  "getFamily a = uint (of_mem_bytes (take 2 (addr_bytes a)) :: u16)"

subsection \<open>Creation from a \<open>sockaddr\<close>\<close>

text \<open>
  The argument is the memory a \<open>sockaddr\<close> pointer names, \<open>None\<close> for the null pointer; copying
  a structure out of memory that is shorter is out of bounds. \<open>addrlen\<close> is not looked at.
\<close>

definition copy_in :: "byte list \<Rightarrow> sockaddr_in res" where
  "copy_in m = (if length m < 16 then Inl HeapOverflow else
     Inr \<lparr>sin_family = of_mem_bytes (take 2 m), sin_port = of_mem_bytes (take 2 (drop 2 m)),
          s_addr = of_mem_bytes (take 4 (drop 4 m)), sin_zero = take 8 (drop 8 m)\<rparr>)"

definition copy_in6 :: "byte list \<Rightarrow> sockaddr_in6 res" where
  "copy_in6 m = (if length m < 28 then Inl HeapOverflow else
     Inr \<lparr>sin6_family = of_mem_bytes (take 2 m), sin6_port = of_mem_bytes (take 2 (drop 2 m)),
          sin6_flowinfo = of_mem_bytes (take 4 (drop 4 m)), s6_addr = take 16 (drop 8 m),
          sin6_scope_id = of_mem_bytes (take 4 (drop 24 m))\<rparr>)"

definition copy_any :: "byte list \<Rightarrow> sockaddr_any res" where
  "copy_any m = (if length m < 16 then Inl HeapOverflow else
     Inr \<lparr>sa_family = of_mem_bytes (take 2 m), sa_data = take 14 (drop 2 m)\<rparr>)"

definition Address_Create :: "byte list option \<Rightarrow> address option res" where
  "Address_Create addr = (case addr of None \<Rightarrow> Inr None | Some m \<Rightarrow>
     if length m < 2 then Inl HeapOverflow else
     let fam = of_mem_bytes (take 2 m) :: u16 in
     if fam = AF_INET then bindE (copy_in m) (\<lambda>s. Inr (Some (IPv4Address s)))
     else if fam = AF_INET6 then bindE (copy_in6 m) (\<lambda>s. Inr (Some (IPv6Address s)))
     else bindE (copy_any m) (\<lambda>s. Inr (Some (UnknownAddress s))))"

subsection \<open>Comparison\<close>

fun memcmp_list :: "byte list \<Rightarrow> byte list \<Rightarrow> int" where
  "memcmp_list (x # xs) (y # ys) =
     (if x = y then memcmp_list xs ys else uint x - uint y)"
| "memcmp_list xs ys = 0"

definition memcmp :: "byte list \<Rightarrow> byte list \<Rightarrow> nat \<Rightarrow> int res" where
  "memcmp p q n = (if n \<le> length p \<and> n \<le> length q
     then Inr (memcmp_list (take n p) (take n q)) else Inl HeapOverflow)"

definition addr_less :: "address \<Rightarrow> address \<Rightarrow> bool res" where
  "addr_less a b =
     (let minlen = min (getAddrLen a) (getAddrLen b) in
      bindE (memcmp (addr_bytes a) (addr_bytes b) minlen) (\<lambda>result.
        if result \<noteq> 0 then Inr (result < 0) else Inr (getAddrLen a < getAddrLen b)))"

definition addr_eq :: "address \<Rightarrow> address \<Rightarrow> bool res" where
  "addr_eq a b =
     (if getAddrLen a = getAddrLen b
      then bindE (memcmp (addr_bytes a) (addr_bytes b) (getAddrLen a)) (\<lambda>r. Inr (r = 0))
      else Inr False)"

definition addr_neq :: "address \<Rightarrow> address \<Rightarrow> bool res" where
  "addr_neq a b = bindE (addr_eq a b) (\<lambda>r. Inr (\<not> r))"

subsection \<open>Masks\<close>

text \<open>
  \<open>(1 << (sizeof(T) * 8 - bits)) - 1\<close> on \<open>int\<close>: the count is a \<open>size_t\<close>, a count of 32 or more is
  undefined, and so is \<open>INT_MIN - 1\<close>, which a count of 31 leads to.
\<close>

definition CreateMask :: "u32 \<Rightarrow> 'a::len word res" where
  "CreateMask bits =
     (let n = sz_sub LENGTH('a) (unat bits) in
      if n \<ge> 32 then Inl ShiftRange
      else if n = 31 then Inl SignedOverflow
      else Inr (word_of_int (2 ^ n - 1)))"

function CountBytes_loop :: "'a::len word \<Rightarrow> nat \<Rightarrow> nat" where
  "CountBytes_loop v result =
     (if v = 0 then result else CountBytes_loop (v AND (v - 1)) (result + 1))"
  by pat_completeness auto
termination
proof (relation "measure (\<lambda>(v :: 'a word, r). unat v)")
  fix v :: "'a word" and r :: nat assume "v \<noteq> 0"
  then have "unat (v - 1) < unat v" by (simp add: unat_minus_one unat_gt_0)
  then have "v AND (v - 1) < v"
    by (metis order_le_less_trans word_and_le1 word_less_nat_alt)
  then show "((v AND (v - 1), r + 1), v, r) \<in> measure (\<lambda>(v, r). unat v)" by (simp add: word_less_nat_alt)
qed simp

declare CountBytes_loop.simps [simp del]

definition CountBytes :: "'a::len word \<Rightarrow> nat" where
  "CountBytes v = CountBytes_loop v 0"

subsection \<open>IPv4\<close>

definition htons :: "u16 \<Rightarrow> u16" where "htons v = byteswap v"
definition htonl :: "u32 \<Rightarrow> u32" where "htonl v = byteswap v"

definition new_IPv4Address :: "u32 \<Rightarrow> u16 \<Rightarrow> sockaddr_in" where
  "new_IPv4Address addr port =
     \<lparr>sin_family = AF_INET, sin_port = htons port, s_addr = htonl addr, sin_zero = replicate 8 0\<rparr>"

text \<open>
  \<open>IPv4Address::Create\<close>; \<open>pton\<close> is \<open>inet_pton(AF_INET, ...)\<close>, the four bytes in network order,
  \<open>None\<close> when it returns 0 or less.
\<close>

definition IPv4_Create :: "(string \<Rightarrow> u32 option) \<Rightarrow> string \<Rightarrow> u16 \<Rightarrow> sockaddr_in option" where
  "IPv4_Create pton addr port =
     (let new_addr = (new_IPv4Address 0 0)\<lparr>sin_port := htons port\<rparr> in
      case pton addr of None \<Rightarrow> None | Some a \<Rightarrow> Some (new_addr\<lparr>s_addr := a\<rparr>))"

definition ipv4_broadcastAddress :: "sockaddr_in \<Rightarrow> u32 \<Rightarrow> sockaddr_in option res" where
  "ipv4_broadcastAddress m_addr prefix_len =
     (if prefix_len > 32 then Inr None
      else bindE (CreateMask prefix_len) (\<lambda>mask.
        Inr (Some (m_addr\<lparr>s_addr := s_addr m_addr OR htonl mask\<rparr>))))"

definition ipv4_networkAddress :: "sockaddr_in \<Rightarrow> u32 \<Rightarrow> sockaddr_in option res" where
  "ipv4_networkAddress m_addr prefix_len =
     (if prefix_len > 32 then Inr None
      else bindE (CreateMask prefix_len) (\<lambda>mask.
        Inr (Some (m_addr\<lparr>s_addr := s_addr m_addr AND htonl mask\<rparr>))))"

definition ipv4_subnetMask :: "sockaddr_in \<Rightarrow> u32 \<Rightarrow> sockaddr_in option res" where
  "ipv4_subnetMask m_addr prefix_len =
     bindE (CreateMask prefix_len) (\<lambda>mask.
       Inr (Some \<lparr>sin_family = AF_INET, sin_port = 0, s_addr = NOT (htonl mask), sin_zero = replicate 8 0\<rparr>))"

definition ipv4_getPort :: "sockaddr_in \<Rightarrow> u32" where
  "ipv4_getPort m_addr = ucast (htons (sin_port m_addr))"

definition ipv4_setPort :: "sockaddr_in \<Rightarrow> u32 \<Rightarrow> sockaddr_in" where
  "ipv4_setPort m_addr port = m_addr\<lparr>sin_port := htons (ucast port)\<rparr>"

text \<open>\<open>inet_ntop(AF_INET, p)\<close>: the four bytes at \<open>p\<close>, dotted; \<open>snprintf\<close> keeps \<open>n - 1\<close> characters.\<close>

definition show_byte :: "byte \<Rightarrow> string" where
  "show_byte c = show_nat (unat c)"

definition inet_ntop4 :: "byte list \<Rightarrow> string" where
  "inet_ntop4 bs = show_byte (bs ! 0) @ ''.'' @ show_byte (bs ! 1) @ ''.'' @
     show_byte (bs ! 2) @ ''.'' @ show_byte (bs ! 3)"

definition snprintf :: "nat \<Rightarrow> string \<Rightarrow> string" where
  "snprintf n s = take (n - 1) s"

definition INET_ADDRSTRLEN :: nat where "INET_ADDRSTRLEN = 16"
definition INET6_ADDRSTRLEN :: nat where "INET6_ADDRSTRLEN = 46"

definition ipv4_toString :: "sockaddr_in \<Rightarrow> string" where
  "ipv4_toString m_addr =
     (let ipv4Str = inet_ntop4 (mem_bytes (s_addr m_addr));
          port = htons (sin_port m_addr)
      in snprintf (INET_ADDRSTRLEN + 6) (ipv4Str @ '':'' @ show_nat (unat port)))"

subsection \<open>IPv6\<close>

definition new_IPv6Address :: "byte list \<Rightarrow> u16 \<Rightarrow> sockaddr_in6" where
  "new_IPv6Address addr port =
     \<lparr>sin6_family = AF_INET6, sin6_port = htons port, sin6_flowinfo = 0, s6_addr = addr, sin6_scope_id = 0\<rparr>"

definition new_IPv6Address0 :: sockaddr_in6 where
  "new_IPv6Address0 = \<lparr>sin6_family = AF_INET6, sin6_port = 0, sin6_flowinfo = 0,
     s6_addr = replicate 16 0, sin6_scope_id = 0\<rparr>"

definition IPv6_Create :: "(string \<Rightarrow> byte list option) \<Rightarrow> string \<Rightarrow> u16 \<Rightarrow> sockaddr_in6 option" where
  "IPv6_Create pton addr port =
     (let new_addr = new_IPv6Address0\<lparr>sin6_port := htons port\<rparr> in
      case pton addr of None \<Rightarrow> None | Some a \<Rightarrow> Some (new_addr\<lparr>s6_addr := a\<rparr>))"

text \<open>\<open>s6_addr[i] = f(s6_addr[i])\<close> on the array of 16 bytes, and the loop that fills a range.\<close>

definition set_byte :: "byte list \<Rightarrow> nat \<Rightarrow> (byte \<Rightarrow> byte) \<Rightarrow> byte list res" where
  "set_byte bs i f = (if i < length bs then Inr (bs[i := f (bs ! i)]) else Inl HeapOverflow)"

fun fill_bytes :: "byte list \<Rightarrow> nat \<Rightarrow> nat \<Rightarrow> byte \<Rightarrow> byte list" where
  "fill_bytes bs i 0 v = bs"
| "fill_bytes bs i (Suc n) v = fill_bytes (bs[i := v]) (Suc i) n v"

definition ipv6_broadcastAddress :: "sockaddr_in6 \<Rightarrow> u32 \<Rightarrow> sockaddr_in6 res" where
  "ipv6_broadcastAddress m_addr prefix_len =
     (let q = unat prefix_len div 8 in
      bindE (CreateMask (prefix_len mod 8)) (\<lambda>mask.
      bindE (set_byte (s6_addr m_addr) q (\<lambda>c. c OR mask)) (\<lambda>bs.
        Inr (m_addr\<lparr>s6_addr := fill_bytes bs (q + 1) (16 - (q + 1)) 0xff\<rparr>))))"

definition ipv6_networkAddress :: "sockaddr_in6 \<Rightarrow> u32 \<Rightarrow> sockaddr_in6 res" where
  "ipv6_networkAddress m_addr prefix_len =
     (let q = unat prefix_len div 8 in
      bindE (CreateMask (prefix_len mod 8)) (\<lambda>mask.
      bindE (set_byte (s6_addr m_addr) q (\<lambda>c. c AND mask)) (\<lambda>bs.
        Inr (m_addr\<lparr>s6_addr := fill_bytes bs (q + 1) (16 - (q + 1)) 0x00\<rparr>))))"

definition ipv6_subnetMask :: "sockaddr_in6 \<Rightarrow> u32 \<Rightarrow> sockaddr_in6 res" where
  "ipv6_subnetMask m_addr prefix_len =
     (let q = unat prefix_len div 8 in
      bindE (CreateMask (prefix_len mod 8)) (\<lambda>mask.
      bindE (set_byte (replicate 16 0) q (\<lambda>c. NOT mask)) (\<lambda>bs.
        Inr (new_IPv6Address0\<lparr>s6_addr := fill_bytes bs 0 q 0xff\<rparr>))))"

definition ipv6_getPort :: "sockaddr_in6 \<Rightarrow> u32" where
  "ipv6_getPort m_addr = ucast (htons (sin6_port m_addr))"

definition ipv6_setPort :: "sockaddr_in6 \<Rightarrow> u32 \<Rightarrow> sockaddr_in6" where
  "ipv6_setPort m_addr port = m_addr\<lparr>sin6_port := htons (ucast port)\<rparr>"

text \<open>\<open>toString\<close> passes \<open>AF_INET\<close> with the sixteen bytes.\<close>

definition ipv6_toString :: "sockaddr_in6 \<Rightarrow> string" where
  "ipv6_toString m_addr =
     (let ipv6Str = inet_ntop4 (s6_addr m_addr);
          port = htons (sin6_port m_addr)
      in snprintf (INET6_ADDRSTRLEN + 8) (''['' @ ipv6Str @ '']:'' @ show_nat (unat port)))"

subsection \<open>Unix and unknown addresses\<close>

definition byte_of :: "char \<Rightarrow> byte" where "byte_of c = of_nat (of_char c)"
definition char_of_byte :: "byte \<Rightarrow> char" where "char_of_byte b = char_of (unat b)"

definition new_UnixAddress0 :: address where
  "new_UnixAddress0 = UnixAddress \<lparr>sun_family = AF_UNIX, sun_path = replicate sun_path_size 0\<rparr>
     (sun_path_offset + (sun_path_size - 1))"

definition new_UnixAddress :: "string \<Rightarrow> address res" where
  "new_UnixAddress path =
     (let m_length = length path + 1;
          m_length = (if path \<noteq> [] \<and> hd path = NUL then m_length - 1 else m_length)
      in if m_length > sun_path_size then Inl (LogicError ''path too long'')
         else Inr (UnixAddress
           \<lparr>sun_family = AF_UNIX,
            sun_path = overwrite (replicate sun_path_size 0) 0 (take m_length (map byte_of path @ [0]))\<rparr>
           (m_length + sun_path_offset)))"

definition setAddrLen :: "sockaddr_un \<Rightarrow> nat \<Rightarrow> nat \<Rightarrow> address" where
  "setAddrLen m_addr m_length v = UnixAddress m_addr v"

text \<open>The C string at the head of an array; running off its end is out of bounds.\<close>

definition cstr_of :: "byte list \<Rightarrow> string res" where
  "cstr_of bs = (if 0 \<in> set bs then Inr (map char_of_byte (takeWhile (\<lambda>c. c \<noteq> 0) bs)) else Inl HeapOverflow)"

definition unix_toString :: "sockaddr_un \<Rightarrow> nat \<Rightarrow> string res" where
  "unix_toString m_addr m_length =
     (if m_length > sun_path_offset \<and> sun_path m_addr ! 0 = 0
      then bindE (cstr_of (drop 1 (sun_path m_addr))) (\<lambda>s.
        Inr (snprintf (m_length - sun_path_offset + 2) (CHR 0x5C # CHR ''0'' # s)))
      else cstr_of (sun_path m_addr))"

definition new_UnknownAddress :: "int \<Rightarrow> sockaddr_any" where
  "new_UnknownAddress family = \<lparr>sa_family = word_of_int family, sa_data = replicate 14 0\<rparr>"

definition unknown_toString :: "sockaddr_any \<Rightarrow> string" where
  "unknown_toString m_addr =
     snprintf 100 (''[UnknownAddress family='' @ show_nat (unat (sa_family m_addr)) @ '']'')"

definition addr_toString :: "address \<Rightarrow> string res" where
  "addr_toString a = (case a of IPv4Address s \<Rightarrow> Inr (ipv4_toString s) | IPv6Address s \<Rightarrow> Inr (ipv6_toString s)
     | UnixAddress s len \<Rightarrow> unix_toString s len | UnknownAddress s \<Rightarrow> Inr (unknown_toString s))"

subsection \<open>Resolving a host string\<close>

text \<open>\<open>memchr\<close>: the offset of the first \<open>c\<close>.\<close>

fun find_char :: "char \<Rightarrow> string \<Rightarrow> nat option" where
  "find_char c [] = None"
| "find_char c (x # xs) = (if x = c then Some 0 else map_option Suc (find_char c xs))"

text \<open>
  The part of \<open>Lookup\<close> before \<open>getaddrinfo\<close>: the node and the service it is called with, as C
  strings. A \<open>service\<close> that points into \<open>host\<close> is the rest of \<open>host\<close> from there.
\<close>

definition bracket_part :: "string \<Rightarrow> string \<times> string option" where
  "bracket_part host =
     (if host \<noteq> [] \<and> hd host = CHR ''['' then
        (case find_char CHR '']'' (tl host) of
           None \<Rightarrow> ([], None)
         | Some i \<Rightarrow>
             (take i (tl host),
              (if nth_opt host (i + 2) = Some CHR '':'' then Some (drop (i + 3) host) else None)))
      else ([], None))"

definition colon_part :: "string \<Rightarrow> string \<times> string option" where
  "colon_part host =
     (case find_char CHR '':'' host of
        None \<Rightarrow> ([], None)
      | Some i \<Rightarrow>
          (if find_char CHR '':'' (drop (i + 1) host) = None
           then (take i host, Some (drop (i + 1) host))
           else ([], Some (drop i host))))"

definition split_host :: "string \<Rightarrow> string \<times> string option" where
  "split_host host =
     (let (node, service) = bracket_part host;
          (node, service) = (if node = [] then colon_part host else (node, service));
          node = (if node = [] then host else node)
      in (c_str node, map_option c_str service))"

record hints =
  ai_flags :: int
  ai_family :: int
  ai_socktype :: int
  ai_protocol :: int

type_synonym resolver = "string \<Rightarrow> string option \<Rightarrow> hints \<Rightarrow> int + byte list list"

fun create_all :: "byte list list \<Rightarrow> address option list res" where
  "create_all [] = Inr []"
| "create_all (m # ms) = bindE (Address_Create (Some m)) (\<lambda>a.
     bindE (create_all ms) (\<lambda>rest. Inr (a # rest)))"

definition Lookup :: "resolver \<Rightarrow> address option list \<Rightarrow> string \<Rightarrow> int \<Rightarrow> int \<Rightarrow> int \<Rightarrow>
    (bool \<times> address option list) res" where
  "Lookup getaddrinfo result host family type protocol =
     (let (node, service) = split_host host in
      case getaddrinfo node service
             \<lparr>ai_flags = 0, ai_family = family, ai_socktype = type, ai_protocol = protocol\<rparr> of
        Inl error \<Rightarrow> Inr (False, result)
      | Inr ms \<Rightarrow> bindE (create_all ms) (\<lambda>addrs. Inr (result @ addrs \<noteq> [], result @ addrs)))"

definition LookupAny :: "resolver \<Rightarrow> string \<Rightarrow> int \<Rightarrow> int \<Rightarrow> int \<Rightarrow> address option res" where
  "LookupAny getaddrinfo host family type protocol =
     bindE (Lookup getaddrinfo [] host family type protocol) (\<lambda>(ok, result).
       Inr (if ok then result ! 0 else None))"

definition is_ip :: "address option \<Rightarrow> bool" where
  "is_ip a = (case a of Some (IPv4Address s) \<Rightarrow> True | Some (IPv6Address s) \<Rightarrow> True | _ \<Rightarrow> False)"

definition LookupAnyIPAddress :: "resolver \<Rightarrow> string \<Rightarrow> int \<Rightarrow> int \<Rightarrow> int \<Rightarrow> address option res" where
  "LookupAnyIPAddress getaddrinfo host family type protocol =
     bindE (Lookup getaddrinfo [] host family type protocol) (\<lambda>(ok, result).
       Inr (if ok then (case find is_ip result of Some v \<Rightarrow> v | None \<Rightarrow> None) else None))"

definition ip_setPort :: "address \<Rightarrow> u32 \<Rightarrow> address" where
  "ip_setPort a port = (case a of IPv4Address s \<Rightarrow> IPv4Address (ipv4_setPort s port)
     | IPv6Address s \<Rightarrow> IPv6Address (ipv6_setPort s port) | _ \<Rightarrow> a)"

text \<open>
  \<open>IPAddress::Create\<close>: \<open>AI_NUMERICHOST\<close> is 4. A resolver that succeeds returns at least one
  entry; an empty list would be the null \<open>results\<close>.
\<close>

definition IPAddress_Create :: "resolver \<Rightarrow> string \<Rightarrow> u16 \<Rightarrow> address option res" where
  "IPAddress_Create getaddrinfo addr port =
     (case getaddrinfo addr None \<lparr>ai_flags = 4, ai_family = 0, ai_socktype = 0, ai_protocol = 0\<rparr> of
        Inl error \<Rightarrow> Inr None
      | Inr [] \<Rightarrow> Inl NullDeref
      | Inr (m # ms) \<Rightarrow> bindE (Address_Create (Some m)) (\<lambda>a.
          Inr (if is_ip a then Some (ip_setPort (the a) (ucast port)) else None)))"

subsection \<open>Network interfaces\<close>

text \<open>
  One entry of \<open>getifaddrs\<close>; \<open>ifa_addr\<close> and \<open>ifa_netmask\<close> may be null pointers. The result is a
  \<open>multimap\<close>: a list sorted by name, a new entry after those of equal name.
\<close>

record ifaddr =
  ifa_name :: string
  ifa_addr :: "byte list option"
  ifa_netmask :: "byte list option"

fun multimap_insert :: "string \<Rightarrow> 'v \<Rightarrow> (string \<times> 'v) list \<Rightarrow> (string \<times> 'v) list" where
  "multimap_insert k v [] = [(k, v)]"
| "multimap_insert k v ((k', v') # m) =
     (if k < k' then (k, v) # (k', v') # m else (k', v') # multimap_insert k v m)"

definition deref_mem :: "byte list option \<Rightarrow> byte list res" where
  "deref_mem p = (case p of None \<Rightarrow> Inl NullDeref | Some m \<Rightarrow> Inr m)"

definition interface_entry :: "ifaddr \<Rightarrow> u16 \<Rightarrow> (address option \<times> nat) res" where
  "interface_entry e fam =
     (if fam = AF_INET then
        bindE (Address_Create (ifa_addr e)) (\<lambda>a.
        bindE (deref_mem (ifa_netmask e)) (\<lambda>m.
        bindE (copy_in m) (\<lambda>mask. Inr (a, CountBytes (s_addr mask)))))
      else if fam = AF_INET6 then
        bindE (Address_Create (ifa_addr e)) (\<lambda>a.
        bindE (deref_mem (ifa_netmask e)) (\<lambda>m.
        bindE (copy_in6 m) (\<lambda>mask. Inr (a, sum_list (map CountBytes (s6_addr mask))))))
      else Inr (None, 2 ^ 32 - 1))"

fun interfaces_loop :: "ifaddr list \<Rightarrow> int \<Rightarrow> (string \<times> address \<times> nat) list \<Rightarrow>
    (string \<times> address \<times> nat) list res" where
  "interfaces_loop [] family result = Inr result"
| "interfaces_loop (e # es) family result =
     bindE (deref_mem (ifa_addr e)) (\<lambda>m.
     let fam = of_mem_bytes (take 2 m) :: u16 in
     if family \<noteq> uint AF_UNSPEC \<and> family \<noteq> uint fam then interfaces_loop es family result
     else bindE (interface_entry e fam) (\<lambda>(a, prefix_len).
       (case a of None \<Rightarrow> interfaces_loop es family result
        | Some a' \<Rightarrow> interfaces_loop es family (multimap_insert (ifa_name e) (a', prefix_len) result))))"

definition GetInterfaceAddresses :: "ifaddr list option \<Rightarrow> int \<Rightarrow> (string \<times> address \<times> nat) list \<Rightarrow>
    (bool \<times> (string \<times> address \<times> nat) list) res" where
  "GetInterfaceAddresses getifaddrs family result =
     (case getifaddrs of None \<Rightarrow> Inr (False, result)
      | Some es \<Rightarrow> bindE (interfaces_loop es family result) (\<lambda>r. Inr (r \<noteq> [], r)))"

end
