(* ===== verification/Address_Props.thy ===== *)
theory Address_Props
  imports Address
begin

section \<open>Socket addresses: properties\<close>

text \<open>
  The comparison operators are the lexicographic order on the bytes up to the address
  length, so \<open>operator<\<close> is a strict total order on the keys; creation from a \<open>sockaddr\<close>
  inverts the object representation; the mask arithmetic is described bit by bit; the host
  string is split where it should be.
\<close>

subsection \<open>Comparison is lexicographic\<close>

definition addr_key :: "address \<Rightarrow> byte list" where
  "addr_key a = take (getAddrLen a) (addr_bytes a)"

lemma addr_ok_len: "addr_ok a \<Longrightarrow> getAddrLen a \<le> length (addr_bytes a)"
  by (auto simp: addr_ok_def getAddrLen_def addr_bytes_def sun_path_size_def sun_path_offset_def
      split: address.splits)

lemma length_addr_key [simp]: "addr_ok a \<Longrightarrow> length (addr_key a) = getAddrLen a"
  by (simp add: addr_key_def addr_ok_len)

lemma memcmp_list_self [simp]: "memcmp_list xs xs = 0"
  by (induction xs) simp_all

lemma memcmp_list_zero: "length xs = length ys \<Longrightarrow> memcmp_list xs ys = 0 \<longleftrightarrow> xs = ys"
  by (induction xs ys rule: memcmp_list.induct) (auto simp: word_uint_eq_iff)

text \<open>Comparing the common prefix and then the lengths is comparing the lists.\<close>

lemma memcmp_list_less:
  "(let m = min (length xs) (length ys); r = memcmp_list (take m xs) (take m ys) in
      if r \<noteq> 0 then r < 0 else length xs < length ys) \<longleftrightarrow> xs < ys"
proof (induction xs ys rule: memcmp_list.induct, goal_cases)
  case (1 x xs y ys)
  then show ?case by (auto simp: Let_def word_less_def word_uint_eq_iff)
next
  case (2 ys)
  then show ?case by (cases ys) simp_all
next
  case (3 xs)
  then show ?case by (cases xs) simp_all
qed

lemma take_addr_key: "n \<le> getAddrLen a \<Longrightarrow> take n (addr_bytes a) = take n (addr_key a)"
  by (simp add: addr_key_def min_absorb1)

lemma addr_less_key:
  assumes "addr_ok a" and "addr_ok b"
  shows "addr_less a b = Inr (addr_key a < addr_key b)"
proof -
  let ?m = "min (getAddrLen a) (getAddrLen b)"
  have "?m \<le> length (addr_bytes a)" "?m \<le> length (addr_bytes b)"
    using addr_ok_len [OF assms(1)] addr_ok_len [OF assms(2)] by linarith+
  then show ?thesis
    using memcmp_list_less [of "addr_key a" "addr_key b"]
      length_addr_key [OF assms(1)] length_addr_key [OF assms(2)]
    by (auto simp: addr_less_def memcmp_def Let_def take_addr_key split: if_splits)
qed

lemma addr_eq_key:
  assumes "addr_ok a" and "addr_ok b"
  shows "addr_eq a b = Inr (addr_key a = addr_key b)"
proof (cases "getAddrLen a = getAddrLen b")
  case True
  then show ?thesis
    using addr_ok_len [OF assms(1)] addr_ok_len [OF assms(2)] memcmp_list_zero [of "addr_key a" "addr_key b"] assms
    by (simp add: addr_eq_def memcmp_def addr_key_def)
next
  case False
  then have "addr_key a \<noteq> addr_key b" using assms length_addr_key by metis
  then show ?thesis using False by (simp add: addr_eq_def)
qed

subsection \<open>Creation inverts the object representation\<close>

definition addr_native :: "address \<Rightarrow> bool" where
  "addr_native a \<longleftrightarrow> addr_ok a \<and> (case a of IPv4Address s \<Rightarrow> sin_family s = AF_INET
     | IPv6Address s \<Rightarrow> sin6_family s = AF_INET6
     | UnknownAddress s \<Rightarrow> sa_family s \<noteq> AF_INET \<and> sa_family s \<noteq> AF_INET6
     | UnixAddress s n \<Rightarrow> False)"

lemma Create_addr_bytes: "addr_native a \<Longrightarrow> Address_Create (Some (addr_bytes a)) = Inr (Some a)"
  by (cases a)
     (auto simp: addr_native_def addr_ok_def addr_bytes_def Address_Create_def copy_in_def copy_in6_def
       copy_any_def of_mem_bytes_mem_bytes AF_INET_def AF_INET6_def)

subsection \<open>Masks\<close>

text \<open>The value an IPv4 field has on the host.\<close>

definition ipv4_host :: "sockaddr_in \<Rightarrow> u32" where
  "ipv4_host s = byteswap (s_addr s)"

lemma CreateMask32:
  "2 \<le> unat p \<Longrightarrow> unat p \<le> 32 \<Longrightarrow> CreateMask p = Inr (mask (32 - unat p) :: u32)"
  by (auto simp: CreateMask_def Let_def mask_eq_exp_minus_1)

lemma CreateMask32_faults:
  "CreateMask 0 = (Inl ShiftRange :: u32 res)" "CreateMask 1 = (Inl SignedOverflow :: u32 res)"
  by (simp_all add: CreateMask_def)

lemma CreateMask32_large: "32 < unat p \<Longrightarrow> CreateMask p = (Inl ShiftRange :: u32 res)"
proof -
  have "unat p < 2 ^ LENGTH(32)" by (rule unsigned_less)
  then have "unat p < 2 ^ 32" by simp
  then show "32 < unat p \<Longrightarrow> CreateMask p = (Inl ShiftRange :: u32 res)"
    by (auto simp: CreateMask_def Let_def sz_sub_def size_max_def)
qed

lemma CreateMask8:
  "unat p < 8 \<Longrightarrow> CreateMask p = Inr (mask (8 - unat p) :: byte)"
  by (auto simp: CreateMask_def Let_def mask_eq_exp_minus_1)

lemma unat_le_32: "\<not> p > (32 :: u32) \<longleftrightarrow> unat p \<le> 32"
  by (simp add: word_le_nat_alt not_less)

lemma ipv4_broadcast_spec:
  assumes "2 \<le> unat p" and "unat p \<le> 32"
  shows "\<exists>s. ipv4_broadcastAddress a p = Inr (Some s) \<and>
    ipv4_host s = ipv4_host a OR mask (32 - unat p) \<and> sin_port s = sin_port a \<and> sin_family s = sin_family a"
  using assms unat_le_32 [of p]
  by (simp add: ipv4_broadcastAddress_def CreateMask32 ipv4_host_def htonl_def byteswap_or byteswap_byteswap)

lemma ipv4_network_spec:
  assumes "2 \<le> unat p" and "unat p \<le> 32"
  shows "\<exists>s. ipv4_networkAddress a p = Inr (Some s) \<and>
    ipv4_host s = ipv4_host a AND mask (32 - unat p) \<and> sin_port s = sin_port a \<and> sin_family s = sin_family a"
  using assms unat_le_32 [of p]
  by (simp add: ipv4_networkAddress_def CreateMask32 ipv4_host_def htonl_def byteswap_and byteswap_byteswap)

lemma ipv4_subnet_spec:
  assumes "2 \<le> unat p" and "unat p \<le> 32"
  shows "\<exists>s. ipv4_subnetMask a p = Inr (Some s) \<and> ipv4_host s = NOT (mask (32 - unat p)) \<and> sin_port s = 0"
  using assms
  by (simp add: ipv4_subnetMask_def CreateMask32 ipv4_host_def htonl_def byteswap_not byteswap_byteswap)

subsection \<open>IPv6 masks, bit by bit\<close>

text \<open>Bit \<open>j\<close> of an address, counted from the most significant bit of the first byte.\<close>

definition addr_bit :: "byte list \<Rightarrow> nat \<Rightarrow> bool" where
  "addr_bit bs j = bit (bs ! (j div 8)) (7 - j mod 8)"

lemma length_fill_bytes [simp]: "length (fill_bytes bs i n v) = length bs"
  by (induction bs i n v rule: fill_bytes.induct) simp_all

lemma nth_fill_bytes:
  "j < length bs \<Longrightarrow> fill_bytes bs i n v ! j = (if i \<le> j \<and> j < i + n then v else bs ! j)"
  by (induction bs i n v rule: fill_bytes.induct) (auto simp: nth_list_update)

lemma unat_mod_8: "unat ((p :: u32) mod 8) = unat p mod 8"
  by (simp add: unat_mod)

lemma byte_ff: "bit (0xff :: int) n \<longleftrightarrow> n < 8"
proof -
  have "(0xff :: int) = mask 8" by (simp add: mask_eq_exp_minus_1)
  then show ?thesis by (simp only: bit_mask_iff possible_bit_def) simp
qed

lemma bit_pos_cases:
  assumes "j < (128 :: nat)" and "p < (128 :: nat)"
  obtains "j div 8 < p div 8" and "j < p" | "p div 8 = j div 8" and "p mod 8 \<le> j mod 8 \<longleftrightarrow> p \<le> j"
    | "p div 8 < j div 8" and "p \<le> j"
proof -
  consider "j div 8 < p div 8" | "p div 8 = j div 8" | "p div 8 < j div 8" by linarith
  then show thesis
  proof cases
    case 1
    then have "j < p" by (metis div_le_mono leD leI)
    with 1 that(1) show thesis by blast
  next
    case 2
    then have "p mod 8 \<le> j mod 8 \<longleftrightarrow> p \<le> j"
      using div_mult_mod_eq [of j 8] div_mult_mod_eq [of p 8] by linarith
    with 2 that(2) show thesis by blast
  next
    case 3
    then have "p \<le> j" by (metis div_le_mono leD nat_le_linear)
    with 3 that(3) show thesis by blast
  qed
qed

lemma ipv6_broadcast_spec:
  assumes len: "length (s6_addr a) = 16" and p: "unat p < 128"
  shows "\<exists>s. ipv6_broadcastAddress a p = Inr s \<and> length (s6_addr s) = 16 \<and> sin6_port s = sin6_port a \<and>
    (\<forall>j < 128. addr_bit (s6_addr s) j \<longleftrightarrow> addr_bit (s6_addr a) j \<or> unat p \<le> j)"
proof -
  let ?q = "unat p div 8" and ?m = "mask (8 - unat p mod 8) :: byte"
  have cm: "CreateMask (p mod 8) = Inr ?m" using CreateMask8 [of "p mod 8"] by (simp add: unat_mod_8)
  have q: "?q < 16" using p by simp
  define bs where "bs = fill_bytes ((s6_addr a)[?q := s6_addr a ! ?q OR ?m]) (?q + 1) (16 - (?q + 1)) 0xff"
  have "ipv6_broadcastAddress a p = Inr (a\<lparr>s6_addr := bs\<rparr>)"
    using q by (simp add: ipv6_broadcastAddress_def cm set_byte_def len Let_def bs_def)
  moreover have "addr_bit bs j \<longleftrightarrow> addr_bit (s6_addr a) j \<or> unat p \<le> j" if j: "j < 128" for j
  proof -
    have "j div 8 < 16" using j by simp
    then have nth: "bs ! (j div 8) = (if ?q < j div 8 then 0xff
        else if j div 8 = ?q then s6_addr a ! ?q OR ?m else s6_addr a ! (j div 8))"
      using len unfolding bs_def by (auto simp: nth_fill_bytes nth_list_update)
    have m: "bit ?m (7 - j mod 8) \<longleftrightarrow> unat p mod 8 \<le> j mod 8"
      by (auto simp: bit_mask_iff)
    from bit_pos_cases [OF j p] show ?thesis
      by cases (auto simp: addr_bit_def nth bit_or_iff m byte_ff)
  qed
  moreover have "length bs = 16" using len by (simp add: bs_def)
  ultimately show ?thesis by auto
qed

lemma ipv6_network_spec:
  assumes len: "length (s6_addr a) = 16" and p: "unat p < 128"
  shows "\<exists>s. ipv6_networkAddress a p = Inr s \<and> length (s6_addr s) = 16 \<and> sin6_port s = sin6_port a \<and>
    (\<forall>j < 128. addr_bit (s6_addr s) j \<longleftrightarrow> addr_bit (s6_addr a) j \<and>
       (j div 8 < unat p div 8 \<or> j div 8 = unat p div 8 \<and> unat p \<le> j))"
proof -
  let ?q = "unat p div 8" and ?m = "mask (8 - unat p mod 8) :: byte"
  have cm: "CreateMask (p mod 8) = Inr ?m" using CreateMask8 [of "p mod 8"] by (simp add: unat_mod_8)
  have q: "?q < 16" using p by simp
  define bs where "bs = fill_bytes ((s6_addr a)[?q := s6_addr a ! ?q AND ?m]) (?q + 1) (16 - (?q + 1)) 0x00"
  have "ipv6_networkAddress a p = Inr (a\<lparr>s6_addr := bs\<rparr>)"
    using q by (simp add: ipv6_networkAddress_def cm set_byte_def len Let_def bs_def)
  moreover have "addr_bit bs j \<longleftrightarrow> addr_bit (s6_addr a) j \<and>
      (j div 8 < ?q \<or> j div 8 = ?q \<and> unat p \<le> j)" if j: "j < 128" for j
  proof -
    have "j div 8 < 16" using j by simp
    then have nth: "bs ! (j div 8) = (if ?q < j div 8 then 0x00
        else if j div 8 = ?q then s6_addr a ! ?q AND ?m else s6_addr a ! (j div 8))"
      using len unfolding bs_def by (auto simp: nth_fill_bytes nth_list_update)
    have m: "bit ?m (7 - j mod 8) \<longleftrightarrow> unat p mod 8 \<le> j mod 8"
      by (auto simp: bit_mask_iff)
    from bit_pos_cases [OF j p] show ?thesis
      by cases (auto simp: addr_bit_def nth bit_and_iff m)
  qed
  moreover have "length bs = 16" using len by (simp add: bs_def)
  ultimately show ?thesis by auto
qed

lemma ipv6_subnet_spec:
  assumes p: "unat p < 128"
  shows "\<exists>s. ipv6_subnetMask a p = Inr s \<and> length (s6_addr s) = 16 \<and>
    (\<forall>j < 128. addr_bit (s6_addr s) j \<longleftrightarrow> j < unat p)"
proof -
  let ?q = "unat p div 8" and ?m = "mask (8 - unat p mod 8) :: byte"
  have cm: "CreateMask (p mod 8) = Inr ?m" using CreateMask8 [of "p mod 8"] by (simp add: unat_mod_8)
  have q: "?q < 16" using p by simp
  define bs where "bs = fill_bytes ((replicate 16 0)[?q := NOT ?m]) 0 ?q 0xff"
  have "ipv6_subnetMask a p = Inr (new_IPv6Address0\<lparr>s6_addr := bs\<rparr>)"
    using q by (simp add: ipv6_subnetMask_def cm set_byte_def Let_def bs_def)
  moreover have "addr_bit bs j \<longleftrightarrow> j < unat p" if j: "j < 128" for j
  proof -
    have "j div 8 < 16" using j by simp
    then have nth: "bs ! (j div 8) = (if j div 8 < ?q then 0xff else if j div 8 = ?q then NOT ?m else 0)"
      unfolding bs_def by (auto simp: nth_fill_bytes nth_list_update)
    have m: "bit (NOT ?m) (7 - j mod 8) \<longleftrightarrow> \<not> unat p mod 8 \<le> j mod 8"
      by (auto simp: bit_mask_iff bit_not_iff)
    from bit_pos_cases [OF j p] show ?thesis
      by cases (auto simp: addr_bit_def nth m byte_ff)
  qed
  moreover have "length bs = 16" by (simp add: bs_def)
  ultimately show ?thesis by auto
qed

lemma ipv6_prefix_128:
  assumes "length (s6_addr a) = 16" and "128 \<le> unat p"
  shows "ipv6_broadcastAddress a p = Inl HeapOverflow" and "ipv6_networkAddress a p = Inl HeapOverflow"
    and "ipv6_subnetMask a p = Inl HeapOverflow"
proof -
  have cm: "CreateMask (p mod 8) = Inr (mask (8 - unat p mod 8) :: byte)"
    using CreateMask8 [of "p mod 8"] by (simp add: unat_mod_8)
  have q: "\<not> unat p div 8 < 16" using assms(2) by simp
  show "ipv6_broadcastAddress a p = Inl HeapOverflow" and "ipv6_networkAddress a p = Inl HeapOverflow"
    and "ipv6_subnetMask a p = Inl HeapOverflow"
    using q assms(1) by (simp_all add: ipv6_broadcastAddress_def ipv6_networkAddress_def
        ipv6_subnetMask_def cm set_byte_def Let_def)
qed

subsection \<open>Counting the bits of a netmask\<close>

lemma finite_bits: "finite {i. bit (n :: nat) i}"
proof (rule finite_subset)
  show "{i. bit n i} \<subseteq> {..< n}"
  proof
    fix i assume "i \<in> {i. bit n i}"
    then have "n div 2 ^ i \<noteq> 0" by (metis bit_iff_odd even_zero mem_Collect_eq)
    then have "2 ^ i \<le> n" by (simp add: div_eq_0_iff)
    with less_exp [of i] have "i < n" by (rule less_le_trans)
    then show "i \<in> {..< n}" by simp
  qed
qed simp

lemma bits_double: "{i. bit (2 * n :: nat) i} = Suc ` {i. bit n i}"
  by (auto simp: bit_double_iff image_iff gr0_conv_Suc)

lemma bits_double_plus: "{i. bit (2 * n + 1 :: nat) i} = insert 0 (Suc ` {i. bit n i})"
proof -
  have "bit (2 * n + 1) i \<longleftrightarrow> i = 0 \<or> (\<exists>j. i = Suc j \<and> bit n j)" for i
    by (cases i) (simp_all add: bit_0 bit_Suc)
  then show ?thesis by auto
qed

lemma card_bits_double: "card {i. bit (2 * n :: nat) i} = card {i. bit n i}"
  by (simp add: bits_double card_image)

lemma card_bits_double_plus: "card {i. bit (2 * n + 1 :: nat) i} = Suc (card {i. bit n i})"
  unfolding bits_double_plus using finite_bits by (subst card_insert_disjoint) (auto simp: card_image)

lemma clear_lowest_bit:
  "0 < n \<Longrightarrow> card {i. bit (n :: nat) i} = Suc (card {i. bit (n AND (n - 1)) i})"
proof (induction n rule: less_induct)
  case (less n)
  show ?case
  proof (cases "even n")
    case True
    then obtain m where n: "n = 2 * m" ..
    with less.prems have m: "0 < m" "m < n" by auto
    have "(n - 1) div 2 = m - 1" using m n by linarith
    then have "n AND (n - 1) = 2 * (m AND (m - 1))"
      using and_rec [of n "n - 1"] True n by simp
    then show ?thesis using less.IH [OF m(2,1)] by (simp add: n card_bits_double)
  next
    case False
    then obtain m where n: "n = 2 * m + 1" by (rule oddE)
    have "n AND (n - 1) = 2 * m" using and_rec [of n "n - 1"] n by simp
    then show ?thesis by (simp only: n card_bits_double card_bits_double_plus)
  qed
qed

lemma CountBytes_loop_card:
  "CountBytes_loop (w :: 'a::len word) r = r + card {i. bit w i}"
proof (induction w r rule: CountBytes_loop.induct)
  case (1 w r)
  show ?case
  proof (cases "w = 0")
    case True
    then have "{i. bit w i} = {}" by auto
    then show ?thesis using True by (subst CountBytes_loop.simps) (simp only: card.empty if_True add_0_right simp_thms)
  next
    case False
    then have pos: "0 < unat w" by (simp add: unat_gt_0)
    have bits: "{i. bit v i} = {i. bit (unat v) i}" for v :: "'a word"
      by transfer (auto simp: bit_nat_iff bit_take_bit_iff)
    have "unat (w AND (w - 1)) = unat w AND (unat w - 1)"
      using False by (simp add: unsigned_and_eq unat_minus_one)
    then have "card {i. bit w i} = Suc (card {i. bit (w AND (w - 1)) i})"
      using clear_lowest_bit [OF pos] by (simp only: bits)
    then show ?thesis using 1 [OF False] False by (subst CountBytes_loop.simps) simp
  qed
qed

lemma CountBytes_card: "CountBytes (w :: 'a::len word) = card {i. bit w i}"
  by (simp add: CountBytes_def CountBytes_loop_card)

subsection \<open>Splitting a host string\<close>

lemma find_char_None: "find_char c s = None \<longleftrightarrow> c \<notin> set s"
  by (induction s) auto

lemma find_char_append: "c \<notin> set s \<Longrightarrow> find_char c (s @ c # t) = Some (length s)"
  by (induction s) auto

lemma c_str_id: "NUL \<notin> set s \<Longrightarrow> c_str s = s"
  by (auto simp: c_str_def takeWhile_eq_all_conv)

lemma colon_part_port:
  "CHR '':'' \<notin> set h \<Longrightarrow> CHR '':'' \<notin> set p \<Longrightarrow> colon_part (h @ CHR '':'' # p) = (h, Some p)"
  by (simp add: colon_part_def find_char_append find_char_None)

lemma split_host_port:
  assumes "h \<noteq> []" and "hd h \<noteq> CHR ''[''" and "CHR '':'' \<notin> set h" and "CHR '':'' \<notin> set p"
    and "NUL \<notin> set h" and "NUL \<notin> set p"
  shows "split_host (h @ CHR '':'' # p) = (h, Some p)"
proof -
  have "bracket_part (h @ CHR '':'' # p) = ([], None)"
    using assms(1,2) by (cases h) (simp_all add: bracket_part_def)
  then show ?thesis using assms by (simp add: split_host_def colon_part_port c_str_id)
qed

lemma split_host_plain:
  assumes "h = [] \<or> hd h \<noteq> CHR ''[''" and "CHR '':'' \<notin> set h" and "NUL \<notin> set h"
  shows "split_host h = (h, None)"
proof -
  have "bracket_part h = ([], None)" using assms(1) by (auto simp: bracket_part_def)
  moreover have "colon_part h = ([], None)" using assms(2) find_char_None [of "CHR '':''" h] by (simp add: colon_part_def)
  ultimately show ?thesis using assms(3) by (simp add: split_host_def c_str_id)
qed

lemma split_host_bracket:
  assumes "h \<noteq> []" and "CHR '']'' \<notin> set h" and "NUL \<notin> set h"
  shows "split_host (CHR ''['' # h @ [CHR '']'']) = (h, None)"
    and "NUL \<notin> set p \<Longrightarrow> split_host (CHR ''['' # h @ CHR '']'' # CHR '':'' # p) = (h, Some p)"
proof -
  have d: "drop (length h + 3) (x # h @ y # z # p) = p" for x y z :: char
    by (simp add: numeral_3_eq_3)
  show "split_host (CHR ''['' # h @ [CHR '']'']) = (h, None)"
    and "NUL \<notin> set p \<Longrightarrow> split_host (CHR ''['' # h @ CHR '']'' # CHR '':'' # p) = (h, Some p)"
    using assms
    by (simp_all add: split_host_def bracket_part_def find_char_append c_str_id nth_opt_def nth_append d)
qed

text \<open>
  A bare IPv6 address: the scan finds a first colon, then a second, and leaves \<open>service\<close>
  on the first one, so the resolver is asked for a service that starts with a colon.
\<close>

lemma split_host_two_colons:
  assumes "h = [] \<or> hd h \<noteq> CHR ''[''" and "CHR '':'' \<notin> set h" and "CHR '':'' \<in> set p"
    and "NUL \<notin> set h" and "NUL \<notin> set p"
  shows "split_host (h @ CHR '':'' # p) = (h @ CHR '':'' # p, Some (CHR '':'' # p))"
proof -
  have "bracket_part (h @ CHR '':'' # p) = ([], None)"
    using assms(1) by (cases h) (simp_all add: bracket_part_def)
  moreover have "find_char CHR '':'' p \<noteq> None" using assms(3) by (simp add: find_char_None)
  then have "colon_part (h @ CHR '':'' # p) = ([], Some (CHR '':'' # p))"
    using assms(2) by (simp add: colon_part_def find_char_append)
  moreover have "NUL \<noteq> CHR '':''" by (simp add: NUL_def)
  ultimately show ?thesis using assms(4,5) by (simp add: split_host_def c_str_id)
qed

subsection \<open>Ports and printed addresses\<close>

lemma htons_htons [simp]: "htons (htons v) = v"
  by (simp add: htons_def byteswap_byteswap)

lemma htonl_htonl [simp]: "htonl (htonl v) = v"
  by (simp add: htonl_def byteswap_byteswap)

lemma ipv4_port: "ipv4_getPort (ipv4_setPort s p) = take_bit 16 p"
  by (simp add: ipv4_getPort_def ipv4_setPort_def) (rule bit_word_eqI, auto simp: bit_ucast_iff bit_take_bit_iff)

lemma ipv6_port: "ipv6_getPort (ipv6_setPort s p) = take_bit 16 p"
  by (simp add: ipv6_getPort_def ipv6_setPort_def) (rule bit_word_eqI, auto simp: bit_ucast_iff bit_take_bit_iff)

lemma length_show_byte: "length (show_byte c) \<le> 3"
proof -
  have "unat c < 2 ^ LENGTH(8)" by (rule unsigned_less)
  then show ?thesis unfolding show_byte_def by (intro show_nat_length) simp_all
qed

lemma length_inet_ntop4: "length (inet_ntop4 bs) \<le> 15"
  using length_show_byte [of "bs ! 0"] length_show_byte [of "bs ! 1"]
    length_show_byte [of "bs ! 2"] length_show_byte [of "bs ! 3"]
  by (simp add: inet_ntop4_def)

lemma length_show_port: "length (show_nat (unat (w :: u16))) \<le> 5"
proof -
  have "unat w < 2 ^ LENGTH(16)" by (rule unsigned_less)
  then show ?thesis by (intro show_nat_length) simp_all
qed

text \<open>The buffer of \<open>toString\<close> is never too small, so nothing is cut off.\<close>

lemma ipv4_toString_full:
  "ipv4_toString s = inet_ntop4 (mem_bytes (s_addr s)) @ '':'' @ show_nat (unat (htons (sin_port s)))"
  using length_inet_ntop4 [of "mem_bytes (s_addr s)"] length_show_port [of "htons (sin_port s)"]
  by (simp add: ipv4_toString_def snprintf_def INET_ADDRSTRLEN_def)

lemma ipv6_toString_full:
  "ipv6_toString s =
     ''['' @ inet_ntop4 (s6_addr s) @ '']:'' @ show_nat (unat (htons (sin6_port s)))"
  using length_inet_ntop4 [of "s6_addr s"] length_show_port [of "htons (sin6_port s)"]
  by (simp add: ipv6_toString_def snprintf_def INET6_ADDRSTRLEN_def)

text \<open>Two addresses that differ only after the fourth byte print the same.\<close>

lemma ipv6_toString_prefix:
  assumes "take 4 (s6_addr s) = take 4 (s6_addr t)" and "4 \<le> length (s6_addr s)" and "4 \<le> length (s6_addr t)"
    and "sin6_port s = sin6_port t"
  shows "ipv6_toString s = ipv6_toString t"
proof -
  have "s6_addr s ! i = s6_addr t ! i" if "i < 4" for i
    using assms(1) that by (metis nth_take)
  then show ?thesis using assms(4) by (simp add: ipv6_toString_full inet_ntop4_def)
qed

subsection \<open>Unix paths\<close>

lemma unix_ctor_error:
  "new_UnixAddress path = Inl (LogicError ''path too long'') \<longleftrightarrow>
     (if path \<noteq> [] \<and> hd path = NUL then 108 < length path else 107 < length path)"
  by (auto simp: new_UnixAddress_def Let_def sun_path_size_def)

lemma unix_ctor_ok:
  assumes "new_UnixAddress path = Inr a"
  shows "addr_ok a"
  using assms
  by (auto simp: new_UnixAddress_def Let_def addr_ok_def sun_path_size_def sun_path_offset_def min_def
      split: if_splits)

lemma char_of_byte_of [simp]: "char_of_byte (byte_of c) = c"
proof -
  have "of_char c < (256 :: nat)" by (rule nat_of_char_less_256)
  then have "unat (byte_of c) = of_char c" by (simp add: byte_of_def unsigned_of_nat take_bit_nat_eq_self)
  then show ?thesis by (simp add: char_of_byte_def)
qed

lemma byte_of_zero: "byte_of c = 0 \<longleftrightarrow> c = NUL"
proof
  assume "byte_of c = 0"
  then have "c = char_of_byte 0" by (metis char_of_byte_of)
  then show "c = NUL" by (simp add: char_of_byte_def NUL_def char_of_def)
next
  assume "c = NUL"
  then show "byte_of c = 0" by (simp add: byte_of_def NUL_def)
qed

lemma takeWhile_path:
  "NUL \<notin> set p \<Longrightarrow> takeWhile (\<lambda>c. c \<noteq> 0) (map byte_of p @ 0 # rest) = map byte_of p"
  by (induction p) (auto simp: byte_of_zero)

lemma cstr_of_path: "NUL \<notin> set p \<Longrightarrow> cstr_of (map byte_of p @ 0 # rest) = Inr p"
  by (simp add: cstr_of_def takeWhile_path comp_def)

text \<open>A path comes back from \<open>toString\<close>; the leading NUL of an abstract one prints as \<open>\0\<close>.\<close>

lemma overwrite_zeros:
  "length xs \<le> n \<Longrightarrow> overwrite (replicate n 0) 0 xs = xs @ replicate (n - length xs) 0"
  by (simp add: overwrite_def)

lemma unix_path_toString:
  assumes "NUL \<notin> set path" and "length path \<le> 107" and "path \<noteq> []"
  shows "\<exists>a. new_UnixAddress path = Inr a \<and> addr_ok a \<and> getAddrLen a = length path + 3 \<and>
           addr_toString a = Inr path"
proof -
  let ?z = "replicate (107 - length path) 0 :: byte list"
  have h: "hd path \<noteq> NUL" using assms(1,3) by (metis hd_in_set)
  let ?a = "UnixAddress \<lparr>sun_family = AF_UNIX, sun_path = map byte_of path @ 0 # ?z\<rparr> (length path + 3)"
  have new: "new_UnixAddress path = Inr ?a"
    using assms(2) h overwrite_zeros [of "map byte_of path @ [0]" 108]
    by (simp add: new_UnixAddress_def Let_def sun_path_size_def sun_path_offset_def)
  have "(map byte_of path @ 0 # ?z) ! 0 \<noteq> 0"
    using assms(3) h by (cases path) (simp_all add: byte_of_zero)
  then have "addr_toString ?a = Inr path"
    using cstr_of_path [OF assms(1)] by (simp add: addr_toString_def unix_toString_def)
  with new unix_ctor_ok [OF new] show ?thesis by (simp add: getAddrLen_def)
qed

lemma unix_abstract_toString:
  assumes "NUL \<notin> set p" and "length p \<le> 106"
  shows "\<exists>a. new_UnixAddress (NUL # p) = Inr a \<and> addr_ok a \<and> getAddrLen a = length p + 3 \<and>
           addr_toString a = Inr (CHR 0x5C # CHR ''0'' # p)"
proof -
  let ?z = "replicate (106 - length p) 0 :: byte list"
  let ?a = "UnixAddress \<lparr>sun_family = AF_UNIX, sun_path = 0 # map byte_of p @ 0 # ?z\<rparr> (length p + 3)"
  have b0: "byte_of NUL = 0" by (simp add: byte_of_zero)
  have r: "replicate (107 - length p) 0 = 0 # ?z" using assms(2) by (simp add: Suc_diff_le flip: replicate_Suc)
  have new: "new_UnixAddress (NUL # p) = Inr ?a"
    using assms(2) overwrite_zeros [of "0 # map byte_of p" 108] r
    by (simp add: new_UnixAddress_def Let_def sun_path_size_def sun_path_offset_def b0)
  have "addr_toString ?a = Inr (CHR 0x5C # CHR ''0'' # p)"
    using cstr_of_path [OF assms(1)]
    by (simp add: addr_toString_def unix_toString_def sun_path_offset_def snprintf_def)
  with new unix_ctor_ok [OF new] show ?thesis by (simp add: getAddrLen_def)
qed

text \<open>An abstract path that fills \<open>sun_path\<close> is accepted and then printed past the array.\<close>

lemma unix_abstract_overread:
  assumes "NUL \<notin> set p" and "length p = 107"
  shows "\<exists>a. new_UnixAddress (NUL # p) = Inr a \<and> addr_toString a = Inl HeapOverflow"
proof -
  have b0: "byte_of NUL = 0" by (simp add: byte_of_zero)
  let ?a = "UnixAddress \<lparr>sun_family = AF_UNIX, sun_path = 0 # map byte_of p\<rparr> 110"
  have "new_UnixAddress (NUL # p) = Inr ?a"
    using assms(2) overwrite_zeros [of "0 # map byte_of p" 108]
    by (simp add: new_UnixAddress_def Let_def sun_path_size_def sun_path_offset_def b0)
  moreover have "0 \<notin> set (map byte_of p)" using assms(1) byte_of_zero by force
  ultimately show ?thesis
    by (simp add: addr_toString_def unix_toString_def sun_path_offset_def cstr_of_def)
qed

subsection \<open>Interfaces\<close>

definition mm_sorted :: "(string \<times> 'v) list \<Rightarrow> bool" where
  "mm_sorted m \<longleftrightarrow> sorted (map fst m)"

lemma set_multimap_insert: "set (multimap_insert k v m) = insert (k, v) (set m)"
  by (induction k v m rule: multimap_insert.induct) auto

lemma multimap_insert_sorted: "mm_sorted m \<Longrightarrow> mm_sorted (multimap_insert k v m)"
  unfolding mm_sorted_def
  by (induction k v m rule: multimap_insert.induct) (auto simp: set_multimap_insert less_imp_le)

lemma multimap_insert_same_key:
  "mm_sorted m \<Longrightarrow>
   filter (\<lambda>e. fst e = j) (multimap_insert k v m) = filter (\<lambda>e. fst e = j) m @ (if j = k then [(k, v)] else [])"
  unfolding mm_sorted_def
proof (induction k v m rule: multimap_insert.induct)
  case (1 k v)
  then show ?case by simp
next
  case (2 k v k' v' m)
  then have le: "\<forall>e \<in> set m. k' \<le> fst e" by auto
  show ?case
  proof (cases "k < k'")
    case True
    then have "filter (\<lambda>e. fst e = k) ((k', v') # m) = []"
      using le by (auto simp: filter_empty_conv)
    with True show ?thesis by auto
  next
    case False
    then show ?thesis using 2 by auto
  qed
qed

lemma interfaces_loop_sorted:
  "mm_sorted r \<Longrightarrow> interfaces_loop es family r = Inr r' \<Longrightarrow> mm_sorted r'"
proof (induction es family r arbitrary: r' rule: interfaces_loop.induct)
  case (1 family r)
  then show ?case by simp
next
  case (2 e es family r)
  from "2.prems"(2) obtain m where m: "deref_mem (ifa_addr e) = Inr m"
    by (auto simp: bindE_eq_Inr)
  let ?fam = "of_mem_bytes (take 2 m) :: u16"
  show ?case
  proof (cases "family \<noteq> uint AF_UNSPEC \<and> family \<noteq> uint ?fam")
    case True
    then show ?thesis using "2.IH"(1) [OF m refl True "2.prems"(1)] "2.prems"(2) m by (simp add: Let_def)
  next
    case False
    with "2.prems"(2) m obtain a n where e: "interface_entry e ?fam = Inr (a, n)"
      by (auto simp: bindE_eq_Inr Let_def)
    show ?thesis
    proof (cases a)
      case None
      then show ?thesis
        using "2.IH"(2) [OF m refl False e refl None "2.prems"(1)] "2.prems"(2) m e False by (simp add: Let_def)
    next
      case (Some a')
      have "mm_sorted (multimap_insert (ifa_name e) (a', n) r)"
        by (rule multimap_insert_sorted [OF "2.prems"(1)])
      from "2.IH"(3) [OF m refl False e refl Some this] show ?thesis
        using "2.prems"(2) m e False Some by (simp add: Let_def)
    qed
  qed
qed

lemma interfaces_loop_null:
  "ifa_addr e = None \<Longrightarrow> interfaces_loop (e # es) family r = Inl NullDeref"
  by (simp add: deref_mem_def)

lemma interface_prefix4:
  assumes "of_mem_bytes (take 2 m) = AF_INET" and "16 \<le> length m" and "16 \<le> length nm"
    and "ifa_addr e = Some m" and "ifa_netmask e = Some nm"
  shows "\<exists>s. interface_entry e AF_INET = Inr (Some (IPv4Address s),
           card {i. bit (of_mem_bytes (take 4 (drop 4 nm)) :: u32) i})"
  using assms
  by (simp add: interface_entry_def Address_Create_def deref_mem_def copy_in_def Let_def CountBytes_card)

section \<open>The contract of addresses\<close>

text \<open>
  C40: \<open>operator<\<close> and \<open>operator==\<close> are the lexicographic order and equality of the bytes of the
  two addresses up to their lengths, so together they are a strict total order on those bytes;
  no \<open>memcmp\<close> leaves the structure it reads.
\<close>

theorem addr_order_lexicographic:
  assumes "addr_ok a" and "addr_ok b"
  shows "addr_less a b = Inr (addr_key a < addr_key b) \<and>
         addr_eq a b = Inr (addr_key a = addr_key b) \<and>
         addr_neq a b = Inr (addr_key a \<noteq> addr_key b)"
  using addr_less_key [OF assms] addr_eq_key [OF assms] by (simp add: addr_neq_def)

theorem addr_order_lexicographic_witness:
  "addr_less (IPv4Address (new_IPv4Address 1 80)) (IPv4Address (new_IPv4Address 2 80)) = Inr True"
proof -
  let ?a = "IPv4Address (new_IPv4Address 1 80)" and ?b = "IPv4Address (new_IPv4Address 2 80)"
  have "addr_ok ?a" "addr_ok ?b" by (simp_all add: addr_ok_def new_IPv4Address_def)
  note t = addr_order_lexicographic [OF this]
  have "addr_key ?a < addr_key ?b"
    by (simp add: addr_key_def addr_bytes_def getAddrLen_def new_IPv4Address_def htonl_def
        mem_bytes_byteswap) (simp add: mem_bytes_def AF_INET_def upt_rec drop_bit_eq_div)
  with t show ?thesis by simp
qed

text \<open>
  \<open>Address::Create\<close> inverts the object representation: from the bytes of an IPv4, IPv6 or
  unknown address it builds that address, and a null pointer gives a null pointer.
\<close>

theorem Create_inverts_bytes:
  assumes "addr_native a"
  shows "Address_Create (Some (addr_bytes a)) = Inr (Some a) \<and> Address_Create None = Inr None"
  using Create_addr_bytes [OF assms] by (simp add: Address_Create_def)

theorem Create_inverts_bytes_witness:
  "Address_Create (Some (addr_bytes (IPv6Address (new_IPv6Address (replicate 16 7) 80)))) =
     Inr (Some (IPv6Address (new_IPv6Address (replicate 16 7) 80)))"
proof -
  have "addr_native (IPv6Address (new_IPv6Address (replicate 16 7) 80))"
    by (simp add: addr_native_def addr_ok_def new_IPv6Address_def)
  from Create_inverts_bytes [OF this] show ?thesis by blast
qed

text \<open>
  IPv4 masks, for every prefix length. From 2 to 32, \<open>broadcastAddress\<close> sets the host bits,
  \<open>subnetMask\<close> is the complement of the host mask, and \<open>networkAddress\<close> keeps the \<^emph>\<open>host\<close> bits
  and clears the network ones. A prefix of 0 shifts by the width of \<open>int\<close>, a prefix of 1
  computes \<open>INT_MIN - 1\<close>; beyond 32 the first two return null and \<open>subnetMask\<close> shifts out of range.
\<close>

theorem ipv4_masks:
  shows "if unat p = 0 then ipv4_broadcastAddress a p = Inl ShiftRange \<and>
           ipv4_networkAddress a p = Inl ShiftRange \<and> ipv4_subnetMask a p = Inl ShiftRange
         else if unat p = 1 then ipv4_broadcastAddress a p = Inl SignedOverflow \<and>
           ipv4_networkAddress a p = Inl SignedOverflow \<and> ipv4_subnetMask a p = Inl SignedOverflow
         else if unat p \<le> 32 then
           (\<exists>s. ipv4_broadcastAddress a p = Inr (Some s) \<and> ipv4_host s = ipv4_host a OR mask (32 - unat p)) \<and>
           (\<exists>s. ipv4_networkAddress a p = Inr (Some s) \<and> ipv4_host s = ipv4_host a AND mask (32 - unat p)) \<and>
           (\<exists>s. ipv4_subnetMask a p = Inr (Some s) \<and> ipv4_host s = NOT (mask (32 - unat p)))
         else ipv4_broadcastAddress a p = Inr None \<and> ipv4_networkAddress a p = Inr None \<and>
           ipv4_subnetMask a p = Inl ShiftRange"
proof -
  have z: "unat p = 0 \<Longrightarrow> p = 0" by (simp add: unat_eq_zero)
  have o: "unat p = 1 \<Longrightarrow> p = 1" by (simp add: word_unat_eq_iff)
  consider "p = 0" | "p = 1" | "2 \<le> unat p" "unat p \<le> 32" | "32 < unat p"
    using z o by linarith
  then show ?thesis
  proof cases
    case 1
    then show ?thesis by (simp add: ipv4_broadcastAddress_def ipv4_networkAddress_def ipv4_subnetMask_def
          CreateMask32_faults)
  next
    case 2
    then show ?thesis by (simp add: ipv4_broadcastAddress_def ipv4_networkAddress_def ipv4_subnetMask_def
          CreateMask32_faults)
  next
    case 3
    then show ?thesis
      using ipv4_broadcast_spec [OF 3, of a] ipv4_network_spec [OF 3, of a] ipv4_subnet_spec [OF 3, of a] by auto
  next
    case 4
    then have "p > 32" using unat_le_32 [of p] by simp
    with 4 show ?thesis
      by (simp add: ipv4_broadcastAddress_def ipv4_networkAddress_def ipv4_subnetMask_def CreateMask32_large)
  qed
qed

text \<open>
  IPv6 masks, bit by bit. For a prefix below 128 \<open>broadcastAddress\<close> sets exactly the bits from
  the prefix on and \<open>subnetMask\<close> has exactly the bits before it; \<open>networkAddress\<close> keeps, in the
  byte the prefix ends in, the host bits and clears the network ones. A prefix of 128 or more
  indexes the address past its sixteen bytes.
\<close>

theorem ipv6_masks:
  assumes "length (s6_addr a) = 16"
  shows "if unat p < 128 then
           (\<exists>s. ipv6_broadcastAddress a p = Inr s \<and>
              (\<forall>j \<in> {..<128}. addr_bit (s6_addr s) j = (addr_bit (s6_addr a) j \<or> unat p \<le> j))) \<and>
           (\<exists>s. ipv6_subnetMask a p = Inr s \<and> (\<forall>j \<in> {..<128}. addr_bit (s6_addr s) j = (j < unat p))) \<and>
           (\<exists>s. ipv6_networkAddress a p = Inr s \<and>
              (\<forall>j \<in> {..<128}. addr_bit (s6_addr s) j = (addr_bit (s6_addr a) j \<and>
                 (j div 8 < unat p div 8 \<or> j div 8 = unat p div 8 \<and> unat p \<le> j))))
         else ipv6_broadcastAddress a p = Inl HeapOverflow \<and> ipv6_subnetMask a p = Inl HeapOverflow \<and>
              ipv6_networkAddress a p = Inl HeapOverflow"
proof (cases "unat p < 128")
  case True
  from ipv6_broadcast_spec [OF assms True] ipv6_network_spec [OF assms True] ipv6_subnet_spec [OF True, of a] True
  show ?thesis by auto
next
  case False
  then show ?thesis using ipv6_prefix_128 [OF assms] by simp
qed

theorem ipv6_masks_witness:
  "\<exists>s. ipv6_subnetMask new_IPv6Address0 64 = Inr s \<and> (\<forall>j \<in> {..<128}. addr_bit (s6_addr s) j = (j < 64))"
  using ipv6_masks [of new_IPv6Address0 64] by (simp add: new_IPv6Address0_def)

text \<open>
  \<open>CountBytes\<close>, the loop that clears the lowest set bit, terminates and counts the set bits; so
  the prefix length reported for an interface is the number of ones in its netmask.
\<close>

theorem CountBytes_counts_bits: "CountBytes (w :: 'a::len word) = card {i. bit w i}"
  by (rule CountBytes_card)

text \<open>
  \<open>Lookup\<close> splits \<open>host:port\<close>, \<open>[v6]\<close>, \<open>[v6]:port\<close> and a plain name as intended. For an
  unbracketed IPv6 address it leaves \<open>service\<close> on the first colon, so the resolver is asked for
  the service \<open>":..."\<close>.
\<close>

theorem Lookup_splits_host:
  assumes "h \<noteq> []" and "hd h \<noteq> CHR ''[''" and "CHR '':'' \<notin> set h" and "CHR '']'' \<notin> set v6"
    and "v6 \<noteq> []" and "CHR '':'' \<notin> set p" and "CHR '':'' \<in> set q"
    and "NUL \<notin> set (h @ v6 @ p @ q)"
  shows "split_host h = (h, None) \<and>
         split_host (h @ '':'' @ p) = (h, Some p) \<and>
         split_host (''['' @ v6 @ '']'') = (v6, None) \<and>
         split_host (''['' @ v6 @ '']:'' @ p) = (v6, Some p) \<and>
         split_host (h @ '':'' @ q) = (h @ '':'' @ q, Some ('':'' @ q))"
  using assms split_host_plain [of h] split_host_port [of h p] split_host_bracket(1) [of v6] split_host_bracket(2) [of v6 p]
    split_host_two_colons [of h q] by simp

theorem Lookup_splits_host_witness:
  "split_host ''localhost:80'' = (''localhost'', Some ''80'') \<and>
   split_host ''fe80::1'' = (''fe80::1'', Some ''::1'')"
  using Lookup_splits_host [of "''localhost''" "''::1''" "''80''" "'':1''"]
    Lookup_splits_host [of "''fe80''" "''::1''" "''80''" "'':1''"] by (simp add: NUL_def)

text \<open>
  A Unix path of 1 to 107 characters is accepted, is a well-formed address and prints as
  itself; an abstract one prints with \<open>\0\<close> for its leading NUL; a longer path throws
  \<open>std::logic_error("path too long")\<close>. An abstract path of 108 characters is accepted too, but
  printing it runs past \<open>sun_path\<close>.
\<close>

theorem UnixAddress_paths:
  assumes "NUL \<notin> set path" and "path \<noteq> []"
  shows "(if length path \<le> 107
          then \<exists>a. new_UnixAddress path = Inr a \<and> addr_ok a \<and> addr_toString a = Inr path
          else new_UnixAddress path = Inl (LogicError ''path too long'')) \<and>
         (if length path \<le> 106
          then \<exists>a. new_UnixAddress (NUL # path) = Inr a \<and> addr_ok a \<and>
                 addr_toString a = Inr (CHR 0x5C # CHR ''0'' # path)
          else if length path = 107
          then \<exists>a. new_UnixAddress (NUL # path) = Inr a \<and> addr_toString a = Inl HeapOverflow
          else new_UnixAddress (NUL # path) = Inl (LogicError ''path too long''))"
proof -
  have "hd path \<noteq> NUL" using assms by (metis hd_in_set)
  then show ?thesis
    using unix_path_toString [OF assms(1) _ assms(2)] unix_abstract_toString [OF assms(1)]
      unix_abstract_overread [OF assms(1)] unix_ctor_error [of path] unix_ctor_error [of "NUL # path"]
    by (auto simp: not_le)
qed

theorem UnixAddress_paths_witness:
  "\<exists>a. new_UnixAddress ''/tmp/s'' = Inr a \<and> addr_toString a = Inr ''/tmp/s''"
  using UnixAddress_paths [of "''/tmp/s''"] by (auto simp: NUL_def)

text \<open>
  Printed addresses are never cut off by the buffers of \<open>toString\<close>. An IPv6 address prints the
  dotted form of its first four bytes only, so distinct addresses print the same.
\<close>

theorem toString_of_ip:
  assumes "take 4 (s6_addr s) = take 4 (s6_addr t)" and "4 \<le> length (s6_addr s)" and "4 \<le> length (s6_addr t)"
    and "sin6_port s = sin6_port t"
  shows "ipv6_toString s = ipv6_toString t \<and>
         ipv6_toString s = ''['' @ inet_ntop4 (s6_addr s) @ '']:'' @ show_nat (unat (htons (sin6_port s))) \<and>
         ipv4_toString v = inet_ntop4 (mem_bytes (s_addr v)) @ '':'' @ show_nat (unat (htons (sin_port v)))"
  using ipv6_toString_prefix [OF assms] ipv6_toString_full ipv4_toString_full by blast

theorem toString_of_ip_witness:
  "ipv6_toString (new_IPv6Address (replicate 16 0) 80) =
   ipv6_toString (new_IPv6Address (replicate 15 0 @ [1]) 80)"
proof -
  have "replicate 15 (0 :: byte) = replicate 4 0 @ replicate 11 0" by (simp flip: replicate_add)
  then show ?thesis
    using toString_of_ip [of "new_IPv6Address (replicate 16 0) 80" "new_IPv6Address (replicate 15 0 @ [1]) 80"]
    by (simp add: new_IPv6Address_def)
qed

end
