(* ===== verification/Ordered.thy ===== *)
theory Ordered
  imports Prelude
begin

section \<open>Ordered containers\<close>

text \<open>
  What the sources use of \<open>std::set\<close> and \<open>std::map\<close>: a container is the list of its elements in
  iteration order, an iterator is a position in it, and the position \<open>length xs\<close> is \<open>end()\<close>.
  \<open>lt\<close> is the comparator and \<open>key\<close> selects the key of an element (the identity for a set, \<open>fst\<close> for
  a map). Erasing \<open>end()\<close> is undefined behaviour.
\<close>

definition lower_bound :: "('k \<Rightarrow> 'k \<Rightarrow> bool) \<Rightarrow> ('e \<Rightarrow> 'k) \<Rightarrow> 'k \<Rightarrow> 'e list \<Rightarrow> nat" where
  "lower_bound lt key k xs = length (takeWhile (\<lambda>e. lt (key e) k) xs)"

definition tree_find :: "('k \<Rightarrow> 'k \<Rightarrow> bool) \<Rightarrow> ('e \<Rightarrow> 'k) \<Rightarrow> 'k \<Rightarrow> 'e list \<Rightarrow> nat" where
  "tree_find lt key k xs =
     (let i = lower_bound lt key k xs
      in if i < length xs \<and> \<not> lt k (key (xs ! i)) then i else length xs)"

text \<open>\<open>insert\<close> keeps an element whose key is already there; it returns the position and the new container.\<close>

definition tree_insert :: "('k \<Rightarrow> 'k \<Rightarrow> bool) \<Rightarrow> ('e \<Rightarrow> 'k) \<Rightarrow> 'e \<Rightarrow> 'e list \<Rightarrow> nat \<times> 'e list" where
  "tree_insert lt key e xs =
     (let i = lower_bound lt key (key e) xs
      in if i < length xs \<and> \<not> lt (key e) (key (xs ! i)) then (i, xs)
         else (i, take i xs @ e # drop i xs))"

definition tree_erase :: "nat \<Rightarrow> 'e list \<Rightarrow> 'e list res" where
  "tree_erase i xs = (if i < length xs then Inr (take i xs @ drop (Suc i) xs) else Inl IteratorRange)"

text \<open>\<open>m[k] = v\<close> and the lookup of a map.\<close>

definition map_assign :: "('k \<Rightarrow> 'k \<Rightarrow> bool) \<Rightarrow> 'k \<Rightarrow> 'v \<Rightarrow> ('k \<times> 'v) list \<Rightarrow> ('k \<times> 'v) list" where
  "map_assign lt k v m =
     (let i = tree_find lt fst k m
      in if i < length m then m[i := (fst (m ! i), v)] else snd (tree_insert lt fst (k, v) m))"

definition map_find :: "('k \<Rightarrow> 'k \<Rightarrow> bool) \<Rightarrow> 'k \<Rightarrow> ('k \<times> 'v) list \<Rightarrow> 'v option" where
  "map_find lt k m = map_option snd (nth_opt m (tree_find lt fst k m))"

definition map_erase :: "('k \<Rightarrow> 'k \<Rightarrow> bool) \<Rightarrow> 'k \<Rightarrow> ('k \<times> 'v) list \<Rightarrow> ('k \<times> 'v) list" where
  "map_erase lt k m = (let i = tree_find lt fst k m in take i m @ drop (Suc i) m)"

definition tree_sorted :: "('k \<Rightarrow> 'k \<Rightarrow> bool) \<Rightarrow> ('e \<Rightarrow> 'k) \<Rightarrow> 'e list \<Rightarrow> bool" where
  "tree_sorted lt key xs \<longleftrightarrow> sorted_wrt (\<lambda>a b. lt (key a) (key b)) xs"

lemma tree_sorted_Nil [simp]: "tree_sorted lt key []"
  by (simp add: tree_sorted_def)

lemma tree_sorted_Cons:
  "tree_sorted lt key (x # xs) \<longleftrightarrow> (\<forall>y \<in> set xs. lt (key x) (key y)) \<and> tree_sorted lt key xs"
  by (simp add: tree_sorted_def)

lemma tree_sorted_append:
  "tree_sorted lt key (xs @ ys) \<longleftrightarrow>
   tree_sorted lt key xs \<and> tree_sorted lt key ys \<and> (\<forall>x \<in> set xs. \<forall>y \<in> set ys. lt (key x) (key y))"
  by (auto simp: tree_sorted_def sorted_wrt_append)

lemma tree_sorted_drop: "tree_sorted lt key xs \<Longrightarrow> tree_sorted lt key (drop n xs)"
  by (simp add: tree_sorted_def sorted_wrt_drop)

lemma tree_sorted_cong:
  "(\<And>a b. a \<in> set xs \<Longrightarrow> b \<in> set xs \<Longrightarrow> lt (key a) (key b) \<longleftrightarrow> lt' (key' a) (key' b)) \<Longrightarrow>
   tree_sorted lt key xs \<longleftrightarrow> tree_sorted lt' key' xs"
  by (induction xs) (auto simp: tree_sorted_Cons)

lemma lower_bound_le: "lower_bound lt key k xs \<le> length xs"
  by (simp add: lower_bound_def length_takeWhile_le)

lemma lower_bound_split:
  "xs = takeWhile (\<lambda>e. lt (key e) k) xs @ dropWhile (\<lambda>e. lt (key e) k) xs"
  by simp

lemma take_lower_bound: "take (lower_bound lt key k xs) xs = takeWhile (\<lambda>e. lt (key e) k) xs"
  by (simp add: lower_bound_def takeWhile_eq_take [symmetric])

lemma drop_lower_bound: "drop (lower_bound lt key k xs) xs = dropWhile (\<lambda>e. lt (key e) k) xs"
  by (simp add: lower_bound_def dropWhile_eq_drop [symmetric])

text \<open>Two keys are equivalent when neither is before the other.\<close>

definition eqv :: "('k \<Rightarrow> 'k \<Rightarrow> bool) \<Rightarrow> 'k \<Rightarrow> 'k \<Rightarrow> bool" where
  "eqv lt a b \<longleftrightarrow> \<not> lt a b \<and> \<not> lt b a"

lemma eqv_sym: "eqv lt a b \<Longrightarrow> eqv lt b a"
  by (simp add: eqv_def)

text \<open>
  The comparator of an ordered container must be a strict weak order; this is the contract the
  standard states, and every lemma about a container is proved from it.
\<close>

locale comparator =
  fixes lt :: "'k \<Rightarrow> 'k \<Rightarrow> bool"
  assumes lt_irrefl: "\<not> lt a a"
    and lt_trans: "lt a b \<Longrightarrow> lt b c \<Longrightarrow> lt a c"
    and lt_incomp: "\<not> lt a b \<Longrightarrow> \<not> lt b a \<Longrightarrow> \<not> lt b c \<Longrightarrow> \<not> lt c b \<Longrightarrow> \<not> lt a c"
begin

lemma lt_asym: "lt a b \<Longrightarrow> \<not> lt b a"
  using lt_irrefl lt_trans by blast

lemma lt_cases: "lt a b \<Longrightarrow> lt a c \<or> lt c b"
  using lt_incomp [of a c b] lt_asym lt_trans by blast

lemma lt_le_trans: "lt a b \<Longrightarrow> \<not> lt c b \<Longrightarrow> lt a c"
  using lt_cases by blast

lemma le_lt_trans: "\<not> lt b a \<Longrightarrow> lt b c \<Longrightarrow> lt a c"
  using lt_cases by blast

lemma eqv_refl: "eqv lt a a"
  by (simp add: eqv_def lt_irrefl)

lemma eqv_trans: "eqv lt a b \<Longrightarrow> eqv lt b c \<Longrightarrow> eqv lt a c"
  using lt_incomp by (auto simp: eqv_def)

lemma eqv_lt: "eqv lt a b \<Longrightarrow> lt a c \<longleftrightarrow> lt b c" "eqv lt a b \<Longrightarrow> lt c a \<longleftrightarrow> lt c b"
  unfolding eqv_def by (blast intro: lt_le_trans le_lt_trans)+

lemma eqv_join: "eqv lt a k \<Longrightarrow> eqv lt b k \<Longrightarrow> eqv lt a b"
  by (rule eqv_trans [OF _ eqv_sym])

lemma eqv_eqv: "eqv lt a b \<Longrightarrow> eqv lt a c \<longleftrightarrow> eqv lt b c"
  using eqv_trans eqv_sym by metis

text \<open>A sorted container falls into the elements before a key and the others.\<close>

lemma split_key:
  assumes "tree_sorted lt key xs"
  obtains A B where "xs = A @ B" "lower_bound lt key k xs = length A"
    "\<forall>a \<in> set A. lt (key a) k" "\<forall>b \<in> set B. \<not> lt (key b) k"
proof
  let ?P = "\<lambda>e. lt (key e) k"
  show "xs = takeWhile ?P xs @ dropWhile ?P xs" by simp
  show "lower_bound lt key k xs = length (takeWhile ?P xs)" by (simp add: lower_bound_def)
  show "\<forall>a \<in> set (takeWhile ?P xs). lt (key a) k" by (auto dest: set_takeWhileD)
  show "\<forall>b \<in> set (dropWhile ?P xs). \<not> lt (key b) k"
    using assms
  proof (induction xs)
    case (Cons x xs)
    have IH: "\<forall>b \<in> set (dropWhile ?P xs). \<not> lt (key b) k"
      using Cons.prems by (intro Cons.IH) (simp add: tree_sorted_Cons)
    have "\<forall>y \<in> set xs. \<not> lt (key x) k \<longrightarrow> \<not> lt (key y) k"
      using Cons.prems lt_trans unfolding tree_sorted_Cons by blast
    then show ?case using IH by (cases "lt (key x) k") (simp_all only: dropWhile.simps if_True if_False list.set ball_simps simp_thms)
  qed simp
qed

lemma lower_bound_at:
  assumes "tree_sorted lt key (A @ x # B)" and "eqv lt (key x) k"
  shows "lower_bound lt key k (A @ x # B) = length A"
proof -
  have "\<forall>a \<in> set A. lt (key a) k"
    using assms eqv_lt(2) [OF assms(2)] by (simp add: tree_sorted_append)
  then show ?thesis using assms(2) by (simp add: lower_bound_def eqv_def)
qed

lemma find_at:
  assumes "tree_sorted lt key (A @ x # B)" and "eqv lt (key x) k"
  shows "tree_find lt key k (A @ x # B) = length A"
  using lower_bound_at [OF assms] assms(2) by (simp add: tree_find_def eqv_def)

lemma find_none:
  assumes "tree_sorted lt key xs" and "\<And>x. x \<in> set xs \<Longrightarrow> \<not> eqv lt (key x) k"
  shows "tree_find lt key k xs = length xs"
proof (rule split_key [OF assms(1), of k])
  fix A B assume *: "xs = A @ B" "lower_bound lt key k xs = length A" "\<forall>b \<in> set B. \<not> lt (key b) k"
  then show ?thesis using assms(2) by (cases B) (auto simp: tree_find_def eqv_def)
qed

lemma find_in:
  assumes "tree_sorted lt key xs"
  shows "tree_find lt key k xs < length xs \<longleftrightarrow> (\<exists>x \<in> set xs. eqv lt (key x) k)"
proof
  assume "\<exists>x \<in> set xs. eqv lt (key x) k"
  then obtain A x B where "xs = A @ x # B" "eqv lt (key x) k" by (auto dest: split_list)
  then show "tree_find lt key k xs < length xs" using find_at [of key A x B k] assms by simp
next
  assume "tree_find lt key k xs < length xs"
  then show "\<exists>x \<in> set xs. eqv lt (key x) k" using find_none [OF assms] by (metis less_irrefl)
qed

text \<open>\<open>insert\<close> keeps the order, and adds the element iff no equivalent one is there.\<close>

lemma insert_present:
  assumes "tree_sorted lt key (A @ x # B)" and "eqv lt (key x) (key e)"
  shows "tree_insert lt key e (A @ x # B) = (length A, A @ x # B)"
  using lower_bound_at [OF assms] assms(2) by (simp add: tree_insert_def eqv_def)

lemma insert_absent:
  assumes "tree_sorted lt key xs" and "\<And>x. x \<in> set xs \<Longrightarrow> \<not> eqv lt (key x) (key e)"
  obtains A B where "xs = A @ B" "tree_insert lt key e xs = (length A, A @ e # B)"
    "tree_sorted lt key (A @ e # B)" "\<forall>a \<in> set A. lt (key a) (key e)" "\<forall>b \<in> set B. lt (key e) (key b)"
proof (rule split_key [OF assms(1), of "key e"])
  fix A B assume *: "xs = A @ B" "lower_bound lt key (key e) xs = length A"
    "\<forall>a \<in> set A. lt (key a) (key e)" "\<forall>b \<in> set B. \<not> lt (key b) (key e)"
  have B: "\<forall>b \<in> set B. lt (key e) (key b)" using assms(2) * by (auto simp: eqv_def)
  have "tree_insert lt key e xs = (length A, A @ e # B)"
    using *(1,2) B by (cases B) (auto simp: tree_insert_def)
  moreover have "tree_sorted lt key (A @ e # B)"
    using assms(1) * B by (auto simp: tree_sorted_append tree_sorted_Cons dest: lt_trans)
  ultimately show thesis using that * B by blast
qed

lemma sorted_insert:
  assumes "tree_sorted lt key xs"
  shows "tree_sorted lt key (snd (tree_insert lt key e xs))"
proof (cases "\<exists>x \<in> set xs. eqv lt (key x) (key e)")
  case True
  then obtain A x B where "xs = A @ x # B" "eqv lt (key x) (key e)" by (auto dest: split_list)
  then show ?thesis using insert_present [of key A x B e] assms by simp
next
  case False
  then show ?thesis using insert_absent [OF assms, of e] by (metis snd_conv)
qed

lemma set_insert:
  assumes "tree_sorted lt key xs" and "\<And>x. x \<in> set xs \<Longrightarrow> \<not> eqv lt (key x) (key e)"
  shows "set (snd (tree_insert lt key e xs)) = insert e (set xs)"
  using insert_absent [OF assms] by (metis Un_insert_right list.simps(15) set_append snd_conv)

text \<open>Erasing what \<open>find\<close> returns removes the element; on an absent key it is undefined.\<close>

lemma erase_found:
  assumes "tree_sorted lt key (A @ x # B)" and "eqv lt (key x) k"
  shows "tree_erase (tree_find lt key k (A @ x # B)) (A @ x # B) = Inr (A @ B)"
  using find_at [OF assms] by (simp add: tree_erase_def)

lemma erase_absent:
  assumes "tree_sorted lt key xs" and "\<And>x. x \<in> set xs \<Longrightarrow> \<not> eqv lt (key x) k"
  shows "tree_erase (tree_find lt key k xs) xs = Inl IteratorRange"
  using find_none [OF assms] by (simp add: tree_erase_def)

lemma sorted_erase: "tree_sorted lt key xs \<Longrightarrow> tree_erase i xs = Inr ys \<Longrightarrow> tree_sorted lt key ys"
  by (auto simp: tree_erase_def tree_sorted_append tree_sorted_def sorted_wrt_take sorted_wrt_drop
      split: if_splits)
     (metis append_take_drop_id sorted_wrt_append Cons_nth_drop_Suc list.set_intros(2))

lemma others_differ:
  assumes "tree_sorted lt key (A @ x # B)" and "eqv lt (key x) k" and "y \<in> set A \<union> set B"
  shows "\<not> eqv lt (key y) k"
proof
  assume "eqv lt (key y) k"
  then have "eqv lt (key y) (key x)" using assms(2) by (rule eqv_join)
  then show False using assms by (auto simp: tree_sorted_append tree_sorted_Cons eqv_def)
qed

text \<open>The map operations: lookup after assignment and after erasing.\<close>

lemma map_find_iff:
  assumes "tree_sorted lt fst m"
  shows "map_find lt k m = Some v \<longleftrightarrow> (\<exists>k'. (k', v) \<in> set m \<and> eqv lt k' k)"
proof (cases "\<exists>x \<in> set m. eqv lt (fst x) k")
  case True
  then obtain A x B where m: "m = A @ x # B" "eqv lt (fst x) k" by (auto dest: split_list)
  have "eqv lt (fst y) (fst x)" if "eqv lt (fst y) k" for y
    using that m(2) by (rule eqv_join)
  then have "y = x" if "y \<in> set m" "eqv lt (fst y) k" for y
    using that m(1) assms by (auto simp: tree_sorted_append tree_sorted_Cons eqv_def)
  then have "(\<exists>k'. (k', v) \<in> set m \<and> eqv lt k' k) \<longleftrightarrow> snd x = v"
    using m by (metis fst_conv in_set_conv_decomp prod.collapse snd_conv)
  moreover have "map_find lt k m = Some (snd x)" using m find_at [of fst A x B k] assms
    by (simp add: map_find_def)
  ultimately show ?thesis by simp
next
  case False
  then show ?thesis using find_none [OF assms, of k] by (force simp: map_find_def)
qed

lemma map_find_None:
  assumes "tree_sorted lt fst m"
  shows "map_find lt k m = None \<longleftrightarrow> (\<forall>x \<in> set m. \<not> eqv lt (fst x) k)"
  using map_find_iff [OF assms, of k] by (cases "map_find lt k m") force+

lemma map_find_Cons:
  assumes "tree_sorted lt fst ((a, v) # m)"
  shows "map_find lt k ((a, v) # m) = (if eqv lt a k then Some v else map_find lt k m)"
proof (cases "eqv lt a k")
  case True
  then show ?thesis using map_find_iff [OF assms, of k v] by auto
next
  case False
  have "map_find lt k ((a, v) # m) = Some w \<longleftrightarrow> map_find lt k m = Some w" for w
    using False map_find_iff [OF assms, of k w] map_find_iff [of m k w] assms by (auto simp: tree_sorted_Cons)
  then have "map_find lt k ((a, v) # m) = map_find lt k m" by (rule option_eqI)
  then show ?thesis using False by simp
qed

lemma assign_cases:
  assumes "tree_sorted lt fst m"
  obtains A k' v' B where "m = A @ (k', v') # B" "eqv lt k' k" "map_assign lt k v m = A @ (k', v) # B"
  | A B where "m = A @ B" "\<forall>x \<in> set m. \<not> eqv lt (fst x) k" "map_assign lt k v m = A @ (k, v) # B"
      "tree_sorted lt fst (A @ (k, v) # B)"
proof (cases "\<exists>x \<in> set m. eqv lt (fst x) k")
  case True
  then obtain A x B where "m = A @ x # B" "eqv lt (fst x) k" by (auto dest: split_list)
  then show thesis using that(1) [of A "fst x" "snd x" B] find_at [of fst A x B k] assms
    by (simp add: map_assign_def)
next
  case False
  then have a: "\<not> eqv lt (fst x) (fst (k, v))" if "x \<in> set m" for x using that by simp
  have f: "map_assign lt k v m = snd (tree_insert lt fst (k, v) m)"
    using find_none [OF assms, of k] a by (simp add: map_assign_def)
  show thesis
    by (rule insert_absent [OF assms a]) (use a f in \<open>auto intro: that(2)\<close>)
qed

lemma sorted_assign: "tree_sorted lt fst m \<Longrightarrow> tree_sorted lt fst (map_assign lt k v m)"
  by (rule assign_cases [of m k v]) (auto simp: tree_sorted_append tree_sorted_Cons)

lemma map_find_assign:
  assumes "tree_sorted lt fst m"
  shows "map_find lt k' (map_assign lt k v m) = (if eqv lt k k' then Some v else map_find lt k' m)"
proof -
  note s = sorted_assign [OF assms, of k v]
  have iff: "map_find lt k' (map_assign lt k v m) = Some w \<longleftrightarrow>
      (if eqv lt k k' then w = v else map_find lt k' m = Some w)" for w
    unfolding map_find_iff [OF s] map_find_iff [OF assms]
  proof (rule assign_cases [OF assms, of k v], goal_cases)
    case (1 A k1 v' B)
    have "eqv lt k1 k' \<longleftrightarrow> eqv lt k k'" using 1(2) by (rule eqv_eqv)
    moreover have "\<not> eqv lt k2 k'" if "(k2, w') \<in> set A \<union> set B" "eqv lt k k'" for k2 w'
      using others_differ [of fst A "(k1, v')" B k' "(k2, w')"] that assms 1(1) eqv_trans [OF 1(2) that(2)] by simp
    ultimately show ?case using 1 by auto
  next
    case (2 A B)
    have "\<not> eqv lt k2 k'" if "(k2, w') \<in> set m" "eqv lt k k'" for k2 w'
      using 2(2) that eqv_trans [of k2 k' k] eqv_sym by (metis fst_conv)
    then show ?case using 2 by auto
  qed
  show ?thesis by (rule option_eqI) (use iff in auto)
qed

lemma map_find_insert:
  assumes "tree_sorted lt fst m"
  shows "map_find lt k (snd (tree_insert lt fst (a, v) m)) =
    (case map_find lt k m of Some w \<Rightarrow> Some w | None \<Rightarrow> if eqv lt a k then Some v else None)"
proof (cases "map_find lt a m")
  case None
  then have "tree_find lt fst a m = length m"
    using find_none [OF assms] map_find_None [OF assms] by blast
  then have "snd (tree_insert lt fst (a, v) m) = map_assign lt a v m" by (simp add: map_assign_def)
  moreover have "map_find lt k m = None" if "eqv lt a k"
  proof -
    have "\<forall>x \<in> set m. \<not> eqv lt (fst x) k"
      using None map_find_None [OF assms] eqv_trans [OF _ eqv_sym [OF that]] by blast
    then show ?thesis using map_find_None [OF assms] by blast
  qed
  ultimately show ?thesis by (auto simp: map_find_assign [OF assms] split: option.splits)
next
  case (Some w)
  then obtain x where x: "x \<in> set m" "eqv lt (fst x) a" using map_find_iff [OF assms] by force
  then obtain A B where m: "m = A @ x # B" by (auto dest: split_list)
  have "snd (tree_insert lt fst (a, v) m) = m"
    using insert_present [of fst A x B "(a, v)"] x assms by (simp add: m)
  moreover have "\<exists>w. map_find lt k m = Some w" if "eqv lt a k"
    using map_find_None [OF assms, of k] x eqv_trans [OF x(2) that] by (cases "map_find lt k m") auto
  ultimately show ?thesis by (auto split: option.splits)
qed

lemma set_map_erase:
  assumes "tree_sorted lt fst m"
  shows "set (map_erase lt k m) = {x \<in> set m. \<not> eqv lt (fst x) k}"
proof (cases "\<exists>x \<in> set m. eqv lt (fst x) k")
  case True
  then obtain A x B where m: "m = A @ x # B" "eqv lt (fst x) k" by (auto dest: split_list)
  have "\<not> eqv lt (fst y) k" if "y \<in> set A \<union> set B" for y
    using that m assms others_differ [of fst A x B k y] by simp
  then show ?thesis using m find_at [of fst A x B k] assms by (auto simp: map_erase_def)
next
  case False
  then show ?thesis using find_none [OF assms, of k] by (auto simp: map_erase_def)
qed

lemma sorted_map_erase: "tree_sorted lt fst m \<Longrightarrow> tree_sorted lt fst (map_erase lt k m)"
  using sorted_erase [of fst m "tree_find lt fst k m"]
  by (cases "tree_find lt fst k m < length m") (simp_all add: map_erase_def tree_erase_def Let_def)

lemma map_find_erase:
  assumes "tree_sorted lt fst m"
  shows "map_find lt k' (map_erase lt k m) = (if eqv lt k k' then None else map_find lt k' m)"
proof (cases "eqv lt k k'")
  case True
  then have "\<forall>x. eqv lt x k' \<longrightarrow> eqv lt x k" using eqv_join [OF _ True] by blast
  then have "\<forall>x \<in> set (map_erase lt k m). \<not> eqv lt (fst x) k'"
    unfolding set_map_erase [OF assms] by blast
  then show ?thesis by (simp add: True map_find_None [OF sorted_map_erase [OF assms]])
next
  case False
  then have "\<forall>x. eqv lt x k' \<longrightarrow> \<not> eqv lt x k" using eqv_trans [OF eqv_sym] by blast
  then have "map_find lt k' (map_erase lt k m) = Some w \<longleftrightarrow> map_find lt k' m = Some w" for w
    unfolding map_find_iff [OF sorted_map_erase [OF assms]] map_find_iff [OF assms] set_map_erase [OF assms]
    by auto
  then have "map_find lt k' (map_erase lt k m) = map_find lt k' m" by (rule option_eqI)
  then show ?thesis using False by simp
qed

end

text \<open>A comparator under which equivalent keys are equal.\<close>

locale total_comparator = comparator +
  assumes eqv_eq: "eqv lt a b \<Longrightarrow> a = b"
begin

lemma eqv_iff: "eqv lt a b \<longleftrightarrow> a = b"
  using eqv_eq eqv_refl by blast

lemma map_find_total:
  assumes "tree_sorted lt fst m"
  shows "map_find lt k m = map_of m k"
proof (cases "map_find lt k m")
  case None
  then have "k \<notin> fst ` set m" using map_find_None [OF assms, of k] eqv_iff by auto
  then have "map_of m k = None" by (simp only: map_of_eq_None_iff not_False_eq_True)
  then show ?thesis using None by simp
next
  case (Some v)
  moreover have "distinct (map fst m)"
    using assms by (induction m) (auto simp: tree_sorted_Cons lt_irrefl)
  ultimately show ?thesis using map_find_iff [OF assms, of k v] eqv_iff by auto
qed

end

end
