(* ===== verification/Timer.thy ===== *)
theory Timer
  imports Ordered
begin

section \<open>Timers\<close>

text \<open>
  \<open>src/spike/coroutine/Timer.h\<close> and \<open>Timer.cpp\<close>. Timers live on a heap, a pointer is a number with
  \<open>0\<close> for null, and \<open>m_timer_set\<close> is the list of the pointers of the \<open>std::set\<close> in its order. What
  \<open>TimeStamp::now()->ms()\<close> returns is an argument, as is the address that \<open>new Timer\<close> returns. A
  \<open>std::function\<close> is empty (\<open>None\<close>), a plain callback or the wrapper that \<open>addConditionTimer\<close> makes.
\<close>

type_synonym ptr = nat

datatype 'c callback_fn = Call 'c | CondCall nat 'c

record 'c timer =
  m_recurring :: bool
  m_ms :: u64
  m_next :: u64
  m_callback :: "'c callback_fn option"

record 'c timer_manager =
  timer_heap :: "ptr \<Rightarrow> 'c timer"
  m_timer_set :: "ptr list"
  m_previousTime :: u64
  m_started :: bool

definition Timer_new :: "u64 \<Rightarrow> u64 \<Rightarrow> 'c callback_fn option \<Rightarrow> bool \<Rightarrow> 'c timer" where
  "Timer_new now time callback recurring =
     \<lparr>m_recurring = recurring, m_ms = time, m_next = now + time, m_callback = callback\<rparr>"

definition Timer_at :: "u64 \<Rightarrow> 'c timer" where
  "Timer_at next = \<lparr>m_recurring = False, m_ms = 0, m_next = next, m_callback = None\<rparr>"

definition Comparator :: "(ptr \<Rightarrow> 'c timer) \<Rightarrow> ptr \<Rightarrow> ptr \<Rightarrow> bool" where
  "Comparator h lhs rhs =
     (if lhs = 0 then False
      else if rhs = 0 then True
      else m_next (h lhs) < m_next (h rhs) \<or> (m_next (h rhs) = m_next (h lhs) \<and> lhs < rhs))"

definition timer_find :: "'c timer_manager \<Rightarrow> ptr \<Rightarrow> nat" where
  "timer_find tm p = tree_find (Comparator (timer_heap tm)) id p (m_timer_set tm)"

definition timer_insert :: "ptr \<Rightarrow> 'c timer_manager \<Rightarrow> nat \<times> 'c timer_manager" where
  "timer_insert p tm =
     (let (it, s) = tree_insert (Comparator (timer_heap tm)) id p (m_timer_set tm)
      in (it, tm\<lparr>m_timer_set := s\<rparr>))"

definition timer_erase :: "nat \<Rightarrow> 'c timer_manager \<Rightarrow> 'c timer_manager res" where
  "timer_erase it tm = bindE (tree_erase it (m_timer_set tm)) (\<lambda>s. Inr (tm\<lparr>m_timer_set := s\<rparr>))"

definition set_timer :: "ptr \<Rightarrow> ('c timer \<Rightarrow> 'c timer) \<Rightarrow> 'c timer_manager \<Rightarrow> 'c timer_manager" where
  "set_timer p f tm = tm\<lparr>timer_heap := (timer_heap tm)(p := f (timer_heap tm p))\<rparr>"

definition tm_init :: "'c timer_manager" where
  "tm_init = \<lparr>timer_heap = (\<lambda>_. Timer_at 0), m_timer_set = [], m_previousTime = 0, m_started = True\<rparr>"

subsection \<open>Adding\<close>

text \<open>\<open>addTimer(Timer::ptr)\<close>; the flag says whether it tickles the timer thread.\<close>

definition addTimer_ptr :: "ptr \<Rightarrow> 'c timer_manager \<Rightarrow> bool \<times> 'c timer_manager" where
  "addTimer_ptr p tm = (let (it, tm) = timer_insert p tm in (it = 0, tm))"

definition addTimer :: "u64 \<Rightarrow> ptr \<Rightarrow> u64 \<Rightarrow> 'c callback_fn option \<Rightarrow> bool \<Rightarrow> 'c timer_manager \<Rightarrow> bool \<times> 'c timer_manager" where
  "addTimer now p ms callback recurring tm =
     addTimer_ptr p (set_timer p (\<lambda>_. Timer_new now ms callback recurring) tm)"

definition addConditionTimer :: "u64 \<Rightarrow> ptr \<Rightarrow> u64 \<Rightarrow> 'c \<Rightarrow> nat \<Rightarrow> bool \<Rightarrow> 'c timer_manager \<Rightarrow> bool \<times> 'c timer_manager" where
  "addConditionTimer now p ms callback weak_cond recurring tm =
     addTimer now p ms (Some (CondCall weak_cond callback)) recurring tm"

subsection \<open>Cancelling, refreshing, resetting\<close>

text \<open>
  Each operation reads \<open>m_callback\<close> before it takes the lock (\<open>has_callback\<close>); its locked sections
  are definitions of their own, so that they can be interleaved.
\<close>

definition has_callback :: "ptr \<Rightarrow> 'c timer_manager \<Rightarrow> bool" where
  "has_callback p tm \<longleftrightarrow> m_callback (timer_heap tm p) \<noteq> None"

definition cancel_locked :: "ptr \<Rightarrow> 'c timer_manager \<Rightarrow> 'c timer_manager res" where
  "cancel_locked p tm =
     (let tm = set_timer p (\<lambda>t. t\<lparr>m_callback := None\<rparr>) tm in timer_erase (timer_find tm p) tm)"

definition cancelTimer :: "ptr \<Rightarrow> 'c timer_manager \<Rightarrow> (bool \<times> 'c timer_manager) res" where
  "cancelTimer p tm =
     (if \<not> has_callback p tm then Inr (False, tm)
      else bindE (cancel_locked p tm) (\<lambda>tm. Inr (True, tm)))"

text \<open>The locked section that \<open>refreshTimer\<close> and \<open>resetTimer\<close> share: \<open>None\<close> is the early return.\<close>

definition take_locked :: "ptr \<Rightarrow> 'c timer_manager \<Rightarrow> 'c timer_manager option res" where
  "take_locked p tm =
     (let it = timer_find tm p
      in if it = length (m_timer_set tm) then Inr None
         else bindE (timer_erase it tm) (\<lambda>tm. Inr (Some tm)))"

definition refresh_write :: "u64 \<Rightarrow> ptr \<Rightarrow> 'c timer_manager \<Rightarrow> 'c timer_manager" where
  "refresh_write now p = set_timer p (\<lambda>t. t\<lparr>m_next := now + m_ms t\<rparr>)"

definition reset_write :: "u64 \<Rightarrow> ptr \<Rightarrow> u64 \<Rightarrow> bool \<Rightarrow> 'c timer_manager \<Rightarrow> 'c timer_manager" where
  "reset_write now p ms from_now =
     set_timer p (\<lambda>t. let start = (if from_now then now else m_next t - m_ms t)
                      in t\<lparr>m_ms := ms, m_next := start + ms\<rparr>)"

definition refreshTimer :: "u64 \<Rightarrow> ptr \<Rightarrow> 'c timer_manager \<Rightarrow> (bool \<times> 'c timer_manager) res" where
  "refreshTimer now p tm =
     (if \<not> has_callback p tm then Inr (False, tm)
      else bindE (take_locked p tm) (\<lambda>taken. case taken of
          None \<Rightarrow> Inr (False, tm)
        | Some tm \<Rightarrow> Inr (True, snd (timer_insert p (refresh_write now p tm)))))"

definition resetTimer :: "u64 \<Rightarrow> ptr \<Rightarrow> u64 \<Rightarrow> bool \<Rightarrow> 'c timer_manager \<Rightarrow> (bool \<times> 'c timer_manager) res" where
  "resetTimer now p ms from_now tm =
     (if ms = m_ms (timer_heap tm p) \<and> \<not> from_now then Inr (True, tm)
      else if \<not> has_callback p tm then Inr (False, tm)
      else bindE (take_locked p tm) (\<lambda>taken. case taken of
          None \<Rightarrow> Inr (False, tm)
        | Some tm \<Rightarrow> Inr (True, snd (addTimer_ptr p (reset_write now p ms from_now tm)))))"

subsection \<open>Expiry\<close>

definition getNextExpire :: "u64 \<Rightarrow> 'c timer_manager \<Rightarrow> u64" where
  "getNextExpire now_ms tm =
     (case m_timer_set tm of
        [] \<Rightarrow> 1000
      | p # _ \<Rightarrow> if now_ms \<ge> m_next (timer_heap tm p) then 0 else m_next (timer_heap tm p) - now_ms)"

text \<open>\<open>int newTimeOut = getNextExpire()\<close> in \<open>run\<close>.\<close>

definition newTimeOut :: "u64 \<Rightarrow> 'c timer_manager \<Rightarrow> int" where
  "newTimeOut now_ms tm = sint (ucast (getNextExpire now_ms tm) :: 32 word)"

definition detectClockRollover :: "u64 \<Rightarrow> 'c timer_manager \<Rightarrow> bool \<times> 'c timer_manager" where
  "detectClockRollover now_ms tm =
     (now_ms < m_previousTime tm \<and> now_ms < m_previousTime tm - 60 * 60 * 1000, tm\<lparr>m_previousTime := now_ms\<rparr>)"

fun skip_equal :: "(ptr \<Rightarrow> 'c timer) \<Rightarrow> u64 \<Rightarrow> ptr list \<Rightarrow> nat" where
  "skip_equal h now_ms [] = 0"
| "skip_equal h now_ms (p # ps) = (if m_next (h p) = now_ms then Suc (skip_equal h now_ms ps) else 0)"

text \<open>The loop over the expired timers: extract the callback, then re-insert or release.\<close>

fun extract_loop :: "u64 \<Rightarrow> ptr list \<Rightarrow> 'c timer_manager \<Rightarrow> 'c callback_fn option list \<times> 'c timer_manager" where
  "extract_loop now_ms [] tm = ([], tm)"
| "extract_loop now_ms (p # ps) tm =
     (let callback = m_callback (timer_heap tm p);
          tm = (if m_recurring (timer_heap tm p)
                then snd (timer_insert p (set_timer p (\<lambda>t. t\<lparr>m_next := now_ms + m_ms t\<rparr>) tm))
                else set_timer p (\<lambda>t. t\<lparr>m_callback := None\<rparr>) tm);
          (rest, tm) = extract_loop now_ms ps tm
      in (callback # rest, tm))"

text \<open>\<open>q\<close> is the address of \<open>now_timer\<close>, the probe that \<open>lower_bound\<close> is called with.\<close>

definition expired_end :: "u64 \<Rightarrow> ptr \<Rightarrow> bool \<Rightarrow> 'c timer_manager \<Rightarrow> nat" where
  "expired_end now_ms q rollover tm =
     (let s = m_timer_set tm;
          h = (timer_heap tm)(q := Timer_at now_ms);
          it = (if rollover then length s else lower_bound (Comparator h) id q s)
      in it + skip_equal h now_ms (drop it s))"

definition listExpiredCallback :: "u64 \<Rightarrow> ptr \<Rightarrow> 'c timer_manager \<Rightarrow> 'c callback_fn option list \<times> 'c timer_manager" where
  "listExpiredCallback now_ms q tm =
     (if m_timer_set tm = [] then ([], tm)
      else
        let (rollover, tm) = detectClockRollover now_ms tm
        in if \<not> rollover \<and> m_next (timer_heap tm (hd (m_timer_set tm))) > now_ms then ([], tm)
           else
             let it = expired_end now_ms q rollover tm
             in extract_loop now_ms (take it (m_timer_set tm)) (tm\<lparr>m_timer_set := drop it (m_timer_set tm)\<rparr>))"

text \<open>
  \<open>doFunc\<close>: the calls that running a callback makes. An empty function throws \<open>bad_function_call\<close>, which
  the \<open>catch (...)\<close> discards; a conditional one runs when its \<open>weak_ptr\<close> can be locked.
\<close>

fun doFunc :: "(nat \<Rightarrow> bool) \<Rightarrow> 'c callback_fn option \<Rightarrow> 'c list" where
  "doFunc alive None = []"
| "doFunc alive (Some (Call c)) = [c]"
| "doFunc alive (Some (CondCall w c)) = (if alive w then [c] else [])"

text \<open>One turn of the loop of \<open>run\<close> after the wait: the calls made.\<close>

definition run_turn :: "(nat \<Rightarrow> bool) \<Rightarrow> u64 \<Rightarrow> ptr \<Rightarrow> 'c timer_manager \<Rightarrow> 'c list \<times> 'c timer_manager" where
  "run_turn alive now_ms q tm =
     (let (callback_list, tm) = listExpiredCallback now_ms q tm
      in (concat (map (doFunc alive) callback_list), tm))"

definition stop :: "'c timer_manager \<Rightarrow> 'c timer_manager" where
  "stop tm = (if \<not> m_started tm then tm else tm\<lparr>m_started := False\<rparr>)"

end
