(* ===== verification/Timer_Props.thy ===== *)
theory Timer_Props
  imports Timer
begin

section \<open>The timer manager is correct\<close>

text \<open>
  The comparator is the order of the pairs of deadline and address, so \<open>m_timer_set\<close> is sorted by them;
  every operation keeps that, and an expiry takes exactly the timers that are due.
\<close>

named_theorems timer_simps \<open>reading the manager after a write\<close>

datatype timer_key = TimerKey (key_next: u64) (key_ptr: ptr)

instantiation timer_key :: linorder
begin

definition less_eq_timer_key :: "timer_key \<Rightarrow> timer_key \<Rightarrow> bool" where
  "a \<le> b \<longleftrightarrow> key_next a < key_next b \<or> key_next a = key_next b \<and> key_ptr a \<le> key_ptr b"

definition less_timer_key :: "timer_key \<Rightarrow> timer_key \<Rightarrow> bool" where
  "a < b \<longleftrightarrow> key_next a < key_next b \<or> key_next a = key_next b \<and> key_ptr a < key_ptr b"

instance
  by standard (auto simp: less_eq_timer_key_def less_timer_key_def timer_key.expand)

end

definition timer_key :: "(ptr \<Rightarrow> 'c timer) \<Rightarrow> ptr \<Rightarrow> timer_key" where
  "timer_key h p = TimerKey (m_next (h p)) p"

lemma timer_key_inject [simp]: "timer_key h p = timer_key h q \<longleftrightarrow> p = q"
  by (auto simp: timer_key_def)

lemma Comparator_key:
  "Comparator h a b \<longleftrightarrow> 0 < a \<and> (b = 0 \<or> timer_key h a < timer_key h b)"
  by (auto simp: Comparator_def timer_key_def less_timer_key_def)

interpretation timers: total_comparator "Comparator h" for h :: "ptr \<Rightarrow> 'c timer"
proof unfold_locales
  show "\<not> Comparator h a a" for a by (auto simp: Comparator_key)
  show "Comparator h a b \<Longrightarrow> Comparator h b c \<Longrightarrow> Comparator h a c" for a b c
    by (auto simp: Comparator_key)
  show "\<not> Comparator h a b \<Longrightarrow> \<not> Comparator h b a \<Longrightarrow> \<not> Comparator h b c \<Longrightarrow> \<not> Comparator h c b \<Longrightarrow>
      \<not> Comparator h a c" for a b c
    by (auto simp: Comparator_key not_less)
  show "eqv (Comparator h) a b \<Longrightarrow> a = b" for a b
    by (cases "a = 0"; cases "b = 0") (auto simp: eqv_def Comparator_key not_less intro: antisym [THEN timer_key_inject [THEN iffD1]])
qed

definition tm_sorted :: "'c timer_manager \<Rightarrow> bool" where
  "tm_sorted tm \<longleftrightarrow> tree_sorted (Comparator (timer_heap tm)) id (m_timer_set tm)"

definition tm_inv :: "'c timer_manager \<Rightarrow> bool" where
  "tm_inv tm \<longleftrightarrow> tm_sorted tm \<and> 0 \<notin> set (m_timer_set tm)
     \<and> (\<forall>p. has_callback p tm \<longrightarrow> p \<in> set (m_timer_set tm))"

lemma tm_sorted_iff:
  "0 \<notin> set (m_timer_set tm) \<Longrightarrow> tm_sorted tm \<longleftrightarrow> sorted_wrt (<) (map (timer_key (timer_heap tm)) (m_timer_set tm))"
  unfolding tm_sorted_def tree_sorted_def sorted_wrt_map
  by (rule iffI; erule sorted_wrt_mono_rel [rotated]) (auto simp: Comparator_key intro: gr0I)

lemma distinct_of_sorted_wrt: "sorted_wrt R xs \<Longrightarrow> (\<And>a. \<not> R a a) \<Longrightarrow> distinct xs"
  by (induction xs) auto

lemma tm_sorted_distinct: "tm_sorted tm \<Longrightarrow> distinct (m_timer_set tm)"
  unfolding tm_sorted_def tree_sorted_def
  by (rule distinct_of_sorted_wrt [OF _ timers.lt_irrefl]) simp

subsection \<open>Reading after a write\<close>

lemma set_timer_set [simp]: "m_timer_set (set_timer p f tm) = m_timer_set tm"
  by (simp add: set_timer_def)

lemma set_timer_heap [simp]: "timer_heap (set_timer p f tm) = (timer_heap tm)(p := f (timer_heap tm p))"
  by (simp add: set_timer_def)

lemma insert_heap [simp]: "timer_heap (snd (timer_insert p tm)) = timer_heap tm"
  by (simp add: timer_insert_def split: prod.splits)

lemma insert_previous [simp]: "m_previousTime (snd (timer_insert p tm)) = m_previousTime tm"
  by (simp add: timer_insert_def split: prod.splits)

lemma has_callback_set_timer:
  "has_callback q (set_timer p f tm) \<longleftrightarrow> (if q = p then m_callback (f (timer_heap tm p)) \<noteq> None else has_callback q tm)"
  by (simp add: has_callback_def)

lemma has_callback_insert [simp]: "has_callback q (snd (timer_insert p tm)) \<longleftrightarrow> has_callback q tm"
  by (simp add: has_callback_def)

lemma has_callback_set [simp]: "has_callback q (tm\<lparr>m_timer_set := s\<rparr>) \<longleftrightarrow> has_callback q tm"
  by (simp add: has_callback_def)

text \<open>The order only depends on the deadlines of the timers in the set.\<close>

lemma tm_sorted_write:
  assumes "p \<notin> set (m_timer_set tm) \<or> m_next (f (timer_heap tm p)) = m_next (timer_heap tm p)"
  shows "tm_sorted (set_timer p f tm) \<longleftrightarrow> tm_sorted tm"
  unfolding tm_sorted_def set_timer_set using assms
  by (intro tree_sorted_cong) (auto simp: Comparator_def)

subsection \<open>The set operations\<close>

lemma timer_find_in:
  "tm_sorted tm \<Longrightarrow> m_timer_set tm = A @ p # B \<Longrightarrow> timer_find tm p = length A"
  using timers.find_at [of "timer_heap tm" id A p B p] by (simp add: timer_find_def tm_sorted_def timers.eqv_iff)

lemma timer_find_out:
  "tm_sorted tm \<Longrightarrow> p \<notin> set (m_timer_set tm) \<Longrightarrow> timer_find tm p = length (m_timer_set tm)"
  using timers.find_none [of "timer_heap tm" id "m_timer_set tm" p]
  by (auto simp: timer_find_def tm_sorted_def timers.eqv_iff)

lemma timer_insert_new:
  assumes "tm_sorted tm" and "p \<notin> set (m_timer_set tm)"
  shows "tm_sorted (snd (timer_insert p tm))"
    and "set (m_timer_set (snd (timer_insert p tm))) = insert p (set (m_timer_set tm))"
proof -
  let ?h = "timer_heap tm" and ?s = "m_timer_set tm"
  have s: "m_timer_set (snd (timer_insert p tm)) = snd (tree_insert (Comparator ?h) id p ?s)"
    by (simp add: timer_insert_def split: prod.splits)
  show "tm_sorted (snd (timer_insert p tm))"
    using assms timers.sorted_insert [of ?h id ?s p] by (simp add: tm_sorted_def s)
  have "\<not> eqv (Comparator ?h) (id x) (id p)" if "x \<in> set ?s" for x
    using assms(2) that by (auto simp: timers.eqv_iff)
  then show "set (m_timer_set (snd (timer_insert p tm))) = insert p (set ?s)"
    using assms(1) timers.set_insert [of ?h id ?s p] by (simp add: tm_sorted_def s)
qed

lemma tm_sorted_remove:
  "tm_sorted tm \<Longrightarrow> m_timer_set tm = A @ p # B \<Longrightarrow> tm_sorted (tm\<lparr>m_timer_set := A @ B\<rparr>)"
  by (auto simp: tm_sorted_def tree_sorted_append tree_sorted_Cons)

lemma take_locked_in:
  "tm_sorted tm \<Longrightarrow> m_timer_set tm = A @ p # B \<Longrightarrow> take_locked p tm = Inr (Some (tm\<lparr>m_timer_set := A @ B\<rparr>))"
  by (simp add: take_locked_def timer_find_in timer_erase_def tree_erase_def)

lemma take_locked_out:
  "tm_sorted tm \<Longrightarrow> p \<notin> set (m_timer_set tm) \<Longrightarrow> take_locked p tm = Inr None"
  by (simp add: take_locked_def timer_find_out)

lemma cancel_locked_in:
  assumes "tm_sorted tm" and "m_timer_set tm = A @ p # B"
  shows "cancel_locked p tm = Inr ((set_timer p (\<lambda>t. t\<lparr>m_callback := None\<rparr>) tm)\<lparr>m_timer_set := A @ B\<rparr>)"
proof -
  have "tm_sorted (set_timer p (\<lambda>t. t\<lparr>m_callback := None\<rparr>) tm)" using assms(1) by (simp add: tm_sorted_write)
  then show ?thesis using assms(2)
    by (simp add: cancel_locked_def timer_find_in [where A = A and B = B] timer_erase_def tree_erase_def)
qed

lemma cancel_locked_out:
  assumes "tm_sorted tm" and "p \<notin> set (m_timer_set tm)"
  shows "cancel_locked p tm = Inl IteratorRange"
proof -
  have "tm_sorted (set_timer p (\<lambda>t. t\<lparr>m_callback := None\<rparr>) tm)" using assms(1) by (simp add: tm_sorted_write)
  then show ?thesis using assms(2)
    by (simp add: cancel_locked_def timer_find_out timer_erase_def tree_erase_def)
qed

lemma addTimer_ptr_snd [simp]: "snd (addTimer_ptr p tm) = snd (timer_insert p tm)"
  by (simp add: addTimer_ptr_def split: prod.splits)

subsection \<open>One operation at a time\<close>

datatype 'c tm_op =
    Add u64 ptr u64 "'c callback_fn option" bool
  | Cancel ptr
  | Refresh u64 ptr
  | Reset u64 ptr u64 bool
  | Expire u64 ptr

fun tm_apply :: "'c tm_op \<Rightarrow> 'c timer_manager \<Rightarrow> 'c timer_manager res" where
  "tm_apply (Add now p ms cb rc) tm = Inr (snd (addTimer now p ms cb rc tm))"
| "tm_apply (Cancel p) tm = bindE (cancelTimer p tm) (\<lambda>(_, tm). Inr tm)"
| "tm_apply (Refresh now p) tm = bindE (refreshTimer now p tm) (\<lambda>(_, tm). Inr tm)"
| "tm_apply (Reset now p ms fn) tm = bindE (resetTimer now p ms fn tm) (\<lambda>(_, tm). Inr tm)"
| "tm_apply (Expire now q) tm = Inr (snd (listExpiredCallback now q tm))"

text \<open>What \<open>new\<close> guarantees: the address is not null and no timer of the set is there.\<close>

fun fresh_op :: "'c tm_op \<Rightarrow> 'c timer_manager \<Rightarrow> bool" where
  "fresh_op (Add now p ms cb rc) tm \<longleftrightarrow> p \<noteq> 0 \<and> p \<notin> set (m_timer_set tm)"
| "fresh_op (Expire now q) tm \<longleftrightarrow> q \<noteq> 0 \<and> q \<notin> set (m_timer_set tm)"
| "fresh_op _ tm \<longleftrightarrow> True"

lemma tm_invD:
  assumes "tm_inv tm"
  shows "tm_sorted tm" "0 \<notin> set (m_timer_set tm)" "has_callback p tm \<Longrightarrow> p \<in> set (m_timer_set tm)"
  using assms by (auto simp: tm_inv_def)

lemma tm_inv_insert:
  assumes "tm_sorted tm" and "p \<notin> set (m_timer_set tm)" and "p \<noteq> 0" and "0 \<notin> set (m_timer_set tm)"
    and "\<And>q. has_callback q tm \<Longrightarrow> q \<noteq> p \<Longrightarrow> q \<in> set (m_timer_set tm)"
  shows "tm_inv (snd (timer_insert p tm))"
  using timer_insert_new [OF assms(1,2)] assms(3-5) by (auto simp: tm_inv_def)

lemma tm_inv_add:
  assumes "tm_inv tm" and "p \<noteq> 0" and "p \<notin> set (m_timer_set tm)"
  shows "tm_inv (snd (addTimer now p ms cb rc tm))"
proof -
  let ?t = "set_timer p (\<lambda>_. Timer_new now ms cb rc) tm"
  have "tm_inv (snd (timer_insert p ?t))"
    using assms by (intro tm_inv_insert) (auto simp: tm_sorted_write has_callback_set_timer dest: tm_invD split: if_splits)
  then show ?thesis by (simp add: addTimer_def)
qed

lemma tm_sorted_split:
  assumes "tm_sorted tm" and "p \<in> set (m_timer_set tm)"
  obtains A B where "m_timer_set tm = A @ p # B" "p \<notin> set A \<union> set B"
  using split_list [OF assms(2)] tm_sorted_distinct [OF assms(1)] by force

lemma tm_inv_rewrite:
  assumes "tm_inv tm" and s: "m_timer_set tm = A @ p # B" and "m_callback (f (timer_heap tm p)) = m_callback (timer_heap tm p)"
  shows "tm_inv (snd (timer_insert p (set_timer p f (tm\<lparr>m_timer_set := A @ B\<rparr>))))"
proof -
  have "p \<notin> set (A @ B)" "p \<noteq> 0" using tm_sorted_distinct [of tm] assms(1,2) tm_invD(2) by (auto simp: tm_inv_def)
  then show ?thesis using tm_sorted_remove [OF tm_invD(1) [OF assms(1)] s] tm_invD(2,3) [OF assms(1)] assms
    by (intro tm_inv_insert) (auto simp: tm_sorted_write has_callback_set_timer split: if_splits)
qed

lemma tm_inv_refresh:
  assumes "tm_inv tm"
  shows "\<exists>b tm'. refreshTimer now p tm = Inr (b, tm') \<and> tm_inv tm'"
proof (cases "has_callback p tm")
  case True
  then obtain A B where s: "m_timer_set tm = A @ p # B"
    using tm_invD(1,3) [OF assms] tm_sorted_split by metis
  then show ?thesis using True tm_inv_rewrite [OF assms s]
    by (auto simp: refreshTimer_def take_locked_in [OF tm_invD(1) [OF assms] s] refresh_write_def)
qed (auto simp: refreshTimer_def assms)

lemma tm_inv_reset:
  assumes "tm_inv tm"
  shows "\<exists>b tm'. resetTimer now p ms fn tm = Inr (b, tm') \<and> tm_inv tm'"
proof (cases "has_callback p tm \<and> \<not> (ms = m_ms (timer_heap tm p) \<and> \<not> fn)")
  case True
  then obtain A B where s: "m_timer_set tm = A @ p # B"
    using tm_invD(1,3) [OF assms] tm_sorted_split by metis
  then show ?thesis using True tm_inv_rewrite [OF assms s]
    by (auto simp: resetTimer_def take_locked_in [OF tm_invD(1) [OF assms] s] reset_write_def Let_def)
qed (auto simp: resetTimer_def assms)

lemma tm_inv_cancel:
  assumes "tm_inv tm"
  shows "\<exists>b tm'. cancelTimer p tm = Inr (b, tm') \<and> tm_inv tm'"
proof (cases "has_callback p tm")
  case True
  then obtain A B where s: "m_timer_set tm = A @ p # B"
    using tm_invD(1,3) [OF assms] tm_sorted_split by metis
  let ?t = "set_timer p (\<lambda>t. t\<lparr>m_callback := None\<rparr>) tm"
  have "tm_sorted ?t" using assms by (simp add: tm_sorted_write tm_inv_def)
  then have "tm_inv (?t\<lparr>m_timer_set := A @ B\<rparr>)"
    using tm_sorted_remove [of ?t A p B] s tm_invD(2,3) [OF assms]
    by (auto simp: tm_inv_def has_callback_set_timer)
  then show ?thesis using True by (auto simp: cancelTimer_def cancel_locked_in [OF tm_invD(1) [OF assms] s])
qed (auto simp: cancelTimer_def assms)

subsection \<open>Expiry\<close>

lemma extract_loop_spec:
  assumes "distinct ps" and "tm_sorted tm" and "set ps \<inter> set (m_timer_set tm) = {}"
    and "extract_loop now ps tm = (cbs, tm')"
  shows "cbs = map (m_callback \<circ> timer_heap tm) ps"
    and "tm_sorted tm'"
    and "set (m_timer_set tm') = set (m_timer_set tm) \<union> {p \<in> set ps. m_recurring (timer_heap tm p)}"
    and "timer_heap tm' = (\<lambda>p. let t = timer_heap tm p in
           if p \<notin> set ps then t
           else if m_recurring t then t\<lparr>m_next := now + m_ms t\<rparr> else t\<lparr>m_callback := None\<rparr>)"
    and "m_previousTime tm' = m_previousTime tm"
proof -
  have "cbs = map (m_callback \<circ> timer_heap tm) ps \<and> tm_sorted tm' \<and>
    set (m_timer_set tm') = set (m_timer_set tm) \<union> {p \<in> set ps. m_recurring (timer_heap tm p)} \<and>
    timer_heap tm' = (\<lambda>p. let t = timer_heap tm p in
           if p \<notin> set ps then t
           else if m_recurring t then t\<lparr>m_next := now + m_ms t\<rparr> else t\<lparr>m_callback := None\<rparr>) \<and>
    m_previousTime tm' = m_previousTime tm"
    using assms
  proof (induction ps arbitrary: tm cbs tm')
    case (Cons p ps)
    let ?f = "\<lambda>t. if m_recurring t then t\<lparr>m_next := now + m_ms t\<rparr> else t\<lparr>m_callback := None\<rparr>"
    let ?w = "set_timer p ?f tm"
    define tm1 where "tm1 = (if m_recurring (timer_heap tm p) then snd (timer_insert p ?w) else ?w)"
    obtain rest where r: "extract_loop now ps tm1 = (rest, tm')" and cbs: "cbs = m_callback (timer_heap tm p) # rest"
      using Cons.prems(4) by (auto simp: tm1_def set_timer_def Let_def split: if_splits prod.splits)
    have p: "p \<notin> set (m_timer_set tm)" "p \<notin> set ps" using Cons.prems by auto
    have w: "tm_sorted ?w" using Cons.prems(2) p by (simp add: tm_sorted_write)
    have h: "timer_heap tm1 = (timer_heap tm)(p := ?f (timer_heap tm p))" by (simp add: tm1_def)
    have s: "set (m_timer_set tm1) = set (m_timer_set tm) \<union> (if m_recurring (timer_heap tm p) then {p} else {})"
      using timer_insert_new(2) [OF w] p by (simp add: tm1_def)
    have "tm_sorted tm1" using timer_insert_new(1) [OF w] w p by (simp add: tm1_def)
    moreover have "set ps \<inter> set (m_timer_set tm1) = {}" using Cons.prems p s by auto
    moreover have "m_previousTime tm1 = m_previousTime tm" by (simp add: tm1_def set_timer_def)
    moreover have "map (m_callback \<circ> timer_heap tm1) ps = map (m_callback \<circ> timer_heap tm) ps"
      using p by (auto simp: h)
    ultimately show ?case using Cons.IH [OF _ _ _ r] Cons.prems(1) cbs p
      by (auto simp: s h Let_def fun_eq_iff)
  qed auto
  then show "cbs = map (m_callback \<circ> timer_heap tm) ps"
    and "tm_sorted tm'"
    and "set (m_timer_set tm') = set (m_timer_set tm) \<union> {p \<in> set ps. m_recurring (timer_heap tm p)}"
    and "timer_heap tm' = (\<lambda>p. let t = timer_heap tm p in
           if p \<notin> set ps then t
           else if m_recurring t then t\<lparr>m_next := now + m_ms t\<rparr> else t\<lparr>m_callback := None\<rparr>)"
    and "m_previousTime tm' = m_previousTime tm" by auto
qed

definition due :: "u64 \<Rightarrow> bool \<Rightarrow> 'c timer_manager \<Rightarrow> ptr \<Rightarrow> bool" where
  "due now rollover tm p \<longleftrightarrow> rollover \<or> m_next (timer_heap tm p) \<le> now"

lemma skip_equal_takeWhile: "skip_equal h now s = length (takeWhile (\<lambda>p. m_next (h p) = now) s)"
  by (induction s) auto

lemma sorted_next:
  assumes "tree_sorted (Comparator h) id (p # s)" and "0 \<notin> set (p # s)" and "r \<in> set s"
  shows "m_next (h p) \<le> m_next (h r)"
  using assms by (auto simp: tree_sorted_Cons Comparator_def split: if_splits)

text \<open>The probe's address does not matter: the due timers are a prefix.\<close>

lemma probe_prefix:
  fixes now :: u64 and h :: "ptr \<Rightarrow> 'c timer"
  assumes "tree_sorted (Comparator h) id s" and "0 \<notin> set s" and "q \<notin> set s" and "q \<noteq> 0"
  defines "h' \<equiv> h(q := Timer_at now)"
  shows "lower_bound (Comparator h') id q s + skip_equal h' now (drop (lower_bound (Comparator h') id q s) s)
         = length (takeWhile (\<lambda>p. m_next (h p) \<le> now) s)"
  using assms(1-3)
proof (induction s)
  case (Cons p s)
  have p: "p \<noteq> 0" "p \<noteq> q" using Cons.prems by auto
  show ?case
  proof (cases "Comparator h' p q")
    case True
    then have "m_next (h p) \<le> now" using p \<open>q \<noteq> 0\<close> by (auto simp: Comparator_def h'_def Timer_at_def split: if_splits)
    then show ?thesis using Cons True by (simp add: lower_bound_def tree_sorted_Cons)
  next
    case False
    then have "now \<le> m_next (h p)" using p \<open>q \<noteq> 0\<close>
      by (auto simp: Comparator_def h'_def Timer_at_def not_less split: if_splits)
    then have ge: "now \<le> m_next (h r)" if "r \<in> set (p # s)" for r
      using sorted_next [OF Cons.prems(1,2)] that order_trans by auto
    have "m_next (h' r) = now \<longleftrightarrow> m_next (h r) \<le> now" if "r \<in> set (p # s)" for r
      using ge [OF that] that Cons.prems(3) by (auto simp: h'_def)
    then have "takeWhile (\<lambda>r. m_next (h' r) = now) (p # s) = takeWhile (\<lambda>r. m_next (h r) \<le> now) (p # s)"
      by (intro takeWhile_cong) auto
    then show ?thesis using False by (simp add: lower_bound_def skip_equal_takeWhile)
  qed
qed (simp add: lower_bound_def)

lemma filter_sorted_next:
  assumes "tree_sorted (Comparator h) id s" and "0 \<notin> set s"
  shows "takeWhile (\<lambda>p. m_next (h p) \<le> now) s = filter (\<lambda>p. m_next (h p) \<le> now) s
       \<and> dropWhile (\<lambda>p. m_next (h p) \<le> now) s = filter (\<lambda>p. \<not> m_next (h p) \<le> now) s"
  using assms
proof (induction s)
  case (Cons p s)
  have "\<forall>r \<in> set s. \<not> m_next (h r) \<le> now" if "\<not> m_next (h p) \<le> now"
    using sorted_next [OF Cons.prems] that by fastforce
  then show ?case using Cons by (auto simp: tree_sorted_Cons filter_empty_conv filter_id_conv)
qed auto

lemma listExpired_spec:
  assumes "tm_sorted tm" and "0 \<notin> set (m_timer_set tm)" and "q \<noteq> 0" and "q \<notin> set (m_timer_set tm)"
    and "listExpiredCallback now q tm = (cbs, tm')"
  defines "D \<equiv> due now (fst (detectClockRollover now tm)) tm"
  shows "cbs = map (m_callback \<circ> timer_heap tm) (filter D (m_timer_set tm)) \<and> tm_sorted tm'
    \<and> set (m_timer_set tm') = {p \<in> set (m_timer_set tm). D p \<longrightarrow> m_recurring (timer_heap tm p)}
    \<and> timer_heap tm' = (\<lambda>p. let t = timer_heap tm p in
         if p \<notin> set (m_timer_set tm) \<or> \<not> D p then t
         else if m_recurring t then t\<lparr>m_next := now + m_ms t\<rparr> else t\<lparr>m_callback := None\<rparr>)"
proof -
  let ?s = "m_timer_set tm" and ?h = "timer_heap tm"
  let ?ro = "fst (detectClockRollover now tm)" and ?tm = "snd (detectClockRollover now tm)"
  let ?P = "\<lambda>p. m_next (?h p) \<le> now"
  have tm: "m_timer_set ?tm = ?s" "timer_heap ?tm = ?h" by (simp_all add: detectClockRollover_def)
  have ts: "tree_sorted (Comparator ?h) id ?s" using assms(1) by (simp add: tm_sorted_def)
  consider (none) "?s = [] \<or> \<not> ?ro \<and> m_next (?h (hd ?s)) > now"
    | (some) "?s \<noteq> []" "?ro \<or> m_next (?h (hd ?s)) \<le> now" by force
  then show ?thesis
  proof cases
    case none
    then have nd: "\<not> D p" if "p \<in> set ?s" for p
      using that sorted_next [of ?h "hd ?s" "tl ?s" p] ts assms(2)
      by (cases ?s) (auto simp: D_def due_def)
    have "cbs = [] \<and> m_timer_set tm' = ?s \<and> timer_heap tm' = ?h"
      using none assms(5) tm by (auto simp: listExpiredCallback_def case_prod_unfold Let_def split: if_splits)
    then show ?thesis using nd assms(1) by (auto simp: Let_def tm_sorted_def filter_empty_conv)
  next
    case some
    define it where "it = expired_end now q ?ro ?tm"
    have it: "take it ?s = filter D ?s \<and> drop it ?s = filter (\<lambda>p. \<not> D p) ?s"
    proof (cases ?ro)
      case True
      then show ?thesis by (simp add: it_def expired_end_def tm D_def due_def)
    next
      case False
      then have "it = length (takeWhile ?P ?s)"
        using probe_prefix [OF ts assms(2,4,3), of now] by (simp add: it_def expired_end_def tm Let_def)
      then have "take it ?s = takeWhile ?P ?s" "drop it ?s = dropWhile ?P ?s"
        by (simp_all only: takeWhile_eq_take [symmetric] dropWhile_eq_drop [symmetric])
      moreover have "D = ?P" using False by (simp add: D_def due_def fun_eq_iff)
      ultimately show ?thesis using filter_sorted_next [OF ts assms(2), of now] by simp
    qed
    have run: "extract_loop now (filter D ?s) (?tm\<lparr>m_timer_set := filter (\<lambda>p. \<not> D p) ?s\<rparr>) = (cbs, tm')"
      using some assms(5) it tm by (auto simp: listExpiredCallback_def it_def [symmetric] case_prod_unfold Let_def split: if_splits)
    have d: "distinct ?s" using assms(1) by (rule tm_sorted_distinct)
    have d': "distinct (filter D ?s)" using d by simp
    have sd: "tm_sorted (?tm\<lparr>m_timer_set := filter (\<lambda>p. \<not> D p) ?s\<rparr>)"
      using ts by (simp add: tm_sorted_def tm tree_sorted_def sorted_wrt_filter)
    have "set (filter D ?s) \<inter> set (m_timer_set (?tm\<lparr>m_timer_set := filter (\<lambda>p. \<not> D p) ?s\<rparr>)) = {}"
      by auto
    note * = extract_loop_spec [OF d' sd this run]
    have "set (m_timer_set tm') = {p \<in> set ?s. D p \<longrightarrow> m_recurring (?h p)}" using *(3) by (auto simp: tm)
    then show ?thesis using *(1,2,4) by (simp add: tm Let_def)
  qed
qed

lemma tm_inv_expire:
  assumes "tm_inv tm" and "q \<noteq> 0" and "q \<notin> set (m_timer_set tm)"
  shows "tm_inv (snd (listExpiredCallback now q tm))"
proof -
  obtain cbs tm' where r: "listExpiredCallback now q tm = (cbs, tm')" by (cases "listExpiredCallback now q tm")
  show ?thesis using listExpired_spec [OF tm_invD(1,2) [OF assms(1)] assms(2,3) r] tm_invD(2,3) [OF assms(1)]
    by (auto simp: tm_inv_def r has_callback_def Let_def split: if_splits)
qed

text \<open>
  C19: Used from one thread, the timer manager never erases the end iterator: from a state of the
  invariant every operation returns, and the invariant holds again. The set is strictly sorted by
  deadline and address, holds no null, and every timer that still has its callback is in it.
\<close>

theorem timer_operations_safe:
  assumes "tm_inv tm" and "fresh_op op tm"
  shows "\<exists>tm'. tm_apply op tm = Inr tm' \<and> tm_inv tm'"
proof (cases op)
  case (Add now p ms cb rc)
  then show ?thesis using assms tm_inv_add [of tm p now ms cb rc] by simp
next
  case (Cancel p)
  then show ?thesis using tm_inv_cancel [OF assms(1), of p] by auto
next
  case (Refresh now p)
  then show ?thesis using tm_inv_refresh [OF assms(1), of now p] by auto
next
  case (Reset now p ms fn)
  then show ?thesis using tm_inv_reset [OF assms(1), of now p ms fn] by auto
next
  case (Expire now q)
  then show ?thesis using assms tm_inv_expire [of tm q now] by simp
qed

text \<open>
  C18: An expiry takes exactly what is due. Whatever the address of the probe, the callbacks are those of
  the timers with deadline at most now (all of them after a clock rollover), in the order of
  deadline and address; one-shot timers leave the set and lose their callback, recurring ones are
  re-armed from now, all others stay as they were.
\<close>

theorem timer_expiry_exact:
  assumes "tm_inv tm" and "q \<noteq> 0" and "q \<notin> set (m_timer_set tm)"
    and "listExpiredCallback now q tm = (cbs, tm')"
  defines "D \<equiv> \<lambda>p. fst (detectClockRollover now tm) \<or> m_next (timer_heap tm p) \<le> now"
  shows "cbs = map (\<lambda>p. m_callback (timer_heap tm p)) (filter D (m_timer_set tm))
    \<and> set (m_timer_set tm') = {p \<in> set (m_timer_set tm). D p \<longrightarrow> m_recurring (timer_heap tm p)}
    \<and> (\<forall>p. timer_heap tm' p =
          (if p \<in> set (m_timer_set tm) \<and> D p
           then if m_recurring (timer_heap tm p)
                then (timer_heap tm p)\<lparr>m_next := now + m_ms (timer_heap tm p)\<rparr>
                else (timer_heap tm p)\<lparr>m_callback := None\<rparr>
           else timer_heap tm p))"
proof -
  have D: "due now (fst (detectClockRollover now tm)) tm = D" by (simp add: D_def due_def fun_eq_iff)
  show ?thesis using listExpired_spec [OF tm_invD(1,2) [OF assms(1)] assms(2-4), unfolded D]
    by (auto simp: comp_def Let_def)
qed

definition tm_two :: "nat timer_manager" where
  "tm_two = snd (addTimer 100 8 50 (Some (Call 2)) True (snd (addTimer 100 16 20 (Some (Call 1)) False tm_init)))"

lemma tm_inv_init: "tm_inv tm_init"
  by (simp add: tm_inv_def tm_sorted_def tm_init_def has_callback_def Timer_at_def)

lemma tm_two_set: "m_timer_set tm_two = [16, 8]"
  by (simp add: tm_two_def addTimer_def timer_insert_def tree_insert_def lower_bound_def tm_init_def set_timer_def
      Comparator_def Timer_new_def)

lemma tm_two_inv: "tm_inv tm_two"
  unfolding tm_two_def
  by (intro tm_inv_add tm_inv_init)
     (simp_all add: addTimer_def timer_insert_def tree_insert_def lower_bound_def tm_init_def)

theorem timer_operations_safe_witness:
  "\<exists>tm'. tm_apply (Cancel 16) tm_two = Inr tm' \<and> tm_inv tm'"
  by (rule timer_operations_safe [OF tm_two_inv]) simp

theorem timer_expiry_exact_witness:
  "fst (listExpiredCallback 130 24 tm_two) = [Some (Call 1)]
    \<and> set (m_timer_set (snd (listExpiredCallback 130 24 tm_two))) = {8}"
proof -
  obtain cbs tm' where r: "listExpiredCallback 130 24 tm_two = (cbs, tm')" by (cases "listExpiredCallback 130 24 tm_two")
  have h: "timer_heap tm_two 16 = Timer_new 100 20 (Some (Call 1)) False"
    "timer_heap tm_two 8 = Timer_new 100 50 (Some (Call 2)) True" "m_previousTime tm_two = 0"
    by (simp_all add: tm_two_def addTimer_def set_timer_def tm_init_def)
  have "{p. (p = 16 \<or> p = 8) \<and> (p = 16 \<longrightarrow> False)} = {8::nat}" by auto
  then show ?thesis using timer_expiry_exact [OF tm_two_inv _ _ r]
    by (auto simp: r tm_two_set h Timer_new_def detectClockRollover_def)
qed

text \<open>
  C20: The timer thread neither oversleeps nor busy-waits. Without a rollover, an expiry at a time
  \<open>t\<close> finds a due timer exactly when \<open>t\<close> has reached \<open>now\<close> plus the wait that \<open>getNextExpire\<close>
  computed at \<open>now\<close>.
\<close>

theorem timer_wait_exact:
  assumes "tm_inv tm" and "m_timer_set tm \<noteq> []" and "now \<le> t"
    and "q \<noteq> 0" and "q \<notin> set (m_timer_set tm)" and "\<not> fst (detectClockRollover t tm)"
  shows "fst (listExpiredCallback t q tm) \<noteq> [] \<longleftrightarrow> getNextExpire now tm \<le> t - now"
proof -
  obtain p s where s: "m_timer_set tm = p # s" using assms(2) by (cases "m_timer_set tm") auto
  let ?n = "m_next (timer_heap tm p)"
  have le: "?n \<le> m_next (timer_heap tm r)" if "r \<in> set s" for r
    using sorted_next [of "timer_heap tm" p s r] tm_invD(1,2) [OF assms(1)] that
    by (simp add: tm_sorted_def s)
  have "fst (listExpiredCallback t q tm) \<noteq> [] \<longleftrightarrow> (\<exists>r \<in> set (p # s). m_next (timer_heap tm r) \<le> t)"
    using listExpired_spec [OF tm_invD(1,2) [OF assms(1)] assms(4,5), of t] assms(6)
    by (cases "listExpiredCallback t q tm") (auto simp: due_def s filter_empty_conv)
  also have "\<dots> \<longleftrightarrow> ?n \<le> t" using le order_trans by auto
  also have "\<dots> \<longleftrightarrow> getNextExpire now tm \<le> t - now"
  proof (cases "?n \<le> now")
    case True
    then show ?thesis using assms(3) by (simp add: getNextExpire_def s)
  next
    case False
    then have "?n - now \<le> t - now \<longleftrightarrow> ?n \<le> t"
      using assms(3) by (simp add: word_le_nat_alt uint_nat unat_sub) linarith
    then show ?thesis using False by (simp add: getNextExpire_def s)
  qed
  finally show ?thesis .
qed

theorem timer_wait_exact_witness:
  "fst (listExpiredCallback 119 24 tm_two) = [] \<and> fst (listExpiredCallback 120 24 tm_two) \<noteq> []"
proof -
  have h: "timer_heap tm_two 16 = Timer_new 100 20 (Some (Call 1)) False" "m_previousTime tm_two = 0"
    by (simp_all add: tm_two_def addTimer_def set_timer_def tm_init_def)
  show ?thesis using timer_wait_exact [OF tm_two_inv, of 110 119 24] timer_wait_exact [OF tm_two_inv, of 110 120 24]
    by (simp add: tm_two_set h getNextExpire_def Timer_new_def detectClockRollover_def)
qed

text \<open>
  The wait survives its conversion to \<open>int\<close> only below \<open>2 ^ 31\<close> milliseconds; from there up to
  \<open>2 ^ 32\<close> the timed wait gets a negative number, so the timer thread spins instead of sleeping.
\<close>

theorem timer_wait_truncated:
  defines "w now tm \<equiv> unat (getNextExpire now tm)"
  shows "(w now tm < 2 ^ 31 \<longrightarrow> newTimeOut now tm = int (w now tm))
    \<and> (2 ^ 31 \<le> w now tm \<and> w now tm < 2 ^ 32 \<longrightarrow> newTimeOut now tm < 0)"
proof -
  have m: "uint (ucast (getNextExpire now tm) :: 32 word) = int (w now tm) mod 2 ^ 32"
    by (simp add: unsigned_ucast_eq unsigned_take_bit_eq take_bit_eq_mod w_def)
  have "newTimeOut now tm = signed_take_bit 31 (int (w now tm) mod 2 ^ 32)"
    unfolding newTimeOut_def by (simp add: sint_uint m)
  then have "newTimeOut now tm = (int (w now tm) + 2147483648) mod 4294967296 - 2147483648"
    by (simp add: signed_take_bit_eq_take_bit_shift take_bit_eq_mod mod_add_left_eq)
  moreover have "(int (w now tm) + 2147483648) mod 4294967296 = int (w now tm) - 2147483648"
    if "2147483648 \<le> w now tm" "w now tm < 4294967296"
    using that mod_add_self2 [of "int (w now tm) - 2147483648" "4294967296"] by (simp add: ac_simps)
  ultimately show ?thesis by auto
qed
theorem timer_wait_truncated_witness:
  "newTimeOut 100 (snd (addTimer 100 8 2147483648 (Some (Call (1::nat))) False tm_init)) < 0"
proof -
  let ?tm = "snd (addTimer 100 8 2147483648 (Some (Call (1::nat))) False tm_init)"
  have "getNextExpire 100 ?tm = 2147483648"
    by (simp add: getNextExpire_def addTimer_def timer_insert_def tree_insert_def lower_bound_def tm_init_def
        set_timer_def Timer_new_def)
  then show ?thesis using timer_wait_truncated [of 100 ?tm] by simp
qed

end
