(* ===== verification/Timer_Threads.thy ===== *)
theory Timer_Threads
  imports Timer_Props
begin

section \<open>The timer manager under several threads\<close>

text \<open>
  Any number of threads call \<open>cancelTimer\<close>, \<open>refreshTimer\<close>, \<open>resetTimer\<close> and \<open>addTimer\<close> while the timer
  thread expires timers. A step is what runs under one acquisition of \<open>m_mutex\<close>, or one access outside
  it: the test of \<open>m_callback\<close> that precedes the lock, and the write of \<open>m_next\<close> between the two locked
  sections of a refresh or a reset. The program counter says how far a thread is.
\<close>

datatype pc =
    Idle
  | Cancelling ptr
  | Retiming ptr "(u64 \<times> bool) option"
  | Taken ptr "(u64 \<times> bool) option"
  | Written ptr

record 'c threads =
  mgr :: "'c timer_manager"
  pcs :: "nat \<Rightarrow> pc"

definition retime :: "u64 \<Rightarrow> ptr \<Rightarrow> (u64 \<times> bool) option \<Rightarrow> 'c timer_manager \<Rightarrow> 'c timer_manager" where
  "retime now p how = (case how of None \<Rightarrow> refresh_write now p | Some (ms, from_now) \<Rightarrow> reset_write now p ms from_now)"

text \<open>\<open>resetTimer\<close> has nothing to do when the period stays and it does not restart from now.\<close>

definition idle_reset :: "ptr \<Rightarrow> (u64 \<times> bool) option \<Rightarrow> 'c timer_manager \<Rightarrow> bool" where
  "idle_reset p how tm \<longleftrightarrow> (\<exists>ms. how = Some (ms, False) \<and> ms = m_ms (timer_heap tm p))"

inductive tstep :: "'c threads \<Rightarrow> 'c threads \<Rightarrow> bool" where
  cancel_check: "pcs s t = Idle \<Longrightarrow> has_callback p (mgr s) \<Longrightarrow>
    tstep s (s\<lparr>pcs := (pcs s)(t := Cancelling p)\<rparr>)"
| cancel_run: "pcs s t = Cancelling p \<Longrightarrow> cancel_locked p (mgr s) = Inr tm \<Longrightarrow>
    tstep s \<lparr>mgr = tm, pcs = (pcs s)(t := Idle)\<rparr>"
| retime_check: "pcs s t = Idle \<Longrightarrow> \<not> idle_reset p how (mgr s) \<Longrightarrow> has_callback p (mgr s) \<Longrightarrow>
    tstep s (s\<lparr>pcs := (pcs s)(t := Retiming p how)\<rparr>)"
| retime_gone: "pcs s t = Retiming p how \<Longrightarrow> take_locked p (mgr s) = Inr None \<Longrightarrow>
    tstep s (s\<lparr>pcs := (pcs s)(t := Idle)\<rparr>)"
| retime_take: "pcs s t = Retiming p how \<Longrightarrow> take_locked p (mgr s) = Inr (Some tm) \<Longrightarrow>
    tstep s \<lparr>mgr = tm, pcs = (pcs s)(t := Taken p how)\<rparr>"
| retime_write: "pcs s t = Taken p how \<Longrightarrow>
    tstep s \<lparr>mgr = retime now p how (mgr s), pcs = (pcs s)(t := Written p)\<rparr>"
| retime_insert: "pcs s t = Written p \<Longrightarrow>
    tstep s \<lparr>mgr = snd (timer_insert p (mgr s)), pcs = (pcs s)(t := Idle)\<rparr>"
| add: "p \<noteq> 0 \<Longrightarrow> p \<notin> set (m_timer_set (mgr s)) \<Longrightarrow> (\<forall>t how. pcs s t \<noteq> Taken p how \<and> pcs s t \<noteq> Written p) \<Longrightarrow>
    tstep s (s\<lparr>mgr := snd (addTimer now p ms cb rc (mgr s))\<rparr>)"
| expire: "q \<noteq> 0 \<Longrightarrow> q \<notin> set (m_timer_set (mgr s)) \<Longrightarrow>
    tstep s (s\<lparr>mgr := snd (listExpiredCallback now q (mgr s))\<rparr>)"

text \<open>Undefined behaviour: the next locked section of a thread fails.\<close>

definition tfault :: "'c threads \<Rightarrow> bool" where
  "tfault s \<longleftrightarrow> (\<exists>t p e. (pcs s t = Cancelling p \<and> cancel_locked p (mgr s) = Inl e)
      \<or> (\<exists>how. pcs s t = Retiming p how \<and> take_locked p (mgr s) = Inl e))"

definition threads_init :: "'c threads" where
  "threads_init = \<lparr>mgr = tm_init, pcs = (\<lambda>_. Idle)\<rparr>"

inductive_cases tstepE: "tstep s s'"

text \<open>A timer whose pointer a thread holds between the two locked sections.\<close>

definition holds :: "'c threads \<Rightarrow> nat \<Rightarrow> ptr \<Rightarrow> bool" where
  "holds s t p \<longleftrightarrow> (\<exists>how. pcs s t = Taken p how) \<or> pcs s t = Written p"

definition threads_inv :: "'c threads \<Rightarrow> bool" where
  "threads_inv s \<longleftrightarrow> tm_sorted (mgr s) \<and> 0 \<notin> set (m_timer_set (mgr s))
     \<and> (\<forall>t p. holds s t p \<longrightarrow> p \<noteq> 0 \<and> p \<notin> set (m_timer_set (mgr s)))
     \<and> (\<forall>t t' p. holds s t p \<longrightarrow> holds s t' p \<longrightarrow> t = t')"

lemma holds_set [simp]:
  "holds \<lparr>mgr = tm, pcs = (pcs s)(t := c)\<rparr> t' p \<longleftrightarrow> (if t' = t then (\<exists>how. c = Taken p how) \<or> c = Written p else holds s t' p)"
  "holds (s\<lparr>pcs := (pcs s)(t := c)\<rparr>) t' p \<longleftrightarrow> (if t' = t then (\<exists>how. c = Taken p how) \<or> c = Written p else holds s t' p)"
  "holds (s\<lparr>mgr := tm\<rparr>) t' p \<longleftrightarrow> holds s t' p"
  by (simp_all add: holds_def)

lemma retime_set [simp]: "m_timer_set (retime now p how tm) = m_timer_set tm"
  by (simp add: retime_def refresh_write_def reset_write_def split: option.splits)

lemma retime_sorted: "p \<notin> set (m_timer_set tm) \<Longrightarrow> tm_sorted (retime now p how tm) \<longleftrightarrow> tm_sorted tm"
  by (auto simp: retime_def refresh_write_def reset_write_def tm_sorted_write split: option.splits)

text \<open>The locked sections, on a sorted set.\<close>

lemma cancel_locked_ok:
  assumes "tm_sorted tm" and "cancel_locked p tm = Inr tm'"
  shows "tm_sorted tm' \<and> set (m_timer_set tm') \<subseteq> set (m_timer_set tm)"
proof (cases "p \<in> set (m_timer_set tm)")
  case True
  then obtain A B where s: "m_timer_set tm = A @ p # B" by (auto dest: split_list)
  have "tm_sorted (set_timer p (\<lambda>t. t\<lparr>m_callback := None\<rparr>) tm)" using assms(1) by (simp add: tm_sorted_write)
  from tm_sorted_remove [OF this, of A p B] show ?thesis
    using cancel_locked_in [OF assms(1) s] assms(2) s by auto
qed (use cancel_locked_out assms in fastforce)

lemma take_locked_ok:
  assumes "tm_sorted tm" and "take_locked p tm = Inr (Some tm')"
  shows "tm_sorted tm' \<and> p \<in> set (m_timer_set tm) \<and> set (m_timer_set tm') = set (m_timer_set tm) - {p}"
proof (cases "p \<in> set (m_timer_set tm)")
  case True
  then obtain A B where s: "m_timer_set tm = A @ p # B" "p \<notin> set A \<union> set B" using tm_sorted_split assms(1) by metis
  with tm_sorted_remove [OF assms(1) s(1)] take_locked_in [OF assms(1) s(1)] assms(2) show ?thesis by auto
qed (use take_locked_out assms in fastforce)

lemma take_locked_total: "tm_sorted tm \<Longrightarrow> take_locked p tm \<noteq> Inl e"
proof (cases "p \<in> set (m_timer_set tm)")
  case True
  assume "tm_sorted tm"
  moreover from True obtain A B where "m_timer_set tm = A @ p # B" by (auto dest: split_list)
  ultimately show ?thesis using take_locked_in by fastforce
qed (simp add: take_locked_out)

lemma addTimer_ok:
  assumes "tm_sorted tm" and "p \<notin> set (m_timer_set tm)"
  shows "tm_sorted (snd (addTimer now p ms cb rc tm))
    \<and> set (m_timer_set (snd (addTimer now p ms cb rc tm))) = insert p (set (m_timer_set tm))"
  using timer_insert_new [of "set_timer p (\<lambda>_. Timer_new now ms cb rc) tm" p] assms
  by (simp add: addTimer_def tm_sorted_write)

lemma expire_ok:
  assumes "tm_sorted tm" and "0 \<notin> set (m_timer_set tm)" and "q \<noteq> 0" and "q \<notin> set (m_timer_set tm)"
  shows "tm_sorted (snd (listExpiredCallback now q tm))
    \<and> set (m_timer_set (snd (listExpiredCallback now q tm))) \<subseteq> set (m_timer_set tm)"
  using listExpired_spec [OF assms] by (cases "listExpiredCallback now q tm") auto

lemma threads_inv_init: "threads_inv threads_init"
  using tm_inv_init by (auto simp: threads_inv_def threads_init_def holds_def tm_inv_def)

lemma threads_inv_step:
  assumes "tstep s s'" and "threads_inv s"
  shows "threads_inv s'"
  using assms
proof (induction rule: tstep.induct)
  case (cancel_check s t p)
  then show ?case by (auto simp: threads_inv_def)
next
  case (cancel_run s t p tm)
  then show ?case using cancel_locked_ok [of "mgr s" p tm] by (auto simp: threads_inv_def split: if_splits)
next
  case (retime_check s t p how)
  then show ?case by (auto simp: threads_inv_def)
next
  case (retime_gone s t p how)
  then show ?case by (auto simp: threads_inv_def)
next
  case (retime_take s t p how tm)
  then show ?case using take_locked_ok [of "mgr s" p tm] by (auto simp: threads_inv_def split: if_splits)
next
  case (retime_write s t p how now)
  then have "holds s t p" by (simp add: holds_def)
  with retime_write show ?case by (auto simp: threads_inv_def retime_sorted split: if_splits)
next
  case (retime_insert s t p)
  then have "holds s t p" by (simp add: holds_def)
  with retime_insert show ?case using timer_insert_new [of "mgr s" p]
    by (auto simp: threads_inv_def split: if_splits)
next
  case (add p s now ms cb rc)
  then have "\<not> holds s t p" for t by (auto simp: holds_def)
  with add show ?case using addTimer_ok [of "mgr s" p now ms cb rc] by (auto simp: threads_inv_def)
next
  case (expire q s now)
  then show ?case using expire_ok [of "mgr s" q now] by (auto simp: threads_inv_def)
qed

lemma threads_inv_reachable: "tstep\<^sup>*\<^sup>* threads_init s \<Longrightarrow> threads_inv s"
  by (induction rule: rtranclp_induct) (auto intro: threads_inv_init threads_inv_step)

text \<open>
  C17: Under every interleaving the set stays strictly sorted by deadline and address, and a timer that
  is being re-timed is out of the set and belongs to one thread only, so that no deadline of a
  timer inside the set is ever written.
\<close>

theorem timer_threads_invariant:
  assumes "tstep\<^sup>*\<^sup>* threads_init s"
  shows "sorted_wrt (<) (map (timer_key (timer_heap (mgr s))) (m_timer_set (mgr s)))
    \<and> (\<forall>t p. holds s t p \<longrightarrow> p \<notin> set (m_timer_set (mgr s)) \<and> (\<forall>t'. holds s t' p \<longrightarrow> t' = t))"
  using threads_inv_reachable [OF assms] tm_sorted_iff [of "mgr s"]
  unfolding threads_inv_def by blast

definition one_timer :: "nat threads" where
  "one_timer = threads_init\<lparr>mgr := snd (addTimer 100 8 50 (Some (Call 1)) False tm_init)\<rparr>"

definition race_state :: "nat threads" where
  "race_state = (one_timer\<lparr>pcs := (pcs one_timer)(1 := Cancelling 8)\<rparr>)
     \<lparr>mgr := snd (listExpiredCallback 150 16 (mgr one_timer))\<rparr>"

lemmas run_simps = addTimer_def addTimer_ptr_def timer_insert_def tree_insert_def lower_bound_def set_timer_def tm_init_def

lemma one_timer_set: "m_timer_set (mgr one_timer) = [8]" "has_callback 8 (mgr one_timer)" "pcs one_timer t = Idle"
  "tm_sorted (mgr one_timer)"
  by (simp_all add: one_timer_def threads_init_def run_simps has_callback_def Timer_new_def tm_sorted_def tree_sorted_Cons)

lemma race_reachable: "tstep\<^sup>*\<^sup>* threads_init race_state"
proof -
  have s1: "tstep threads_init one_timer"
    using tstep.add [of 8 threads_init 100 50 "Some (Call (1::nat))" False]
    by (simp add: one_timer_def threads_init_def tm_init_def del: One_nat_def)
  have s2: "tstep one_timer (one_timer\<lparr>pcs := (pcs one_timer)(1 := Cancelling 8)\<rparr>)"
    by (rule tstep.cancel_check) (simp_all add: one_timer_set)
  have s3: "tstep (one_timer\<lparr>pcs := (pcs one_timer)(1 := Cancelling 8)\<rparr>) race_state"
    using tstep.expire [of 16 "one_timer\<lparr>pcs := (pcs one_timer)(1 := Cancelling 8)\<rparr>" 150]
    by (simp add: race_state_def one_timer_set)
  from s1 have "tstep\<^sup>*\<^sup>* threads_init one_timer" by (rule r_into_rtranclp)
  from rtranclp.rtrancl_into_rtrancl [OF this s2] show ?thesis using s3 by (rule rtranclp.rtrancl_into_rtrancl)
qed

lemma race_set: "m_timer_set (mgr race_state) = []"
proof -
  have "set (m_timer_set (mgr race_state)) = {}"
    using listExpired_spec [OF one_timer_set(4), of 16 150]
    by (cases "listExpiredCallback 150 16 (mgr one_timer)")
       (auto simp: race_state_def one_timer_set due_def one_timer_def threads_init_def run_simps Timer_new_def split: if_splits)
  then show ?thesis by simp
qed

lemma race_cancelling: "pcs race_state 1 = Cancelling 8"
  by (simp add: race_state_def)

theorem timer_threads_invariant_witness:
  "sorted_wrt (<) (map (timer_key (timer_heap (mgr race_state))) (m_timer_set (mgr race_state)))"
  using timer_threads_invariant [OF race_reachable] by blast

text \<open>
  The locked sections fail in one way only. In every reachable state a thread is about to run into
  undefined behaviour exactly when it has passed the unlocked test of \<open>cancelTimer\<close> and its timer has
  left the set meanwhile, because it expired, was cancelled, or is being re-timed.
\<close>

theorem timer_threads_fault_iff:
  assumes "tstep\<^sup>*\<^sup>* threads_init s"
  shows "tfault s \<longleftrightarrow> (\<exists>t p. pcs s t = Cancelling p \<and> p \<notin> set (m_timer_set (mgr s)))"
proof -
  have s: "tm_sorted (mgr s)" using threads_inv_reachable [OF assms] by (simp add: threads_inv_def)
  have "(\<exists>e. cancel_locked p (mgr s) = Inl e) \<longleftrightarrow> p \<notin> set (m_timer_set (mgr s))" for p
    using cancel_locked_in [OF s] cancel_locked_out [OF s] by (metis Inl_Inr_False split_list)
  then show ?thesis using take_locked_total [OF s] unfolding tfault_def by blast
qed

theorem timer_threads_fault_iff_witness: "tfault race_state"
  unfolding timer_threads_fault_iff [OF race_reachable]
  using race_set race_cancelling by auto

text \<open>
  The failure is reachable with one timer and two threads: a thread passes the test of \<open>cancelTimer\<close>,
  the timer thread expires the timer, and the first thread erases the end iterator of an empty set.
\<close>

lemma timer_cancel_race:
  "\<exists>s :: nat threads. tstep\<^sup>*\<^sup>* threads_init s \<and> pcs s 1 = Cancelling 8 \<and> m_timer_set (mgr s) = []
     \<and> cancel_locked 8 (mgr s) = Inl IteratorRange"
proof -
  have "tm_sorted (mgr race_state)" by (simp add: tm_sorted_def race_set)
  then have "cancel_locked 8 (mgr race_state) = Inl IteratorRange" by (rule cancel_locked_out) (simp add: race_set)
  then show ?thesis using race_reachable race_set race_cancelling by blast
qed

end
