(* ===== verification/Util.thy ===== *)
theory Util
  imports Prelude
begin

section \<open>String utilities\<close>

text \<open>
  \<open>src/spike/base/Util.cpp\<close>: percent encoding and trimming. A \<open>std::string\<close> is the list of its bytes,
  and \<open>lit\<close> is a literal. The encoder and the decoder build their result in \<open>ss\<close>, which stays null
  (\<open>None\<close>) until the first character that changes. The character classes are those of the C locale.
\<close>

type_synonym str = "byte list"

definition lit :: "string \<Rightarrow> str" where
  "lit s = map of_char s"

definition in_range :: "byte \<Rightarrow> nat \<Rightarrow> nat \<Rightarrow> bool" where
  "in_range c a b \<longleftrightarrow> a \<le> unat c \<and> unat c \<le> b"

text \<open>The table \<open>uri_chars\<close>: its ones are at the digits, the letters and \<open>- . = _ ~\<close>.\<close>

definition CHAR_IS_UNRESERVED :: "byte \<Rightarrow> bool" where
  "CHAR_IS_UNRESERVED c \<longleftrightarrow> c \<in> {45, 46, 61, 95, 126} \<or> in_range c 48 57 \<or> in_range c 65 90 \<or> in_range c 97 122"

definition isxdigit :: "byte \<Rightarrow> bool" where
  "isxdigit c \<longleftrightarrow> in_range c 48 57 \<or> in_range c 65 70 \<or> in_range c 97 102"

definition xdigit_chars :: "byte \<Rightarrow> byte" where
  "xdigit_chars c =
     (if in_range c 48 57 then c - 48
      else if in_range c 65 70 then c - 55
      else if in_range c 97 102 then c - 87
      else 0)"

definition hexdigits :: "nat \<Rightarrow> byte" where
  "hexdigits n = lit ''0123456789ABCDEF'' ! n"

definition made :: "str \<Rightarrow> str option \<Rightarrow> str" where
  "made before ss = (case ss of None \<Rightarrow> before | Some s \<Rightarrow> s)"

fun UrlEncode_loop :: "bool \<Rightarrow> str \<Rightarrow> str \<Rightarrow> str option \<Rightarrow> str option" where
  "UrlEncode_loop space_as_plus before [] ss = ss"
| "UrlEncode_loop space_as_plus before (c # cs) ss =
     UrlEncode_loop space_as_plus (before @ [c]) cs
       (if \<not> CHAR_IS_UNRESERVED c
        then Some (made before ss @
               (if c = 32 \<and> space_as_plus then [43]
                else [37, hexdigits (unat (drop_bit 4 c)), hexdigits (unat (c AND 0xF))]))
        else map_option (\<lambda>s. s @ [c]) ss)"

definition UrlEncode :: "str \<Rightarrow> bool \<Rightarrow> str" where
  "UrlEncode str space_as_plus = made str (UrlEncode_loop space_as_plus [] str None)"

fun UrlDecode_loop :: "bool \<Rightarrow> str \<Rightarrow> str \<Rightarrow> str option \<Rightarrow> str option" where
  "UrlDecode_loop space_as_plus before [] ss = ss"
| "UrlDecode_loop space_as_plus before (c # cs) ss =
     (if c = 43 \<and> space_as_plus
      then UrlDecode_loop space_as_plus (before @ [c]) cs (Some (made before ss @ [32]))
      else case cs of
        a # b # cs' \<Rightarrow>
          if c = 37 \<and> isxdigit a \<and> isxdigit b
          then UrlDecode_loop space_as_plus (before @ [c, a, b]) cs'
                 (Some (made before ss @ [push_bit 4 (xdigit_chars a) OR xdigit_chars b]))
          else UrlDecode_loop space_as_plus (before @ [c]) cs (map_option (\<lambda>s. s @ [c]) ss)
      | _ \<Rightarrow> UrlDecode_loop space_as_plus (before @ [c]) cs (map_option (\<lambda>s. s @ [c]) ss))"

definition UrlDecode :: "str \<Rightarrow> bool \<Rightarrow> str" where
  "UrlDecode str space_as_plus = made str (UrlDecode_loop space_as_plus [] str None)"

subsection \<open>Trimming\<close>

definition find_first_not_of :: "str \<Rightarrow> str \<Rightarrow> nat option" where
  "find_first_not_of s delimit =
     (let i = length (takeWhile (\<lambda>c. c \<in> set delimit) s) in if i < length s then Some i else None)"

definition find_last_not_of :: "str \<Rightarrow> str \<Rightarrow> nat option" where
  "find_last_not_of s delimit =
     (let i = length (takeWhile (\<lambda>c. c \<in> set delimit) (rev s)) in if i < length s then Some (length s - 1 - i) else None)"

definition blanks :: str where
  "blanks = [32, 9, 13, 10]"

definition Trim :: "str \<Rightarrow> str \<Rightarrow> str" where
  "Trim s delimit =
     (case find_first_not_of s delimit of
        None \<Rightarrow> []
      | Some begin \<Rightarrow>
          (case find_last_not_of s delimit of
             None \<Rightarrow> drop begin s
           | Some end \<Rightarrow> take (end - begin + 1) (drop begin s)))"

definition TrimLeft :: "str \<Rightarrow> str \<Rightarrow> str" where
  "TrimLeft s delimit = (case find_first_not_of s delimit of None \<Rightarrow> [] | Some begin \<Rightarrow> drop begin s)"

definition TrimRight :: "str \<Rightarrow> str \<Rightarrow> str" where
  "TrimRight s delimit = (case find_last_not_of s delimit of None \<Rightarrow> [] | Some end \<Rightarrow> take end s)"

subsection \<open>The encoder and the decoder are inverse\<close>

fun enc1 :: "bool \<Rightarrow> byte \<Rightarrow> str" where
  "enc1 sp c = (if CHAR_IS_UNRESERVED c then [c] else if c = 32 \<and> sp then [43]
     else [37, hexdigits (unat (drop_bit 4 c)), hexdigits (unat (c AND 0xF))])"

lemma UrlEncode_loop_eq:
  "made (before @ cs) (UrlEncode_loop sp before cs ss) = made before ss @ concat (map (enc1 sp) cs)"
proof (induction sp before cs ss rule: UrlEncode_loop.induct)
  case (2 sp before c cs ss)
  then show ?case by (cases ss) (auto simp: made_def)
qed (simp add: made_def split: option.split)

lemma UrlEncode_eq: "UrlEncode s sp = concat (map (enc1 sp) s)"
  using UrlEncode_loop_eq [of "[]" s sp None] by (simp add: UrlEncode_def made_def)

lemma hexdigits_all:
  "list_all (\<lambda>n. isxdigit (hexdigits n) \<and> xdigit_chars (hexdigits n) = of_nat n \<and> hexdigits n \<noteq> 43) [0..<16]"
  by code_simp

lemma hexdigits_read:
  assumes "n < 16"
  shows "isxdigit (hexdigits n)" "xdigit_chars (hexdigits n) = of_nat n" "hexdigits n \<noteq> 43"
  using hexdigits_all assms by (simp_all add: list_all_iff)

lemma nibble_join: "push_bit 4 (drop_bit 4 c) OR (c AND 15) = (c :: byte)"
proof -
  have m: "(15 :: byte) = mask 4" by (simp add: mask_eq_exp_minus_1)
  show ?thesis unfolding m by (rule bit_word_eqI) (auto simp: bit_simps simp del: One_nat_def)
qed

fun dec :: "bool \<Rightarrow> str \<Rightarrow> str" where
  "dec sp [] = []"
| "dec sp (c # cs) =
     (if c = 43 \<and> sp then 32 # dec sp cs
      else case cs of
        a # b # cs' \<Rightarrow>
          if c = 37 \<and> isxdigit a \<and> isxdigit b then (push_bit 4 (xdigit_chars a) OR xdigit_chars b) # dec sp cs'
          else c # dec sp cs
      | _ \<Rightarrow> c # dec sp cs)"

declare UrlDecode_loop.simps(2) [simp del] dec.simps(2) [simp del]

lemma made_Some [simp]: "made x (Some y) = y"
  by (simp add: made_def)

lemma made_snoc: "made (before @ [c]) (map_option (\<lambda>s. s @ [c]) ss) = made before ss @ [c]"
  by (cases ss) (simp_all add: made_def)

lemma UrlDecode_loop_eq:
  "made (before @ cs) (UrlDecode_loop sp before cs ss) = made before ss @ dec sp cs"
proof (induction "length cs" arbitrary: before cs ss rule: less_induct)
  case less
  show ?case
  proof (cases cs)
    case Nil
    then show ?thesis by (simp add: made_def split: option.split)
  next
    case (Cons c r)
    consider (plus) "c = 43" sp
      | (esc) a b r' where "\<not> (c = 43 \<and> sp)" "r = a # b # r'" "c = 37 \<and> isxdigit a \<and> isxdigit b"
      | (other) "\<not> (c = 43 \<and> sp)" "\<not> (\<exists>a b r'. r = a # b # r' \<and> c = 37 \<and> isxdigit a \<and> isxdigit b)"
      by blast
    then show ?thesis
    proof cases
      case plus
      then have "UrlDecode_loop sp before (c # r) ss = UrlDecode_loop sp (before @ [c]) r (Some (made before ss @ [32]))"
        "dec sp (c # r) = 32 # dec sp r" by (simp_all add: UrlDecode_loop.simps dec.simps)
      with less [of r "before @ [c]" "Some (made before ss @ [32])"] show ?thesis by (simp add: Cons)
    next
      case (esc a b r')
      let ?v = "push_bit 4 (xdigit_chars a) OR xdigit_chars b"
      have "UrlDecode_loop sp before (c # r) ss = UrlDecode_loop sp (before @ [c, a, b]) r' (Some (made before ss @ [?v]))"
        "dec sp (c # r) = ?v # dec sp r'" using esc by (simp_all add: UrlDecode_loop.simps dec.simps)
      with less [of r' "before @ [c, a, b]" "Some (made before ss @ [?v])"] esc show ?thesis by (simp add: Cons)
    next
      case other
      then have "UrlDecode_loop sp before (c # r) ss = UrlDecode_loop sp (before @ [c]) r (map_option (\<lambda>s. s @ [c]) ss)"
        "dec sp (c # r) = c # dec sp r"
        unfolding UrlDecode_loop.simps(2) [of sp before c r ss] dec.simps(2) [of sp c r]
        by (auto split: list.split)
      with less [of r "before @ [c]" "map_option (\<lambda>s. s @ [c]) ss"] show ?thesis by (simp add: Cons made_snoc)
    qed
  qed
qed

lemma UrlDecode_eq: "UrlDecode s sp = dec sp s"
  using UrlDecode_loop_eq [of "[]" s sp None] by (simp add: UrlDecode_def made_def)

lemma drop4_less: "unat (drop_bit 4 c) < 16" for c :: byte
  using unsigned_less [of c, where ?'a = nat] unfolding unat_drop_bit_eq
  by (simp add: drop_bit_eq_div less_mult_imp_div_less)

lemma and15_less: "unat (c AND 15) < 16" for c :: byte
  using word_and_le1 [of c 15] by (simp add: word_le_nat_alt)

lemma hexdigits_all2: "list_all (\<lambda>n. CHAR_IS_UNRESERVED (hexdigits n)) [0..<16]"
  by code_simp

lemma dec_enc1: "dec sp (enc1 sp c @ cs) = c # dec sp cs"
proof (cases "CHAR_IS_UNRESERVED c")
  case True
  then have "c \<noteq> 43" "c \<noteq> 37" by (auto simp: CHAR_IS_UNRESERVED_def in_range_def)
  then show ?thesis using True by (simp add: dec.simps split: list.split)
next
  case False
  note d = drop4_less [of c] and a = and15_less [of c]
  show ?thesis using False hexdigits_read [OF d] hexdigits_read [OF a] nibble_join [of c]
    by (simp add: dec.simps CHAR_IS_UNRESERVED_def)
qed

lemma UrlDecode_UrlEncode: "UrlDecode (UrlEncode s sp) sp = s"
proof -
  have "dec sp (concat (map (enc1 sp) s)) = s"
    by (induction s) (simp_all only: list.map concat.simps dec_enc1 dec.simps(1))
  then show ?thesis by (simp add: UrlEncode_eq UrlDecode_eq)
qed

lemma UrlEncode_chars: "list_all (\<lambda>c. CHAR_IS_UNRESERVED c \<or> c = 37 \<or> c = 43) (UrlEncode s sp)"
proof -
  have "CHAR_IS_UNRESERVED (hexdigits n)" if "n < 16" for n
    using hexdigits_all2 that by (simp add: list_all_iff)
  then show ?thesis using drop4_less and15_less
    by (auto simp: UrlEncode_eq list_all_iff split: if_splits)
qed

text \<open>
  Percent encoding is inverted by decoding, for every string of bytes and both treatments of the
  blank; the encoded string consists of unreserved characters, percent signs and plus signs.
\<close>

theorem url_roundtrip:
  "UrlDecode (UrlEncode s space_as_plus) space_as_plus = s
   \<and> list_all (\<lambda>c. CHAR_IS_UNRESERVED c \<or> c = 37 \<or> c = 43) (UrlEncode s space_as_plus)"
  using UrlDecode_UrlEncode UrlEncode_chars by blast

lemma strip_lengths:
  "length (takeWhile P xs) + length (dropWhile P xs) = length xs"
  "length (takeWhile P xs) < length xs \<longleftrightarrow> dropWhile P xs \<noteq> []"
proof -
  show 1: "length (takeWhile P xs) + length (dropWhile P xs) = length xs"
    by (metis length_append takeWhile_dropWhile_id)
  then show "length (takeWhile P xs) < length xs \<longleftrightarrow> dropWhile P xs \<noteq> []"
    by (metis add_diff_cancel_left' length_greater_0_conv less_add_same_cancel1)
qed

text \<open>
  \<open>Trim\<close> removes the delimiters at both ends and \<open>TrimLeft\<close> those at the left; \<open>TrimRight\<close> removes
  those at the right and then one character more.
\<close>

theorem trim_strips:
  fixes s d :: str
  defines "strip_left \<equiv> dropWhile (\<lambda>c. c \<in> set d)"
  shows "Trim s d = rev (strip_left (rev (strip_left s))) \<and> TrimLeft s d = strip_left s
    \<and> TrimRight s d = butlast (rev (strip_left (rev s)))"
proof -
  let ?P = "\<lambda>c. c \<in> set d"
  have first: "find_first_not_of s d = (if strip_left s = [] then None else Some (length s - length (strip_left s)))"
    and last: "find_last_not_of s d = (if strip_left (rev s) = [] then None else Some (length (strip_left (rev s)) - 1))" for s
    using strip_lengths [of ?P s] strip_lengths [of ?P "rev s"]
    by (auto simp: find_first_not_of_def find_last_not_of_def strip_left_def Let_def)
  have left: "drop (length s - length (strip_left s)) s = strip_left s"
    using strip_lengths(1) [of ?P s] by (simp add: strip_left_def dropWhile_eq_drop)
  have right: "take (length (strip_left (rev s))) s = rev (strip_left (rev s))" for s
    using strip_lengths(1) [of ?P "rev s"] by (simp add: strip_left_def dropWhile_eq_drop rev_drop)
  have R: "TrimRight s d = butlast (rev (strip_left (rev s)))"
  proof (cases "strip_left (rev s) = []")
    case False
    have "length (strip_left (rev s)) \<le> length s"
      using strip_lengths(1) [of ?P "rev s"] by (simp add: strip_left_def)
    then have "butlast (take (length (strip_left (rev s))) s) = take (length (strip_left (rev s)) - 1) s"
      by (rule butlast_take)
    then show ?thesis using False unfolding right by (simp add: TrimRight_def last)
  qed (simp add: TrimRight_def last)
  have T: "Trim s d = rev (strip_left (rev (strip_left s)))"
  proof (cases "strip_left s = []")
    case True
    moreover have "strip_left [] = []" by (simp add: strip_left_def)
    ultimately show ?thesis by (simp add: Trim_def first)
  next
    case False
    let ?A = "takeWhile ?P s" and ?L = "strip_left s"
    have s: "s = ?A @ ?L" by (simp add: strip_left_def)
    have "\<not> ?P (hd ?L)" using False hd_dropWhile [of ?P s] by (simp add: strip_left_def)
    then have ex: "\<exists>c \<in> set (rev ?L). \<not> ?P c" using False by (metis hd_in_set set_rev)
    have "strip_left (rev s) = strip_left (rev ?L @ rev ?A)" by (subst s) simp
    also have "\<dots> = strip_left (rev ?L) @ rev ?A" using ex by (auto simp: strip_left_def intro: dropWhile_append1)
    finally have Rs: "strip_left (rev s) = strip_left (rev ?L) @ rev ?A" .
    have ne: "strip_left (rev ?L) \<noteq> []" using ex by (simp add: strip_left_def dropWhile_eq_Nil_conv)
    have "length s - length ?L = length ?A" using strip_lengths(1) [of ?P s] by (simp add: strip_left_def)
    then have "Trim s d = take (length (strip_left (rev ?L))) ?L"
      using False ne left by (simp add: Trim_def first last Rs)
    then show ?thesis using right [of ?L] by simp
  qed
  show ?thesis using T R left by (simp add: TrimLeft_def first)
qed

end
