(* ===== verification/Http.thy ===== *)
theory Http
  imports Ordered Util "HOL-Library.List_Lexorder"
begin

section \<open>HTTP methods, statuses and header maps\<close>

text \<open>
  \<open>src/spike/net/http/Http.h\<close> and \<open>Http.cpp\<close>. The two tables are the macros \<open>HTTP_METHOD_MAP\<close> and
  \<open>HTTP_STATUS_MAP\<close>, whose third argument is turned into a string by the preprocessor: the tokens are
  separated by one blank, so that \<open>M-SEARCH\<close> is listed as \<open>M - SEARCH\<close>. A status is the number of the
  enumerator, because the response parser casts any number to it.
\<close>

datatype HttpMethod =
    DELETE | GET | HEAD | POST | PUT | CONNECT | OPTIONS | TRACE | COPY | LOCK | MKCOL | MOVE
  | PROPFIND | PROPPATCH | SEARCH | UNLOCK | BIND | REBIND | UNBIND | ACL | REPORT | MKACTIVITY
  | CHECKOUT | MERGE | MSEARCH | NOTIFY | SUBSCRIBE | UNSUBSCRIBE | PATCH | PURGE | MKCALENDAR
  | LINK | UNLINK | SOURCE | INVALID_METHOD

type_synonym HttpStatus = int

definition HTTP_METHOD_MAP :: "(HttpMethod \<times> string) list" where
  "HTTP_METHOD_MAP =
     [(DELETE, ''DELETE''), (GET, ''GET''), (HEAD, ''HEAD''), (POST, ''POST''), (PUT, ''PUT''),
      (CONNECT, ''CONNECT''), (OPTIONS, ''OPTIONS''), (TRACE, ''TRACE''), (COPY, ''COPY''),
      (LOCK, ''LOCK''), (MKCOL, ''MKCOL''), (MOVE, ''MOVE''), (PROPFIND, ''PROPFIND''),
      (PROPPATCH, ''PROPPATCH''), (SEARCH, ''SEARCH''), (UNLOCK, ''UNLOCK''), (BIND, ''BIND''),
      (REBIND, ''REBIND''), (UNBIND, ''UNBIND''), (ACL, ''ACL''), (REPORT, ''REPORT''),
      (MKACTIVITY, ''MKACTIVITY''), (CHECKOUT, ''CHECKOUT''), (MERGE, ''MERGE''),
      (MSEARCH, ''M - SEARCH''), (NOTIFY, ''NOTIFY''), (SUBSCRIBE, ''SUBSCRIBE''),
      (UNSUBSCRIBE, ''UNSUBSCRIBE''), (PATCH, ''PATCH''), (PURGE, ''PURGE''),
      (MKCALENDAR, ''MKCALENDAR''), (LINK, ''LINK''), (UNLINK, ''UNLINK''), (SOURCE, ''SOURCE'')]"

definition HTTP_STATUS_MAP :: "(HttpStatus \<times> string) list" where
  "HTTP_STATUS_MAP =
     [(100, ''Continue''), (101, ''Switching Protocols''), (102, ''Processing''), (200, ''OK''),
      (201, ''Created''), (202, ''Accepted''), (203, ''Non - Authoritative Information''),
      (204, ''No Content''), (205, ''Reset Content''), (206, ''Partial Content''),
      (207, ''Multi - Status''), (208, ''Already Reported''), (226, ''IM Used''),
      (300, ''Multiple Choices''), (301, ''Moved Permanently''), (302, ''Found''),
      (303, ''See Other''), (304, ''Not Modified''), (305, ''Use Proxy''),
      (307, ''Temporary Redirect''), (308, ''Permanent Redirect''), (400, ''Bad Request''),
      (401, ''Unauthorized''), (402, ''Payment Required''), (403, ''Forbidden''),
      (404, ''Not Found''), (405, ''Method Not Allowed''), (406, ''Not Acceptable''),
      (407, ''Proxy Authentication Required''), (408, ''Request Timeout''), (409, ''Conflict''),
      (410, ''Gone''), (411, ''Length Required''), (412, ''Precondition Failed''),
      (413, ''Payload Too Large''), (414, ''URI Too Long''), (415, ''Unsupported Media Type''),
      (416, ''Range Not Satisfiable''), (417, ''Expectation Failed''), (421, ''Misdirected Request''),
      (422, ''Unprocessable Entity''), (423, ''Locked''), (424, ''Failed Dependency''),
      (426, ''Upgrade Required''), (428, ''Precondition Required''), (429, ''Too Many Requests''),
      (431, ''Request Header Fields Too Large''), (451, ''Unavailable For Legal Reasons''),
      (500, ''Internal Server Error''), (501, ''Not Implemented''), (502, ''Bad Gateway''),
      (503, ''Service Unavailable''), (504, ''Gateway Timeout''),
      (505, ''HTTP Version Not Supported''), (506, ''Variant Also Negotiates''),
      (507, ''Insufficient Storage''), (508, ''Loop Detected''), (510, ''Not Extended''),
      (511, ''Network Authentication Required'')]"

definition cstr :: "str \<Rightarrow> str" where
  "cstr s = takeWhile (\<lambda>c. c \<noteq> 0) s"

definition StringToHttpMethod :: "str \<Rightarrow> HttpMethod" where
  "StringToHttpMethod m =
     (case find (\<lambda>(name, s). lit s = cstr m) HTTP_METHOD_MAP of None \<Rightarrow> INVALID_METHOD | Some (name, _) \<Rightarrow> name)"

text \<open>
  \<open>strncmp(s, m, n) == 0\<close> for a literal \<open>s\<close> (without its terminator) and the memory \<open>m\<close>: the comparison
  stops at the first difference or common terminator, and running out of the memory is a fault.
\<close>

fun strncmp_eq :: "str \<Rightarrow> str \<Rightarrow> nat \<Rightarrow> bool res" where
  "strncmp_eq s m 0 = Inr True"
| "strncmp_eq s [] (Suc n) = Inl HeapOverflow"
| "strncmp_eq [] (b # m) (Suc n) = Inr (b = 0)"
| "strncmp_eq (a # s) (b # m) (Suc n) = (if a = b then strncmp_eq s m n else Inr False)"

fun chars_to_method :: "(HttpMethod \<times> string) list \<Rightarrow> str \<Rightarrow> HttpMethod res" where
  "chars_to_method [] m = Inr INVALID_METHOD"
| "chars_to_method ((name, s) # rest) m =
     bindE (strncmp_eq (lit s) m (length s)) (\<lambda>eq. if eq then Inr name else chars_to_method rest m)"

definition CharsToHttpMethod :: "str \<Rightarrow> HttpMethod res" where
  "CharsToHttpMethod m = chars_to_method HTTP_METHOD_MAP m"

definition HttpMethodToString :: "HttpMethod \<Rightarrow> string" where
  "HttpMethodToString m = (case map_of HTTP_METHOD_MAP m of None \<Rightarrow> ''<unknown>'' | Some s \<Rightarrow> s)"

definition HttpStatusToString :: "HttpStatus \<Rightarrow> string" where
  "HttpStatusToString s = (case map_of HTTP_STATUS_MAP s of None \<Rightarrow> ''<unknown>'' | Some msg \<Rightarrow> msg)"

subsection \<open>Case-insensitive keys\<close>

definition to_lower :: "byte \<Rightarrow> byte" where
  "to_lower c = (if in_range c 65 90 then c + 32 else c)"

fun strcasecmp_list :: "str \<Rightarrow> str \<Rightarrow> int" where
  "strcasecmp_list [] [] = 0"
| "strcasecmp_list [] (b # bs) = - uint (to_lower b)"
| "strcasecmp_list (a # as) [] = uint (to_lower a)"
| "strcasecmp_list (a # as) (b # bs) =
     (if to_lower a = to_lower b then strcasecmp_list as bs else uint (to_lower a) - uint (to_lower b))"

definition strcasecmp :: "str \<Rightarrow> str \<Rightarrow> int" where
  "strcasecmp a b = strcasecmp_list (cstr a) (cstr b)"

definition CaseInsensitiveLess :: "str \<Rightarrow> str \<Rightarrow> bool" where
  "CaseInsensitiveLess lhs rhs \<longleftrightarrow> strcasecmp lhs rhs < 0"

type_synonym MapType = "(str \<times> str) list"

text \<open>\<open>getAs\<close> and \<open>checkGetAs\<close>: \<open>lexical_cast\<close> is that of Boost, with \<open>None\<close> for an exception.\<close>

definition getAs :: "(str \<Rightarrow> 'v option) \<Rightarrow> MapType \<Rightarrow> str \<Rightarrow> 'v \<Rightarrow> 'v" where
  "getAs lexical_cast m key def =
     (case map_find CaseInsensitiveLess key m of
        None \<Rightarrow> def
      | Some s \<Rightarrow> (case lexical_cast s of None \<Rightarrow> def | Some v \<Rightarrow> v))"

definition checkGetAs :: "(str \<Rightarrow> 'v option) \<Rightarrow> MapType \<Rightarrow> str \<Rightarrow> 'v \<Rightarrow> bool \<times> 'v" where
  "checkGetAs lexical_cast m key def =
     (case map_find CaseInsensitiveLess key m of
        None \<Rightarrow> (False, def)
      | Some s \<Rightarrow> (case lexical_cast s of None \<Rightarrow> (False, def) | Some v \<Rightarrow> (True, v)))"

text \<open>The comparator is the lexicographic order of the keys in lower case.\<close>

definition lower_key :: "str \<Rightarrow> byte list" where
  "lower_key s = map to_lower (cstr s)"

lemma to_lower_nonzero: "c \<noteq> 0 \<Longrightarrow> to_lower c \<noteq> 0"
proof
  assume "c \<noteq> 0" "to_lower c = 0"
  then have "in_range c 65 90" "c = - 32" by (auto simp: to_lower_def eq_neg_iff_add_eq_0 split: if_splits)
  then show False by (simp add: in_range_def)
qed

lemma strcasecmp_list_less:
  "0 \<notin> set a \<Longrightarrow> 0 \<notin> set b \<Longrightarrow> strcasecmp_list a b < 0 \<longleftrightarrow> map to_lower a < map to_lower b"
proof (induction a b rule: strcasecmp_list.induct)
  case (2 b bs)
  then have "to_lower b \<noteq> 0" using to_lower_nonzero by auto
  then have "uint (to_lower b) \<noteq> 0" by (simp only: uint_0_iff not_False_eq_True)
  then have "0 < uint (to_lower b)" using unsigned_greater_eq [of "to_lower b", where ?'a = int] by linarith
  then show ?case by simp
qed (auto simp: word_less_def)

lemma cstr_nonzero: "0 \<notin> set (cstr s)"
  by (auto simp: cstr_def dest: set_takeWhileD)

lemma CaseInsensitiveLess_key: "CaseInsensitiveLess a b \<longleftrightarrow> lower_key a < lower_key b"
  using strcasecmp_list_less [OF cstr_nonzero cstr_nonzero]
  by (simp add: CaseInsensitiveLess_def strcasecmp_def lower_key_def)

interpretation header_map: comparator CaseInsensitiveLess
  by unfold_locales (auto simp: CaseInsensitiveLess_key)

lemma header_eqv: "eqv CaseInsensitiveLess a b \<longleftrightarrow> lower_key a = lower_key b"
  by (auto simp: eqv_def CaseInsensitiveLess_key)

subsection \<open>Method names\<close>

lemma strncmp_prefix: "strncmp_eq s (s @ rest) (length s) = Inr True"
  by (induction s) simp_all

text \<open>
  A method is recognised by a prefix, so any continuation of a name is taken for it.
\<close>

definition shadowed :: "string \<Rightarrow> string \<Rightarrow> bool" where
  "shadowed s t \<longleftrightarrow> (\<exists>i < length s. i < length t \<and> s ! i \<noteq> t ! i)"

lemma strncmp_differ:
  "i < length s \<Longrightarrow> i < length t \<Longrightarrow> s ! i \<noteq> t ! i \<Longrightarrow> 0 \<notin> set s \<Longrightarrow> strncmp_eq s (t @ rest) (length s) = Inr False"
proof (induction s arbitrary: t i)
  case (Cons a s)
  then show ?case by (cases t; cases i) auto
qed simp

end
