(* ===== verification/HttpMessage.thy ===== *)
theory HttpMessage
  imports Http
begin

section \<open>Requests and responses\<close>

text \<open>
  \<open>HttpRequest\<close> and \<open>HttpResponse\<close> of \<open>src/spike/net/http\<close>: the fields, the header, parameter and
  cookie maps under the case-insensitive comparator, the lazily parsed parameters with their flags, and
  what \<open>dump\<close> prints. \<open>content_type\<close> and the other names are the header keys of the source.
\<close>

record HttpRequest =
  rq_method :: HttpMethod
  rq_version :: u8
  rq_close :: bool
  rq_websocket :: bool
  rq_path :: str
  rq_query :: str
  rq_fragment :: str
  rq_body :: str
  rq_headers :: MapType
  rq_params :: MapType
  rq_cookies :: MapType
  rq_parserParamFlag :: u8

definition new_HttpRequest :: "u8 \<Rightarrow> bool \<Rightarrow> HttpRequest" where
  "new_HttpRequest version close =
     \<lparr>rq_method = GET, rq_version = version, rq_close = close, rq_websocket = False, rq_path = lit ''/'',
      rq_query = [], rq_fragment = [], rq_body = [], rq_headers = [], rq_params = [], rq_cookies = [],
      rq_parserParamFlag = 0\<rparr>"

definition find_or :: "MapType \<Rightarrow> str \<Rightarrow> str \<Rightarrow> str" where
  "find_or m key def = (case map_find CaseInsensitiveLess key m of None \<Rightarrow> def | Some v \<Rightarrow> v)"

definition getHeader :: "HttpRequest \<Rightarrow> str \<Rightarrow> str \<Rightarrow> str" where
  "getHeader rq key def = find_or (rq_headers rq) key def"

definition setHeader :: "str \<Rightarrow> str \<Rightarrow> HttpRequest \<Rightarrow> HttpRequest" where
  "setHeader key val rq = rq\<lparr>rq_headers := map_assign CaseInsensitiveLess key val (rq_headers rq)\<rparr>"

definition setParam :: "str \<Rightarrow> str \<Rightarrow> HttpRequest \<Rightarrow> HttpRequest" where
  "setParam key val rq = rq\<lparr>rq_params := map_assign CaseInsensitiveLess key val (rq_params rq)\<rparr>"

definition setCookie :: "str \<Rightarrow> str \<Rightarrow> HttpRequest \<Rightarrow> HttpRequest" where
  "setCookie key val rq = rq\<lparr>rq_cookies := map_assign CaseInsensitiveLess key val (rq_cookies rq)\<rparr>"

definition delHeader :: "str \<Rightarrow> HttpRequest \<Rightarrow> HttpRequest" where
  "delHeader key rq = rq\<lparr>rq_headers := map_erase CaseInsensitiveLess key (rq_headers rq)\<rparr>"

definition delParam :: "str \<Rightarrow> HttpRequest \<Rightarrow> HttpRequest" where
  "delParam key rq = rq\<lparr>rq_params := map_erase CaseInsensitiveLess key (rq_params rq)\<rparr>"

definition delCookie :: "str \<Rightarrow> HttpRequest \<Rightarrow> HttpRequest" where
  "delCookie key rq = rq\<lparr>rq_cookies := map_erase CaseInsensitiveLess key (rq_cookies rq)\<rparr>"

definition hasHeader :: "HttpRequest \<Rightarrow> str \<Rightarrow> str option" where
  "hasHeader rq key = map_find CaseInsensitiveLess key (rq_headers rq)"

subsection \<open>Parsing parameters and cookies\<close>

text \<open>\<open>split_at c s\<close> is \<open>find\<close> of a character with the parts before and after it; \<open>None\<close> is \<open>npos\<close>.\<close>

fun split_at :: "byte \<Rightarrow> str \<Rightarrow> (str \<times> str) option" where
  "split_at c [] = None"
| "split_at c (b # s) =
     (if b = c then Some ([], s) else map_option (\<lambda>(k, r). (b # k, r)) (split_at c s))"

lemma split_at_length: "split_at c s = Some (k, r) \<Longrightarrow> length r < length s"
  by (induction c s arbitrary: k rule: split_at.induct) (auto split: if_splits)

text \<open>
  The macro \<open>PARSE_PARAM\<close>: \<open>s\<close> is the rest of the string from \<open>pos\<close>. The key runs to the next equals
  sign, the value from there to the next \<open>flag\<close> or the end; \<open>insert\<close> keeps the first value of a key.
\<close>

function PARSE_PARAM :: "byte \<Rightarrow> (str \<Rightarrow> str) \<Rightarrow> str \<Rightarrow> MapType \<Rightarrow> MapType" where
  "PARSE_PARAM flag trim s m =
     (case split_at 61 s of
        None \<Rightarrow> m
      | Some (key, rest) \<Rightarrow>
          (case split_at flag rest of
             None \<Rightarrow> snd (tree_insert CaseInsensitiveLess fst (trim key, UrlDecode rest True) m)
           | Some (val, rest') \<Rightarrow>
               PARSE_PARAM flag trim rest'
                 (snd (tree_insert CaseInsensitiveLess fst (trim key, UrlDecode val True) m))))"
  by pat_completeness auto
termination
  by (relation "measure (\<lambda>(flag, trim, s, m). length s)") (auto dest!: split_at_length)

declare PARSE_PARAM.simps [simp del]

definition param_flag :: "u8 \<Rightarrow> HttpRequest \<Rightarrow> bool" where
  "param_flag b rq \<longleftrightarrow> rq_parserParamFlag rq AND b \<noteq> 0"

definition set_param_flag :: "u8 \<Rightarrow> HttpRequest \<Rightarrow> HttpRequest" where
  "set_param_flag b rq = rq\<lparr>rq_parserParamFlag := rq_parserParamFlag rq OR b\<rparr>"

definition initQueryParam :: "HttpRequest \<Rightarrow> HttpRequest" where
  "initQueryParam rq =
     (if param_flag 1 rq then rq
      else set_param_flag 1 (rq\<lparr>rq_params := PARSE_PARAM 38 (\<lambda>s. s) (rq_query rq) (rq_params rq)\<rparr>))"

fun strcasestr :: "str \<Rightarrow> str \<Rightarrow> bool" where
  "strcasestr [] needle \<longleftrightarrow> needle = []"
| "strcasestr (c # s) needle \<longleftrightarrow>
     map to_lower (take (length needle) (c # s)) = map to_lower needle \<or> strcasestr s needle"

definition initBodyParam :: "HttpRequest \<Rightarrow> HttpRequest" where
  "initBodyParam rq =
     (if param_flag 2 rq then rq
      else if \<not> strcasestr (cstr (getHeader rq (lit ''content-type'') [])) (lit ''application/x-www-form-urlencoded'')
      then set_param_flag 2 rq
      else set_param_flag 2 (rq\<lparr>rq_params := PARSE_PARAM 38 (\<lambda>s. s) (rq_body rq) (rq_params rq)\<rparr>))"

definition initCookies :: "HttpRequest \<Rightarrow> HttpRequest" where
  "initCookies rq =
     (if param_flag 4 rq then rq
      else
        let cookie = getHeader rq (lit ''cookie'') []
        in if cookie = [] then set_param_flag 4 rq
           else set_param_flag 4 (rq\<lparr>rq_cookies := PARSE_PARAM 59 (\<lambda>s. Trim s blanks) cookie (rq_cookies rq)\<rparr>))"

definition initParam :: "HttpRequest \<Rightarrow> HttpRequest" where
  "initParam rq = initCookies (initBodyParam (initQueryParam rq))"

definition getParam :: "HttpRequest \<Rightarrow> str \<Rightarrow> str \<Rightarrow> str \<times> HttpRequest" where
  "getParam rq key def =
     (let rq = initBodyParam (initQueryParam rq) in (find_or (rq_params rq) key def, rq))"

definition getCookie :: "HttpRequest \<Rightarrow> str \<Rightarrow> str \<Rightarrow> str \<times> HttpRequest" where
  "getCookie rq key def = (let rq = initCookies rq in (find_or (rq_cookies rq) key def, rq))"

definition hasParam :: "HttpRequest \<Rightarrow> str \<Rightarrow> str option \<times> HttpRequest" where
  "hasParam rq key =
     (let rq = initBodyParam (initQueryParam rq) in (map_find CaseInsensitiveLess key (rq_params rq), rq))"

definition hasCookie :: "HttpRequest \<Rightarrow> str \<Rightarrow> str option \<times> HttpRequest" where
  "hasCookie rq key = (let rq = initCookies rq in (map_find CaseInsensitiveLess key (rq_cookies rq), rq))"

text \<open>\<open>HttpRequest::init\<close>: the connection header decides whether the connection is closed.\<close>

definition init :: "HttpRequest \<Rightarrow> HttpRequest" where
  "init rq =
     (let conn = getHeader rq (lit ''connection'') []
      in if conn = [] then rq
         else rq\<lparr>rq_close := strcasecmp conn (lit ''keep-alive'') \<noteq> 0\<rparr>)"

subsection \<open>Printing\<close>

definition crlf :: str where
  "crlf = [13, 10]"

definition dump_version :: "u8 \<Rightarrow> str" where
  "dump_version v = lit (show_nat (unat (drop_bit 4 v))) @ lit ''.'' @ lit (show_nat (unat (v AND 0x0F)))"

definition dump_header :: "bool \<Rightarrow> str \<times> str \<Rightarrow> str" where
  "dump_header websocket h =
     (if \<not> websocket \<and> strcasecmp (fst h) (lit ''connection'') = 0 then []
      else fst h @ lit '': '' @ snd h @ crlf)"

definition dump_connection :: "bool \<Rightarrow> bool \<Rightarrow> str" where
  "dump_connection websocket close =
     (if \<not> websocket then lit ''connection: '' @ lit (if close then ''close'' else ''keep-alive'') @ crlf else [])"

definition dump_body :: "str \<Rightarrow> str" where
  "dump_body body =
     (if body \<noteq> [] then lit ''content-length: '' @ lit (show_nat (length body)) @ crlf @ crlf @ body else crlf)"

definition HttpRequest_dump :: "HttpRequest \<Rightarrow> str" where
  "HttpRequest_dump rq =
     lit (HttpMethodToString (rq_method rq)) @ lit '' ''
     @ rq_path rq
     @ (if rq_query rq = [] then [] else lit ''?'') @ rq_query rq
     @ (if rq_fragment rq = [] then [] else lit ''#'') @ rq_fragment rq
     @ lit '' HTTP/'' @ dump_version (rq_version rq) @ crlf
     @ dump_connection (rq_websocket rq) (rq_close rq)
     @ concat (map (dump_header (rq_websocket rq)) (rq_headers rq))
     @ dump_body (rq_body rq)"

record HttpResponse =
  rs_status :: HttpStatus
  rs_version :: u8
  rs_close :: bool
  rs_websocket :: bool
  rs_body :: str
  rs_reason :: str
  rs_headers :: MapType
  rs_cookies :: "str list"

definition new_HttpResponse :: "u8 \<Rightarrow> bool \<Rightarrow> HttpResponse" where
  "new_HttpResponse version close =
     \<lparr>rs_status = 200, rs_version = version, rs_close = close, rs_websocket = False, rs_body = [],
      rs_reason = [], rs_headers = [], rs_cookies = []\<rparr>"

definition createResponse :: "HttpRequest \<Rightarrow> HttpResponse" where
  "createResponse rq = new_HttpResponse (rq_version rq) (rq_close rq)"

definition rs_getHeader :: "HttpResponse \<Rightarrow> str \<Rightarrow> str \<Rightarrow> str" where
  "rs_getHeader rs key def = find_or (rs_headers rs) key def"

definition rs_setHeader :: "str \<Rightarrow> str \<Rightarrow> HttpResponse \<Rightarrow> HttpResponse" where
  "rs_setHeader key val rs = rs\<lparr>rs_headers := map_assign CaseInsensitiveLess key val (rs_headers rs)\<rparr>"

definition rs_delHeader :: "str \<Rightarrow> HttpResponse \<Rightarrow> HttpResponse" where
  "rs_delHeader key rs = rs\<lparr>rs_headers := map_erase CaseInsensitiveLess key (rs_headers rs)\<rparr>"

definition setRedirect :: "str \<Rightarrow> HttpResponse \<Rightarrow> HttpResponse" where
  "setRedirect uri rs = rs_setHeader (lit ''Location'') uri (rs\<lparr>rs_status := 302\<rparr>)"

text \<open>\<open>time2str\<close> is \<open>Time2Str\<close> with the cookie format, that is \<open>localtime_r\<close> and \<open>strftime\<close>.\<close>

definition rs_setCookie :: "(int \<Rightarrow> str) \<Rightarrow> str \<Rightarrow> str \<Rightarrow> int \<Rightarrow> str \<Rightarrow> str \<Rightarrow> bool \<Rightarrow> HttpResponse \<Rightarrow> HttpResponse" where
  "rs_setCookie time2str key val expired path domain secure rs =
     rs\<lparr>rs_cookies := rs_cookies rs @
          [key @ lit ''='' @ val
           @ (if expired > 0 then lit '';expires='' @ time2str expired @ lit '' GMT'' else [])
           @ (if domain \<noteq> [] then lit '';domain='' @ domain else [])
           @ (if path \<noteq> [] then lit '';path='' @ path else [])
           @ (if secure then lit '';secure'' else [])]\<rparr>"

definition HttpResponse_dump :: "HttpResponse \<Rightarrow> str" where
  "HttpResponse_dump rs =
     lit ''HTTP/'' @ dump_version (rs_version rs) @ lit '' '' @ lit (show_nat (nat (rs_status rs mod 2 ^ 32))) @ lit '' ''
     @ (if rs_reason rs = [] then lit (HttpStatusToString (rs_status rs)) else rs_reason rs) @ crlf
     @ concat (map (dump_header (rs_websocket rs)) (rs_headers rs))
     @ concat (map (\<lambda>c. lit ''Set-Cookie: '' @ c @ crlf) (rs_cookies rs))
     @ dump_connection (rs_websocket rs) (rs_close rs)
     @ dump_body (rs_body rs)"

end
