(* ===== verification/HttpMessage_Props.thy ===== *)
theory HttpMessage_Props
  imports HttpMessage
begin

section \<open>Query parameters\<close>

text \<open>
  \<open>getParam\<close> on a query string made of keys and percent-encoded values finds, under every key, the
  first value given for it.
\<close>

fun show_query :: "(str \<times> str) list \<Rightarrow> str" where
  "show_query [] = []"
| "show_query [(k, v)] = k @ 61 # UrlEncode v True"
| "show_query ((k, v) # kvs) = k @ 61 # UrlEncode v True @ 38 # show_query kvs"

definition key_ok :: "str \<Rightarrow> bool" where
  "key_ok k \<longleftrightarrow> 61 \<notin> set k \<and> 38 \<notin> set k"

definition first_value :: "(str \<times> str) list \<Rightarrow> str \<Rightarrow> str option" where
  "first_value kvs k = map_option snd (find (\<lambda>(k', v). eqv CaseInsensitiveLess k' k) kvs)"

lemma split_at_found: "c \<notin> set a \<Longrightarrow> split_at c (a @ c # b) = Some (a, b)"
  by (induction a) auto

lemma split_at_none: "c \<notin> set a \<Longrightarrow> split_at c a = None"
  by (induction a) auto

lemma encoded_no_amp: "38 \<notin> set (UrlEncode v True)"
proof
  assume "38 \<in> set (UrlEncode v True)"
  then have "CHAR_IS_UNRESERVED 38" using UrlEncode_chars [of v True] by (auto simp: list_all_iff)
  then show False by (simp add: CHAR_IS_UNRESERVED_def in_range_def)
qed

lemma parse_one:
  assumes "key_ok k"
  shows "PARSE_PARAM 38 trim (k @ 61 # UrlEncode v True) m = snd (tree_insert CaseInsensitiveLess fst (trim k, v) m)"
    and "PARSE_PARAM 38 trim (k @ 61 # UrlEncode v True @ 38 # s) m =
      PARSE_PARAM 38 trim s (snd (tree_insert CaseInsensitiveLess fst (trim k, v) m))"
  using assms encoded_no_amp [of v] UrlDecode_UrlEncode [of v True]
  by (subst PARSE_PARAM.simps, simp add: split_at_found split_at_none key_ok_def)+

lemma parse_show:
  assumes "\<forall>(k, v) \<in> set kvs. key_ok k" and "tree_sorted CaseInsensitiveLess fst m"
  shows "map_find CaseInsensitiveLess k (PARSE_PARAM 38 (\<lambda>s. s) (show_query kvs) m) =
    (case map_find CaseInsensitiveLess k m of Some w \<Rightarrow> Some w | None \<Rightarrow> first_value kvs k)"
  using assms
proof (induction kvs arbitrary: m rule: show_query.induct)
  case 1
  then show ?case by (simp add: PARSE_PARAM.simps first_value_def split: option.split)
next
  case (2 a v)
  then show ?case using header_map.map_find_insert [OF 2(2)]
    by (simp add: parse_one(1) first_value_def split: option.split)
next
  case (3 a v e kvs)
  let ?m = "snd (tree_insert CaseInsensitiveLess fst (a, v) m)"
  have "key_ok a" "\<forall>(k, v) \<in> set (e # kvs). key_ok k" "tree_sorted CaseInsensitiveLess fst ?m"
    using "3.prems" header_map.sorted_insert by auto
  then show ?case using "3.IH" [of ?m] header_map.map_find_insert [OF "3.prems"(2), of k a v]
    by (simp add: parse_one(2) first_value_def split: option.split)
qed

text \<open>
  C39: Query parameters come back. For any list of keys without \<open>=\<close> and \<open>&\<close> and arbitrary values,
  percent-encoded and joined into a query string, \<open>getParam\<close> returns under every key, in any case of
  its letters, the first value given for it, and the default when there is none.
\<close>

theorem query_parameters_roundtrip:
  assumes "\<forall>(k, v) \<in> set kvs. key_ok k" and "rq_query rq = show_query kvs"
    and "rq_params rq = []" and "rq_parserParamFlag rq = 0"
    and "map_find CaseInsensitiveLess (lit ''content-type'') (rq_headers rq) = None"
  shows "fst (getParam rq key def) = (case first_value kvs key of None \<Rightarrow> def | Some v \<Rightarrow> v)"
proof -
  let ?q = "initQueryParam rq"
  have q: "rq_params ?q = PARSE_PARAM 38 (\<lambda>s. s) (show_query kvs) []" "rq_headers ?q = rq_headers rq"
    "param_flag 2 ?q \<longleftrightarrow> False"
    using assms by (simp_all add: initQueryParam_def param_flag_def set_param_flag_def)
  have "strcasestr (cstr (getHeader ?q (lit ''content-type'') [])) (lit ''application/x-www-form-urlencoded'') \<longleftrightarrow> False"
    using assms(5) by (simp add: getHeader_def find_or_def q cstr_def lit_def)
  then have "rq_params (initBodyParam ?q) = PARSE_PARAM 38 (\<lambda>s. s) (show_query kvs) []"
    by (simp add: initBodyParam_def q set_param_flag_def)
  then show ?thesis using parse_show [OF assms(1), of "[]" key]
    by (simp add: getParam_def find_or_def map_find_def [of _ _ "[]"])
qed

theorem query_parameters_roundtrip_witness:
  "fst (getParam ((new_HttpRequest 0x11 True)\<lparr>rq_query := show_query [(lit ''a'', lit ''x y''), (lit ''A'', lit ''z'')]\<rparr>)
     (lit ''A'') []) = lit ''x y''"
proof -
  let ?kvs = "[(lit ''a'', lit ''x y''), (lit ''A'', lit ''z'')]"
  have "lower_key (lit ''a'') = lower_key (lit ''A'')" by code_simp
  then have "first_value ?kvs (lit ''A'') = Some (lit ''x y'')" by (simp add: first_value_def header_eqv)
  then show ?thesis
    using query_parameters_roundtrip [of ?kvs "(new_HttpRequest 0x11 True)\<lparr>rq_query := show_query ?kvs\<rparr>" "lit ''A''" "[]"]
    by (simp add: key_ok_def lit_def new_HttpRequest_def map_find_def)
qed

end
