(* ===== verification/Http11.thy ===== *)
theory Http11
  imports Prelude
begin

section \<open>The HTTP/1.1 request automaton (net/http/http11_parser)\<close>

text \<open>
  \<open>http_parser_execute\<close> of \<open>spike/net/http/http11_parser.cpp\<close>, the goto automaton that Ragel
  produced from \<open>http11_parser.rl\<close>. A label \<open>trN\<close> is a definition: the actions it runs and the
  state it goes to. The \<open>case\<close> blocks are the definitions \<open>http_case_N\<close>, in the order of the
  source, each a nest of the comparisons the code makes on the character \<open>c\<close> (a signed \<open>char\<close>)
  and on \<open>w\<close>, the \<open>_widec\<close> of the states that look at \<open>uri_relaxed\<close>. \<open>goto stN\<close> is \<open>st N\<close> and
  \<open>goto st0\<close> is \<open>Err\<close>.
\<close>

subsection \<open>Actions and targets\<close>

datatype action =
    Mark | StartField | WriteField | WriteValue | RequestMethod | RequestUri | Fragment
  | StartQuery | QueryString | HttpVersion | RequestPath | Done | Xml | Json

text \<open>
  Where a case block jumps: to the error label, to a state after some actions, or, after an
  action that ends in \<open>fbreak\<close>, out of the loop with the state set.
\<close>

datatype target = Err | Go "action list" nat | Break "action list" nat

definition st :: "nat \<Rightarrow> target" where
  "st n = Go [] n"

definition http_parser_start :: nat where "http_parser_start = 1"
definition http_parser_first_final :: nat where "http_parser_first_final = 348"
definition http_parser_error :: nat where "http_parser_error = 0"

text \<open>\<open>_widec\<close>: the three conditional characters move up by 256, and by 256 more when relaxed.\<close>

definition widec :: "bool \<Rightarrow> int \<Rightarrow> int" where
  "widec uri_relaxed c =
     (if c = 94 \<or> c = 125 \<or> c = 123
      then 128 + (c + 128) + (if uri_relaxed then 256 else 0) else c)"

subsection \<open>Transition labels\<close>

definition tr0 :: target where
  "tr0 = Go [Mark] 2"

definition tr2 :: target where
  "tr2 = Go [Mark] 194"

definition tr3 :: target where
  "tr3 = Go [Mark] 198"

definition tr4 :: target where
  "tr4 = Go [RequestMethod] 3"

definition tr6 :: target where
  "tr6 = Go [Mark, RequestPath, RequestUri] 4"

definition tr7 :: target where
  "tr7 = Go [Mark] 19"

definition tr8 :: target where
  "tr8 = Go [Mark, RequestPath, RequestUri] 20"

definition tr9 :: target where
  "tr9 = Go [Mark] 24"

definition tr10 :: target where
  "tr10 = Go [Mark] 33"

definition tr11 :: target where
  "tr11 = Go [Mark, RequestPath] 29"

definition tr12 :: target where
  "tr12 = Go [Mark] 173"

definition tr13 :: target where
  "tr13 = Go [Mark] 5"

definition tr21 :: target where
  "tr21 = Go [HttpVersion] 13"

definition tr22 :: target where
  "tr22 = Go [HttpVersion] 17"

definition tr23 :: target where
  "tr23 = Go [StartField] 14"

definition tr24 :: target where
  "tr24 = Break [StartField, Done] 348"

definition tr25 :: target where
  "tr25 = Go [StartField] 18"

definition tr27 :: target where
  "tr27 = Go [WriteField] 15"

definition tr28 :: target where
  "tr28 = Go [Mark] 16"

definition tr29 :: target where
  "tr29 = Go [Mark] 15"

definition tr30 :: target where
  "tr30 = Go [Mark, WriteValue] 13"

definition tr31 :: target where
  "tr31 = Go [Mark, WriteValue] 17"

definition tr33 :: target where
  "tr33 = Go [WriteValue] 13"

definition tr34 :: target where
  "tr34 = Go [WriteValue] 17"

definition tr36 :: target where
  "tr36 = Break [Done] 348"

definition tr37 :: target where
  "tr37 = Go [RequestPath, RequestUri] 4"

definition tr39 :: target where
  "tr39 = Go [RequestPath, RequestUri] 20"

definition tr42 :: target where
  "tr42 = Go [RequestPath] 29"

definition tr43 :: target where
  "tr43 = Go [Mark] 21"

definition tr44 :: target where
  "tr44 = Go [Mark, Fragment] 4"

definition tr45 :: target where
  "tr45 = Go [Mark] 22"

definition tr47 :: target where
  "tr47 = Go [Fragment] 4"

definition tr53 :: target where
  "tr53 = Go [StartQuery] 30"

definition tr54 :: target where
  "tr54 = Go [StartQuery, QueryString, RequestUri] 4"

definition tr55 :: target where
  "tr55 = Go [StartQuery, QueryString, RequestUri] 20"

definition tr56 :: target where
  "tr56 = Go [StartQuery] 31"

definition tr58 :: target where
  "tr58 = Go [QueryString, RequestUri] 4"

definition tr59 :: target where
  "tr59 = Go [QueryString, RequestUri] 20"

definition tr203 :: target where
  "tr203 = Go [Mark] 26"

definition tr204 :: target where
  "tr204 = Go [Mark] 27"

definition tr224 :: target where
  "tr224 = Go [RequestPath] 196"

definition tr227 :: target where
  "tr227 = Break [Xml, Done] 349"

definition tr228 :: target where
  "tr228 = Go [RequestPath] 199"

definition tr232 :: target where
  "tr232 = Go [Mark] 200"

definition tr235 :: target where
  "tr235 = Break [Json, Done] 349"


subsection \<open>Case blocks\<close>

definition http_case_1 :: "nat \<Rightarrow> int \<Rightarrow> int \<Rightarrow> target" where
  "http_case_1 s c w =
    (if s = 1 then (if c = 60 then tr2
        else if c = 64 then tr3
        else if c > 57 then (if 65 \<le> c \<and> c \<le> 90 then tr0
          else Err)
        else if c \<ge> 48 then tr0
        else Err)
     else if s = 2 then (if c = 32 then tr4
        else if c > 57 then (if 65 \<le> c \<and> c \<le> 90 then st 175
          else Err)
        else if c \<ge> 48 then st 175
        else Err)
     else if s = 3 then (if w = 32 then tr6
        else if w = 33 \<or> w = 59 \<or> w = 61 \<or> w = 64 \<or> w = 95 \<or> w = 126 \<or> w = 606 \<or> w = 635 \<or> w = 637 then tr7
        else if w = 35 then tr8
        else if w = 37 then tr9
        else if w = 47 then tr10
        else if w = 63 then tr11
        else if w < 65 then (if 36 \<le> w \<and> w \<le> 57 then tr7
          else Err)
        else if w > 90 then (if 97 \<le> w \<and> w \<le> 122 then tr12
          else Err)
        else tr12)
     else Err)"

definition http_case_4 :: "nat \<Rightarrow> int \<Rightarrow> int \<Rightarrow> target" where
  "http_case_4 s c w =
    (if s = 4 then (if c = 72 then tr13
        else Err)
     else if s = 5 then (if c = 84 then st 6
        else Err)
     else if s = 6 then (if c = 84 then st 7
        else Err)
     else if s = 7 then (if c = 80 then st 8
        else Err)
     else if s = 8 then (if c = 47 then st 9
        else Err)
     else if s = 9 then (if c = 49 then st 10
        else Err)
     else if s = 10 then (if c = 46 then st 11
        else Err)
     else if s = 11 then (if 48 \<le> c \<and> c \<le> 49 then st 12
        else Err)
     else if s = 12 then (if c = 10 then tr21
        else if c = 13 then tr22
        else Err)
     else if s = 13 then (if c = 10 then tr24
        else if c = 13 then tr25
        else if c = 33 \<or> c = 124 \<or> c = 126 then tr23
        else if c < 42 then (if c < 11 then (if 1 \<le> c \<and> c \<le> 8 then tr23
            else Err)
          else if c > 31 then (if 35 \<le> c \<and> c \<le> 39 then tr23
            else Err)
          else tr23)
        else if c > 43 then (if c < 48 then (if 45 \<le> c \<and> c \<le> 46 then tr23
            else Err)
          else if c > 57 then (if c > 90 then (if 94 \<le> c \<and> c \<le> 122 then tr23
              else Err)
            else if c \<ge> 65 then tr23
            else Err)
          else tr23)
        else tr23)
     else Err)"

definition http_case_14 :: "nat \<Rightarrow> int \<Rightarrow> int \<Rightarrow> target" where
  "http_case_14 s c w =
    (if s = 14 then (if c = 33 \<or> c = 124 \<or> c = 126 then st 14
        else if c = 58 then tr27
        else if c < 42 then (if c < 10 then (if 1 \<le> c \<and> c \<le> 8 then st 14
            else Err)
          else if c > 31 then (if 35 \<le> c \<and> c \<le> 39 then st 14
            else Err)
          else st 14)
        else if c > 43 then (if c < 48 then (if 45 \<le> c \<and> c \<le> 46 then st 14
            else Err)
          else if c > 57 then (if c > 90 then (if 94 \<le> c \<and> c \<le> 122 then st 14
              else Err)
            else if c \<ge> 65 then st 14
            else Err)
          else st 14)
        else st 14)
     else if s = 15 then (if c = 0 \<or> c = 127 then Err
        else if c = 9 \<or> c = 32 then tr29
        else if c = 10 then tr30
        else if c = 13 then tr31
        else tr28)
     else if s = 16 then (if c = 0 \<or> c = 127 then Err
        else if c = 10 then tr33
        else if c = 13 then tr34
        else st 16)
     else if s = 17 then (if c = 10 then st 13
        else Err)
     else Err)"

definition http_case_18 :: "nat \<Rightarrow> int \<Rightarrow> int \<Rightarrow> target" where
  "http_case_18 s c w =
    (if s = 348 then (if c = 33 \<or> c = 124 \<or> c = 126 then st 14
        else if c = 58 then tr27
        else if c < 42 then (if c < 10 then (if 1 \<le> c \<and> c \<le> 8 then st 14
            else Err)
          else if c > 31 then (if 35 \<le> c \<and> c \<le> 39 then st 14
            else Err)
          else st 14)
        else if c > 43 then (if c < 48 then (if 45 \<le> c \<and> c \<le> 46 then st 14
            else Err)
          else if c > 57 then (if c > 90 then (if 94 \<le> c \<and> c \<le> 122 then st 14
              else Err)
            else if c \<ge> 65 then st 14
            else Err)
          else st 14)
        else st 14)
     else if s = 18 then (if c = 10 then tr36
        else if c = 33 \<or> c = 124 \<or> c = 126 then st 14
        else if c = 58 then tr27
        else if c < 42 then (if c < 11 then (if 1 \<le> c \<and> c \<le> 8 then st 14
            else Err)
          else if c > 31 then (if 35 \<le> c \<and> c \<le> 39 then st 14
            else Err)
          else st 14)
        else if c > 43 then (if c < 48 then (if 45 \<le> c \<and> c \<le> 46 then st 14
            else Err)
          else if c > 57 then (if c > 90 then (if 94 \<le> c \<and> c \<le> 122 then st 14
              else Err)
            else if c \<ge> 65 then st 14
            else Err)
          else st 14)
        else st 14)
     else if s = 19 then (if w = 32 then tr37
        else if w = 33 \<or> w = 59 \<or> w = 61 \<or> w = 95 \<or> w = 126 \<or> w = 606 \<or> w = 635 \<or> w = 637 then st 19
        else if w = 35 then tr39
        else if w = 37 then st 24
        else if w = 47 then st 26
        else if w = 63 then tr42
        else if w < 64 then (if 36 \<le> w \<and> w \<le> 57 then st 19
          else Err)
        else if w > 90 then (if 97 \<le> w \<and> w \<le> 122 then st 19
          else Err)
        else st 19)
     else Err)"

definition http_case_20 :: "nat \<Rightarrow> int \<Rightarrow> int \<Rightarrow> target" where
  "http_case_20 s c w =
    (if s = 20 then (if w = 32 then tr44
        else if w = 33 \<or> w = 61 \<or> w = 95 \<or> w = 126 \<or> w = 606 \<or> w = 635 \<or> w = 637 then tr43
        else if w = 37 then tr45
        else if w < 36 then (if w \<le> - 1 then tr43
          else Err)
        else if w > 59 then (if w > 90 then (if 97 \<le> w \<and> w \<le> 122 then tr43
            else Err)
          else if w \<ge> 63 then tr43
          else Err)
        else tr43)
     else if s = 21 then (if w = 32 then tr47
        else if w = 33 \<or> w = 61 \<or> w = 95 \<or> w = 126 \<or> w = 606 \<or> w = 635 \<or> w = 637 then st 21
        else if w = 37 then st 22
        else if w < 36 then (if w \<le> - 1 then st 21
          else Err)
        else if w > 59 then (if w > 90 then (if 97 \<le> w \<and> w \<le> 122 then st 21
            else Err)
          else if w \<ge> 63 then st 21
          else Err)
        else st 21)
     else if s = 22 then (if c < 65 then (if 48 \<le> c \<and> c \<le> 57 then st 23
          else Err)
        else if c > 70 then (if 97 \<le> c \<and> c \<le> 102 then st 23
          else Err)
        else st 23)
     else if s = 23 then (if c < 65 then (if 48 \<le> c \<and> c \<le> 57 then st 21
          else Err)
        else if c > 70 then (if 97 \<le> c \<and> c \<le> 102 then st 21
          else Err)
        else st 21)
     else if s = 24 then (if c < 65 then (if 48 \<le> c \<and> c \<le> 57 then st 25
          else Err)
        else if c > 70 then (if 97 \<le> c \<and> c \<le> 102 then st 25
          else Err)
        else st 25)
     else Err)"

definition http_case_25 :: "nat \<Rightarrow> int \<Rightarrow> int \<Rightarrow> target" where
  "http_case_25 s c w =
    (if s = 25 then (if c < 65 then (if 48 \<le> c \<and> c \<le> 57 then st 19
          else Err)
        else if c > 70 then (if 97 \<le> c \<and> c \<le> 102 then st 19
          else Err)
        else st 19)
     else if s = 26 then (if w = 32 then tr37
        else if w = 33 \<or> w = 61 \<or> w = 95 \<or> w = 126 \<or> w = 606 \<or> w = 635 \<or> w = 637 then st 26
        else if w = 35 then tr39
        else if w = 37 then st 27
        else if w = 63 then tr42
        else if w < 36 then (if w \<le> - 1 then st 26
          else Err)
        else if w > 59 then (if w > 90 then (if 97 \<le> w \<and> w \<le> 122 then st 26
            else Err)
          else if w \<ge> 64 then st 26
          else Err)
        else st 26)
     else if s = 27 then (if c < 65 then (if 48 \<le> c \<and> c \<le> 57 then st 28
          else Err)
        else if c > 70 then (if 97 \<le> c \<and> c \<le> 102 then st 28
          else Err)
        else st 28)
     else if s = 28 then (if c < 65 then (if 48 \<le> c \<and> c \<le> 57 then st 26
          else Err)
        else if c > 70 then (if 97 \<le> c \<and> c \<le> 102 then st 26
          else Err)
        else st 26)
     else Err)"

definition http_case_29 :: "nat \<Rightarrow> int \<Rightarrow> int \<Rightarrow> target" where
  "http_case_29 s c w =
    (if s = 29 then (if w = 32 then tr54
        else if w = 33 \<or> w = 61 \<or> w = 95 \<or> w = 126 \<or> w = 606 \<or> w = 635 \<or> w = 637 then tr53
        else if w = 35 then tr55
        else if w = 37 then tr56
        else if w < 36 then (if w \<le> - 1 then tr53
          else Err)
        else if w > 59 then (if w > 90 then (if 97 \<le> w \<and> w \<le> 122 then tr53
            else Err)
          else if w \<ge> 63 then tr53
          else Err)
        else tr53)
     else if s = 30 then (if w = 32 then tr58
        else if w = 33 \<or> w = 61 \<or> w = 95 \<or> w = 126 \<or> w = 606 \<or> w = 635 \<or> w = 637 then st 30
        else if w = 35 then tr59
        else if w = 37 then st 31
        else if w < 36 then (if w \<le> - 1 then st 30
          else Err)
        else if w > 59 then (if w > 90 then (if 97 \<le> w \<and> w \<le> 122 then st 30
            else Err)
          else if w \<ge> 63 then st 30
          else Err)
        else st 30)
     else if s = 31 then (if c < 65 then (if 48 \<le> c \<and> c \<le> 57 then st 32
          else Err)
        else if c > 70 then (if 97 \<le> c \<and> c \<le> 102 then st 32
          else Err)
        else st 32)
     else if s = 32 then (if c < 65 then (if 48 \<le> c \<and> c \<le> 57 then st 30
          else Err)
        else if c > 70 then (if 97 \<le> c \<and> c \<le> 102 then st 30
          else Err)
        else st 30)
     else Err)"

definition http_case_33 :: "nat \<Rightarrow> int \<Rightarrow> int \<Rightarrow> target" where
  "http_case_33 s c w =
    (if s = 33 then (if w = 32 then tr37
        else if w = 33 \<or> w = 61 \<or> w = 95 \<or> w = 126 \<or> w = 606 \<or> w = 635 \<or> w = 637 then st 26
        else if w = 35 then tr39
        else if w = 37 then st 27
        else if w = 47 then st 34
        else if w = 63 then tr42
        else if w < 36 then (if w \<le> - 1 then st 26
          else Err)
        else if w > 59 then (if w > 90 then (if 97 \<le> w \<and> w \<le> 122 then st 26
            else Err)
          else if w \<ge> 64 then st 26
          else Err)
        else st 26)
     else if s = 34 then (if w = 32 then tr37
        else if w = 33 \<or> w = 61 \<or> w = 95 \<or> w = 126 \<or> w = 606 \<or> w = 635 \<or> w = 637 then st 35
        else if w = 35 then tr39
        else if w = 37 then st 36
        else if w = 47 then st 26
        else if w = 58 then st 38
        else if w = 63 then tr42
        else if w = 64 then st 42
        else if w = 91 then st 47
        else if w < 65 then (if 36 \<le> w \<and> w \<le> 59 then st 35
          else Err)
        else if w > 90 then (if 97 \<le> w \<and> w \<le> 122 then st 35
          else Err)
        else st 35)
     else Err)"

definition http_case_35 :: "nat \<Rightarrow> int \<Rightarrow> int \<Rightarrow> target" where
  "http_case_35 s c w =
    (if s = 35 then (if w = 32 then tr37
        else if w = 33 \<or> w = 61 \<or> w = 95 \<or> w = 126 \<or> w = 606 \<or> w = 635 \<or> w = 637 then st 35
        else if w = 35 then tr39
        else if w = 37 then st 36
        else if w = 47 then st 26
        else if w = 58 then st 38
        else if w = 63 then tr42
        else if w = 64 then st 42
        else if w < 65 then (if 36 \<le> w \<and> w \<le> 59 then st 35
          else Err)
        else if w > 90 then (if 97 \<le> w \<and> w \<le> 122 then st 35
          else Err)
        else st 35)
     else if s = 36 then (if c < 65 then (if 48 \<le> c \<and> c \<le> 57 then st 37
          else Err)
        else if c > 70 then (if 97 \<le> c \<and> c \<le> 102 then st 37
          else Err)
        else st 37)
     else if s = 37 then (if c < 65 then (if 48 \<le> c \<and> c \<le> 57 then st 35
          else Err)
        else if c > 70 then (if 97 \<le> c \<and> c \<le> 102 then st 35
          else Err)
        else st 35)
     else if s = 38 then (if w = 32 then tr37
        else if w = 33 \<or> w = 61 \<or> w = 95 \<or> w = 126 \<or> w = 606 \<or> w = 635 \<or> w = 637 then st 39
        else if w = 35 then tr39
        else if w = 37 then st 40
        else if w = 47 then st 26
        else if w = 63 then tr42
        else if w = 64 then st 42
        else if w < 58 then (if w > 46 then (if 48 \<le> w \<and> w \<le> 57 then st 38
            else Err)
          else if w \<ge> 36 then st 39
          else Err)
        else if w > 59 then (if w > 90 then (if 97 \<le> w \<and> w \<le> 122 then st 39
            else Err)
          else if w \<ge> 65 then st 39
          else Err)
        else st 39)
     else Err)"

definition http_case_39 :: "nat \<Rightarrow> int \<Rightarrow> int \<Rightarrow> target" where
  "http_case_39 s c w =
    (if s = 39 then (if w = 33 \<or> w = 61 \<or> w = 95 \<or> w = 126 \<or> w = 606 \<or> w = 635 \<or> w = 637 then st 39
        else if w = 37 then st 40
        else if w = 64 then st 42
        else if w < 48 then (if 36 \<le> w \<and> w \<le> 46 then st 39
          else Err)
        else if w > 59 then (if w > 90 then (if 97 \<le> w \<and> w \<le> 122 then st 39
            else Err)
          else if w \<ge> 65 then st 39
          else Err)
        else st 39)
     else if s = 40 then (if c < 65 then (if 48 \<le> c \<and> c \<le> 57 then st 41
          else Err)
        else if c > 70 then (if 97 \<le> c \<and> c \<le> 102 then st 41
          else Err)
        else st 41)
     else if s = 41 then (if c < 65 then (if 48 \<le> c \<and> c \<le> 57 then st 39
          else Err)
        else if c > 70 then (if 97 \<le> c \<and> c \<le> 102 then st 39
          else Err)
        else st 39)
     else if s = 42 then (if w = 32 then tr37
        else if w = 33 \<or> w = 61 \<or> w = 95 \<or> w = 126 \<or> w = 606 \<or> w = 635 \<or> w = 637 then st 43
        else if w = 35 then tr39
        else if w = 37 then st 44
        else if w = 47 then st 26
        else if w = 58 then st 46
        else if w = 63 then tr42
        else if w = 91 then st 47
        else if w < 65 then (if 36 \<le> w \<and> w \<le> 59 then st 43
          else Err)
        else if w > 90 then (if 97 \<le> w \<and> w \<le> 122 then st 43
          else Err)
        else st 43)
     else Err)"

definition http_case_43 :: "nat \<Rightarrow> int \<Rightarrow> int \<Rightarrow> target" where
  "http_case_43 s c w =
    (if s = 43 then (if w = 32 then tr37
        else if w = 33 \<or> w = 61 \<or> w = 95 \<or> w = 126 \<or> w = 606 \<or> w = 635 \<or> w = 637 then st 43
        else if w = 35 then tr39
        else if w = 37 then st 44
        else if w = 47 then st 26
        else if w = 58 then st 46
        else if w = 63 then tr42
        else if w < 65 then (if 36 \<le> w \<and> w \<le> 59 then st 43
          else Err)
        else if w > 90 then (if 97 \<le> w \<and> w \<le> 122 then st 43
          else Err)
        else st 43)
     else if s = 44 then (if c < 65 then (if 48 \<le> c \<and> c \<le> 57 then st 45
          else Err)
        else if c > 70 then (if 97 \<le> c \<and> c \<le> 102 then st 45
          else Err)
        else st 45)
     else if s = 45 then (if c < 65 then (if 48 \<le> c \<and> c \<le> 57 then st 43
          else Err)
        else if c > 70 then (if 97 \<le> c \<and> c \<le> 102 then st 43
          else Err)
        else st 43)
     else if s = 46 then (if c = 32 then tr37
        else if c = 35 then tr39
        else if c = 47 then st 26
        else if c = 63 then tr42
        else if 48 \<le> c \<and> c \<le> 57 then st 46
        else Err)
     else if s = 47 then (if c = 6 then st 48
        else if c = 58 then st 167
        else if c = 118 then st 169
        else if c < 65 then (if 48 \<le> c \<and> c \<le> 57 then st 91
          else Err)
        else if c > 70 then (if 97 \<le> c \<and> c \<le> 102 then st 91
          else Err)
        else st 91)
     else if s = 48 then (if c < 65 then (if 48 \<le> c \<and> c \<le> 57 then st 49
          else Err)
        else if c > 70 then (if 97 \<le> c \<and> c \<le> 102 then st 49
          else Err)
        else st 49)
     else if s = 49 then (if c = 58 then st 53
        else if c < 65 then (if 48 \<le> c \<and> c \<le> 57 then st 50
          else Err)
        else if c > 70 then (if 97 \<le> c \<and> c \<le> 102 then st 50
          else Err)
        else st 50)
     else if s = 50 then (if c = 58 then st 53
        else if c < 65 then (if 48 \<le> c \<and> c \<le> 57 then st 51
          else Err)
        else if c > 70 then (if 97 \<le> c \<and> c \<le> 102 then st 51
          else Err)
        else st 51)
     else Err)"

definition http_case_51 :: "nat \<Rightarrow> int \<Rightarrow> int \<Rightarrow> target" where
  "http_case_51 s c w =
    (if s = 51 then (if c = 58 then st 53
        else if c < 65 then (if 48 \<le> c \<and> c \<le> 57 then st 52
          else Err)
        else if c > 70 then (if 97 \<le> c \<and> c \<le> 102 then st 52
          else Err)
        else st 52)
     else if s = 52 then (if c = 58 then st 53
        else Err)
     else if s = 53 then (if c = 49 then st 84
        else if c = 50 then st 87
        else if c < 65 then (if 48 \<le> c \<and> c \<le> 57 then st 54
          else Err)
        else if c > 70 then (if 97 \<le> c \<and> c \<le> 102 then st 90
          else Err)
        else st 90)
     else if s = 54 then (if c = 46 then st 55
        else if c = 58 then st 80
        else if c < 65 then (if 48 \<le> c \<and> c \<le> 57 then st 77
          else Err)
        else if c > 70 then (if 97 \<le> c \<and> c \<le> 102 then st 77
          else Err)
        else st 77)
     else if s = 55 then (if c = 49 then st 72
        else if c = 50 then st 74
        else if 48 \<le> c \<and> c \<le> 57 then st 56
        else Err)
     else if s = 56 then (if c = 46 then st 57
        else Err)
     else if s = 57 then (if c = 49 then st 67
        else if c = 50 then st 69
        else if 48 \<le> c \<and> c \<le> 57 then st 58
        else Err)
     else if s = 58 then (if c = 46 then st 59
        else Err)
     else if s = 59 then (if c = 49 then st 62
        else if c = 50 then st 64
        else if 48 \<le> c \<and> c \<le> 57 then st 60
        else Err)
     else if s = 60 then (if c = 93 then st 61
        else Err)
     else if s = 61 then (if c = 32 then tr37
        else if c = 35 then tr39
        else if c = 47 then st 26
        else if c = 58 then st 46
        else if c = 63 then tr42
        else Err)
     else if s = 62 then (if c = 93 then st 61
        else if 48 \<le> c \<and> c \<le> 57 then st 63
        else Err)
     else if s = 63 then (if c = 93 then st 61
        else if 48 \<le> c \<and> c \<le> 57 then st 60
        else Err)
     else if s = 64 then (if c = 48 then st 65
        else if c = 53 then st 66
        else if c = 93 then st 61
        else Err)
     else Err)"

definition http_case_65 :: "nat \<Rightarrow> int \<Rightarrow> int \<Rightarrow> target" where
  "http_case_65 s c w =
    (if s = 65 then (if 48 \<le> c \<and> c \<le> 57 then st 60
        else Err)
     else if s = 66 then (if c = 48 then st 60
        else Err)
     else if s = 67 then (if c = 46 then st 59
        else if 48 \<le> c \<and> c \<le> 57 then st 68
        else Err)
     else if s = 68 then (if c = 46 then st 59
        else if 48 \<le> c \<and> c \<le> 57 then st 58
        else Err)
     else if s = 69 then (if c = 46 then st 59
        else if c = 48 then st 70
        else if c = 53 then st 71
        else Err)
     else if s = 70 then (if 48 \<le> c \<and> c \<le> 57 then st 58
        else Err)
     else if s = 71 then (if c = 48 then st 58
        else Err)
     else if s = 72 then (if c = 46 then st 57
        else if 48 \<le> c \<and> c \<le> 57 then st 73
        else Err)
     else if s = 73 then (if c = 46 then st 57
        else if 48 \<le> c \<and> c \<le> 57 then st 56
        else Err)
     else if s = 74 then (if c = 46 then st 57
        else if c = 48 then st 75
        else if c = 53 then st 76
        else Err)
     else if s = 75 then (if 48 \<le> c \<and> c \<le> 57 then st 56
        else Err)
     else if s = 76 then (if c = 48 then st 56
        else Err)
     else if s = 77 then (if c = 58 then st 80
        else if c < 65 then (if 48 \<le> c \<and> c \<le> 57 then st 78
          else Err)
        else if c > 70 then (if 97 \<le> c \<and> c \<le> 102 then st 78
          else Err)
        else st 78)
     else if s = 78 then (if c = 58 then st 80
        else if c < 65 then (if 48 \<le> c \<and> c \<le> 57 then st 79
          else Err)
        else if c > 70 then (if 97 \<le> c \<and> c \<le> 102 then st 79
          else Err)
        else st 79)
     else if s = 79 then (if c = 58 then st 80
        else Err)
     else if s = 80 then (if c < 65 then (if 48 \<le> c \<and> c \<le> 57 then st 81
          else Err)
        else if c > 70 then (if 97 \<le> c \<and> c \<le> 102 then st 81
          else Err)
        else st 81)
     else Err)"

definition http_case_81 :: "nat \<Rightarrow> int \<Rightarrow> int \<Rightarrow> target" where
  "http_case_81 s c w =
    (if s = 81 then (if c = 93 then st 61
        else if c < 65 then (if 48 \<le> c \<and> c \<le> 57 then st 82
          else Err)
        else if c > 70 then (if 97 \<le> c \<and> c \<le> 102 then st 82
          else Err)
        else st 82)
     else if s = 82 then (if c = 93 then st 61
        else if c < 65 then (if 48 \<le> c \<and> c \<le> 57 then st 83
          else Err)
        else if c > 70 then (if 97 \<le> c \<and> c \<le> 102 then st 83
          else Err)
        else st 83)
     else if s = 83 then (if c = 93 then st 61
        else if c < 65 then (if 48 \<le> c \<and> c \<le> 57 then st 60
          else Err)
        else if c > 70 then (if 97 \<le> c \<and> c \<le> 102 then st 60
          else Err)
        else st 60)
     else if s = 84 then (if c = 46 then st 55
        else if c = 58 then st 80
        else if c < 65 then (if 48 \<le> c \<and> c \<le> 57 then st 85
          else Err)
        else if c > 70 then (if 97 \<le> c \<and> c \<le> 102 then st 77
          else Err)
        else st 77)
     else if s = 85 then (if c = 46 then st 55
        else if c = 58 then st 80
        else if c < 65 then (if 48 \<le> c \<and> c \<le> 57 then st 86
          else Err)
        else if c > 70 then (if 97 \<le> c \<and> c \<le> 102 then st 78
          else Err)
        else st 78)
     else if s = 86 then (if c = 46 then st 55
        else if c = 58 then st 80
        else if c < 65 then (if 48 \<le> c \<and> c \<le> 57 then st 79
          else Err)
        else if c > 70 then (if 97 \<le> c \<and> c \<le> 102 then st 79
          else Err)
        else st 79)
     else if s = 87 then (if c = 46 then st 55
        else if c = 48 then st 88
        else if c = 53 then st 89
        else if c = 58 then st 80
        else if c < 65 then (if 49 \<le> c \<and> c \<le> 57 then st 77
          else Err)
        else if c > 70 then (if 97 \<le> c \<and> c \<le> 102 then st 77
          else Err)
        else st 77)
     else if s = 88 then (if c = 58 then st 80
        else if c < 65 then (if 48 \<le> c \<and> c \<le> 57 then st 86
          else Err)
        else if c > 70 then (if 97 \<le> c \<and> c \<le> 102 then st 78
          else Err)
        else st 78)
     else if s = 89 then (if c = 48 then st 86
        else if c = 58 then st 80
        else if c < 65 then (if 49 \<le> c \<and> c \<le> 57 then st 78
          else Err)
        else if c > 70 then (if 97 \<le> c \<and> c \<le> 102 then st 78
          else Err)
        else st 78)
     else Err)"

definition http_case_90 :: "nat \<Rightarrow> int \<Rightarrow> int \<Rightarrow> target" where
  "http_case_90 s c w =
    (if s = 90 then (if c = 58 then st 80
        else if c < 65 then (if 48 \<le> c \<and> c \<le> 57 then st 77
          else Err)
        else if c > 70 then (if 97 \<le> c \<and> c \<le> 102 then st 77
          else Err)
        else st 77)
     else if s = 91 then (if c = 58 then st 95
        else if c < 65 then (if 48 \<le> c \<and> c \<le> 57 then st 92
          else Err)
        else if c > 70 then (if 97 \<le> c \<and> c \<le> 102 then st 92
          else Err)
        else st 92)
     else if s = 92 then (if c = 58 then st 95
        else if c < 65 then (if 48 \<le> c \<and> c \<le> 57 then st 93
          else Err)
        else if c > 70 then (if 97 \<le> c \<and> c \<le> 102 then st 93
          else Err)
        else st 93)
     else if s = 93 then (if c = 58 then st 95
        else if c < 65 then (if 48 \<le> c \<and> c \<le> 57 then st 94
          else Err)
        else if c > 70 then (if 97 \<le> c \<and> c \<le> 102 then st 94
          else Err)
        else st 94)
     else if s = 94 then (if c = 58 then st 95
        else Err)
     else if s = 95 then (if c = 58 then st 166
        else if c < 65 then (if 48 \<le> c \<and> c \<le> 57 then st 96
          else Err)
        else if c > 70 then (if 97 \<le> c \<and> c \<le> 102 then st 96
          else Err)
        else st 96)
     else if s = 96 then (if c = 58 then st 100
        else if c < 65 then (if 48 \<le> c \<and> c \<le> 57 then st 97
          else Err)
        else if c > 70 then (if 97 \<le> c \<and> c \<le> 102 then st 97
          else Err)
        else st 97)
     else if s = 97 then (if c = 58 then st 100
        else if c < 65 then (if 48 \<le> c \<and> c \<le> 57 then st 98
          else Err)
        else if c > 70 then (if 97 \<le> c \<and> c \<le> 102 then st 98
          else Err)
        else st 98)
     else if s = 98 then (if c = 58 then st 100
        else if c < 65 then (if 48 \<le> c \<and> c \<le> 57 then st 99
          else Err)
        else if c > 70 then (if 97 \<le> c \<and> c \<le> 102 then st 99
          else Err)
        else st 99)
     else if s = 99 then (if c = 58 then st 100
        else Err)
     else if s = 100 then (if c = 58 then st 165
        else if c < 65 then (if 48 \<le> c \<and> c \<le> 57 then st 101
          else Err)
        else if c > 70 then (if 97 \<le> c \<and> c \<le> 102 then st 101
          else Err)
        else st 101)
     else Err)"

definition http_case_101 :: "nat \<Rightarrow> int \<Rightarrow> int \<Rightarrow> target" where
  "http_case_101 s c w =
    (if s = 101 then (if c = 58 then st 105
        else if c < 65 then (if 48 \<le> c \<and> c \<le> 57 then st 102
          else Err)
        else if c > 70 then (if 97 \<le> c \<and> c \<le> 102 then st 102
          else Err)
        else st 102)
     else if s = 102 then (if c = 58 then st 105
        else if c < 65 then (if 48 \<le> c \<and> c \<le> 57 then st 103
          else Err)
        else if c > 70 then (if 97 \<le> c \<and> c \<le> 102 then st 103
          else Err)
        else st 103)
     else if s = 103 then (if c = 58 then st 105
        else if c < 65 then (if 48 \<le> c \<and> c \<le> 57 then st 104
          else Err)
        else if c > 70 then (if 97 \<le> c \<and> c \<le> 102 then st 104
          else Err)
        else st 104)
     else if s = 104 then (if c = 58 then st 105
        else Err)
     else if s = 105 then (if c = 58 then st 164
        else if c < 65 then (if 48 \<le> c \<and> c \<le> 57 then st 106
          else Err)
        else if c > 70 then (if 97 \<le> c \<and> c \<le> 102 then st 106
          else Err)
        else st 106)
     else if s = 106 then (if c = 58 then st 110
        else if c < 65 then (if 48 \<le> c \<and> c \<le> 57 then st 107
          else Err)
        else if c > 70 then (if 97 \<le> c \<and> c \<le> 102 then st 107
          else Err)
        else st 107)
     else if s = 107 then (if c = 58 then st 110
        else if c < 65 then (if 48 \<le> c \<and> c \<le> 57 then st 108
          else Err)
        else if c > 70 then (if 97 \<le> c \<and> c \<le> 102 then st 108
          else Err)
        else st 108)
     else if s = 108 then (if c = 58 then st 110
        else if c < 65 then (if 48 \<le> c \<and> c \<le> 57 then st 109
          else Err)
        else if c > 70 then (if 97 \<le> c \<and> c \<le> 102 then st 109
          else Err)
        else st 109)
     else if s = 109 then (if c = 58 then st 110
        else Err)
     else if s = 110 then (if c = 58 then st 163
        else if c < 65 then (if 48 \<le> c \<and> c \<le> 57 then st 111
          else Err)
        else if c > 70 then (if 97 \<le> c \<and> c \<le> 102 then st 111
          else Err)
        else st 111)
     else if s = 111 then (if c = 58 then st 115
        else if c < 65 then (if 48 \<le> c \<and> c \<le> 57 then st 112
          else Err)
        else if c > 70 then (if 97 \<le> c \<and> c \<le> 102 then st 112
          else Err)
        else st 112)
     else Err)"

definition http_case_112 :: "nat \<Rightarrow> int \<Rightarrow> int \<Rightarrow> target" where
  "http_case_112 s c w =
    (if s = 112 then (if c = 58 then st 115
        else if c < 65 then (if 48 \<le> c \<and> c \<le> 57 then st 113
          else Err)
        else if c > 70 then (if 97 \<le> c \<and> c \<le> 102 then st 113
          else Err)
        else st 113)
     else if s = 113 then (if c = 58 then st 115
        else if c < 65 then (if 48 \<le> c \<and> c \<le> 57 then st 114
          else Err)
        else if c > 70 then (if 97 \<le> c \<and> c \<le> 102 then st 114
          else Err)
        else st 114)
     else if s = 114 then (if c = 58 then st 115
        else Err)
     else if s = 115 then (if c = 58 then st 151
        else if c < 65 then (if 48 \<le> c \<and> c \<le> 57 then st 116
          else Err)
        else if c > 70 then (if 97 \<le> c \<and> c \<le> 102 then st 116
          else Err)
        else st 116)
     else if s = 116 then (if c = 58 then st 120
        else if c < 65 then (if 48 \<le> c \<and> c \<le> 57 then st 117
          else Err)
        else if c > 70 then (if 97 \<le> c \<and> c \<le> 102 then st 117
          else Err)
        else st 117)
     else if s = 117 then (if c = 58 then st 120
        else if c < 65 then (if 48 \<le> c \<and> c \<le> 57 then st 118
          else Err)
        else if c > 70 then (if 97 \<le> c \<and> c \<le> 102 then st 118
          else Err)
        else st 118)
     else if s = 118 then (if c = 58 then st 120
        else if c < 65 then (if 48 \<le> c \<and> c \<le> 57 then st 119
          else Err)
        else if c > 70 then (if 97 \<le> c \<and> c \<le> 102 then st 119
          else Err)
        else st 119)
     else if s = 119 then (if c = 58 then st 120
        else Err)
     else if s = 120 then (if c = 58 then st 150
        else if c < 65 then (if 48 \<le> c \<and> c \<le> 57 then st 121
          else Err)
        else if c > 70 then (if 97 \<le> c \<and> c \<le> 102 then st 121
          else Err)
        else st 121)
     else if s = 121 then (if c = 58 then st 125
        else if c < 65 then (if 48 \<le> c \<and> c \<le> 57 then st 122
          else Err)
        else if c > 70 then (if 97 \<le> c \<and> c \<le> 102 then st 122
          else Err)
        else st 122)
     else if s = 122 then (if c = 58 then st 125
        else if c < 65 then (if 48 \<le> c \<and> c \<le> 57 then st 123
          else Err)
        else if c > 70 then (if 97 \<le> c \<and> c \<le> 102 then st 123
          else Err)
        else st 123)
     else Err)"

definition http_case_123 :: "nat \<Rightarrow> int \<Rightarrow> int \<Rightarrow> target" where
  "http_case_123 s c w =
    (if s = 123 then (if c = 58 then st 125
        else if c < 65 then (if 48 \<le> c \<and> c \<le> 57 then st 124
          else Err)
        else if c > 70 then (if 97 \<le> c \<and> c \<le> 102 then st 124
          else Err)
        else st 124)
     else if s = 124 then (if c = 58 then st 125
        else Err)
     else if s = 125 then (if c = 58 then st 126
        else if c < 65 then (if 48 \<le> c \<and> c \<le> 57 then st 121
          else Err)
        else if c > 70 then (if 97 \<le> c \<and> c \<le> 102 then st 121
          else Err)
        else st 121)
     else if s = 126 then (if c = 49 then st 143
        else if c = 50 then st 146
        else if c = 93 then st 61
        else if c < 48 then (if 2 \<le> c \<and> c \<le> 3 then st 48
          else Err)
        else if c > 57 then (if c > 70 then (if 97 \<le> c \<and> c \<le> 102 then st 149
            else Err)
          else if c \<ge> 65 then st 149
          else Err)
        else st 127)
     else if s = 127 then (if c = 46 then st 55
        else if c = 58 then st 131
        else if c = 93 then st 61
        else if c < 65 then (if 48 \<le> c \<and> c \<le> 57 then st 128
          else Err)
        else if c > 70 then (if 97 \<le> c \<and> c \<le> 102 then st 128
          else Err)
        else st 128)
     else if s = 128 then (if c = 58 then st 131
        else if c = 93 then st 61
        else if c < 65 then (if 48 \<le> c \<and> c \<le> 57 then st 129
          else Err)
        else if c > 70 then (if 97 \<le> c \<and> c \<le> 102 then st 129
          else Err)
        else st 129)
     else if s = 129 then (if c = 58 then st 131
        else if c = 93 then st 61
        else if c < 65 then (if 48 \<le> c \<and> c \<le> 57 then st 130
          else Err)
        else if c > 70 then (if 97 \<le> c \<and> c \<le> 102 then st 130
          else Err)
        else st 130)
     else if s = 130 then (if c = 58 then st 131
        else if c = 93 then st 61
        else Err)
     else if s = 131 then (if c = 49 then st 136
        else if c = 50 then st 139
        else if c < 65 then (if 48 \<le> c \<and> c \<le> 57 then st 132
          else Err)
        else if c > 70 then (if 97 \<le> c \<and> c \<le> 102 then st 142
          else Err)
        else st 142)
     else Err)"

definition http_case_132 :: "nat \<Rightarrow> int \<Rightarrow> int \<Rightarrow> target" where
  "http_case_132 s c w =
    (if s = 132 then (if c = 46 then st 55
        else if c = 58 then st 80
        else if c = 93 then st 61
        else if c < 65 then (if 48 \<le> c \<and> c \<le> 57 then st 133
          else Err)
        else if c > 70 then (if 97 \<le> c \<and> c \<le> 102 then st 133
          else Err)
        else st 133)
     else if s = 133 then (if c = 58 then st 80
        else if c = 93 then st 61
        else if c < 65 then (if 48 \<le> c \<and> c \<le> 57 then st 134
          else Err)
        else if c > 70 then (if 97 \<le> c \<and> c \<le> 102 then st 134
          else Err)
        else st 134)
     else if s = 134 then (if c = 58 then st 80
        else if c = 93 then st 61
        else if c < 65 then (if 48 \<le> c \<and> c \<le> 57 then st 135
          else Err)
        else if c > 70 then (if 97 \<le> c \<and> c \<le> 102 then st 135
          else Err)
        else st 135)
     else if s = 135 then (if c = 58 then st 80
        else if c = 93 then st 61
        else Err)
     else if s = 136 then (if c = 46 then st 55
        else if c = 58 then st 80
        else if c = 93 then st 61
        else if c < 65 then (if 48 \<le> c \<and> c \<le> 57 then st 137
          else Err)
        else if c > 70 then (if 97 \<le> c \<and> c \<le> 102 then st 133
          else Err)
        else st 133)
     else if s = 137 then (if c = 46 then st 55
        else if c = 58 then st 80
        else if c = 93 then st 61
        else if c < 65 then (if 48 \<le> c \<and> c \<le> 57 then st 138
          else Err)
        else if c > 70 then (if 97 \<le> c \<and> c \<le> 102 then st 134
          else Err)
        else st 134)
     else if s = 138 then (if c = 46 then st 55
        else if c = 58 then st 80
        else if c = 93 then st 61
        else if c < 65 then (if 48 \<le> c \<and> c \<le> 57 then st 135
          else Err)
        else if c > 70 then (if 97 \<le> c \<and> c \<le> 102 then st 135
          else Err)
        else st 135)
     else if s = 139 then (if c = 46 then st 55
        else if c = 48 then st 140
        else if c = 53 then st 141
        else if c = 58 then st 80
        else if c = 93 then st 61
        else if c < 65 then (if 49 \<le> c \<and> c \<le> 57 then st 133
          else Err)
        else if c > 70 then (if 97 \<le> c \<and> c \<le> 102 then st 133
          else Err)
        else st 133)
     else if s = 140 then (if c = 58 then st 80
        else if c = 93 then st 61
        else if c < 65 then (if 48 \<le> c \<and> c \<le> 57 then st 138
          else Err)
        else if c > 70 then (if 97 \<le> c \<and> c \<le> 102 then st 134
          else Err)
        else st 134)
     else Err)"

definition http_case_141 :: "nat \<Rightarrow> int \<Rightarrow> int \<Rightarrow> target" where
  "http_case_141 s c w =
    (if s = 141 then (if c = 48 then st 138
        else if c = 58 then st 80
        else if c = 93 then st 61
        else if c < 65 then (if 49 \<le> c \<and> c \<le> 57 then st 134
          else Err)
        else if c > 70 then (if 97 \<le> c \<and> c \<le> 102 then st 134
          else Err)
        else st 134)
     else if s = 142 then (if c = 58 then st 80
        else if c = 93 then st 61
        else if c < 65 then (if 48 \<le> c \<and> c \<le> 57 then st 133
          else Err)
        else if c > 70 then (if 97 \<le> c \<and> c \<le> 102 then st 133
          else Err)
        else st 133)
     else if s = 143 then (if c = 46 then st 55
        else if c = 58 then st 131
        else if c = 93 then st 61
        else if c < 65 then (if 48 \<le> c \<and> c \<le> 57 then st 144
          else Err)
        else if c > 70 then (if 97 \<le> c \<and> c \<le> 102 then st 128
          else Err)
        else st 128)
     else if s = 144 then (if c = 46 then st 55
        else if c = 58 then st 131
        else if c = 93 then st 61
        else if c < 65 then (if 48 \<le> c \<and> c \<le> 57 then st 145
          else Err)
        else if c > 70 then (if 97 \<le> c \<and> c \<le> 102 then st 129
          else Err)
        else st 129)
     else if s = 145 then (if c = 46 then st 55
        else if c = 58 then st 131
        else if c = 93 then st 61
        else if c < 65 then (if 48 \<le> c \<and> c \<le> 57 then st 130
          else Err)
        else if c > 70 then (if 97 \<le> c \<and> c \<le> 102 then st 130
          else Err)
        else st 130)
     else if s = 146 then (if c = 46 then st 55
        else if c = 48 then st 147
        else if c = 53 then st 148
        else if c = 58 then st 131
        else if c = 93 then st 61
        else if c < 65 then (if 49 \<le> c \<and> c \<le> 57 then st 128
          else Err)
        else if c > 70 then (if 97 \<le> c \<and> c \<le> 102 then st 128
          else Err)
        else st 128)
     else if s = 147 then (if c = 58 then st 131
        else if c = 93 then st 61
        else if c < 65 then (if 48 \<le> c \<and> c \<le> 57 then st 145
          else Err)
        else if c > 70 then (if 97 \<le> c \<and> c \<le> 102 then st 129
          else Err)
        else st 129)
     else if s = 148 then (if c = 48 then st 145
        else if c = 58 then st 131
        else if c = 93 then st 61
        else if c < 65 then (if 49 \<le> c \<and> c \<le> 57 then st 129
          else Err)
        else if c > 70 then (if 97 \<le> c \<and> c \<le> 102 then st 129
          else Err)
        else st 129)
     else Err)"

definition http_case_149 :: "nat \<Rightarrow> int \<Rightarrow> int \<Rightarrow> target" where
  "http_case_149 s c w =
    (if s = 149 then (if c = 58 then st 131
        else if c = 93 then st 61
        else if c < 65 then (if 48 \<le> c \<and> c \<le> 57 then st 128
          else Err)
        else if c > 70 then (if 97 \<le> c \<and> c \<le> 102 then st 128
          else Err)
        else st 128)
     else if s = 150 then (if c = 49 then st 143
        else if c = 50 then st 146
        else if c < 48 then (if 2 \<le> c \<and> c \<le> 3 then st 48
          else Err)
        else if c > 57 then (if c > 70 then (if 97 \<le> c \<and> c \<le> 102 then st 149
            else Err)
          else if c \<ge> 65 then st 149
          else Err)
        else st 127)
     else if s = 151 then (if c = 49 then st 156
        else if c = 50 then st 159
        else if c < 48 then (if 2 \<le> c \<and> c \<le> 3 then st 48
          else Err)
        else if c > 57 then (if c > 70 then (if 97 \<le> c \<and> c \<le> 102 then st 162
            else Err)
          else if c \<ge> 65 then st 162
          else Err)
        else st 152)
     else if s = 152 then (if c = 46 then st 55
        else if c = 58 then st 131
        else if c < 65 then (if 48 \<le> c \<and> c \<le> 57 then st 153
          else Err)
        else if c > 70 then (if 97 \<le> c \<and> c \<le> 102 then st 153
          else Err)
        else st 153)
     else if s = 153 then (if c = 58 then st 131
        else if c < 65 then (if 48 \<le> c \<and> c \<le> 57 then st 154
          else Err)
        else if c > 70 then (if 97 \<le> c \<and> c \<le> 102 then st 154
          else Err)
        else st 154)
     else if s = 154 then (if c = 58 then st 131
        else if c < 65 then (if 48 \<le> c \<and> c \<le> 57 then st 155
          else Err)
        else if c > 70 then (if 97 \<le> c \<and> c \<le> 102 then st 155
          else Err)
        else st 155)
     else if s = 155 then (if c = 58 then st 131
        else Err)
     else if s = 156 then (if c = 46 then st 55
        else if c = 58 then st 131
        else if c < 65 then (if 48 \<le> c \<and> c \<le> 57 then st 157
          else Err)
        else if c > 70 then (if 97 \<le> c \<and> c \<le> 102 then st 153
          else Err)
        else st 153)
     else if s = 157 then (if c = 46 then st 55
        else if c = 58 then st 131
        else if c < 65 then (if 48 \<le> c \<and> c \<le> 57 then st 158
          else Err)
        else if c > 70 then (if 97 \<le> c \<and> c \<le> 102 then st 154
          else Err)
        else st 154)
     else Err)"

definition http_case_158 :: "nat \<Rightarrow> int \<Rightarrow> int \<Rightarrow> target" where
  "http_case_158 s c w =
    (if s = 158 then (if c = 46 then st 55
        else if c = 58 then st 131
        else if c < 65 then (if 48 \<le> c \<and> c \<le> 57 then st 155
          else Err)
        else if c > 70 then (if 97 \<le> c \<and> c \<le> 102 then st 155
          else Err)
        else st 155)
     else if s = 159 then (if c = 46 then st 55
        else if c = 48 then st 160
        else if c = 53 then st 161
        else if c = 58 then st 131
        else if c < 65 then (if 49 \<le> c \<and> c \<le> 57 then st 153
          else Err)
        else if c > 70 then (if 97 \<le> c \<and> c \<le> 102 then st 153
          else Err)
        else st 153)
     else if s = 160 then (if c = 58 then st 131
        else if c < 65 then (if 48 \<le> c \<and> c \<le> 57 then st 158
          else Err)
        else if c > 70 then (if 97 \<le> c \<and> c \<le> 102 then st 154
          else Err)
        else st 154)
     else if s = 161 then (if c = 48 then st 158
        else if c = 58 then st 131
        else if c < 65 then (if 49 \<le> c \<and> c \<le> 57 then st 154
          else Err)
        else if c > 70 then (if 97 \<le> c \<and> c \<le> 102 then st 154
          else Err)
        else st 154)
     else if s = 162 then (if c = 58 then st 131
        else if c < 65 then (if 48 \<le> c \<and> c \<le> 57 then st 153
          else Err)
        else if c > 70 then (if 97 \<le> c \<and> c \<le> 102 then st 153
          else Err)
        else st 153)
     else if s = 163 then (if c < 48 then (if 2 \<le> c \<and> c \<le> 3 then st 48
          else Err)
        else if c > 57 then (if c > 70 then (if 97 \<le> c \<and> c \<le> 102 then st 49
            else Err)
          else if c \<ge> 65 then st 49
          else Err)
        else st 49)
     else if s = 164 then (if 2 \<le> c \<and> c \<le> 3 then st 48
        else Err)
     else if s = 165 then (if c = 3 then st 48
        else Err)
     else if s = 166 then (if c = 4 then st 48
        else Err)
     else if s = 167 then (if c = 58 then st 168
        else Err)
     else if s = 168 then (if c = 49 then st 143
        else if c = 50 then st 146
        else if c = 93 then st 61
        else if c < 48 then (if 2 \<le> c \<and> c \<le> 5 then st 48
          else Err)
        else if c > 57 then (if c > 70 then (if 97 \<le> c \<and> c \<le> 102 then st 149
            else Err)
          else if c \<ge> 65 then st 149
          else Err)
        else st 127)
     else Err)"

definition http_case_169 :: "nat \<Rightarrow> int \<Rightarrow> int \<Rightarrow> target" where
  "http_case_169 s c w =
    (if s = 169 then (if c < 65 then (if 48 \<le> c \<and> c \<le> 57 then st 170
          else Err)
        else if c > 70 then (if 97 \<le> c \<and> c \<le> 102 then st 170
          else Err)
        else st 170)
     else if s = 170 then (if c = 46 then st 171
        else if c < 65 then (if 48 \<le> c \<and> c \<le> 57 then st 170
          else Err)
        else if c > 70 then (if 97 \<le> c \<and> c \<le> 102 then st 170
          else Err)
        else st 170)
     else if s = 171 then (if w = 33 \<or> w = 36 \<or> w = 61 \<or> w = 95 \<or> w = 126 \<or> w = 606 \<or> w = 635 \<or> w = 637 then st 172
        else if w < 48 then (if 38 \<le> w \<and> w \<le> 46 then st 172
          else Err)
        else if w > 59 then (if w > 90 then (if 97 \<le> w \<and> w \<le> 122 then st 172
            else Err)
          else if w \<ge> 65 then st 172
          else Err)
        else st 172)
     else if s = 172 then (if w = 33 \<or> w = 36 \<or> w = 61 \<or> w = 95 \<or> w = 126 \<or> w = 606 \<or> w = 635 \<or> w = 637 then st 172
        else if w = 93 then st 61
        else if w < 48 then (if 38 \<le> w \<and> w \<le> 46 then st 172
          else Err)
        else if w > 59 then (if w > 90 then (if 97 \<le> w \<and> w \<le> 122 then st 172
            else Err)
          else if w \<ge> 65 then st 172
          else Err)
        else st 172)
     else Err)"

definition http_case_173 :: "nat \<Rightarrow> int \<Rightarrow> int \<Rightarrow> target" where
  "http_case_173 s c w =
    (if s = 173 then (if w = 32 then tr37
        else if w = 33 \<or> w = 59 \<or> w = 61 \<or> w = 64 \<or> w = 95 \<or> w = 126 \<or> w = 606 \<or> w = 635 \<or> w = 637 then st 19
        else if w = 35 then tr39
        else if w = 37 then st 24
        else if w = 43 then st 173
        else if w = 47 then st 26
        else if w = 58 then st 174
        else if w = 63 then tr42
        else if w < 45 then (if 36 \<le> w \<and> w \<le> 44 then st 19
          else Err)
        else if w > 57 then (if w > 90 then (if 97 \<le> w \<and> w \<le> 122 then st 173
            else Err)
          else if w \<ge> 65 then st 173
          else Err)
        else st 173)
     else if s = 174 then (if w = 32 then tr6
        else if w = 33 \<or> w = 61 \<or> w = 95 \<or> w = 126 \<or> w = 606 \<or> w = 635 \<or> w = 637 then tr203
        else if w = 35 then tr8
        else if w = 37 then tr204
        else if w = 47 then tr10
        else if w = 63 then tr11
        else if w < 36 then (if w \<le> - 1 then tr203
          else Err)
        else if w > 59 then (if w > 90 then (if 97 \<le> w \<and> w \<le> 122 then tr203
            else Err)
          else if w \<ge> 64 then tr203
          else Err)
        else tr203)
     else if s = 175 then (if c = 32 then tr4
        else if c > 57 then (if 65 \<le> c \<and> c \<le> 90 then st 176
          else Err)
        else if c \<ge> 48 then st 176
        else Err)
     else if s = 176 then (if c = 32 then tr4
        else if c > 57 then (if 65 \<le> c \<and> c \<le> 90 then st 177
          else Err)
        else if c \<ge> 48 then st 177
        else Err)
     else if s = 177 then (if c = 32 then tr4
        else if c > 57 then (if 65 \<le> c \<and> c \<le> 90 then st 178
          else Err)
        else if c \<ge> 48 then st 178
        else Err)
     else Err)"

definition http_case_178 :: "nat \<Rightarrow> int \<Rightarrow> int \<Rightarrow> target" where
  "http_case_178 s c w =
    (if s = 178 then (if c = 32 then tr4
        else if c > 57 then (if 65 \<le> c \<and> c \<le> 90 then st 179
          else Err)
        else if c \<ge> 48 then st 179
        else Err)
     else if s = 179 then (if c = 32 then tr4
        else if c > 57 then (if 65 \<le> c \<and> c \<le> 90 then st 180
          else Err)
        else if c \<ge> 48 then st 180
        else Err)
     else if s = 180 then (if c = 32 then tr4
        else if c > 57 then (if 65 \<le> c \<and> c \<le> 90 then st 181
          else Err)
        else if c \<ge> 48 then st 181
        else Err)
     else if s = 181 then (if c = 32 then tr4
        else if c > 57 then (if 65 \<le> c \<and> c \<le> 90 then st 182
          else Err)
        else if c \<ge> 48 then st 182
        else Err)
     else if s = 182 then (if c = 32 then tr4
        else if c > 57 then (if 65 \<le> c \<and> c \<le> 90 then st 183
          else Err)
        else if c \<ge> 48 then st 183
        else Err)
     else if s = 183 then (if c = 32 then tr4
        else if c > 57 then (if 65 \<le> c \<and> c \<le> 90 then st 184
          else Err)
        else if c \<ge> 48 then st 184
        else Err)
     else if s = 184 then (if c = 32 then tr4
        else if c > 57 then (if 65 \<le> c \<and> c \<le> 90 then st 185
          else Err)
        else if c \<ge> 48 then st 185
        else Err)
     else if s = 185 then (if c = 32 then tr4
        else if c > 57 then (if 65 \<le> c \<and> c \<le> 90 then st 186
          else Err)
        else if c \<ge> 48 then st 186
        else Err)
     else if s = 186 then (if c = 32 then tr4
        else if c > 57 then (if 65 \<le> c \<and> c \<le> 90 then st 187
          else Err)
        else if c \<ge> 48 then st 187
        else Err)
     else if s = 187 then (if c = 32 then tr4
        else if c > 57 then (if 65 \<le> c \<and> c \<le> 90 then st 188
          else Err)
        else if c \<ge> 48 then st 188
        else Err)
     else if s = 188 then (if c = 32 then tr4
        else if c > 57 then (if 65 \<le> c \<and> c \<le> 90 then st 189
          else Err)
        else if c \<ge> 48 then st 189
        else Err)
     else if s = 189 then (if c = 32 then tr4
        else if c > 57 then (if 65 \<le> c \<and> c \<le> 90 then st 190
          else Err)
        else if c \<ge> 48 then st 190
        else Err)
     else Err)"

definition http_case_190 :: "nat \<Rightarrow> int \<Rightarrow> int \<Rightarrow> target" where
  "http_case_190 s c w =
    (if s = 190 then (if c = 32 then tr4
        else if c > 57 then (if 65 \<le> c \<and> c \<le> 90 then st 191
          else Err)
        else if c \<ge> 48 then st 191
        else Err)
     else if s = 191 then (if c = 32 then tr4
        else if c > 57 then (if 65 \<le> c \<and> c \<le> 90 then st 192
          else Err)
        else if c \<ge> 48 then st 192
        else Err)
     else if s = 192 then (if c = 32 then tr4
        else if c > 57 then (if 65 \<le> c \<and> c \<le> 90 then st 193
          else Err)
        else if c \<ge> 48 then st 193
        else Err)
     else if s = 193 then (if c = 32 then tr4
        else Err)
     else if s = 194 then (if c < 48 then (if 45 \<le> c \<and> c \<le> 46 then st 195
          else Err)
        else if c > 57 then (if c > 90 then (if 97 \<le> c \<and> c \<le> 122 then st 195
            else Err)
          else if c \<ge> 65 then st 195
          else Err)
        else st 195)
     else if s = 195 then (if c = 32 \<or> c = 47 \<or> c = 62 then tr224
        else if c < 45 then (if 9 \<le> c \<and> c \<le> 13 then tr224
          else Err)
        else if c > 57 then (if c > 90 then (if 97 \<le> c \<and> c \<le> 122 then st 195
            else Err)
          else if c \<ge> 65 then st 195
          else Err)
        else st 195)
     else if s = 196 then (if c = 62 then st 197
        else st 196)
     else if s = 197 then (if c = 0 then tr227
        else if c = 62 then st 197
        else st 196)
     else Err)"

definition http_case_198 :: "nat \<Rightarrow> int \<Rightarrow> int \<Rightarrow> target" where
  "http_case_198 s c w =
    (if s = 349 then Err
     else if s = 198 then (if w = 32 then tr228
        else if w = 33 \<or> w = 59 \<or> w = 61 \<or> w = 95 \<or> w = 126 \<or> w = 606 \<or> w = 635 \<or> w = 637 then st 202
        else if w = 37 then st 203
        else if w = 47 then st 208
        else if w < 64 then (if 36 \<le> w \<and> w \<le> 57 then st 202
          else Err)
        else if w > 90 then (if 97 \<le> w \<and> w \<le> 122 then st 202
          else Err)
        else st 202)
     else if s = 199 then (if c = 123 then tr232
        else Err)
     else if s = 200 then (if c = 125 then st 201
        else st 200)
     else if s = 201 then (if c = 0 then tr235
        else if c = 125 then st 201
        else st 200)
     else if s = 202 then (if w = 32 then tr228
        else if w = 33 \<or> w = 59 \<or> w = 61 \<or> w = 95 \<or> w = 126 \<or> w = 606 \<or> w = 635 \<or> w = 637 then st 202
        else if w = 37 then st 203
        else if w = 47 then st 205
        else if w < 64 then (if 36 \<le> w \<and> w \<le> 57 then st 202
          else Err)
        else if w > 90 then (if 97 \<le> w \<and> w \<le> 122 then st 202
          else Err)
        else st 202)
     else Err)"

definition http_case_203 :: "nat \<Rightarrow> int \<Rightarrow> int \<Rightarrow> target" where
  "http_case_203 s c w =
    (if s = 203 then (if c < 65 then (if 48 \<le> c \<and> c \<le> 57 then st 204
          else Err)
        else if c > 70 then (if 97 \<le> c \<and> c \<le> 102 then st 204
          else Err)
        else st 204)
     else if s = 204 then (if c < 65 then (if 48 \<le> c \<and> c \<le> 57 then st 202
          else Err)
        else if c > 70 then (if 97 \<le> c \<and> c \<le> 102 then st 202
          else Err)
        else st 202)
     else if s = 205 then (if w = 32 then tr228
        else if w = 33 \<or> w = 61 \<or> w = 95 \<or> w = 126 \<or> w = 606 \<or> w = 635 \<or> w = 637 then st 205
        else if w = 37 then st 206
        else if w < 36 then (if w \<le> - 1 then st 205
          else Err)
        else if w > 59 then (if w > 90 then (if 97 \<le> w \<and> w \<le> 122 then st 205
            else Err)
          else if w \<ge> 64 then st 205
          else Err)
        else st 205)
     else if s = 206 then (if c < 65 then (if 48 \<le> c \<and> c \<le> 57 then st 207
          else Err)
        else if c > 70 then (if 97 \<le> c \<and> c \<le> 102 then st 207
          else Err)
        else st 207)
     else if s = 207 then (if c < 65 then (if 48 \<le> c \<and> c \<le> 57 then st 205
          else Err)
        else if c > 70 then (if 97 \<le> c \<and> c \<le> 102 then st 205
          else Err)
        else st 205)
     else if s = 208 then (if w = 32 then tr228
        else if w = 33 \<or> w = 61 \<or> w = 95 \<or> w = 126 \<or> w = 606 \<or> w = 635 \<or> w = 637 then st 205
        else if w = 37 then st 206
        else if w = 47 then st 209
        else if w < 36 then (if w \<le> - 1 then st 205
          else Err)
        else if w > 59 then (if w > 90 then (if 97 \<le> w \<and> w \<le> 122 then st 205
            else Err)
          else if w \<ge> 64 then st 205
          else Err)
        else st 205)
     else Err)"

definition http_case_209 :: "nat \<Rightarrow> int \<Rightarrow> int \<Rightarrow> target" where
  "http_case_209 s c w =
    (if s = 209 then (if w = 32 then tr228
        else if w = 33 \<or> w = 61 \<or> w = 95 \<or> w = 126 \<or> w = 606 \<or> w = 635 \<or> w = 637 then st 210
        else if w = 37 then st 211
        else if w = 47 then st 205
        else if w = 58 then st 213
        else if w = 64 then st 217
        else if w = 91 then st 222
        else if w < 65 then (if 36 \<le> w \<and> w \<le> 59 then st 210
          else Err)
        else if w > 90 then (if 97 \<le> w \<and> w \<le> 122 then st 210
          else Err)
        else st 210)
     else if s = 210 then (if w = 32 then tr228
        else if w = 33 \<or> w = 61 \<or> w = 95 \<or> w = 126 \<or> w = 606 \<or> w = 635 \<or> w = 637 then st 210
        else if w = 37 then st 211
        else if w = 47 then st 205
        else if w = 58 then st 213
        else if w = 64 then st 217
        else if w < 65 then (if 36 \<le> w \<and> w \<le> 59 then st 210
          else Err)
        else if w > 90 then (if 97 \<le> w \<and> w \<le> 122 then st 210
          else Err)
        else st 210)
     else if s = 211 then (if c < 65 then (if 48 \<le> c \<and> c \<le> 57 then st 212
          else Err)
        else if c > 70 then (if 97 \<le> c \<and> c \<le> 102 then st 212
          else Err)
        else st 212)
     else if s = 212 then (if c < 65 then (if 48 \<le> c \<and> c \<le> 57 then st 210
          else Err)
        else if c > 70 then (if 97 \<le> c \<and> c \<le> 102 then st 210
          else Err)
        else st 210)
     else Err)"

definition http_case_213 :: "nat \<Rightarrow> int \<Rightarrow> int \<Rightarrow> target" where
  "http_case_213 s c w =
    (if s = 213 then (if w = 32 then tr228
        else if w = 33 \<or> w = 61 \<or> w = 95 \<or> w = 126 \<or> w = 606 \<or> w = 635 \<or> w = 637 then st 214
        else if w = 37 then st 215
        else if w = 47 then st 205
        else if w = 64 then st 217
        else if w < 58 then (if w > 46 then (if 48 \<le> w \<and> w \<le> 57 then st 213
            else Err)
          else if w \<ge> 36 then st 214
          else Err)
        else if w > 59 then (if w > 90 then (if 97 \<le> w \<and> w \<le> 122 then st 214
            else Err)
          else if w \<ge> 65 then st 214
          else Err)
        else st 214)
     else if s = 214 then (if w = 33 \<or> w = 61 \<or> w = 95 \<or> w = 126 \<or> w = 606 \<or> w = 635 \<or> w = 637 then st 214
        else if w = 37 then st 215
        else if w = 64 then st 217
        else if w < 48 then (if 36 \<le> w \<and> w \<le> 46 then st 214
          else Err)
        else if w > 59 then (if w > 90 then (if 97 \<le> w \<and> w \<le> 122 then st 214
            else Err)
          else if w \<ge> 65 then st 214
          else Err)
        else st 214)
     else if s = 215 then (if c < 65 then (if 48 \<le> c \<and> c \<le> 57 then st 216
          else Err)
        else if c > 70 then (if 97 \<le> c \<and> c \<le> 102 then st 216
          else Err)
        else st 216)
     else if s = 216 then (if c < 65 then (if 48 \<le> c \<and> c \<le> 57 then st 214
          else Err)
        else if c > 70 then (if 97 \<le> c \<and> c \<le> 102 then st 214
          else Err)
        else st 214)
     else Err)"

definition http_case_217 :: "nat \<Rightarrow> int \<Rightarrow> int \<Rightarrow> target" where
  "http_case_217 s c w =
    (if s = 217 then (if w = 32 then tr228
        else if w = 33 \<or> w = 61 \<or> w = 95 \<or> w = 126 \<or> w = 606 \<or> w = 635 \<or> w = 637 then st 218
        else if w = 37 then st 219
        else if w = 47 then st 205
        else if w = 58 then st 221
        else if w = 91 then st 222
        else if w < 65 then (if 36 \<le> w \<and> w \<le> 59 then st 218
          else Err)
        else if w > 90 then (if 97 \<le> w \<and> w \<le> 122 then st 218
          else Err)
        else st 218)
     else if s = 218 then (if w = 32 then tr228
        else if w = 33 \<or> w = 61 \<or> w = 95 \<or> w = 126 \<or> w = 606 \<or> w = 635 \<or> w = 637 then st 218
        else if w = 37 then st 219
        else if w = 47 then st 205
        else if w = 58 then st 221
        else if w < 65 then (if 36 \<le> w \<and> w \<le> 59 then st 218
          else Err)
        else if w > 90 then (if 97 \<le> w \<and> w \<le> 122 then st 218
          else Err)
        else st 218)
     else if s = 219 then (if c < 65 then (if 48 \<le> c \<and> c \<le> 57 then st 220
          else Err)
        else if c > 70 then (if 97 \<le> c \<and> c \<le> 102 then st 220
          else Err)
        else st 220)
     else if s = 220 then (if c < 65 then (if 48 \<le> c \<and> c \<le> 57 then st 218
          else Err)
        else if c > 70 then (if 97 \<le> c \<and> c \<le> 102 then st 218
          else Err)
        else st 218)
     else if s = 221 then (if c = 32 then tr228
        else if c = 47 then st 205
        else if 48 \<le> c \<and> c \<le> 57 then st 221
        else Err)
     else if s = 222 then (if c = 6 then st 223
        else if c = 58 then st 342
        else if c = 118 then st 344
        else if c < 65 then (if 48 \<le> c \<and> c \<le> 57 then st 266
          else Err)
        else if c > 70 then (if 97 \<le> c \<and> c \<le> 102 then st 266
          else Err)
        else st 266)
     else Err)"

definition http_case_223 :: "nat \<Rightarrow> int \<Rightarrow> int \<Rightarrow> target" where
  "http_case_223 s c w =
    (if s = 223 then (if c < 65 then (if 48 \<le> c \<and> c \<le> 57 then st 224
          else Err)
        else if c > 70 then (if 97 \<le> c \<and> c \<le> 102 then st 224
          else Err)
        else st 224)
     else if s = 224 then (if c = 58 then st 228
        else if c < 65 then (if 48 \<le> c \<and> c \<le> 57 then st 225
          else Err)
        else if c > 70 then (if 97 \<le> c \<and> c \<le> 102 then st 225
          else Err)
        else st 225)
     else if s = 225 then (if c = 58 then st 228
        else if c < 65 then (if 48 \<le> c \<and> c \<le> 57 then st 226
          else Err)
        else if c > 70 then (if 97 \<le> c \<and> c \<le> 102 then st 226
          else Err)
        else st 226)
     else if s = 226 then (if c = 58 then st 228
        else if c < 65 then (if 48 \<le> c \<and> c \<le> 57 then st 227
          else Err)
        else if c > 70 then (if 97 \<le> c \<and> c \<le> 102 then st 227
          else Err)
        else st 227)
     else if s = 227 then (if c = 58 then st 228
        else Err)
     else if s = 228 then (if c = 49 then st 259
        else if c = 50 then st 262
        else if c < 65 then (if 48 \<le> c \<and> c \<le> 57 then st 229
          else Err)
        else if c > 70 then (if 97 \<le> c \<and> c \<le> 102 then st 265
          else Err)
        else st 265)
     else if s = 229 then (if c = 46 then st 230
        else if c = 58 then st 255
        else if c < 65 then (if 48 \<le> c \<and> c \<le> 57 then st 252
          else Err)
        else if c > 70 then (if 97 \<le> c \<and> c \<le> 102 then st 252
          else Err)
        else st 252)
     else if s = 230 then (if c = 49 then st 247
        else if c = 50 then st 249
        else if 48 \<le> c \<and> c \<le> 57 then st 231
        else Err)
     else if s = 231 then (if c = 46 then st 232
        else Err)
     else if s = 232 then (if c = 49 then st 242
        else if c = 50 then st 244
        else if 48 \<le> c \<and> c \<le> 57 then st 233
        else Err)
     else if s = 233 then (if c = 46 then st 234
        else Err)
     else if s = 234 then (if c = 49 then st 237
        else if c = 50 then st 239
        else if 48 \<le> c \<and> c \<le> 57 then st 235
        else Err)
     else Err)"

definition http_case_235 :: "nat \<Rightarrow> int \<Rightarrow> int \<Rightarrow> target" where
  "http_case_235 s c w =
    (if s = 235 then (if c = 93 then st 236
        else Err)
     else if s = 236 then (if c = 32 then tr228
        else if c = 47 then st 205
        else if c = 58 then st 221
        else Err)
     else if s = 237 then (if c = 93 then st 236
        else if 48 \<le> c \<and> c \<le> 57 then st 238
        else Err)
     else if s = 238 then (if c = 93 then st 236
        else if 48 \<le> c \<and> c \<le> 57 then st 235
        else Err)
     else if s = 239 then (if c = 48 then st 240
        else if c = 53 then st 241
        else if c = 93 then st 236
        else Err)
     else if s = 240 then (if 48 \<le> c \<and> c \<le> 57 then st 235
        else Err)
     else if s = 241 then (if c = 48 then st 235
        else Err)
     else if s = 242 then (if c = 46 then st 234
        else if 48 \<le> c \<and> c \<le> 57 then st 243
        else Err)
     else if s = 243 then (if c = 46 then st 234
        else if 48 \<le> c \<and> c \<le> 57 then st 233
        else Err)
     else if s = 244 then (if c = 46 then st 234
        else if c = 48 then st 245
        else if c = 53 then st 246
        else Err)
     else if s = 245 then (if 48 \<le> c \<and> c \<le> 57 then st 233
        else Err)
     else if s = 246 then (if c = 48 then st 233
        else Err)
     else if s = 247 then (if c = 46 then st 232
        else if 48 \<le> c \<and> c \<le> 57 then st 248
        else Err)
     else if s = 248 then (if c = 46 then st 232
        else if 48 \<le> c \<and> c \<le> 57 then st 231
        else Err)
     else if s = 249 then (if c = 46 then st 232
        else if c = 48 then st 250
        else if c = 53 then st 251
        else Err)
     else if s = 250 then (if 48 \<le> c \<and> c \<le> 57 then st 231
        else Err)
     else if s = 251 then (if c = 48 then st 231
        else Err)
     else Err)"

definition http_case_252 :: "nat \<Rightarrow> int \<Rightarrow> int \<Rightarrow> target" where
  "http_case_252 s c w =
    (if s = 252 then (if c = 58 then st 255
        else if c < 65 then (if 48 \<le> c \<and> c \<le> 57 then st 253
          else Err)
        else if c > 70 then (if 97 \<le> c \<and> c \<le> 102 then st 253
          else Err)
        else st 253)
     else if s = 253 then (if c = 58 then st 255
        else if c < 65 then (if 48 \<le> c \<and> c \<le> 57 then st 254
          else Err)
        else if c > 70 then (if 97 \<le> c \<and> c \<le> 102 then st 254
          else Err)
        else st 254)
     else if s = 254 then (if c = 58 then st 255
        else Err)
     else if s = 255 then (if c < 65 then (if 48 \<le> c \<and> c \<le> 57 then st 256
          else Err)
        else if c > 70 then (if 97 \<le> c \<and> c \<le> 102 then st 256
          else Err)
        else st 256)
     else if s = 256 then (if c = 93 then st 236
        else if c < 65 then (if 48 \<le> c \<and> c \<le> 57 then st 257
          else Err)
        else if c > 70 then (if 97 \<le> c \<and> c \<le> 102 then st 257
          else Err)
        else st 257)
     else if s = 257 then (if c = 93 then st 236
        else if c < 65 then (if 48 \<le> c \<and> c \<le> 57 then st 258
          else Err)
        else if c > 70 then (if 97 \<le> c \<and> c \<le> 102 then st 258
          else Err)
        else st 258)
     else if s = 258 then (if c = 93 then st 236
        else if c < 65 then (if 48 \<le> c \<and> c \<le> 57 then st 235
          else Err)
        else if c > 70 then (if 97 \<le> c \<and> c \<le> 102 then st 235
          else Err)
        else st 235)
     else if s = 259 then (if c = 46 then st 230
        else if c = 58 then st 255
        else if c < 65 then (if 48 \<le> c \<and> c \<le> 57 then st 260
          else Err)
        else if c > 70 then (if 97 \<le> c \<and> c \<le> 102 then st 252
          else Err)
        else st 252)
     else if s = 260 then (if c = 46 then st 230
        else if c = 58 then st 255
        else if c < 65 then (if 48 \<le> c \<and> c \<le> 57 then st 261
          else Err)
        else if c > 70 then (if 97 \<le> c \<and> c \<le> 102 then st 253
          else Err)
        else st 253)
     else if s = 261 then (if c = 46 then st 230
        else if c = 58 then st 255
        else if c < 65 then (if 48 \<le> c \<and> c \<le> 57 then st 254
          else Err)
        else if c > 70 then (if 97 \<le> c \<and> c \<le> 102 then st 254
          else Err)
        else st 254)
     else Err)"

definition http_case_262 :: "nat \<Rightarrow> int \<Rightarrow> int \<Rightarrow> target" where
  "http_case_262 s c w =
    (if s = 262 then (if c = 46 then st 230
        else if c = 48 then st 263
        else if c = 53 then st 264
        else if c = 58 then st 255
        else if c < 65 then (if 49 \<le> c \<and> c \<le> 57 then st 252
          else Err)
        else if c > 70 then (if 97 \<le> c \<and> c \<le> 102 then st 252
          else Err)
        else st 252)
     else if s = 263 then (if c = 58 then st 255
        else if c < 65 then (if 48 \<le> c \<and> c \<le> 57 then st 261
          else Err)
        else if c > 70 then (if 97 \<le> c \<and> c \<le> 102 then st 253
          else Err)
        else st 253)
     else if s = 264 then (if c = 48 then st 261
        else if c = 58 then st 255
        else if c < 65 then (if 49 \<le> c \<and> c \<le> 57 then st 253
          else Err)
        else if c > 70 then (if 97 \<le> c \<and> c \<le> 102 then st 253
          else Err)
        else st 253)
     else if s = 265 then (if c = 58 then st 255
        else if c < 65 then (if 48 \<le> c \<and> c \<le> 57 then st 252
          else Err)
        else if c > 70 then (if 97 \<le> c \<and> c \<le> 102 then st 252
          else Err)
        else st 252)
     else if s = 266 then (if c = 58 then st 270
        else if c < 65 then (if 48 \<le> c \<and> c \<le> 57 then st 267
          else Err)
        else if c > 70 then (if 97 \<le> c \<and> c \<le> 102 then st 267
          else Err)
        else st 267)
     else if s = 267 then (if c = 58 then st 270
        else if c < 65 then (if 48 \<le> c \<and> c \<le> 57 then st 268
          else Err)
        else if c > 70 then (if 97 \<le> c \<and> c \<le> 102 then st 268
          else Err)
        else st 268)
     else if s = 268 then (if c = 58 then st 270
        else if c < 65 then (if 48 \<le> c \<and> c \<le> 57 then st 269
          else Err)
        else if c > 70 then (if 97 \<le> c \<and> c \<le> 102 then st 269
          else Err)
        else st 269)
     else if s = 269 then (if c = 58 then st 270
        else Err)
     else if s = 270 then (if c = 58 then st 341
        else if c < 65 then (if 48 \<le> c \<and> c \<le> 57 then st 271
          else Err)
        else if c > 70 then (if 97 \<le> c \<and> c \<le> 102 then st 271
          else Err)
        else st 271)
     else if s = 271 then (if c = 58 then st 275
        else if c < 65 then (if 48 \<le> c \<and> c \<le> 57 then st 272
          else Err)
        else if c > 70 then (if 97 \<le> c \<and> c \<le> 102 then st 272
          else Err)
        else st 272)
     else Err)"

definition http_case_272 :: "nat \<Rightarrow> int \<Rightarrow> int \<Rightarrow> target" where
  "http_case_272 s c w =
    (if s = 272 then (if c = 58 then st 275
        else if c < 65 then (if 48 \<le> c \<and> c \<le> 57 then st 273
          else Err)
        else if c > 70 then (if 97 \<le> c \<and> c \<le> 102 then st 273
          else Err)
        else st 273)
     else if s = 273 then (if c = 58 then st 275
        else if c < 65 then (if 48 \<le> c \<and> c \<le> 57 then st 274
          else Err)
        else if c > 70 then (if 97 \<le> c \<and> c \<le> 102 then st 274
          else Err)
        else st 274)
     else if s = 274 then (if c = 58 then st 275
        else Err)
     else if s = 275 then (if c = 58 then st 340
        else if c < 65 then (if 48 \<le> c \<and> c \<le> 57 then st 276
          else Err)
        else if c > 70 then (if 97 \<le> c \<and> c \<le> 102 then st 276
          else Err)
        else st 276)
     else if s = 276 then (if c = 58 then st 280
        else if c < 65 then (if 48 \<le> c \<and> c \<le> 57 then st 277
          else Err)
        else if c > 70 then (if 97 \<le> c \<and> c \<le> 102 then st 277
          else Err)
        else st 277)
     else if s = 277 then (if c = 58 then st 280
        else if c < 65 then (if 48 \<le> c \<and> c \<le> 57 then st 278
          else Err)
        else if c > 70 then (if 97 \<le> c \<and> c \<le> 102 then st 278
          else Err)
        else st 278)
     else if s = 278 then (if c = 58 then st 280
        else if c < 65 then (if 48 \<le> c \<and> c \<le> 57 then st 279
          else Err)
        else if c > 70 then (if 97 \<le> c \<and> c \<le> 102 then st 279
          else Err)
        else st 279)
     else if s = 279 then (if c = 58 then st 280
        else Err)
     else if s = 280 then (if c = 58 then st 339
        else if c < 65 then (if 48 \<le> c \<and> c \<le> 57 then st 281
          else Err)
        else if c > 70 then (if 97 \<le> c \<and> c \<le> 102 then st 281
          else Err)
        else st 281)
     else if s = 281 then (if c = 58 then st 285
        else if c < 65 then (if 48 \<le> c \<and> c \<le> 57 then st 282
          else Err)
        else if c > 70 then (if 97 \<le> c \<and> c \<le> 102 then st 282
          else Err)
        else st 282)
     else if s = 282 then (if c = 58 then st 285
        else if c < 65 then (if 48 \<le> c \<and> c \<le> 57 then st 283
          else Err)
        else if c > 70 then (if 97 \<le> c \<and> c \<le> 102 then st 283
          else Err)
        else st 283)
     else Err)"

definition http_case_283 :: "nat \<Rightarrow> int \<Rightarrow> int \<Rightarrow> target" where
  "http_case_283 s c w =
    (if s = 283 then (if c = 58 then st 285
        else if c < 65 then (if 48 \<le> c \<and> c \<le> 57 then st 284
          else Err)
        else if c > 70 then (if 97 \<le> c \<and> c \<le> 102 then st 284
          else Err)
        else st 284)
     else if s = 284 then (if c = 58 then st 285
        else Err)
     else if s = 285 then (if c = 58 then st 338
        else if c < 65 then (if 48 \<le> c \<and> c \<le> 57 then st 286
          else Err)
        else if c > 70 then (if 97 \<le> c \<and> c \<le> 102 then st 286
          else Err)
        else st 286)
     else if s = 286 then (if c = 58 then st 290
        else if c < 65 then (if 48 \<le> c \<and> c \<le> 57 then st 287
          else Err)
        else if c > 70 then (if 97 \<le> c \<and> c \<le> 102 then st 287
          else Err)
        else st 287)
     else if s = 287 then (if c = 58 then st 290
        else if c < 65 then (if 48 \<le> c \<and> c \<le> 57 then st 288
          else Err)
        else if c > 70 then (if 97 \<le> c \<and> c \<le> 102 then st 288
          else Err)
        else st 288)
     else if s = 288 then (if c = 58 then st 290
        else if c < 65 then (if 48 \<le> c \<and> c \<le> 57 then st 289
          else Err)
        else if c > 70 then (if 97 \<le> c \<and> c \<le> 102 then st 289
          else Err)
        else st 289)
     else if s = 289 then (if c = 58 then st 290
        else Err)
     else if s = 290 then (if c = 58 then st 326
        else if c < 65 then (if 48 \<le> c \<and> c \<le> 57 then st 291
          else Err)
        else if c > 70 then (if 97 \<le> c \<and> c \<le> 102 then st 291
          else Err)
        else st 291)
     else if s = 291 then (if c = 58 then st 295
        else if c < 65 then (if 48 \<le> c \<and> c \<le> 57 then st 292
          else Err)
        else if c > 70 then (if 97 \<le> c \<and> c \<le> 102 then st 292
          else Err)
        else st 292)
     else if s = 292 then (if c = 58 then st 295
        else if c < 65 then (if 48 \<le> c \<and> c \<le> 57 then st 293
          else Err)
        else if c > 70 then (if 97 \<le> c \<and> c \<le> 102 then st 293
          else Err)
        else st 293)
     else if s = 293 then (if c = 58 then st 295
        else if c < 65 then (if 48 \<le> c \<and> c \<le> 57 then st 294
          else Err)
        else if c > 70 then (if 97 \<le> c \<and> c \<le> 102 then st 294
          else Err)
        else st 294)
     else Err)"

definition http_case_294 :: "nat \<Rightarrow> int \<Rightarrow> int \<Rightarrow> target" where
  "http_case_294 s c w =
    (if s = 294 then (if c = 58 then st 295
        else Err)
     else if s = 295 then (if c = 58 then st 325
        else if c < 65 then (if 48 \<le> c \<and> c \<le> 57 then st 296
          else Err)
        else if c > 70 then (if 97 \<le> c \<and> c \<le> 102 then st 296
          else Err)
        else st 296)
     else if s = 296 then (if c = 58 then st 300
        else if c < 65 then (if 48 \<le> c \<and> c \<le> 57 then st 297
          else Err)
        else if c > 70 then (if 97 \<le> c \<and> c \<le> 102 then st 297
          else Err)
        else st 297)
     else if s = 297 then (if c = 58 then st 300
        else if c < 65 then (if 48 \<le> c \<and> c \<le> 57 then st 298
          else Err)
        else if c > 70 then (if 97 \<le> c \<and> c \<le> 102 then st 298
          else Err)
        else st 298)
     else if s = 298 then (if c = 58 then st 300
        else if c < 65 then (if 48 \<le> c \<and> c \<le> 57 then st 299
          else Err)
        else if c > 70 then (if 97 \<le> c \<and> c \<le> 102 then st 299
          else Err)
        else st 299)
     else if s = 299 then (if c = 58 then st 300
        else Err)
     else if s = 300 then (if c = 58 then st 301
        else if c < 65 then (if 48 \<le> c \<and> c \<le> 57 then st 296
          else Err)
        else if c > 70 then (if 97 \<le> c \<and> c \<le> 102 then st 296
          else Err)
        else st 296)
     else if s = 301 then (if c = 49 then st 318
        else if c = 50 then st 321
        else if c = 93 then st 236
        else if c < 48 then (if 2 \<le> c \<and> c \<le> 3 then st 223
          else Err)
        else if c > 57 then (if c > 70 then (if 97 \<le> c \<and> c \<le> 102 then st 324
            else Err)
          else if c \<ge> 65 then st 324
          else Err)
        else st 302)
     else if s = 302 then (if c = 46 then st 230
        else if c = 58 then st 306
        else if c = 93 then st 236
        else if c < 65 then (if 48 \<le> c \<and> c \<le> 57 then st 303
          else Err)
        else if c > 70 then (if 97 \<le> c \<and> c \<le> 102 then st 303
          else Err)
        else st 303)
     else if s = 303 then (if c = 58 then st 306
        else if c = 93 then st 236
        else if c < 65 then (if 48 \<le> c \<and> c \<le> 57 then st 304
          else Err)
        else if c > 70 then (if 97 \<le> c \<and> c \<le> 102 then st 304
          else Err)
        else st 304)
     else Err)"

definition http_case_304 :: "nat \<Rightarrow> int \<Rightarrow> int \<Rightarrow> target" where
  "http_case_304 s c w =
    (if s = 304 then (if c = 58 then st 306
        else if c = 93 then st 236
        else if c < 65 then (if 48 \<le> c \<and> c \<le> 57 then st 305
          else Err)
        else if c > 70 then (if 97 \<le> c \<and> c \<le> 102 then st 305
          else Err)
        else st 305)
     else if s = 305 then (if c = 58 then st 306
        else if c = 93 then st 236
        else Err)
     else if s = 306 then (if c = 49 then st 311
        else if c = 50 then st 314
        else if c < 65 then (if 48 \<le> c \<and> c \<le> 57 then st 307
          else Err)
        else if c > 70 then (if 97 \<le> c \<and> c \<le> 102 then st 317
          else Err)
        else st 317)
     else if s = 307 then (if c = 46 then st 230
        else if c = 58 then st 255
        else if c = 93 then st 236
        else if c < 65 then (if 48 \<le> c \<and> c \<le> 57 then st 308
          else Err)
        else if c > 70 then (if 97 \<le> c \<and> c \<le> 102 then st 308
          else Err)
        else st 308)
     else if s = 308 then (if c = 58 then st 255
        else if c = 93 then st 236
        else if c < 65 then (if 48 \<le> c \<and> c \<le> 57 then st 309
          else Err)
        else if c > 70 then (if 97 \<le> c \<and> c \<le> 102 then st 309
          else Err)
        else st 309)
     else if s = 309 then (if c = 58 then st 255
        else if c = 93 then st 236
        else if c < 65 then (if 48 \<le> c \<and> c \<le> 57 then st 310
          else Err)
        else if c > 70 then (if 97 \<le> c \<and> c \<le> 102 then st 310
          else Err)
        else st 310)
     else if s = 310 then (if c = 58 then st 255
        else if c = 93 then st 236
        else Err)
     else if s = 311 then (if c = 46 then st 230
        else if c = 58 then st 255
        else if c = 93 then st 236
        else if c < 65 then (if 48 \<le> c \<and> c \<le> 57 then st 312
          else Err)
        else if c > 70 then (if 97 \<le> c \<and> c \<le> 102 then st 308
          else Err)
        else st 308)
     else if s = 312 then (if c = 46 then st 230
        else if c = 58 then st 255
        else if c = 93 then st 236
        else if c < 65 then (if 48 \<le> c \<and> c \<le> 57 then st 313
          else Err)
        else if c > 70 then (if 97 \<le> c \<and> c \<le> 102 then st 309
          else Err)
        else st 309)
     else Err)"

definition http_case_313 :: "nat \<Rightarrow> int \<Rightarrow> int \<Rightarrow> target" where
  "http_case_313 s c w =
    (if s = 313 then (if c = 46 then st 230
        else if c = 58 then st 255
        else if c = 93 then st 236
        else if c < 65 then (if 48 \<le> c \<and> c \<le> 57 then st 310
          else Err)
        else if c > 70 then (if 97 \<le> c \<and> c \<le> 102 then st 310
          else Err)
        else st 310)
     else if s = 314 then (if c = 46 then st 230
        else if c = 48 then st 315
        else if c = 53 then st 316
        else if c = 58 then st 255
        else if c = 93 then st 236
        else if c < 65 then (if 49 \<le> c \<and> c \<le> 57 then st 308
          else Err)
        else if c > 70 then (if 97 \<le> c \<and> c \<le> 102 then st 308
          else Err)
        else st 308)
     else if s = 315 then (if c = 58 then st 255
        else if c = 93 then st 236
        else if c < 65 then (if 48 \<le> c \<and> c \<le> 57 then st 313
          else Err)
        else if c > 70 then (if 97 \<le> c \<and> c \<le> 102 then st 309
          else Err)
        else st 309)
     else if s = 316 then (if c = 48 then st 313
        else if c = 58 then st 255
        else if c = 93 then st 236
        else if c < 65 then (if 49 \<le> c \<and> c \<le> 57 then st 309
          else Err)
        else if c > 70 then (if 97 \<le> c \<and> c \<le> 102 then st 309
          else Err)
        else st 309)
     else if s = 317 then (if c = 58 then st 255
        else if c = 93 then st 236
        else if c < 65 then (if 48 \<le> c \<and> c \<le> 57 then st 308
          else Err)
        else if c > 70 then (if 97 \<le> c \<and> c \<le> 102 then st 308
          else Err)
        else st 308)
     else if s = 318 then (if c = 46 then st 230
        else if c = 58 then st 306
        else if c = 93 then st 236
        else if c < 65 then (if 48 \<le> c \<and> c \<le> 57 then st 319
          else Err)
        else if c > 70 then (if 97 \<le> c \<and> c \<le> 102 then st 303
          else Err)
        else st 303)
     else if s = 319 then (if c = 46 then st 230
        else if c = 58 then st 306
        else if c = 93 then st 236
        else if c < 65 then (if 48 \<le> c \<and> c \<le> 57 then st 320
          else Err)
        else if c > 70 then (if 97 \<le> c \<and> c \<le> 102 then st 304
          else Err)
        else st 304)
     else if s = 320 then (if c = 46 then st 230
        else if c = 58 then st 306
        else if c = 93 then st 236
        else if c < 65 then (if 48 \<le> c \<and> c \<le> 57 then st 305
          else Err)
        else if c > 70 then (if 97 \<le> c \<and> c \<le> 102 then st 305
          else Err)
        else st 305)
     else Err)"

definition http_case_321 :: "nat \<Rightarrow> int \<Rightarrow> int \<Rightarrow> target" where
  "http_case_321 s c w =
    (if s = 321 then (if c = 46 then st 230
        else if c = 48 then st 322
        else if c = 53 then st 323
        else if c = 58 then st 306
        else if c = 93 then st 236
        else if c < 65 then (if 49 \<le> c \<and> c \<le> 57 then st 303
          else Err)
        else if c > 70 then (if 97 \<le> c \<and> c \<le> 102 then st 303
          else Err)
        else st 303)
     else if s = 322 then (if c = 58 then st 306
        else if c = 93 then st 236
        else if c < 65 then (if 48 \<le> c \<and> c \<le> 57 then st 320
          else Err)
        else if c > 70 then (if 97 \<le> c \<and> c \<le> 102 then st 304
          else Err)
        else st 304)
     else if s = 323 then (if c = 48 then st 320
        else if c = 58 then st 306
        else if c = 93 then st 236
        else if c < 65 then (if 49 \<le> c \<and> c \<le> 57 then st 304
          else Err)
        else if c > 70 then (if 97 \<le> c \<and> c \<le> 102 then st 304
          else Err)
        else st 304)
     else if s = 324 then (if c = 58 then st 306
        else if c = 93 then st 236
        else if c < 65 then (if 48 \<le> c \<and> c \<le> 57 then st 303
          else Err)
        else if c > 70 then (if 97 \<le> c \<and> c \<le> 102 then st 303
          else Err)
        else st 303)
     else if s = 325 then (if c = 49 then st 318
        else if c = 50 then st 321
        else if c < 48 then (if 2 \<le> c \<and> c \<le> 3 then st 223
          else Err)
        else if c > 57 then (if c > 70 then (if 97 \<le> c \<and> c \<le> 102 then st 324
            else Err)
          else if c \<ge> 65 then st 324
          else Err)
        else st 302)
     else if s = 326 then (if c = 49 then st 331
        else if c = 50 then st 334
        else if c < 48 then (if 2 \<le> c \<and> c \<le> 3 then st 223
          else Err)
        else if c > 57 then (if c > 70 then (if 97 \<le> c \<and> c \<le> 102 then st 337
            else Err)
          else if c \<ge> 65 then st 337
          else Err)
        else st 327)
     else if s = 327 then (if c = 46 then st 230
        else if c = 58 then st 306
        else if c < 65 then (if 48 \<le> c \<and> c \<le> 57 then st 328
          else Err)
        else if c > 70 then (if 97 \<le> c \<and> c \<le> 102 then st 328
          else Err)
        else st 328)
     else if s = 328 then (if c = 58 then st 306
        else if c < 65 then (if 48 \<le> c \<and> c \<le> 57 then st 329
          else Err)
        else if c > 70 then (if 97 \<le> c \<and> c \<le> 102 then st 329
          else Err)
        else st 329)
     else Err)"

definition http_case_329 :: "nat \<Rightarrow> int \<Rightarrow> int \<Rightarrow> target" where
  "http_case_329 s c w =
    (if s = 329 then (if c = 58 then st 306
        else if c < 65 then (if 48 \<le> c \<and> c \<le> 57 then st 330
          else Err)
        else if c > 70 then (if 97 \<le> c \<and> c \<le> 102 then st 330
          else Err)
        else st 330)
     else if s = 330 then (if c = 58 then st 306
        else Err)
     else if s = 331 then (if c = 46 then st 230
        else if c = 58 then st 306
        else if c < 65 then (if 48 \<le> c \<and> c \<le> 57 then st 332
          else Err)
        else if c > 70 then (if 97 \<le> c \<and> c \<le> 102 then st 328
          else Err)
        else st 328)
     else if s = 332 then (if c = 46 then st 230
        else if c = 58 then st 306
        else if c < 65 then (if 48 \<le> c \<and> c \<le> 57 then st 333
          else Err)
        else if c > 70 then (if 97 \<le> c \<and> c \<le> 102 then st 329
          else Err)
        else st 329)
     else if s = 333 then (if c = 46 then st 230
        else if c = 58 then st 306
        else if c < 65 then (if 48 \<le> c \<and> c \<le> 57 then st 330
          else Err)
        else if c > 70 then (if 97 \<le> c \<and> c \<le> 102 then st 330
          else Err)
        else st 330)
     else if s = 334 then (if c = 46 then st 230
        else if c = 48 then st 335
        else if c = 53 then st 336
        else if c = 58 then st 306
        else if c < 65 then (if 49 \<le> c \<and> c \<le> 57 then st 328
          else Err)
        else if c > 70 then (if 97 \<le> c \<and> c \<le> 102 then st 328
          else Err)
        else st 328)
     else if s = 335 then (if c = 58 then st 306
        else if c < 65 then (if 48 \<le> c \<and> c \<le> 57 then st 333
          else Err)
        else if c > 70 then (if 97 \<le> c \<and> c \<le> 102 then st 329
          else Err)
        else st 329)
     else if s = 336 then (if c = 48 then st 333
        else if c = 58 then st 306
        else if c < 65 then (if 49 \<le> c \<and> c \<le> 57 then st 329
          else Err)
        else if c > 70 then (if 97 \<le> c \<and> c \<le> 102 then st 329
          else Err)
        else st 329)
     else if s = 337 then (if c = 58 then st 306
        else if c < 65 then (if 48 \<le> c \<and> c \<le> 57 then st 328
          else Err)
        else if c > 70 then (if 97 \<le> c \<and> c \<le> 102 then st 328
          else Err)
        else st 328)
     else Err)"

definition http_case_338 :: "nat \<Rightarrow> int \<Rightarrow> int \<Rightarrow> target" where
  "http_case_338 s c w =
    (if s = 338 then (if c < 48 then (if 2 \<le> c \<and> c \<le> 3 then st 223
          else Err)
        else if c > 57 then (if c > 70 then (if 97 \<le> c \<and> c \<le> 102 then st 224
            else Err)
          else if c \<ge> 65 then st 224
          else Err)
        else st 224)
     else if s = 339 then (if 2 \<le> c \<and> c \<le> 3 then st 223
        else Err)
     else if s = 340 then (if c = 3 then st 223
        else Err)
     else if s = 341 then (if c = 4 then st 223
        else Err)
     else if s = 342 then (if c = 58 then st 343
        else Err)
     else if s = 343 then (if c = 49 then st 318
        else if c = 50 then st 321
        else if c = 93 then st 236
        else if c < 48 then (if 2 \<le> c \<and> c \<le> 5 then st 223
          else Err)
        else if c > 57 then (if c > 70 then (if 97 \<le> c \<and> c \<le> 102 then st 324
            else Err)
          else if c \<ge> 65 then st 324
          else Err)
        else st 302)
     else if s = 344 then (if c < 65 then (if 48 \<le> c \<and> c \<le> 57 then st 345
          else Err)
        else if c > 70 then (if 97 \<le> c \<and> c \<le> 102 then st 345
          else Err)
        else st 345)
     else if s = 345 then (if c = 46 then st 346
        else if c < 65 then (if 48 \<le> c \<and> c \<le> 57 then st 345
          else Err)
        else if c > 70 then (if 97 \<le> c \<and> c \<le> 102 then st 345
          else Err)
        else st 345)
     else if s = 346 then (if w = 33 \<or> w = 36 \<or> w = 61 \<or> w = 95 \<or> w = 126 \<or> w = 606 \<or> w = 635 \<or> w = 637 then st 347
        else if w < 48 then (if 38 \<le> w \<and> w \<le> 46 then st 347
          else Err)
        else if w > 59 then (if w > 90 then (if 97 \<le> w \<and> w \<le> 122 then st 347
            else Err)
          else if w \<ge> 65 then st 347
          else Err)
        else st 347)
     else Err)"

definition http_case_347 :: "nat \<Rightarrow> int \<Rightarrow> int \<Rightarrow> target" where
  "http_case_347 s c w =
    (if s = 347 then (if w = 33 \<or> w = 36 \<or> w = 61 \<or> w = 95 \<or> w = 126 \<or> w = 606 \<or> w = 635 \<or> w = 637 then st 347
        else if w = 93 then st 236
        else if w < 48 then (if 38 \<le> w \<and> w \<le> 46 then st 347
          else Err)
        else if w > 59 then (if w > 90 then (if 97 \<le> w \<and> w \<le> 122 then st 347
            else Err)
          else if w \<ge> 65 then st 347
          else Err)
        else st 347)
     else Err)"


text \<open>\<open>switch (cs)\<close>, for the states that have a case.\<close>

definition http_target :: "nat \<Rightarrow> bool \<Rightarrow> int \<Rightarrow> target" where
  "http_target s uri_relaxed c =
    (let w = widec uri_relaxed c in
     if s \<le> 3 then http_case_1 s c w
     else if s \<le> 13 then http_case_4 s c w
     else if s \<le> 17 then http_case_14 s c w
     else if s \<le> 19 \<or> s = 348 then http_case_18 s c w
     else if s \<le> 24 then http_case_20 s c w
     else if s \<le> 28 then http_case_25 s c w
     else if s \<le> 32 then http_case_29 s c w
     else if s \<le> 34 then http_case_33 s c w
     else if s \<le> 38 then http_case_35 s c w
     else if s \<le> 42 then http_case_39 s c w
     else if s \<le> 50 then http_case_43 s c w
     else if s \<le> 64 then http_case_51 s c w
     else if s \<le> 80 then http_case_65 s c w
     else if s \<le> 89 then http_case_81 s c w
     else if s \<le> 100 then http_case_90 s c w
     else if s \<le> 111 then http_case_101 s c w
     else if s \<le> 122 then http_case_112 s c w
     else if s \<le> 131 then http_case_123 s c w
     else if s \<le> 140 then http_case_132 s c w
     else if s \<le> 148 then http_case_141 s c w
     else if s \<le> 157 then http_case_149 s c w
     else if s \<le> 168 then http_case_158 s c w
     else if s \<le> 172 then http_case_169 s c w
     else if s \<le> 177 then http_case_173 s c w
     else if s \<le> 189 then http_case_178 s c w
     else if s \<le> 197 then http_case_190 s c w
     else if s \<le> 202 \<or> s = 349 then http_case_198 s c w
     else if s \<le> 208 then http_case_203 s c w
     else if s \<le> 212 then http_case_209 s c w
     else if s \<le> 216 then http_case_213 s c w
     else if s \<le> 222 then http_case_217 s c w
     else if s \<le> 234 then http_case_223 s c w
     else if s \<le> 251 then http_case_235 s c w
     else if s \<le> 261 then http_case_252 s c w
     else if s \<le> 271 then http_case_262 s c w
     else if s \<le> 282 then http_case_272 s c w
     else if s \<le> 293 then http_case_283 s c w
     else if s \<le> 303 then http_case_294 s c w
     else if s \<le> 312 then http_case_304 s c w
     else if s \<le> 320 then http_case_313 s c w
     else if s \<le> 328 then http_case_321 s c w
     else if s \<le> 337 then http_case_329 s c w
     else if s \<le> 346 then http_case_338 s c w
     else http_case_347 s c w)"

subsection \<open>The parser\<close>

text \<open>
  \<open>struct http_parser\<close>; \<open>installed\<close> says which callbacks are not \<open>NULL\<close>. A callback receives pointers
  into the buffer, recorded as offsets, and lengths of type \<open>size_t\<close>; it is an event of the run.
\<close>

datatype callback =
    cb_http_field | cb_request_method | cb_request_uri | cb_fragment | cb_request_path
  | cb_query_string | cb_http_version | cb_header_done

record http_parser =
  cs :: nat
  body_start :: nat
  content_len :: int
  nread :: nat
  mark_pos :: nat
  field_start :: nat
  field_len :: nat
  query_start :: nat
  xml_sent :: bool
  json_sent :: bool
  uri_relaxed :: bool
  installed :: "callback \<Rightarrow> bool"

datatype event =
    Element callback nat nat
  | Field nat nat nat nat

definition http_parser_init :: "http_parser \<Rightarrow> http_parser" where
  "http_parser_init parser = parser\<lparr>cs := http_parser_start, body_start := 0, content_len := 0,
     mark_pos := 0, nread := 0, field_len := 0, field_start := 0, xml_sent := False, json_sent := False\<rparr>"

text \<open>The macro \<open>LEN\<close>: the subtraction of a \<open>size_t\<close> member wraps.\<close>

definition LEN :: "nat \<Rightarrow> nat \<Rightarrow> nat" where
  "LEN at fpc = sz_sub fpc at"

definition element :: "http_parser \<Rightarrow> callback \<Rightarrow> nat \<Rightarrow> nat \<Rightarrow> event list" where
  "element parser cb at len = (if installed parser cb then [Element cb at len] else [])"

text \<open>One action at offset \<open>p\<close> of a buffer of length \<open>pe\<close>; \<open>content_len\<close> is an \<open>int\<close>.\<close>

definition perform :: "nat \<Rightarrow> nat \<Rightarrow> action \<Rightarrow> http_parser \<Rightarrow> http_parser \<times> event list" where
  "perform p pe act parser = (case act of
     Mark \<Rightarrow> (parser\<lparr>mark_pos := p\<rparr>, [])
   | StartField \<Rightarrow> (parser\<lparr>field_start := p\<rparr>, [])
   | WriteField \<Rightarrow> (parser\<lparr>field_len := LEN (field_start parser) p\<rparr>, [])
   | WriteValue \<Rightarrow> (parser, if installed parser cb_http_field
        then [Field (field_start parser) (field_len parser) (mark_pos parser) (LEN (mark_pos parser) p)] else [])
   | RequestMethod \<Rightarrow> (parser, element parser cb_request_method (mark_pos parser) (LEN (mark_pos parser) p))
   | RequestUri \<Rightarrow> (parser, element parser cb_request_uri (mark_pos parser) (LEN (mark_pos parser) p))
   | Fragment \<Rightarrow> (parser, element parser cb_fragment (mark_pos parser) (LEN (mark_pos parser) p))
   | StartQuery \<Rightarrow> (parser\<lparr>query_start := p\<rparr>, [])
   | QueryString \<Rightarrow> (parser, element parser cb_query_string (query_start parser) (LEN (query_start parser) p))
   | HttpVersion \<Rightarrow> (parser, element parser cb_http_version (mark_pos parser) (LEN (mark_pos parser) p))
   | RequestPath \<Rightarrow> (parser, element parser cb_request_path (mark_pos parser) (LEN (mark_pos parser) p))
   | Done \<Rightarrow>
       (if xml_sent parser \<or> json_sent parser
        then (parser\<lparr>body_start := mark_pos parser,
                content_len := sint (word_of_nat (sz_sub p (mark_pos parser) + 1) :: 32 word)\<rparr>, [])
        else (parser\<lparr>body_start := p + 1\<rparr>, element parser cb_header_done (p + 1) (pe - p - 1)))
   | Xml \<Rightarrow> (parser\<lparr>xml_sent := True\<rparr>, [])
   | Json \<Rightarrow> (parser\<lparr>json_sent := True\<rparr>, []))"

fun perform_all :: "nat \<Rightarrow> nat \<Rightarrow> action list \<Rightarrow> http_parser \<Rightarrow> http_parser \<times> event list" where
  "perform_all p pe [] parser = (parser, [])"
| "perform_all p pe (a # as) parser =
     (let (parser, evs) = perform p pe a parser;
          (parser, evs') = perform_all p pe as parser
      in (parser, evs @ evs'))"

text \<open>
  The loop, from the case label of state \<open>s\<close> with \<open>p\<close> at the first of the remaining characters;
  with none left it is at \<open>_test_eof\<close>. The result is the local \<open>cs\<close>, the final \<open>p\<close>, the parser
  and the callbacks made.
\<close>

fun exec_loop :: "nat \<Rightarrow> nat \<Rightarrow> nat \<Rightarrow> byte list \<Rightarrow> http_parser \<Rightarrow> nat \<times> nat \<times> http_parser \<times> event list" where
  "exec_loop pe s p [] parser = (s, p, parser, [])"
| "exec_loop pe s p (b # rest) parser =
     (case http_target s (uri_relaxed parser) (sint b) of
        Err \<Rightarrow> (0, p, parser, [])
      | Go acts n \<Rightarrow>
          (let (parser, evs) = perform_all p pe acts parser;
               (s', p', parser, evs') = exec_loop pe n (p + 1) rest parser
           in (s', p', parser, evs @ evs'))
      | Break acts n \<Rightarrow>
          (let (parser, evs) = perform_all p pe acts parser
           in (n, p + 1, parser, evs)))"

text \<open>
  \<open>if (p == pe) goto _test_eof; switch (cs)\<close>: a \<open>cs\<close> without a case label leaves the switch at its
  closing brace and runs into \<open>_test_eof2: cs = 2\<close>.
\<close>

definition enter :: "nat \<Rightarrow> nat \<Rightarrow> nat \<Rightarrow> byte list \<Rightarrow> http_parser \<Rightarrow> nat \<times> nat \<times> http_parser \<times> event list" where
  "enter pe s p rest parser =
     (if rest = [] then (s, p, parser, [])
      else if 1 \<le> s \<and> s \<le> 349 then exec_loop pe s p rest parser
      else (2, p, parser, []))"

definition http_parser_has_error :: "http_parser \<Rightarrow> bool" where
  "http_parser_has_error parser \<longleftrightarrow> cs parser = http_parser_error"

definition http_parser_is_finished :: "http_parser \<Rightarrow> bool" where
  "http_parser_is_finished parser \<longleftrightarrow> cs parser \<ge> http_parser_first_final"

definition http_parser_finish :: "http_parser \<Rightarrow> int" where
  "http_parser_finish parser =
     (if http_parser_has_error parser then - 1 else if http_parser_is_finished parser then 1 else 0)"

text \<open>The assertions are those of a build without \<open>NDEBUG\<close>.\<close>

definition http_parser_execute :: "http_parser \<Rightarrow> byte list \<Rightarrow> nat \<Rightarrow> (nat \<times> http_parser \<times> event list) res" where
  "http_parser_execute parser buffer off =
     (let len = length buffer in
      if len = 0 then Inr (0, parser, [])
      else if off > len then Inl AssertFailed
      else
        let parser = parser\<lparr>nread := 0, mark_pos := 0, field_len := 0, field_start := 0\<rparr>;
            (s, p, parser, evs) = enter len (cs parser) off (drop off buffer) parser;
            parser = (if http_parser_has_error parser then parser else parser\<lparr>cs := s\<rparr>);
            parser = parser\<lparr>nread := nread parser + (p - off)\<rparr>
        in if p \<le> len \<and> nread parser \<le> len \<and> body_start parser \<le> len \<and> mark_pos parser < len \<and>
              field_len parser \<le> len \<and> field_start parser < len
           then Inr (nread parser, parser, evs) else Inl AssertFailed)"

end
