(* ===== verification/HttpSession.thy ===== *)
theory HttpSession
  imports HttpMessage Http11
begin

section \<open>Parsing requests, sessions and the HTTP server\<close>

text \<open>
  \<open>HttpParser.cpp\<close>, \<open>HttpSession.cpp\<close> and \<open>HttpServer.cpp\<close>. The memory that a callback can read is the
  buffer from its first byte on, \<open>mem\<close>; a pointer into it is an offset. The callbacks made by
  \<open>http_parser_execute\<close> are its list of events and run in that order. What is logged is left out.
\<close>

record HttpRequestParser =
  m_parser :: http_parser
  m_data :: HttpRequest
  m_error :: int

text \<open>\<open>std::string(at, length)\<close>; the largest string has \<open>2^63 - 1\<close> characters.\<close>

definition mk_string :: "byte list \<Rightarrow> nat \<Rightarrow> nat \<Rightarrow> str res" where
  "mk_string mem at len =
     (if len \<ge> 2 ^ 63 then Inl LengthError
      else if at + len > length mem then Inl HeapOverflow
      else Inr (take len (drop at mem)))"

definition set_data :: "(HttpRequest \<Rightarrow> HttpRequest) \<Rightarrow> HttpRequestParser \<Rightarrow> HttpRequestParser" where
  "set_data f parser = parser\<lparr>m_data := f (m_data parser)\<rparr>"

definition on_request_method :: "byte list \<Rightarrow> nat \<Rightarrow> HttpRequestParser \<Rightarrow> HttpRequestParser res" where
  "on_request_method mem at parser =
     bindE (CharsToHttpMethod (drop at mem)) (\<lambda>m.
       Inr (if m = INVALID_METHOD then parser\<lparr>m_error := 1000\<rparr> else set_data (\<lambda>d. d\<lparr>rq_method := m\<rparr>) parser))"

definition on_request_fragment :: "byte list \<Rightarrow> nat \<Rightarrow> nat \<Rightarrow> HttpRequestParser \<Rightarrow> HttpRequestParser res" where
  "on_request_fragment mem at len parser =
     bindE (mk_string mem at len) (\<lambda>s. Inr (set_data (\<lambda>d. d\<lparr>rq_fragment := s\<rparr>) parser))"

definition on_request_path :: "byte list \<Rightarrow> nat \<Rightarrow> nat \<Rightarrow> HttpRequestParser \<Rightarrow> HttpRequestParser res" where
  "on_request_path mem at len parser =
     bindE (mk_string mem at len) (\<lambda>s. Inr (set_data (\<lambda>d. d\<lparr>rq_path := s\<rparr>) parser))"

definition on_request_query :: "byte list \<Rightarrow> nat \<Rightarrow> nat \<Rightarrow> HttpRequestParser \<Rightarrow> HttpRequestParser res" where
  "on_request_query mem at len parser =
     bindE (mk_string mem at len) (\<lambda>s. Inr (set_data (\<lambda>d. d\<lparr>rq_query := s\<rparr>) parser))"

definition on_request_version :: "byte list \<Rightarrow> nat \<Rightarrow> nat \<Rightarrow> HttpRequestParser \<Rightarrow> HttpRequestParser res" where
  "on_request_version mem at len parser =
     bindE (strncmp_eq (lit ''HTTP/1.1'') (drop at mem) len) (\<lambda>v11.
       if v11 then Inr (set_data (\<lambda>d. d\<lparr>rq_version := 0x11\<rparr>) parser)
       else bindE (strncmp_eq (lit ''HTTP/1.0'') (drop at mem) len) (\<lambda>v10.
         if v10 then Inr (set_data (\<lambda>d. d\<lparr>rq_version := 0x10\<rparr>) parser)
         else Inr (parser\<lparr>m_error := 1001\<rparr>)))"

definition on_request_http_field :: "byte list \<Rightarrow> nat \<Rightarrow> nat \<Rightarrow> nat \<Rightarrow> nat \<Rightarrow> HttpRequestParser \<Rightarrow> HttpRequestParser res" where
  "on_request_http_field mem fld flen val vlen parser =
     (if flen = 0 then Inr parser
      else bindE (mk_string mem fld flen) (\<lambda>key. bindE (mk_string mem val vlen) (\<lambda>v.
        Inr (set_data (setHeader key v) parser))))"

text \<open>The table of callbacks that the constructor installs.\<close>

definition on_event :: "byte list \<Rightarrow> event \<Rightarrow> HttpRequestParser \<Rightarrow> HttpRequestParser res" where
  "on_event mem ev parser = (case ev of
     Field f flen v vlen \<Rightarrow> on_request_http_field mem f flen v vlen parser
   | Element cb at len \<Rightarrow> (case cb of
        cb_request_method \<Rightarrow> on_request_method mem at parser
      | cb_fragment \<Rightarrow> on_request_fragment mem at len parser
      | cb_request_path \<Rightarrow> on_request_path mem at len parser
      | cb_query_string \<Rightarrow> on_request_query mem at len parser
      | cb_http_version \<Rightarrow> on_request_version mem at len parser
      | _ \<Rightarrow> Inr parser))"

fun on_events :: "byte list \<Rightarrow> event list \<Rightarrow> HttpRequestParser \<Rightarrow> HttpRequestParser res" where
  "on_events mem [] parser = Inr parser"
| "on_events mem (ev # evs) parser = bindE (on_event mem ev parser) (on_events mem evs)"

text \<open>The constructor; \<open>raw\<close> is the uninitialised \<open>http_parser\<close> member.\<close>

definition new_HttpRequestParser :: "http_parser \<Rightarrow> HttpRequestParser" where
  "new_HttpRequestParser raw =
     \<lparr>m_parser = (http_parser_init raw)\<lparr>installed := \<lambda>_. True\<rparr>, m_data = new_HttpRequest 0x11 True, m_error = 0\<rparr>"

text \<open>\<open>execute(data, len)\<close>: the result is the offset, the parser and the memory after the \<open>memmove\<close>.\<close>

definition execute :: "byte list \<Rightarrow> nat \<Rightarrow> HttpRequestParser \<Rightarrow> (nat \<times> HttpRequestParser \<times> byte list) res" where
  "execute mem len parser =
     bindE (http_parser_execute (m_parser parser) (take len mem) 0) (\<lambda>(offset, p, evs).
       bindE (on_events mem evs parser) (\<lambda>parser.
         Inr (offset, parser\<lparr>m_parser := p\<rparr>, overwrite mem 0 (take (len - offset) (drop offset mem)))))"

definition isFinished :: "HttpRequestParser \<Rightarrow> int" where
  "isFinished parser = http_parser_finish (m_parser parser)"

definition hasError :: "HttpRequestParser \<Rightarrow> bool" where
  "hasError parser \<longleftrightarrow> m_error parser \<noteq> 0 \<or> http_parser_has_error (m_parser parser)"

definition getContentLength :: "(str \<Rightarrow> u64 option) \<Rightarrow> HttpRequestParser \<Rightarrow> u64" where
  "getContentLength lexical_cast parser = getAs lexical_cast (rq_headers (m_data parser)) (lit ''content-length'') 0"

subsection \<open>Sessions\<close>

text \<open>
  The peer is the list of the chunks that arrive; one \<open>recv\<close> takes at most one of them, and the end of
  the list is the end of the stream, where \<open>recv\<close> returns \<open>0\<close>. \<open>None\<close> in place of a request is
  \<open>nullptr\<close> after \<open>close()\<close>.
\<close>

definition sock_recv :: "nat \<Rightarrow> byte list list \<Rightarrow> byte list \<times> byte list list" where
  "sock_recv n peer = (case peer of
      [] \<Rightarrow> ([], [])
    | c # rest \<Rightarrow> (take n c, if length c \<le> n then rest else drop n c # rest))"

definition peer_size :: "byte list list \<Rightarrow> nat" where
  "peer_size peer = length peer + length (concat peer)"

lemma sock_recv_size:
  assumes "sock_recv n peer = (got, peer')"
  shows "peer_size peer' \<le> peer_size peer" and "got \<noteq> [] \<Longrightarrow> peer_size peer' < peer_size peer"
  using assms by (auto simp: sock_recv_def peer_size_def split: list.splits if_splits)

text \<open>The loop over the head of a request: \<open>mem\<close> is the buffer and \<open>offset\<close> the bytes kept in it.\<close>

function recv_head :: "byte list \<Rightarrow> nat \<Rightarrow> HttpRequestParser \<Rightarrow> byte list list \<Rightarrow>
    ((HttpRequestParser \<times> byte list \<times> nat) option \<times> byte list list) res" where
  "recv_head mem offset parser peer =
     (let (got, peer') = sock_recv (length mem - offset) peer
      in if got = [] then Inr (None, peer')
         else
           let len = length got + offset
           in bindE (execute (overwrite mem offset got) len parser) (\<lambda>(nparse, parser, mem').
                if hasError parser then Inr (None, peer')
                else if len - nparse = length mem then Inr (None, peer')
                else if isFinished parser \<noteq> 0 then Inr (Some (parser, mem', len - nparse), peer')
                else recv_head mem' (len - nparse) parser peer'))"
  by pat_completeness auto
termination
  by (relation "measure (\<lambda>(mem, offset, parser, peer). peer_size peer)") (auto intro: sock_recv_size(2) [OF sym])

declare recv_head.simps [simp del]

text \<open>The body: the rest of the buffer, then what one more \<open>recv\<close> brings.\<close>

definition recv_body :: "(nat \<Rightarrow> bool) \<Rightarrow> byte list \<Rightarrow> nat \<Rightarrow> nat \<Rightarrow> byte list list \<Rightarrow> (str option \<times> byte list list) res" where
  "recv_body can_alloc mem offset len peer =
     (if \<not> can_alloc len then Inl BadAlloc
      else
        let have = (if offset \<le> len then offset else len);
            body = overwrite (replicate len 0) 0 (take have mem)
        in if len \<le> offset then Inr (Some body, peer)
           else
             let (got, peer') = sock_recv (len - offset) peer
             in if got = [] then Inr (None, peer') else Inr (Some (overwrite body have got), peer'))"

definition recvRequest :: "(str \<Rightarrow> u64 option) \<Rightarrow> (nat \<Rightarrow> bool) \<Rightarrow> http_parser \<Rightarrow> byte list \<Rightarrow> byte list list \<Rightarrow>
    (HttpRequest option \<times> byte list list) res" where
  "recvRequest lexical_cast can_alloc raw buffer peer =
     bindE (recv_head buffer 0 (new_HttpRequestParser raw) peer) (\<lambda>(head, peer'). case head of
         None \<Rightarrow> Inr (None, peer')
       | Some (parser, mem, offset) \<Rightarrow>
           let len = sint (getContentLength lexical_cast parser)
           in if len > 0
              then bindE (recv_body can_alloc mem offset (nat len) peer') (\<lambda>(body, peer''). case body of
                       None \<Rightarrow> Inr (None, peer'')
                     | Some b \<Rightarrow> Inr (Some (init ((m_data parser)\<lparr>rq_body := b\<rparr>)), peer''))
              else Inr (Some (init (m_data parser)), peer'))"

lemma recv_head_size:
  "recv_head mem offset parser peer = Inr (Some h, peer') \<Longrightarrow> peer_size peer' < peer_size peer"
proof (induction mem offset parser peer rule: recv_head.induct)
  case (1 mem offset parser peer)
  obtain got p1 where g: "sock_recv (length mem - offset) peer = (got, p1)" by (cases "sock_recv (length mem - offset) peer")
  then have ne: "got \<noteq> []" using "1.prems" by (auto simp: recv_head.simps [of mem offset parser peer])
  then obtain np pa m2 where ex: "execute (overwrite mem offset got) (length got + offset) parser = Inr (np, pa, m2)"
    using "1.prems" by (auto simp: recv_head.simps [of mem offset parser peer] g Let_def bindE_eq_Inr)
  have lt: "peer_size p1 < peer_size peer" using sock_recv_size(2) [OF g ne] .
  show ?case
  proof (cases "isFinished pa \<noteq> 0")
    case True
    then have "peer' = p1" using "1.prems" ne
      by (auto simp: recv_head.simps [of mem offset parser peer] g ex Let_def split: if_splits)
    with lt show ?thesis by simp
  next
    case False
    then have r: "recv_head m2 (length got + offset - np) pa p1 = Inr (Some h, peer')"
      and c: "\<not> hasError pa" "length got + offset - np \<noteq> length mem" using "1.prems" ne
      by (auto simp: recv_head.simps [of mem offset parser peer] g ex Let_def split: if_splits)
    from "1.IH" [OF g [symmetric] refl ne refl ex refl refl c _ r] False lt show ?thesis by simp
  qed
qed

lemma recv_body_size: "recv_body can_alloc mem offset len peer = Inr (b, peer') \<Longrightarrow> peer_size peer' \<le> peer_size peer"
  by (auto simp: recv_body_def Let_def split: if_splits prod.splits dest: sock_recv_size(1))

lemma recvRequest_size:
  "recvRequest lc ca raw buffer peer = Inr (Some rq, peer') \<Longrightarrow> peer_size peer' < peer_size peer"
  by (fastforce simp: recvRequest_def bindE_eq_Inr Let_def split: option.splits if_splits prod.splits
      dest: recv_head_size recv_body_size)

subsection \<open>The server\<close>

definition hello :: str where
  "hello = lit ''hello world, If you see this page, the lim web server is successfully installed and working. Further configuration is required.''"

definition make_response :: "bool \<Rightarrow> str \<Rightarrow> HttpRequest \<Rightarrow> HttpResponse" where
  "make_response keepalive name rq =
     (rs_setHeader (lit ''Server'') name (new_HttpResponse (rq_version rq) (rq_close rq \<or> \<not> keepalive)))\<lparr>rs_body := hello\<rparr>"

text \<open>
  \<open>handleClient\<close>: what is sent to the client. Each turn allocates a buffer and a parser, whose raw
  contents are \<open>buffer\<close> and \<open>raw\<close>.
\<close>

function handleClient :: "(str \<Rightarrow> u64 option) \<Rightarrow> (nat \<Rightarrow> bool) \<Rightarrow> http_parser \<Rightarrow> byte list \<Rightarrow> bool \<Rightarrow> str \<Rightarrow>
    byte list list \<Rightarrow> str list res" where
  "handleClient lexical_cast can_alloc raw buffer keepalive name peer =
     bindE (recvRequest lexical_cast can_alloc raw buffer peer) (\<lambda>(req, peer'). case req of
         None \<Rightarrow> Inr []
       | Some rq \<Rightarrow>
           let sent = HttpResponse_dump (make_response keepalive name rq)
           in if \<not> keepalive \<or> rq_close rq then Inr [sent]
              else bindE (handleClient lexical_cast can_alloc raw buffer keepalive name peer') (\<lambda>rest. Inr (sent # rest)))"
  by pat_completeness auto
termination
  by (relation "measure (\<lambda>(lc, ca, raw, b, k, n, peer). peer_size peer)") (auto dest: recvRequest_size)

declare handleClient.simps [simp del]

end
