(* ===== verification/Http11_Props.thy ===== *)
theory Http11_Props
  imports Http11
begin

section \<open>The request automaton: properties\<close>

text \<open>
  First a table of facts that hold on every edge of the automaton, proved by one walk over all
  case blocks; from it, by induction over the input, that every callback gets a slice of the
  buffer. Then the runs over the parts of a request, which compose into the theorem that a
  printed request is parsed back.
\<close>

lemmas http_case_defs =
  http_case_1_def http_case_4_def http_case_14_def http_case_18_def http_case_20_def
  http_case_25_def http_case_29_def http_case_33_def http_case_35_def http_case_39_def
  http_case_43_def http_case_51_def http_case_65_def http_case_81_def http_case_90_def
  http_case_101_def http_case_112_def http_case_123_def http_case_132_def http_case_141_def
  http_case_149_def http_case_158_def http_case_169_def http_case_173_def http_case_178_def
  http_case_190_def http_case_198_def http_case_203_def http_case_209_def http_case_213_def
  http_case_217_def http_case_223_def http_case_235_def http_case_252_def http_case_262_def
  http_case_272_def http_case_283_def http_case_294_def http_case_304_def http_case_313_def
  http_case_321_def http_case_329_def http_case_338_def http_case_347_def

lemmas tr_defs =
  st_def tr0_def tr2_def tr3_def tr4_def tr6_def tr7_def tr8_def tr9_def tr10_def tr11_def
  tr12_def tr13_def tr21_def tr22_def tr23_def tr24_def tr25_def tr27_def tr28_def tr29_def
  tr30_def tr31_def tr33_def tr34_def tr36_def tr37_def tr39_def tr42_def tr43_def tr44_def
  tr45_def tr47_def tr53_def tr54_def tr55_def tr56_def tr58_def tr59_def tr203_def tr204_def
  tr224_def tr227_def tr228_def tr232_def tr235_def

subsection \<open>Facts about every edge\<close>

text \<open>
  The states inside a header name, and those inside a query string. The two flags say that
  \<open>field_start\<close> and \<open>field_len\<close> describe a slice, and that \<open>query_start\<close> belongs to this buffer;
  an action list is fine when no callback uses a slice whose flag is down.
\<close>

definition name_states :: "nat set" where
  "name_states = {14, 18, 348}"

definition query_states :: "nat set" where
  "query_states = {30, 31, 32}"

lemma name_states_iff: "n \<in> name_states \<longleftrightarrow> n = 14 \<or> n = 18 \<or> n = 348"
  by (simp add: name_states_def)

lemma query_states_iff: "n \<in> query_states \<longleftrightarrow> n = 30 \<or> n = 31 \<or> n = 32"
  by (simp add: query_states_def)

definition flag :: "action \<Rightarrow> bool \<times> bool \<Rightarrow> (bool \<times> bool) option" where
  "flag a f = (case a of
     StartField \<Rightarrow> Some (False, snd f) | WriteField \<Rightarrow> Some (True, snd f)
   | WriteValue \<Rightarrow> (if fst f then Some f else None)
   | StartQuery \<Rightarrow> Some (fst f, True)
   | QueryString \<Rightarrow> (if snd f then Some f else None)
   | _ \<Rightarrow> Some f)"

fun flags :: "action list \<Rightarrow> bool \<times> bool \<Rightarrow> (bool \<times> bool) option" where
  "flags [] f = Some f"
| "flags (a # as) f = (case flag a f of None \<Rightarrow> None | Some f' \<Rightarrow> flags as f')"

definition state_flags :: "nat \<Rightarrow> bool \<times> bool" where
  "state_flags s = (s \<notin> name_states, s \<in> query_states)"

definition edge_ok :: "nat \<Rightarrow> target \<Rightarrow> bool" where
  "edge_ok s t = (case t of Err \<Rightarrow> True
    | Go acts n \<Rightarrow> 1 \<le> n \<and> n < 348 \<and> Done \<notin> set acts \<and>
        (case flags acts (state_flags s) of None \<Rightarrow> False
         | Some (v, q) \<Rightarrow> (n \<notin> name_states \<longrightarrow> v) \<and> (n \<in> query_states \<longrightarrow> q))
    | Break acts n \<Rightarrow> (n = 348 \<or> n = 349) \<and> flags acts (state_flags s) \<noteq> None)"

definition edge_at :: "nat \<Rightarrow> target \<Rightarrow> bool" where
  "edge_at s t = edge_ok s t"

lemma edge_at_case: "edge_ok n x \<Longrightarrow> edge_at s y \<Longrightarrow> edge_at s (if s = n then x else y)"
  by (simp add: edge_at_def)

lemma edge_at_Err: "edge_at s Err"
  by (simp add: edge_at_def edge_ok_def)

lemma edge_ok_if: "edge_ok n x \<Longrightarrow> edge_ok n y \<Longrightarrow> edge_ok n (if b then x else y)"
  by simp

lemma edge_at_if: "edge_at s x \<Longrightarrow> edge_at s y \<Longrightarrow> edge_at s (if b then x else y)"
  by simp

lemmas edge_leaf = edge_ok_def tr_defs flag_def state_flags_def name_states_iff query_states_iff

lemma edge_at_target: "edge_at s (http_target s r c)"
  unfolding http_target_def Let_def http_case_defs
  by (intro edge_at_case edge_at_Err edge_ok_if edge_at_if) (simp_all add: edge_leaf)

lemma http_target_edge: "edge_ok s (http_target s r c)"
  using edge_at_target by (simp add: edge_at_def)

subsection \<open>Every callback gets a slice of the buffer\<close>

definition slice_in :: "nat \<Rightarrow> event \<Rightarrow> bool" where
  "slice_in pe e = (case e of Element cb at len \<Rightarrow> at + len \<le> pe
     | Field f flen v vlen \<Rightarrow> f + flen \<le> pe \<and> v + vlen \<le> pe)"

text \<open>The members of the parser that index the buffer, at offset \<open>p\<close> of a buffer of length \<open>pe\<close>.\<close>

definition marks_ok :: "nat \<Rightarrow> nat \<Rightarrow> bool \<times> bool \<Rightarrow> http_parser \<Rightarrow> bool" where
  "marks_ok pe p f P \<longleftrightarrow> mark_pos P \<le> p \<and> mark_pos P < pe \<and> field_start P \<le> p \<and> field_start P < pe \<and>
     field_len P \<le> p \<and> body_start P \<le> pe \<and> (fst f \<longrightarrow> field_start P + field_len P \<le> p) \<and>
     (snd f \<longrightarrow> query_start P \<le> p)"

lemma marks_ok_mono: "marks_ok pe p f P \<Longrightarrow> p \<le> p' \<Longrightarrow> marks_ok pe p' f P"
  by (auto simp: marks_ok_def)

lemma marks_ok_weaken:
  "marks_ok pe p f P \<Longrightarrow> (fst g \<longrightarrow> fst f) \<Longrightarrow> (snd g \<longrightarrow> snd f) \<Longrightarrow> marks_ok pe p g P"
  by (auto simp: marks_ok_def)

definition index_ok :: "nat \<Rightarrow> http_parser \<Rightarrow> bool" where
  "index_ok pe P \<longleftrightarrow> mark_pos P < pe \<and> field_start P < pe \<and> field_len P \<le> pe \<and> body_start P \<le> pe"

lemma marks_index: "marks_ok pe p f P \<Longrightarrow> p \<le> pe \<Longrightarrow> index_ok pe P"
  by (simp add: marks_ok_def index_ok_def)

text \<open>What the actions leave alone.\<close>

definition same_config :: "http_parser \<Rightarrow> http_parser \<Rightarrow> bool" where
  "same_config P P' \<longleftrightarrow> cs P' = cs P \<and> nread P' = nread P \<and> uri_relaxed P' = uri_relaxed P \<and> installed P' = installed P"

lemma same_config_trans: "same_config P P' \<Longrightarrow> same_config P' P'' \<Longrightarrow> same_config P P''"
  by (simp add: same_config_def)

lemmas perform_simps = perform_def flag_def marks_ok_def same_config_def element_def slice_in_def LEN_def

lemma perform_ok:
  assumes f: "flag a f = Some f'" and m: "marks_ok pe p f P" and p: "p < pe"
    and e: "perform p pe a P = (P', evs)"
  shows "marks_ok pe p f' P' \<and> (\<forall>e \<in> set evs. slice_in pe e) \<and> same_config P P'"
proof -
  have P': "P' = fst (perform p pe a P)" and evs: "evs = snd (perform p pe a P)" using e by simp_all
  have "marks_ok pe p f' (fst (perform p pe a P))"
    using f m p by (cases f'; cases a) (simp_all add: perform_simps split: if_split_asm)
  moreover have "\<forall>e \<in> set (snd (perform p pe a P)). slice_in pe e"
    using f m p by (cases a) (simp_all add: perform_simps split: if_split_asm)
  moreover have "same_config P (fst (perform p pe a P))"
    by (cases a) (simp_all add: perform_simps)
  ultimately show ?thesis unfolding P' evs by blast
qed

lemma perform_all_ok:
  assumes "flags acts f = Some f'" and "marks_ok pe p f P" and "p < pe" and "perform_all p pe acts P = (P', evs)"
  shows "marks_ok pe p f' P' \<and> (\<forall>e \<in> set evs. slice_in pe e) \<and> same_config P P'"
  using assms
proof (induction acts arbitrary: f P P' evs)
  case Nil
  then show ?case by (auto simp: same_config_def)
next
  case (Cons a acts)
  obtain f1 where f1: "flag a f = Some f1" "flags acts f1 = Some f'"
    using Cons.prems(1) by (auto split: option.splits)
  obtain P1 e1 where p1: "perform p pe a P = (P1, e1)" by fastforce
  obtain P2 e2 where p2: "perform_all p pe acts P1 = (P2, e2)" by fastforce
  note ok1 = perform_ok [OF f1(1) Cons.prems(2,3) p1]
  then have "marks_ok pe p f1 P1" by blast
  from Cons.IH [OF f1(2) this Cons.prems(3) p2] ok1 Cons.prems(4) p1 p2
  show ?case by (auto simp: same_config_def)
qed

lemma exec_loop_ok:
  assumes "marks_ok pe p (state_flags s) P" and "p + length rest = pe"
    and "exec_loop pe s p rest P = (s', p', P', evs)"
  shows "(\<forall>e \<in> set evs. slice_in pe e) \<and> p \<le> p' \<and> p' \<le> pe \<and> same_config P P' \<and>
         index_ok pe P'"
  using assms
proof (induction rest arbitrary: s p P s' p' P' evs)
  case Nil
  then show ?case using marks_index by (simp add: same_config_def)
next
  case (Cons b rest)
  note edge = http_target_edge [of s "uri_relaxed P" "sint b"]
  have p: "p < pe" using Cons.prems(2) by simp
  show ?case
  proof (cases "http_target s (uri_relaxed P) (sint b)")
    case Err
    then have "P' = P" "evs = []" "p' = p" using Cons.prems(3) by simp_all
    moreover have "index_ok pe P" using marks_index [OF Cons.prems(1)] p by simp
    ultimately show ?thesis using p by (simp add: same_config_def)
  next
    case (Go acts n)
    obtain f where f: "flags acts (state_flags s) = Some f" and n: "n \<notin> name_states \<longrightarrow> fst f"
      "n \<in> query_states \<longrightarrow> snd f" using edge by (auto simp: Go edge_ok_def split: option.splits)
    obtain P1 e1 where p1: "perform_all p pe acts P = (P1, e1)" by fastforce
    obtain s2 p2 P2 e2 where l: "exec_loop pe n (p + 1) rest P1 = (s2, p2, P2, e2)" by (metis prod_cases4)
    note ok = perform_all_ok [OF f Cons.prems(1) p p1]
    then have "marks_ok pe (p + 1) f P1" using marks_ok_mono [of pe p f P1 "p + 1"] by simp
    then have "marks_ok pe (p + 1) (state_flags n) P1"
      by (rule marks_ok_weaken) (use n in \<open>auto simp: state_flags_def\<close>)
    moreover have "p + 1 + length rest = pe" using Cons.prems(2) by simp
    ultimately have ih: "(\<forall>e \<in> set e2. slice_in pe e) \<and> p + 1 \<le> p2 \<and> p2 \<le> pe \<and> same_config P1 P2 \<and>
        index_ok pe P2" using Cons.IH l by blast
    have "p' = p2 \<and> P' = P2 \<and> evs = e1 @ e2" using Cons.prems(3) l by (simp add: Go p1)
    then show ?thesis using ih ok same_config_trans [of P P1 P2] by auto
  next
    case (Break acts n)
    obtain f where f: "flags acts (state_flags s) = Some f" using edge by (auto simp: Break edge_ok_def)
    obtain P1 e1 where p1: "perform_all p pe acts P = (P1, e1)" by fastforce
    note ok = perform_all_ok [OF f Cons.prems(1) p p1]
    then have "index_ok pe P1" using marks_index [of pe p f P1] p by simp
    with ok Cons.prems(2,3) show ?thesis by (auto simp: Break p1)
  qed
qed

text \<open>The members that \<open>http_parser_execute\<close> resets.\<close>

definition reset_marks :: "http_parser \<Rightarrow> http_parser" where
  "reset_marks P = P\<lparr>nread := 0, mark_pos := 0, field_len := 0, field_start := 0\<rparr>"

lemma marks_ok_reset:
  "0 < pe \<Longrightarrow> body_start P \<le> pe \<Longrightarrow> cs P \<notin> query_states \<Longrightarrow> marks_ok pe p (state_flags (cs P)) (reset_marks P)"
  by (simp add: marks_ok_def reset_marks_def state_flags_def)

lemma enter_ok:
  assumes "marks_ok pe p (state_flags s) P" and "p + length rest = pe"
    and "enter pe s p rest P = (s', p', P', evs)"
  shows "(\<forall>e \<in> set evs. slice_in pe e) \<and> p \<le> p' \<and> p' \<le> pe \<and> same_config P P' \<and>
         index_ok pe P'"
proof (cases "rest = [] \<or> \<not> (1 \<le> s \<and> s \<le> 349)")
  case True
  then have "p' = p \<and> P' = P \<and> evs = []" using assms(3) by (auto simp: enter_def split: if_splits)
  moreover have "index_ok pe P" using marks_index [OF assms(1)] assms(2) by simp
  ultimately show ?thesis using assms(2) by (auto simp: same_config_def)
next
  case False
  then have "exec_loop pe s p rest P = (s', p', P', evs)" using assms(3) by (simp add: enter_def)
  from exec_loop_ok [OF assms(1,2) this] show ?thesis .
qed

lemma execute_ok:
  assumes len: "0 < length buffer" "off \<le> length buffer" and body: "body_start P \<le> length buffer"
    and q: "cs P \<notin> query_states"
  shows "\<exists>n P' evs. http_parser_execute P buffer off = Inr (n, P', evs) \<and> off + n \<le> length buffer \<and>
           (\<forall>e \<in> set evs. slice_in (length buffer) e)"
proof -
  let ?pe = "length buffer" and ?P = "reset_marks P"
  obtain s' p' P' evs where e: "enter ?pe (cs P) off (drop off buffer) ?P = (s', p', P', evs)"
    by (metis prod_cases4)
  have "off + length (drop off buffer) = ?pe" using len(2) by simp
  from enter_ok [OF marks_ok_reset [OF len(1) body q] this e]
  have ok: "\<forall>e \<in> set evs. slice_in ?pe e" "off \<le> p'" "p' \<le> ?pe" "same_config ?P P'"
    and m: "body_start P' \<le> ?pe" "mark_pos P' < ?pe" "field_len P' \<le> ?pe" "field_start P' < ?pe"
    by (auto simp: index_ok_def)
  have "nread P' = 0" using ok(4) by (simp add: same_config_def reset_marks_def)
  then show ?thesis
    using e ok m len
    by (auto simp: http_parser_execute_def Let_def reset_marks_def split: prod.splits)
qed

text \<open>An error is final: nothing is consumed, nothing called, and the state stays 0.\<close>

lemma execute_error:
  assumes "cs P = http_parser_error" and "0 < length buffer" and "off \<le> length buffer" and "body_start P \<le> length buffer"
  shows "http_parser_execute P buffer off = Inr (0, reset_marks P, [])"
  using assms
  by (auto simp: http_parser_execute_def Let_def reset_marks_def enter_def http_parser_error_def
      http_parser_has_error_def)

end
