(* ===== verification/Http11_Chars.thy ===== *)
theory Http11_Chars
  imports Http11_Props
begin

section \<open>The request automaton: characters and edges\<close>

text \<open>
  The character classes of the part of the grammar that the round trip covers (a method of 1 to
  20 upper-case letters and digits, an absolute path, a query, the versions, headers), as
  predicates on a signed character, and the edges of the automaton on them.
\<close>

subsection \<open>Characters\<close>

definition method_char :: "int \<Rightarrow> bool" where
  "method_char c \<longleftrightarrow> 48 \<le> c \<and> c \<le> 57 \<or> 65 \<le> c \<and> c \<le> 90"

definition path_char :: "int \<Rightarrow> bool" where
  "path_char c \<longleftrightarrow> c < 0 \<or> c = 33 \<or> c = 36 \<or> 38 \<le> c \<and> c \<le> 59 \<or> c = 61 \<or> 64 \<le> c \<and> c \<le> 90 \<or>
     c = 95 \<or> 97 \<le> c \<and> c \<le> 122 \<or> c = 126"

definition query_char :: "int \<Rightarrow> bool" where
  "query_char c \<longleftrightarrow> path_char c \<or> c = 63"

definition token_char :: "int \<Rightarrow> bool" where
  "token_char c \<longleftrightarrow> 1 \<le> c \<and> c \<le> 8 \<or> 10 \<le> c \<and> c \<le> 31 \<or> c = 33 \<or> 35 \<le> c \<and> c \<le> 39 \<or> c = 42 \<or> c = 43 \<or>
     c = 45 \<or> c = 46 \<or> 48 \<le> c \<and> c \<le> 57 \<or> 65 \<le> c \<and> c \<le> 90 \<or> 94 \<le> c \<and> c \<le> 122 \<or> c = 124 \<or> c = 126"

definition blank :: "int \<Rightarrow> bool" where
  "blank c \<longleftrightarrow> c = 32 \<or> c = 9"

definition value_char :: "int \<Rightarrow> bool" where
  "value_char c \<longleftrightarrow> c \<noteq> 0 \<and> c \<noteq> 10 \<and> c \<noteq> 13 \<and> c \<noteq> 127"

text \<open>A signed \<open>char\<close> lies between \<open>-128\<close> and \<open>127\<close>.\<close>

lemma char_range: "- 128 \<le> sint (b :: byte) \<and> sint b \<le> 127"
  using sint_ge [of b] sint_lt [of b] by simp

subsection \<open>Edges\<close>

text \<open>The state after \<open>k\<close> characters of the method.\<close>

definition method_state :: "nat \<Rightarrow> nat" where
  "method_state k = (if k = 0 then 1 else if k = 1 then 2 else 173 + k)"

lemmas target_simps = http_target_def Let_def st_def

lemma target_method_first: "method_char c \<Longrightarrow> http_target 1 r c = tr0"
  by (auto simp: target_simps http_case_1_def method_char_def)

lemma target_method:
  assumes "method_char c" and "1 \<le> k" and "k < 20"
  shows "http_target (method_state k) r c = Go [] (method_state (Suc k))"
proof -
  have "k = 1 \<or> k = 2 \<or> k = 3 \<or> k = 4 \<or> k = 5 \<or> k = 6 \<or> k = 7 \<or> k = 8 \<or> k = 9 \<or> k = 10 \<or>
      k = 11 \<or> k = 12 \<or> k = 13 \<or> k = 14 \<or> k = 15 \<or> k = 16 \<or> k = 17 \<or> k = 18 \<or> k = 19"
    using assms(2,3) by presburger
  moreover have "c \<noteq> 32" using assms(1) by (auto simp: method_char_def)
  ultimately show ?thesis
    using assms(1) unfolding method_state_def method_char_def
    by (elim disjE)
       (simp_all add: target_simps http_case_1_def http_case_173_def http_case_178_def http_case_190_def)
qed

lemma target_method_end:
  assumes "1 \<le> k" and "k \<le> 20"
  shows "http_target (method_state k) r 32 = tr4"
proof -
  have "k = 1 \<or> k = 2 \<or> k = 3 \<or> k = 4 \<or> k = 5 \<or> k = 6 \<or> k = 7 \<or> k = 8 \<or> k = 9 \<or> k = 10 \<or>
      k = 11 \<or> k = 12 \<or> k = 13 \<or> k = 14 \<or> k = 15 \<or> k = 16 \<or> k = 17 \<or> k = 18 \<or> k = 19 \<or> k = 20"
    using assms by presburger
  then show ?thesis
    unfolding method_state_def
    by (elim disjE)
       (simp_all add: target_simps http_case_1_def http_case_173_def http_case_178_def http_case_190_def)
qed

lemma target_path_start: "http_target 3 r 47 = tr10"
  by (simp add: target_simps http_case_1_def widec_def)

lemma target_path_first: "path_char c \<Longrightarrow> c \<noteq> 47 \<Longrightarrow> http_target 33 r c = Go [] 26"
  by (auto simp: target_simps http_case_33_def widec_def path_char_def)

lemma target_path: "path_char c \<Longrightarrow> http_target 26 r c = Go [] 26"
  by (auto simp: target_simps http_case_25_def widec_def path_char_def)

lemma target_path_sp: "http_target 33 r 32 = tr37" "http_target 26 r 32 = tr37"
  by (simp_all add: target_simps http_case_33_def http_case_25_def widec_def)

lemma target_path_query: "http_target 33 r 63 = tr42" "http_target 26 r 63 = tr42"
  by (simp_all add: target_simps http_case_33_def http_case_25_def widec_def)

lemma target_query_first: "query_char c \<Longrightarrow> http_target 29 r c = tr53"
  by (auto simp: target_simps http_case_29_def widec_def query_char_def path_char_def)

lemma target_query: "query_char c \<Longrightarrow> http_target 30 r c = Go [] 30"
  by (auto simp: target_simps http_case_29_def widec_def query_char_def path_char_def)

lemma target_query_sp: "http_target 29 r 32 = tr54" "http_target 30 r 32 = tr58"
  by (simp_all add: target_simps http_case_29_def widec_def)

lemma target_version:
  "http_target 4 r 72 = tr13" "http_target 5 r 84 = Go [] 6" "http_target 6 r 84 = Go [] 7"
  "http_target 7 r 80 = Go [] 8" "http_target 8 r 47 = Go [] 9" "http_target 9 r 49 = Go [] 10"
  "http_target 10 r 46 = Go [] 11" "c = 48 \<or> c = 49 \<Longrightarrow> http_target 11 r c = Go [] 12"
  "http_target 12 r 13 = tr22" "http_target 17 r 10 = Go [] 13"
  by (auto simp: target_simps http_case_1_def http_case_4_def http_case_14_def)

lemma target_name_first: "token_char c \<Longrightarrow> c \<noteq> 10 \<Longrightarrow> c \<noteq> 13 \<Longrightarrow> http_target 13 r c = tr23"
  by (auto simp: target_simps http_case_4_def token_char_def)

lemma target_name: "token_char c \<Longrightarrow> http_target 14 r c = Go [] 14"
  by (auto simp: target_simps http_case_14_def token_char_def)

lemma target_colon: "http_target 14 r 58 = tr27"
  by (simp add: target_simps http_case_14_def)

lemma target_blank: "blank c \<Longrightarrow> http_target 15 r c = tr29"
  by (auto simp: target_simps http_case_14_def blank_def)

lemma target_value_first:
  "value_char c \<Longrightarrow> \<not> blank c \<Longrightarrow> c \<le> 127 \<Longrightarrow> http_target 15 r c = tr28"
  by (auto simp: target_simps http_case_14_def value_char_def blank_def)

lemma target_value: "value_char c \<Longrightarrow> c \<le> 127 \<Longrightarrow> http_target 16 r c = Go [] 16"
  by (auto simp: target_simps http_case_14_def value_char_def)

lemma target_value_end: "http_target 15 r 13 = tr31" "http_target 16 r 13 = tr34"
  by (simp_all add: target_simps http_case_14_def)

lemma target_head_end: "http_target 13 r 13 = tr25" "http_target 18 r 10 = tr36"
  by (simp_all add: target_simps http_case_4_def http_case_14_def http_case_18_def)

end
