(* ===== verification/Http11_Run.thy ===== *)
theory Http11_Run
  imports Http11_Chars
begin

section \<open>The request automaton: a printed request is parsed back\<close>

text \<open>
  Each part of a request has a lemma that runs the loop over it; the lemmas compose along the
  concatenation of the parts into the theorem that executing the parser on a printed request
  makes exactly the callbacks of its parts, stops after the head and reports it finished.
\<close>

subsection \<open>Running the loop over the parts of a request\<close>

definition emit :: "event list \<Rightarrow> nat \<times> nat \<times> http_parser \<times> event list \<Rightarrow> nat \<times> nat \<times> http_parser \<times> event list" where
  "emit evs r = (case r of (s, p, P, evs') \<Rightarrow> (s, p, P, evs @ evs'))"

lemma emit_emit [simp]: "emit e1 (emit e2 r) = emit (e1 @ e2) r"
  by (simp add: emit_def split: prod.splits)

lemma emit_Nil [simp]: "emit [] r = r"
  by (simp add: emit_def split: prod.splits)

lemma exec_go:
  assumes "http_target s (uri_relaxed P) (sint b) = Go acts n" and "perform_all p pe acts P = (P', e)"
  shows "exec_loop pe s p (b # rest) P = emit e (exec_loop pe n (Suc p) rest P')"
  using assms by (simp add: emit_def split: prod.splits)

declare exec_loop.simps(2) [simp del]

lemma exec_stay:
  assumes "\<And>b. b \<in> set xs \<Longrightarrow> http_target s (uri_relaxed P) (sint b) = Go [] s"
  shows "exec_loop pe s p (xs @ rest) P = exec_loop pe s (p + length xs) rest P"
  using assms
proof (induction xs arbitrary: p)
  case Nil
  then show ?case by simp
next
  case (Cons b xs)
  have "http_target s (uri_relaxed P) (sint b) = Go [] s" using Cons.prems by simp
  from exec_go [OF this, of p pe P "[]"]
  have "exec_loop pe s p (b # xs @ rest) P = exec_loop pe s (Suc p) (xs @ rest) P" by simp
  then show ?case using Cons.IH Cons.prems by simp
qed

text \<open>A parser with every callback installed, as \<open>HttpRequestParser\<close> sets it up.\<close>

definition all_installed :: "http_parser \<Rightarrow> bool" where
  "all_installed P \<longleftrightarrow> installed P = (\<lambda>_. True) \<and> \<not> xml_sent P \<and> \<not> json_sent P"

lemma all_installed_update [simp]:
  "all_installed (P\<lparr>mark_pos := n\<rparr>) = all_installed P" "all_installed (P\<lparr>field_start := n\<rparr>) = all_installed P"
  "all_installed (P\<lparr>field_len := n\<rparr>) = all_installed P" "all_installed (P\<lparr>query_start := n\<rparr>) = all_installed P"
  "all_installed (P\<lparr>body_start := n\<rparr>) = all_installed P"
  by (simp_all add: all_installed_def)

lemmas act_simps = perform_def element_def LEN_def all_installed_def

lemma run_method_tail:
  assumes "\<forall>b \<in> set m. method_char (sint b)" and "1 \<le> k" and "k + length m \<le> 20"
  shows "exec_loop pe (method_state k) p (m @ rest) P = exec_loop pe (method_state (k + length m)) (p + length m) rest P"
  using assms
proof (induction m arbitrary: k p)
  case Nil
  then show ?case by simp
next
  case (Cons b m)
  have t: "http_target (method_state k) (uri_relaxed P) (sint b) = Go [] (method_state (Suc k))"
    using Cons.prems by (intro target_method) auto
  have "exec_loop pe (method_state k) p (b # m @ rest) P = exec_loop pe (method_state (Suc k)) (Suc p) (m @ rest) P"
    using exec_go [OF t, of p pe P "[]"] by simp
  then show ?case using Cons.IH [of "Suc k" "Suc p"] Cons.prems by simp
qed

lemma run_method:
  assumes m: "m \<noteq> []" "length m \<le> 20" "\<forall>b \<in> set m. method_char (sint b)" and P: "all_installed P"
  shows "exec_loop pe 1 p (m @ 32 # rest) P =
    emit [Element cb_request_method p (length m)]
      (exec_loop pe 3 (p + length m + 1) rest (P\<lparr>mark_pos := p\<rparr>))"
proof -
  obtain b m' where m': "m = b # m'" using m(1) by (cases m) auto
  let ?P = "P\<lparr>mark_pos := p\<rparr>"
  have "http_target 1 (uri_relaxed P) (sint b) = Go [Mark] 2"
    using target_method_first m m' by (simp add: tr0_def)
  then have "exec_loop pe 1 p (m @ 32 # rest) P = exec_loop pe (method_state 1) (Suc p) (m' @ 32 # rest) ?P"
    using exec_go [of 1 P b "[Mark]" 2 p pe ?P "[]"] by (simp add: m' perform_def method_state_def)
  also have "\<dots> = exec_loop pe (method_state (length m)) (p + length m) (32 # rest) ?P"
    using run_method_tail [of m' 1] m m' by simp
  also have "\<dots> = emit [Element cb_request_method p (length m)] (exec_loop pe 3 (p + length m + 1) rest ?P)"
  proof -
    have "1 \<le> length m" using m' by simp
    then have "http_target (method_state (length m)) (uri_relaxed ?P) (sint (32 :: byte)) = Go [RequestMethod] 3"
      using target_method_end [OF _ m(2)] by (simp add: tr4_def)
    from exec_go [OF this] show ?thesis using P by (simp add: act_simps)
  qed
  finally show ?thesis .
qed

text \<open>The path, up to the character that ends it.\<close>

lemma run_path:
  assumes "\<forall>b \<in> set xs. path_char (sint b)" and "xs \<noteq> [] \<Longrightarrow> hd xs \<noteq> 47"
  shows "exec_loop pe 3 p (47 # xs @ rest) P =
    exec_loop pe (if xs = [] then 33 else 26) (p + length xs + 1) rest (P\<lparr>mark_pos := p\<rparr>)"
proof -
  let ?P = "P\<lparr>mark_pos := p\<rparr>"
  have "http_target 3 (uri_relaxed P) (sint (47 :: byte)) = Go [Mark] 33"
    using target_path_start by (simp add: tr10_def)
  then have start: "exec_loop pe 3 p (47 # xs @ rest) P = exec_loop pe 33 (Suc p) (xs @ rest) ?P"
    using exec_go [of 3 P 47 "[Mark]" 33 p pe ?P "[]"] by (simp add: perform_def)
  show ?thesis
  proof (cases xs)
    case Nil
    then show ?thesis using start by simp
  next
    case (Cons b xs')
    then have "b \<noteq> 47" and "path_char (sint b)" using assms by auto
    moreover have "sint (47 :: byte) = 47" by simp
    then have "sint b \<noteq> 47" using \<open>b \<noteq> 47\<close> by (metis signed_word_eqI)
    ultimately have "http_target 33 (uri_relaxed ?P) (sint b) = Go [] 26"
      by (intro target_path_first) auto
    from exec_go [OF this, of "Suc p" pe ?P "[]" "xs' @ rest"]
    have "exec_loop pe 33 (Suc p) (xs @ rest) ?P = exec_loop pe 26 (Suc (Suc p)) (xs' @ rest) ?P"
      by (simp add: Cons)
    also have "\<dots> = exec_loop pe 26 (Suc (Suc p) + length xs') rest ?P"
      using assms(1) by (intro exec_stay target_path) (simp add: Cons)
    finally show ?thesis using start by (simp add: Cons)
  qed
qed

text \<open>What ends the path: a blank, or a question mark, a query and a blank.\<close>

lemma run_path_end:
  assumes "s = 33 \<or> s = 26" and "all_installed P"
  shows "exec_loop pe s p (32 # rest) P =
      emit [Element cb_request_path (mark_pos P) (LEN (mark_pos P) p), Element cb_request_uri (mark_pos P) (LEN (mark_pos P) p)]
        (exec_loop pe 4 (p + 1) rest P)"
    and "exec_loop pe s p (63 # rest) P =
      emit [Element cb_request_path (mark_pos P) (LEN (mark_pos P) p)] (exec_loop pe 29 (p + 1) rest P)"
proof -
  have "http_target s (uri_relaxed P) (sint (32 :: byte)) = Go [RequestPath, RequestUri] 4"
    using assms(1) target_path_sp by (auto simp: tr37_def)
  from exec_go [OF this] show "exec_loop pe s p (32 # rest) P =
      emit [Element cb_request_path (mark_pos P) (LEN (mark_pos P) p), Element cb_request_uri (mark_pos P) (LEN (mark_pos P) p)]
        (exec_loop pe 4 (p + 1) rest P)"
    using assms(2) by (simp add: act_simps)
  have "http_target s (uri_relaxed P) (sint (63 :: byte)) = Go [RequestPath] 29"
    using assms(1) target_path_query by (auto simp: tr42_def)
  from exec_go [OF this] show "exec_loop pe s p (63 # rest) P =
      emit [Element cb_request_path (mark_pos P) (LEN (mark_pos P) p)] (exec_loop pe 29 (p + 1) rest P)"
    using assms(2) by (simp add: act_simps)
qed

lemma run_query:
  assumes q: "\<forall>b \<in> set q. query_char (sint b)" and P: "all_installed P"
  shows "exec_loop pe 29 p (q @ 32 # rest) P =
    emit [Element cb_query_string p (length q), Element cb_request_uri (mark_pos P) (LEN (mark_pos P) (p + length q))]
      (exec_loop pe 4 (p + length q + 1) rest (P\<lparr>query_start := p\<rparr>))"
proof (cases q)
  case Nil
  have "http_target 29 (uri_relaxed P) (sint (32 :: byte)) = Go [StartQuery, QueryString, RequestUri] 4"
    using target_query_sp by (simp add: tr54_def)
  from exec_go [OF this] show ?thesis using P by (simp add: Nil act_simps)
next
  case (Cons b q')
  let ?P = "P\<lparr>query_start := p\<rparr>"
  have "http_target 29 (uri_relaxed P) (sint b) = Go [StartQuery] 30"
    using q Cons target_query_first by (simp add: tr53_def)
  from exec_go [OF this, of p pe ?P "[]"]
  have "exec_loop pe 29 p (q @ 32 # rest) P = exec_loop pe 30 (Suc p) (q' @ 32 # rest) ?P"
    by (simp add: Cons perform_def)
  also have "\<dots> = exec_loop pe 30 (Suc p + length q') (32 # rest) ?P"
    using q by (intro exec_stay target_query) (simp add: Cons)
  also have "\<dots> = emit [Element cb_query_string p (length q), Element cb_request_uri (mark_pos P) (LEN (mark_pos P) (p + length q))]
      (exec_loop pe 4 (p + length q + 1) rest ?P)"
  proof -
    have "http_target 30 (uri_relaxed ?P) (sint (32 :: byte)) = Go [QueryString, RequestUri] 4"
      using target_query_sp by (simp add: tr58_def)
    from exec_go [OF this] show ?thesis using P by (simp add: Cons act_simps)
  qed
  finally show ?thesis .
qed

lemma run_version:
  assumes v: "v = 48 \<or> v = 49" and P: "all_installed P"
  shows "exec_loop pe 4 p (72 # 84 # 84 # 80 # 47 # 49 # 46 # v # 13 # 10 # rest) P =
    emit [Element cb_http_version p 8] (exec_loop pe 13 (p + 10) rest (P\<lparr>mark_pos := p\<rparr>))"
proof -
  have "sint v = 48 \<or> sint v = 49" using v by auto
  then have "http_target 11 r (sint v) = Go [] 12" for r by (rule target_version(8))
  moreover have e: "p + 10 = Suc (Suc (Suc (Suc (Suc (Suc (Suc (Suc (Suc (Suc p)))))))))" by simp
  ultimately show ?thesis
    using P unfolding e by (simp add: exec_loop.simps(2) target_version tr13_def tr22_def act_simps emit_def split: prod.splits)
qed

subsection \<open>Headers\<close>

text \<open>A header: its name, the blanks after the colon, its value.\<close>

record header =
  h_name :: "byte list"
  h_blanks :: "byte list"
  h_value :: "byte list"

definition header_ok :: "header \<Rightarrow> bool" where
  "header_ok h \<longleftrightarrow> h_name h \<noteq> [] \<and> (\<forall>b \<in> set (h_name h). token_char (sint b)) \<and>
     hd (h_name h) \<noteq> 10 \<and> hd (h_name h) \<noteq> 13 \<and> (\<forall>b \<in> set (h_blanks h). blank (sint b)) \<and>
     (\<forall>b \<in> set (h_value h). value_char (sint b)) \<and> (h_value h \<noteq> [] \<longrightarrow> \<not> blank (sint (hd (h_value h))))"

definition show_header :: "header \<Rightarrow> byte list" where
  "show_header h = h_name h @ 58 # h_blanks h @ h_value h @ [13, 10]"

lemma run_name:
  assumes n: "n \<noteq> []" "\<forall>b \<in> set n. token_char (sint b)" "hd n \<noteq> 10" "hd n \<noteq> 13"
  shows "exec_loop pe 13 p (n @ 58 # rest) P =
    exec_loop pe 15 (p + length n + 1) rest (P\<lparr>field_start := p, field_len := length n\<rparr>)"
proof -
  obtain b n' where n': "n = b # n'" using n(1) by (cases n) auto
  let ?P = "P\<lparr>field_start := p\<rparr>"
  have "sint (10 :: byte) = 10" and "sint (13 :: byte) = 13" by simp_all
  then have "sint b \<noteq> 10" and "sint b \<noteq> 13" using n(3,4) n' by (metis list.sel(1) signed_word_eqI)+
  then have "http_target 13 (uri_relaxed P) (sint b) = Go [StartField] 14"
    using target_name_first n(2) n' by (simp add: tr23_def)
  from exec_go [OF this, of p pe ?P "[]"]
  have "exec_loop pe 13 p (n @ 58 # rest) P = exec_loop pe 14 (Suc p) (n' @ 58 # rest) ?P"
    by (simp add: n' perform_def)
  also have "\<dots> = exec_loop pe 14 (Suc p + length n') (58 # rest) ?P"
    using n(2) by (intro exec_stay target_name) (simp add: n')
  also have "\<dots> = exec_loop pe 15 (p + length n + 1) rest (P\<lparr>field_start := p, field_len := length n\<rparr>)"
  proof -
    have "http_target 14 (uri_relaxed ?P) (sint (58 :: byte)) = Go [WriteField] 15"
      using target_colon by (simp add: tr27_def)
    from exec_go [OF this] show ?thesis by (simp add: n' perform_def LEN_def)
  qed
  finally show ?thesis .
qed

lemma run_blanks:
  assumes "\<forall>b \<in> set bl. blank (sint b)"
  shows "\<exists>m. exec_loop pe 15 p (bl @ rest) P = exec_loop pe 15 (p + length bl) rest (P\<lparr>mark_pos := m\<rparr>)"
  using assms
proof (induction bl arbitrary: p P)
  case Nil
  have "P\<lparr>mark_pos := mark_pos P\<rparr> = P" by simp
  then show ?case by (metis append_Nil add_0_right list.size(3))
next
  case (Cons b bl)
  have "http_target 15 (uri_relaxed P) (sint b) = Go [Mark] 15"
    using target_blank Cons.prems by (simp add: tr29_def)
  from exec_go [OF this, of p pe "P\<lparr>mark_pos := p\<rparr>" "[]"]
  have "exec_loop pe 15 p (b # bl @ rest) P = exec_loop pe 15 (Suc p) (bl @ rest) (P\<lparr>mark_pos := p\<rparr>)"
    by (simp add: perform_def)
  then show ?case using Cons.IH [of "Suc p" "P\<lparr>mark_pos := p\<rparr>"] Cons.prems by simp
qed

lemma run_value:
  assumes v: "\<forall>b \<in> set v. value_char (sint b)" "v \<noteq> [] \<longrightarrow> \<not> blank (sint (hd v))" and P: "all_installed P"
  shows "exec_loop pe 15 p (v @ 13 # 10 # rest) P =
    emit [Field (field_start P) (field_len P) p (length v)]
      (exec_loop pe 13 (p + length v + 2) rest (P\<lparr>mark_pos := p\<rparr>))"
proof -
  let ?P = "P\<lparr>mark_pos := p\<rparr>"
  have lf: "exec_loop pe 17 q (10 # rest) ?P = exec_loop pe 13 (q + 1) rest ?P" for q
    using exec_go [of 17 ?P 10 "[]" 13 q pe ?P "[]"] target_version(10) by simp
  show ?thesis
  proof (cases v)
    case Nil
    have "http_target 15 (uri_relaxed P) (sint (13 :: byte)) = Go [Mark, WriteValue] 17"
      using target_value_end by (simp add: tr31_def)
    from exec_go [OF this, of p pe ?P "[Field (field_start P) (field_len P) p 0]"] show ?thesis
      using P lf by (simp add: Nil act_simps)
  next
    case (Cons b v')
    have range: "sint c \<le> 127" for c :: byte using char_range by blast
    have "http_target 15 (uri_relaxed P) (sint b) = Go [Mark] 16"
      using target_value_first [OF _ _ range] v Cons by (simp add: tr28_def)
    from exec_go [OF this, of p pe ?P "[]"]
    have "exec_loop pe 15 p (v @ 13 # 10 # rest) P = exec_loop pe 16 (Suc p) (v' @ 13 # 10 # rest) ?P"
      by (simp add: Cons perform_def)
    also have "\<dots> = exec_loop pe 16 (Suc p + length v') (13 # 10 # rest) ?P"
      using v(1) range by (intro exec_stay target_value) (simp_all add: Cons)
    also have "\<dots> = emit [Field (field_start P) (field_len P) p (length v)]
        (exec_loop pe 13 (p + length v + 2) rest ?P)"
    proof -
      have "http_target 16 (uri_relaxed ?P) (sint (13 :: byte)) = Go [WriteValue] 17"
        using target_value_end by (simp add: tr34_def)
      from exec_go [OF this] show ?thesis using P lf by (simp add: Cons act_simps)
    qed
    finally show ?thesis .
  qed
qed

text \<open>The members a header line leaves behind do not matter: the next line sets them again.\<close>

lemma run_header:
  assumes "header_ok h" and P: "all_installed P"
  shows "\<exists>P'. all_installed P' \<and> exec_loop pe 13 p (show_header h @ rest) P =
    emit [Field p (length (h_name h)) (p + length (h_name h) + 1 + length (h_blanks h)) (length (h_value h))]
      (exec_loop pe 13 (p + length (show_header h)) rest P')"
proof -
  let ?n = "h_name h" and ?bl = "h_blanks h" and ?v = "h_value h"
  let ?P = "P\<lparr>field_start := p, field_len := length ?n\<rparr>" and ?q = "p + length ?n + 1"
  obtain m where m: "exec_loop pe 15 ?q (?bl @ ?v @ 13 # 10 # rest) ?P =
      exec_loop pe 15 (?q + length ?bl) (?v @ 13 # 10 # rest) (?P\<lparr>mark_pos := m\<rparr>)"
    using run_blanks [of ?bl pe ?q "?v @ 13 # 10 # rest" ?P] assms(1) by (auto simp: header_ok_def)
  have "exec_loop pe 13 p (show_header h @ rest) P = exec_loop pe 15 ?q (?bl @ ?v @ 13 # 10 # rest) ?P"
    using run_name [of ?n pe p "?bl @ ?v @ 13 # 10 # rest" P] assms(1)
    by (simp add: show_header_def header_ok_def)
  also note m
  also have "exec_loop pe 15 (?q + length ?bl) (?v @ 13 # 10 # rest) (?P\<lparr>mark_pos := m\<rparr>) =
    emit [Field p (length ?n) (?q + length ?bl) (length ?v)]
      (exec_loop pe 13 (?q + length ?bl + length ?v + 2) rest (?P\<lparr>mark_pos := ?q + length ?bl\<rparr>))"
    using run_value [of ?v "?P\<lparr>mark_pos := m\<rparr>"] assms by (simp add: header_ok_def)
  finally show ?thesis
    using P by (intro exI [of _ "?P\<lparr>mark_pos := ?q + length ?bl\<rparr>"]) (simp add: show_header_def add.assoc)
qed

fun header_events :: "nat \<Rightarrow> header list \<Rightarrow> event list" where
  "header_events p [] = []"
| "header_events p (h # hs) =
     Field p (length (h_name h)) (p + length (h_name h) + 1 + length (h_blanks h)) (length (h_value h)) #
     header_events (p + length (show_header h)) hs"

lemma run_headers:
  assumes "\<forall>h \<in> set hs. header_ok h" and "all_installed P"
  shows "\<exists>P'. all_installed P' \<and> exec_loop pe 13 p (concat (map show_header hs) @ rest) P =
    emit (header_events p hs) (exec_loop pe 13 (p + length (concat (map show_header hs))) rest P')"
  using assms
proof (induction hs arbitrary: p P)
  case Nil
  then show ?case by auto
next
  case (Cons h hs)
  obtain P1 where P1: "all_installed P1" and r1: "exec_loop pe 13 p (show_header h @ concat (map show_header hs) @ rest) P =
    emit [Field p (length (h_name h)) (p + length (h_name h) + 1 + length (h_blanks h)) (length (h_value h))]
      (exec_loop pe 13 (p + length (show_header h)) (concat (map show_header hs) @ rest) P1)"
    using run_header [of h P pe p "concat (map show_header hs) @ rest"] Cons.prems by auto
  from Cons.IH [OF _ P1, of "p + length (show_header h)"] Cons.prems obtain P2 where "all_installed P2"
    and "exec_loop pe 13 (p + length (show_header h)) (concat (map show_header hs) @ rest) P1 =
      emit (header_events (p + length (show_header h)) hs)
        (exec_loop pe 13 (p + length (show_header h) + length (concat (map show_header hs))) rest P2)" by auto
  with r1 show ?case by (auto simp: add.assoc)
qed

lemma run_head_end:
  assumes "all_installed P"
  shows "exec_loop pe 13 p (13 # 10 # rest) P =
    (348, p + 2, P\<lparr>field_start := p, body_start := p + 2\<rparr>, [Element cb_header_done (p + 2) (pe - p - 2)])"
  using assms
  by (simp add: exec_loop.simps(2) target_head_end tr25_def tr36_def act_simps)

subsection \<open>A whole request\<close>

record request =
  r_method :: "byte list"
  r_path :: "byte list"
  r_query :: "byte list option"
  r_minor :: byte
  r_headers :: "header list"

text \<open>The path is what follows the leading slash.\<close>

definition request_ok :: "request \<Rightarrow> bool" where
  "request_ok r \<longleftrightarrow> r_method r \<noteq> [] \<and> length (r_method r) \<le> 20 \<and> (\<forall>b \<in> set (r_method r). method_char (sint b)) \<and>
     (\<forall>b \<in> set (r_path r). path_char (sint b)) \<and> (r_path r \<noteq> [] \<longrightarrow> hd (r_path r) \<noteq> 47) \<and>
     (\<forall>q. r_query r = Some q \<longrightarrow> (\<forall>b \<in> set q. query_char (sint b))) \<and>
     (r_minor r = 48 \<or> r_minor r = 49) \<and> (\<forall>h \<in> set (r_headers r). header_ok h)"

definition show_uri :: "request \<Rightarrow> byte list" where
  "show_uri r = 47 # r_path r @ (case r_query r of None \<Rightarrow> [] | Some q \<Rightarrow> 63 # q)"

definition show_version :: "request \<Rightarrow> byte list" where
  "show_version r = [72, 84, 84, 80, 47, 49, 46, r_minor r]"

definition show_request :: "request \<Rightarrow> byte list" where
  "show_request r = r_method r @ 32 # show_uri r @ 32 # show_version r @ 13 # 10 #
     concat (map show_header (r_headers r)) @ [13, 10]"

text \<open>What a callback is handed: the bytes its pointers and lengths name.\<close>

datatype view = View callback "byte list" | View_Field "byte list" "byte list"

definition slice :: "byte list \<Rightarrow> nat \<Rightarrow> nat \<Rightarrow> byte list" where
  "slice buf p n = take n (drop p buf)"

definition view_of :: "byte list \<Rightarrow> event \<Rightarrow> view" where
  "view_of buf e = (case e of Element cb p n \<Rightarrow> View cb (slice buf p n)
     | Field f fn v vn \<Rightarrow> View_Field (slice buf f fn) (slice buf v vn))"

lemma view_of_simps [simp]:
  "view_of buf (Element cb p n) = View cb (slice buf p n)"
  "view_of buf (Field f fn v vn) = View_Field (slice buf f fn) (slice buf v vn)"
  by (simp_all add: view_of_def)

definition request_views :: "request \<Rightarrow> byte list \<Rightarrow> view list" where
  "request_views r body =
     [View cb_request_method (r_method r), View cb_request_path (47 # r_path r)] @
     (case r_query r of None \<Rightarrow> [] | Some q \<Rightarrow> [View cb_query_string q]) @
     [View cb_request_uri (show_uri r), View cb_http_version (show_version r)] @
     map (\<lambda>h. View_Field (h_name h) (h_value h)) (r_headers r) @ [View cb_header_done body]"

lemma slice_mid: "p = length pre \<Longrightarrow> n = length xs \<Longrightarrow> slice (pre @ xs @ post) p n = xs"
  by (simp add: slice_def)

lemma header_views:
  "map (view_of (pre @ concat (map show_header hs) @ post)) (header_events (length pre) hs) =
   map (\<lambda>h. View_Field (h_name h) (h_value h)) hs"
proof (induction hs arbitrary: pre)
  case Nil
  then show ?case by simp
next
  case (Cons h hs)
  let ?rest = "concat (map show_header hs) @ post"
  have buf: "pre @ concat (map show_header (h # hs)) @ post = pre @ h_name h @ (58 # h_blanks h @ h_value h @ [13, 10] @ ?rest)"
    "pre @ concat (map show_header (h # hs)) @ post =
       (pre @ h_name h @ 58 # h_blanks h) @ h_value h @ ([13, 10] @ ?rest)"
    by (simp_all add: show_header_def)
  have "slice (pre @ concat (map show_header (h # hs)) @ post) (length pre) (length (h_name h)) = h_name h"
    unfolding buf(1) by (rule slice_mid) simp_all
  moreover have "slice (pre @ concat (map show_header (h # hs)) @ post)
      (length pre + length (h_name h) + 1 + length (h_blanks h)) (length (h_value h)) = h_value h"
    unfolding buf(2) by (rule slice_mid) simp_all
  moreover have "map (view_of (pre @ concat (map show_header (h # hs)) @ post))
      (header_events (length pre + length (show_header h)) hs) = map (\<lambda>h. View_Field (h_name h) (h_value h)) hs"
    using Cons.IH [of "pre @ show_header h"] by simp
  ultimately show ?case by simp
qed

text \<open>The run of the loop over a printed request.\<close>

definition uri_events :: "nat \<Rightarrow> request \<Rightarrow> event list" where
  "uri_events p r = [Element cb_request_path p (Suc (length (r_path r)))] @
     (case r_query r of None \<Rightarrow> [] | Some q \<Rightarrow> [Element cb_query_string (p + length (r_path r) + 2) (length q)]) @
     [Element cb_request_uri p (length (show_uri r))]"

lemma run_uri:
  assumes "request_ok r" and "all_installed P"
  shows "\<exists>P'. all_installed P' \<and> exec_loop pe 3 p (show_uri r @ 32 # rest) P =
    emit (uri_events p r) (exec_loop pe 4 (p + length (show_uri r) + 1) rest P')"
proof -
  let ?path = "r_path r" and ?P = "P\<lparr>mark_pos := p\<rparr>"
  let ?s = "if ?path = [] then 33 else 26 :: nat"
  have s: "?s = 33 \<or> ?s = 26" by simp
  have path: "exec_loop pe 3 p (47 # ?path @ t) P = exec_loop pe ?s (p + length ?path + 1) t ?P" for t
    using assms(1) by (intro run_path) (auto simp: request_ok_def)
  have inst: "all_installed ?P" using assms(2) by simp
  show ?thesis
  proof (cases "r_query r")
    case None
    then show ?thesis
      using path [of "32 # rest"] run_path_end(1) [OF s inst, of pe "p + length ?path + 1" rest] inst
      by (intro exI [of _ ?P]) (simp add: show_uri_def uri_events_def LEN_def)
  next
    case (Some q)
    have q: "\<forall>b \<in> set q. query_char (sint b)" using assms(1) Some by (simp add: request_ok_def)
    let ?q = "p + length ?path + 2"
    show ?thesis
      using path [of "63 # q @ 32 # rest"] run_path_end(2) [OF s inst, of pe "p + length ?path + 1" "q @ 32 # rest"]
        run_query [OF q inst, of pe ?q rest] inst
      by (intro exI [of _ "?P\<lparr>query_start := ?q\<rparr>"]) (simp add: Some show_uri_def uri_events_def LEN_def add.assoc)
  qed
qed

lemma run_request:
  assumes r: "request_ok r" and P: "all_installed P"
  shows "\<exists>P'. exec_loop pe 1 0 (show_request r @ body) P =
    (348, length (show_request r), P',
     [Element cb_request_method 0 (length (r_method r))] @
     uri_events (length (r_method r) + 1) r @
     [Element cb_http_version (length (r_method r) + length (show_uri r) + 2) 8] @
     header_events (12 + (length (r_method r) + length (show_uri r))) (r_headers r) @
     [Element cb_header_done (length (show_request r)) (pe - length (show_request r))])"
proof -
  let ?m = "r_method r" and ?u = "show_uri r" and ?hs = "concat (map show_header (r_headers r))"
  let ?fin = "13 # 10 # body" and ?p4 = "length ?m + length ?u + 2"
  let ?line = "72 # 84 # 84 # 80 # 47 # 49 # 46 # r_minor r # 13 # 10 # ?hs @ ?fin"
  have buf: "show_request r @ body = ?m @ 32 # ?u @ 32 # ?line"
    by (simp add: show_request_def show_version_def)
  have len: "length (show_request r) = ?p4 + 10 + length ?hs + 2"
    by (simp add: show_request_def show_version_def)
  have "exec_loop pe 1 0 (show_request r @ body) P =
      emit [Element cb_request_method 0 (length ?m)] (exec_loop pe 3 (length ?m + 1) (?u @ 32 # ?line) (P\<lparr>mark_pos := 0\<rparr>))"
    unfolding buf using r P run_method [of ?m P pe 0] by (simp add: request_ok_def)
  moreover obtain P1 where P1: "all_installed P1" and
    "exec_loop pe 3 (length ?m + 1) (?u @ 32 # ?line) (P\<lparr>mark_pos := 0\<rparr>) =
      emit (uri_events (length ?m + 1) r) (exec_loop pe 4 ?p4 ?line P1)"
    using run_uri [OF r, of "P\<lparr>mark_pos := 0\<rparr>" pe "length ?m + 1" ?line] P by (auto simp: add.assoc)
  moreover have "exec_loop pe 4 ?p4 ?line P1 =
      emit [Element cb_http_version ?p4 8] (exec_loop pe 13 (?p4 + 10) (?hs @ ?fin) (P1\<lparr>mark_pos := ?p4\<rparr>))"
    using r P1 by (intro run_version) (simp_all add: request_ok_def)
  moreover obtain P2 where "all_installed P2" and
    "exec_loop pe 13 (?p4 + 10) (?hs @ ?fin) (P1\<lparr>mark_pos := ?p4\<rparr>) =
      emit (header_events (?p4 + 10) (r_headers r)) (exec_loop pe 13 (?p4 + 10 + length ?hs) ?fin P2)"
    using run_headers [of "r_headers r" "P1\<lparr>mark_pos := ?p4\<rparr>" pe "?p4 + 10" ?fin] r P1 by (auto simp: request_ok_def)
  moreover from this(1) have "exec_loop pe 13 (?p4 + 10 + length ?hs) ?fin P2 =
      (348, length (show_request r), P2\<lparr>field_start := ?p4 + 10 + length ?hs, body_start := length (show_request r)\<rparr>,
       [Element cb_header_done (length (show_request r)) (pe - length (show_request r))])"
    unfolding len by (rule run_head_end [THEN trans]) simp
  ultimately show ?thesis by (intro exI) (simp add: emit_def)
qed

text \<open>Reading the events against the buffer.\<close>

lemma request_event_views:
  assumes "request_ok r"
  shows "map (view_of (show_request r @ body))
     ([Element cb_request_method 0 (length (r_method r))] @ uri_events (length (r_method r) + 1) r @
      [Element cb_http_version (length (r_method r) + length (show_uri r) + 2) 8] @
      header_events (12 + (length (r_method r) + length (show_uri r))) (r_headers r) @
      [Element cb_header_done (length (show_request r)) (length (show_request r @ body) - length (show_request r))]) =
     request_views r body"
proof -
  let ?m = "r_method r" and ?u = "show_uri r" and ?v = "show_version r"
    and ?hs = "concat (map show_header (r_headers r))"
  let ?buf = "show_request r @ body"
  have buf: "?buf = [] @ ?m @ (32 # ?u @ 32 # ?v @ 13 # 10 # ?hs @ 13 # 10 # body)"
    "?buf = (?m @ [32]) @ ?u @ (32 # ?v @ 13 # 10 # ?hs @ 13 # 10 # body)"
    "?buf = (?m @ 32 # ?u @ [32]) @ ?v @ (13 # 10 # ?hs @ 13 # 10 # body)"
    "?buf = (?m @ 32 # ?u @ 32 # ?v @ [13, 10]) @ ?hs @ (13 # 10 # body)"
    by (simp_all add: show_request_def)
  have m: "slice ?buf 0 (length ?m) = ?m" unfolding buf(1) by (rule slice_mid) simp_all
  have v: "slice ?buf (length ?m + length ?u + 2) 8 = ?v"
    unfolding buf(3) by (rule slice_mid) (simp_all add: show_version_def)
  have d: "slice ?buf (length (show_request r)) (length ?buf - length (show_request r)) = body"
    by (simp add: slice_def)
  have l: "length (?m @ 32 # ?u @ 32 # ?v @ [13, 10]) = 12 + (length ?m + length ?u)"
    by (simp add: show_version_def)
  have h: "map (view_of ?buf) (header_events (12 + (length ?m + length ?u)) (r_headers r)) =
      map (\<lambda>h. View_Field (h_name h) (h_value h)) (r_headers r)"
    unfolding buf(4) l [symmetric] by (rule header_views)
  have u: "slice ?buf (length ?m + 1) (length ?u) = ?u" unfolding buf(2) by (rule slice_mid) simp_all
  have p: "slice ?buf (length ?m + 1) (Suc (length (r_path r))) = 47 # r_path r"
    by (simp add: show_request_def show_uri_def slice_def)
  have q: "r_query r = Some q \<Longrightarrow> slice ?buf (length ?m + 1 + length (r_path r) + 2) (length q) = q" for q
  proof -
    assume "r_query r = Some q"
    then have "?buf = (?m @ 32 # 47 # r_path r @ [63]) @ q @ (32 # ?v @ 13 # 10 # ?hs @ 13 # 10 # body)"
      by (simp add: show_request_def show_uri_def)
    then show "slice ?buf (length ?m + 1 + length (r_path r) + 2) (length q) = q"
      by (simp only:) (rule slice_mid, simp_all)
  qed
  have uri: "map (view_of ?buf) (uri_events (length ?m + 1) r) =
      [View cb_request_path (47 # r_path r)] @
      (case r_query r of None \<Rightarrow> [] | Some q \<Rightarrow> [View cb_query_string q]) @ [View cb_request_uri ?u]"
    using u p q by (cases "r_query r") (simp_all only: uri_events_def list.map append.simps view_of_simps option.case)
  show ?thesis
    by (simp only: map_append list.map view_of_simps m v d h uri request_views_def) simp
qed

text \<open>Every callback is handed a range inside the buffer.\<close>

definition event_bounded :: "nat \<Rightarrow> event \<Rightarrow> bool" where
  "event_bounded n e = (case e of Element cb p len \<Rightarrow> p + len \<le> n
     | Field f fn v vn \<Rightarrow> f + fn \<le> n \<and> v + vn \<le> n)"

lemma header_events_bounded:
  "p + length (concat (map show_header hs)) \<le> n \<Longrightarrow> list_all (event_bounded n) (header_events p hs)"
  by (induction hs arbitrary: p) (auto simp: event_bounded_def show_header_def)

lemma request_events_bounded:
  "list_all (event_bounded (length (show_request r @ body)))
     ([Element cb_request_method 0 (length (r_method r))] @
     uri_events (length (r_method r) + 1) r @
     [Element cb_http_version (length (r_method r) + length (show_uri r) + 2) 8] @
     header_events (12 + (length (r_method r) + length (show_uri r))) (r_headers r) @
     [Element cb_header_done (length (show_request r)) (length (show_request r @ body) - length (show_request r))])"
proof -
  let ?n = "length (show_request r @ body)"
  have n: "?n = length (r_method r) + length (show_uri r) + 14 + length (concat (map show_header (r_headers r))) + length body"
    by (simp add: show_request_def show_version_def)
  have h: "list_all (event_bounded ?n) (header_events (12 + (length (r_method r) + length (show_uri r))) (r_headers r))"
    unfolding n by (rule header_events_bounded) simp
  have u: "list_all (event_bounded ?n) (uri_events (length (r_method r) + 1) r)"
    unfolding n by (cases "r_query r") (simp_all add: uri_events_def event_bounded_def show_uri_def)
  have "length (r_method r) \<le> ?n" "10 + (length (r_method r) + length (show_uri r)) \<le> ?n"
    unfolding n by simp_all
  then show ?thesis using h u by (simp add: event_bounded_def)
qed

lemma execute_eq:
  assumes "enter (length buf) (cs P) off (drop off buf) (reset_marks P) = (s, p, P', evs)"
    and "0 < length buf" "off \<le> p" "p \<le> length buf" "cs P' \<noteq> 0" "nread P' = 0" "index_ok (length buf) P'"
  shows "http_parser_execute P buf off = Inr (p - off, P'\<lparr>cs := s, nread := p - off\<rparr>, evs)"
proof -
  have "nread (P'\<lparr>cs := s\<rparr>) = 0" using assms(6) by simp
  then show ?thesis
    using assms unfolding reset_marks_def
    by (simp add: http_parser_execute_def Let_def http_parser_has_error_def http_parser_error_def index_ok_def)
qed

lemma execute_events:
  assumes "enter (length buf) (cs P) off (drop off buf) (reset_marks P) = (s, p, P', evs)"
    and "http_parser_execute P buf off = Inr (n, P2, evs2)" and "buf \<noteq> []"
  shows "evs2 = evs"
  using assms unfolding reset_marks_def
  by (simp add: http_parser_execute_def Let_def split: if_split_asm)

lemma execute_show_request:
  assumes r: "request_ok r" and cs: "cs P = 1" and P: "all_installed P"
    and body: "body_start P \<le> length (show_request r @ body)"
  shows "\<exists>P' evs. http_parser_execute P (show_request r @ body) 0 = Inr (length (show_request r), P', evs) \<and>
    http_parser_finish P' = 1 \<and> map (view_of (show_request r @ body)) evs = request_views r body \<and>
    list_all (event_bounded (length (show_request r @ body))) evs"
proof -
  let ?buf = "show_request r @ body"
  have ne: "0 < length ?buf" by (simp add: show_request_def)
  have inst: "all_installed (reset_marks P)" using P by (simp add: all_installed_def reset_marks_def)
  obtain P' evs where run: "exec_loop (length ?buf) 1 0 ?buf (reset_marks P) = (348, length (show_request r), P', evs)"
    and views: "map (view_of ?buf) evs = request_views r body" "list_all (event_bounded (length ?buf)) evs"
    using run_request [OF r inst, of "length ?buf" body] request_event_views [OF r, of body] request_events_bounded [of r body]
    by blast
  have ok: "marks_ok (length ?buf) 0 (state_flags 1) (reset_marks P)"
    using marks_ok_reset [OF ne body] cs by (simp add: query_states_iff)
  have same: "same_config (reset_marks P) P'" and ix: "index_ok (length ?buf) P'"
    using exec_loop_ok [OF ok _ run] by auto
  then have cs': "cs P' = 1" "nread P' = 0"
    using cs by (auto simp: same_config_def reset_marks_def)
  have "enter (length ?buf) 1 0 ?buf (reset_marks P) = (348, length (show_request r), P', evs)"
    using run ne by (simp add: enter_def)
  then have "http_parser_execute P ?buf 0 = Inr (length (show_request r), P'\<lparr>cs := 348, nread := length (show_request r)\<rparr>, evs)"
    using execute_eq [of ?buf P 0] ne cs cs' ix by simp
  then show ?thesis using views
    by (simp add: http_parser_finish_def http_parser_has_error_def http_parser_is_finished_def
        http_parser_error_def http_parser_first_final_def)
qed

subsection \<open>Requests that arrive in pieces\<close>

text \<open>
  Every call resets \<open>mark\<close>, so a token that was begun in an earlier buffer is reported from the
  start of the later one; \<open>query_start\<close> is not reset and keeps the offset into the earlier one.
\<close>

lemma execute_method_part:
  assumes "cs P = 1" and "all_installed P" and m: "a \<noteq> []" "length a \<le> 20" "\<forall>b \<in> set a. method_char (sint b)"
    and "body_start P = 0"
  shows "\<exists>P'. http_parser_execute P a 0 = Inr (length a, P', []) \<and> cs P' = method_state (length a) \<and>
    all_installed P' \<and> body_start P' = 0"
proof -
  obtain b a' where a: "a = b # a'" using m(1) by (cases a) auto
  let ?P = "(reset_marks P)\<lparr>mark_pos := 0\<rparr>"
  have "http_target 1 (uri_relaxed (reset_marks P)) (sint b) = Go [Mark] 2"
    using target_method_first m a by (simp add: tr0_def)
  from exec_go [OF this, of 0 "length a" ?P "[]" a']
  have "exec_loop (length a) 1 0 a (reset_marks P) = exec_loop (length a) (method_state 1) 1 a' ?P"
    by (simp add: a perform_def method_state_def)
  also have "\<dots> = (method_state (length a), length a, ?P, [])"
    using run_method_tail [of a' 1 "length a" 1 "[]" ?P] m a by simp
  finally have "enter (length a) (cs P) 0 (drop 0 a) (reset_marks P) = (method_state (length a), length a, ?P, [])"
    using assms(1) m(1) by (simp add: enter_def)
  from execute_eq [OF this] show ?thesis
    using assms by (simp add: index_ok_def reset_marks_def all_installed_def)
qed

lemma execute_method_rest:
  assumes "cs P = method_state k" and "1 \<le> k" and "k + length b \<le> 20" and "\<forall>c \<in> set b. method_char (sint c)"
    and "all_installed P" and "body_start P = 0"
  shows "\<exists>n P' evs. http_parser_execute P (b @ 32 # rest) 0 = Inr (n, P', Element cb_request_method 0 (length b) # evs)"
proof -
  let ?buf = "b @ 32 # rest" and ?P = "reset_marks P"
  have k: "method_state k \<notin> query_states \<and> 1 \<le> method_state k \<and> method_state k \<le> 349"
    using assms(2,3) by (simp add: method_state_def query_states_iff)
  have "exec_loop (length ?buf) (method_state k) 0 ?buf ?P =
      exec_loop (length ?buf) (method_state (k + length b)) (length b) (32 # rest) ?P"
    using run_method_tail [of b k "length ?buf" 0 "32 # rest" ?P] assms by simp
  also have "\<dots> = emit [Element cb_request_method 0 (length b)] (exec_loop (length ?buf) 3 (length b + 1) rest ?P)"
  proof -
    have "http_target (method_state (k + length b)) (uri_relaxed ?P) (sint (32 :: byte)) = Go [RequestMethod] 3"
      using target_method_end [of "k + length b"] assms(2,3) by (simp add: tr4_def)
    from exec_go [OF this] show ?thesis using assms(5) by (simp add: act_simps reset_marks_def)
  qed
  finally have run: "enter (length ?buf) (cs P) 0 (drop 0 ?buf) ?P =
      emit [Element cb_request_method 0 (length b)] (exec_loop (length ?buf) 3 (length b + 1) rest ?P)"
    using assms(1) k by (simp add: enter_def)
  obtain s p P' evs where e: "exec_loop (length ?buf) 3 (length b + 1) rest ?P = (s, p, P', evs)" by (metis prod_cases4)
  have "\<exists>n P2 evs2. http_parser_execute P ?buf 0 = Inr (n, P2, evs2)"
    using execute_ok [of ?buf 0 P] assms k by auto
  then obtain n P2 evs2 where x: "http_parser_execute P ?buf 0 = Inr (n, P2, evs2)" by blast
  have "enter (length ?buf) (cs P) 0 (drop 0 ?buf) ?P = (s, p, P', Element cb_request_method 0 (length b) # evs)"
    using run e by (simp add: emit_def)
  from execute_events [OF this x] x show ?thesis by simp
qed

lemma execute_query_rest:
  assumes "cs P = 30" and "all_installed P" and "\<forall>c \<in> set q. query_char (sint c)" and "length q < query_start P"
    and "http_parser_execute P (q @ 32 # rest) 0 = Inr (n, P', evs)"
  shows "\<exists>evs'. evs = Element cb_query_string (query_start P) (size_max + length q - query_start P) # evs'"
proof -
  let ?buf = "q @ 32 # rest" and ?P = "reset_marks P"
  have "exec_loop (length ?buf) 30 0 ?buf ?P = exec_loop (length ?buf) 30 (length q) (32 # rest) ?P"
    using exec_stay [of q 30 ?P "length ?buf" 0 "32 # rest"] target_query assms(3) by simp
  also have "\<dots> = emit [Element cb_query_string (query_start P) (size_max + length q - query_start P),
      Element cb_request_uri 0 (length q)] (exec_loop (length ?buf) 4 (length q + 1) rest ?P)"
  proof -
    have "http_target 30 (uri_relaxed ?P) (sint (32 :: byte)) = Go [QueryString, RequestUri] 4"
      using target_query_sp by (simp add: tr58_def)
    from exec_go [OF this] show ?thesis
      using assms(2,4) by (simp add: act_simps reset_marks_def sz_sub_def)
  qed
  finally have run: "enter (length ?buf) (cs P) 0 (drop 0 ?buf) ?P =
      emit [Element cb_query_string (query_start P) (size_max + length q - query_start P),
      Element cb_request_uri 0 (length q)] (exec_loop (length ?buf) 4 (length q + 1) rest ?P)"
    using assms(1) by (simp add: enter_def)
  obtain s p P2 evs2 where e: "exec_loop (length ?buf) 4 (length q + 1) rest ?P = (s, p, P2, evs2)" by (metis prod_cases4)
  have "enter (length ?buf) (cs P) 0 (drop 0 ?buf) ?P = (s, p, P2,
      Element cb_query_string (query_start P) (size_max + length q - query_start P) #
      Element cb_request_uri 0 (length q) # evs2)"
    using run e by (simp add: emit_def)
  from execute_events [OF this assms(5)] show ?thesis by simp
qed

section \<open>The contract of the request parser\<close>

definition fresh_parser :: http_parser where
  "fresh_parser = http_parser_init \<lparr>cs = 0, body_start = 0, content_len = 0, nread = 0, mark_pos = 0,
     field_start = 0, field_len = 0, query_start = 0, xml_sent = False, json_sent = False,
     uri_relaxed = False, installed = (\<lambda>_. True)\<rparr>"

lemma fresh_parser_simps [simp]:
  "cs fresh_parser = 1" "all_installed fresh_parser" "body_start fresh_parser = 0" "query_start fresh_parser = 0"
  by (simp_all add: fresh_parser_def http_parser_init_def http_parser_start_def all_installed_def)







text \<open>
  A request torn inside its method loses the part that came first: when the bytes \<open>a\<close> of the
  method arrive in one buffer and the rest \<open>b\<close> in the next, the callback is handed \<open>b\<close> alone.
\<close>

theorem http_torn_method:
  assumes "a \<noteq> []" and "b \<noteq> []" and "length (a @ b) \<le> 20" and "\<forall>c \<in> set (a @ b). method_char (sint c)"
    and "cs P = http_parser_start" and "all_installed P" and "body_start P = 0"
  shows "\<exists>P1 n P2 e evs. http_parser_execute P a 0 = Inr (length a, P1, []) \<and>
    http_parser_execute P1 (b @ 32 # rest) 0 = Inr (n, P2, e # evs) \<and>
    view_of (b @ 32 # rest) e = View cb_request_method b"
proof -
  obtain P1 where P1: "http_parser_execute P a 0 = Inr (length a, P1, [])" "cs P1 = method_state (length a)"
    "all_installed P1" "body_start P1 = 0"
    using execute_method_part [of P a] assms by (auto simp: http_parser_start_def)
  have "1 \<le> length a" using assms(1) by (cases a) auto
  with execute_method_rest [OF P1(2) _ _ _ P1(3,4), of b rest] assms obtain n P2 evs where
    "http_parser_execute P1 (b @ 32 # rest) 0 = Inr (n, P2, Element cb_request_method 0 (length b) # evs)" by auto
  with P1(1) show ?thesis by (auto simp: slice_def)
qed

theorem http_torn_method_witness:
  "\<exists>P1 n P2 e evs. http_parser_execute fresh_parser [71, 69] 0 = Inr (2, P1, []) \<and>
    http_parser_execute P1 [84, 32, 47] 0 = Inr (n, P2, e # evs) \<and> view_of [84, 32, 47] e = View cb_request_method [84]"
  using http_torn_method [of "[71, 69]" "[84]" fresh_parser "[47]"]
  by (simp add: method_char_def http_parser_start_def numeral_2_eq_2)

text \<open>
  A request torn inside its query string reports a negative length: \<open>query_start\<close> is not reset,
  so when fewer characters of the query follow than its old offset, the callback is handed the
  length \<open>2^64 + length q - query_start\<close>, which no string can have.
\<close>

theorem http_torn_query:
  assumes "cs P = 30" and "all_installed P" and "\<forall>c \<in> set q. query_char (sint c)" and "length q < query_start P"
    and "http_parser_execute P (q @ 32 # rest) 0 = Inr (n, P', evs)"
  shows "\<exists>evs'. evs = Element cb_query_string (query_start P) (size_max + length q - query_start P) # evs'"
  using assms by (rule execute_query_rest)

theorem http_torn_query_witness:
  "\<exists>n P' evs'. http_parser_execute (fresh_parser\<lparr>cs := 30, query_start := 7\<rparr>) ([97] @ 32 # [72]) 0 =
     Inr (n, P', Element cb_query_string 7 (size_max + 1 - 7) # evs')"
proof -
  let ?P = "fresh_parser\<lparr>cs := 30, query_start := 7\<rparr>"
  have inst: "all_installed ?P" using fresh_parser_simps(2) by (simp add: all_installed_def)
  have "\<exists>n P' evs. http_parser_execute ?P ([97] @ 32 # [72]) 0 = Inr (n, P', evs)"
    using inst
    by (simp add: http_parser_execute_def enter_def exec_loop.simps(2) target_query target_query_sp
        target_version query_char_def path_char_def tr58_def tr13_def act_simps http_parser_has_error_def
        http_parser_error_def)
  then show ?thesis using http_torn_query [of ?P "[97]" "[72]"] inst
    by (fastforce simp: query_char_def path_char_def)
qed

end
