(* ===== verification/HttpSession_Props.thy ===== *)
theory HttpSession_Props
  imports HttpSession Http11_Run
begin

section \<open>Requests over a connection\<close>

text \<open>
  A callback sees its part of the buffer, so running the callbacks of a printed request rebuilds the
  request; with \<open>dump\<close> printing requests of the grammar this gives the round trip from a client's
  \<open>HttpRequest\<close> to the one that \<open>recvRequest\<close> returns.
\<close>

subsection \<open>The callbacks see their part of the buffer\<close>

text \<open>The methods that the server recognises: all of the table but \<open>M - SEARCH\<close>.\<close>

definition method_text :: "HttpMethod \<Rightarrow> str" where
  "method_text m = lit (HttpMethodToString m)"

definition upper :: string where
  "upper = ''ABCDEFGHIJKLMNOPQRSTUVWXYZ''"

lemma method_names_upper:
  "list_all (\<lambda>(m, s). m = MSEARCH \<or> (list_all (\<lambda>c. c \<in> set upper) s \<and> s \<noteq> [] \<and> length s \<le> 20)) HTTP_METHOD_MAP"
  by (simp add: HTTP_METHOD_MAP_def upper_def)

lemma method_names_differ:
  "list_all (\<lambda>(m, s). list_all (\<lambda>(m', s'). m' = m \<or> list_ex (\<lambda>(a, b). a \<noteq> b) (zip s' s)) HTTP_METHOD_MAP) HTTP_METHOD_MAP"
  by code_simp

lemma upper_bytes: "list_all (\<lambda>c. method_char (sint (of_char c :: byte)) \<and> (of_char c :: byte) \<noteq> 0) upper"
  by (simp add: upper_def method_char_def)

lemma lit_nonzero: "list_all (\<lambda>(m, s). list_all (\<lambda>c. (of_char c :: byte) \<noteq> 0) s) HTTP_METHOD_MAP"
  by (simp add: HTTP_METHOD_MAP_def)

lemma of_char_byte_inject: "(of_char c :: byte) = of_char d \<longleftrightarrow> c = d"
proof -
  have u: "unat (of_char e :: byte) = of_char e" for e
    using of_char_of [where ?'a = nat]
    by (subst of_nat_of_char [symmetric]) (simp add: unsigned_of_nat take_bit_nat_eq_self)
  show ?thesis by (metis u of_char_eq_iff)
qed

lemma zip_differ: "list_ex (\<lambda>(a, b). a \<noteq> b) (zip s t) \<Longrightarrow> \<exists>i. i < length s \<and> i < length t \<and> s ! i \<noteq> t ! i"
  by (fastforce simp: list_ex_iff set_zip)

lemma strncmp_other:
  assumes "list_ex (\<lambda>(a, b). a \<noteq> b) (zip s' s)" and "list_all (\<lambda>c. (of_char c :: byte) \<noteq> 0) s'"
  shows "strncmp_eq (lit s') (lit s @ rest) (length s') = Inr False"
proof -
  obtain i where i: "i < length s'" "i < length s" "s' ! i \<noteq> s ! i" using zip_differ [OF assms(1)] by blast
  then have "lit s' ! i \<noteq> lit s ! i" by (simp add: lit_def of_char_byte_inject)
  moreover have "0 \<notin> set (lit s')" using assms(2) by (auto simp: lit_def list_all_iff)
  ultimately show ?thesis using strncmp_differ [of i "lit s'" "lit s" rest] i by (simp add: lit_def)
qed

lemma chars_to_method_found:
  assumes "(m, s) \<in> set tab"
    and "\<And>m' s'. (m', s') \<in> set tab \<Longrightarrow> m' = m \<or> list_ex (\<lambda>(a, b). a \<noteq> b) (zip s' s)"
    and "\<And>m' s'. (m', s') \<in> set tab \<Longrightarrow> list_all (\<lambda>c. (of_char c :: byte) \<noteq> 0) s'"
    and "\<And>s'. (m, s') \<in> set tab \<Longrightarrow> s' = s"
  shows "chars_to_method tab (lit s @ rest) = Inr m"
  using assms
proof (induction tab)
  case (Cons e tab)
  obtain m' s' where e: "e = (m', s')" by (cases e)
  show ?case
  proof (cases "m' = m")
    case True
    then have "s' = s" using Cons.prems(4) e by simp
    then show ?thesis using True strncmp_prefix [of "lit s" rest] by (simp add: e lit_def)
  next
    case False
    have mem: "(m', s') \<in> set (e # tab)" by (simp add: e)
    have "strncmp_eq (lit s') (lit s @ rest) (length s') = Inr False"
      using Cons.prems(2) [OF mem] False Cons.prems(3) [OF mem] by (intro strncmp_other) simp_all
    moreover have "(m, s) \<in> set tab" using Cons.prems(1) False e by simp
    then have "chars_to_method tab (lit s @ rest) = Inr m"
    proof (rule Cons.IH)
      show "m' = m \<or> list_ex (\<lambda>(a, b). a \<noteq> b) (zip s' s)" if "(m', s') \<in> set tab" for m' s'
        using that by (intro Cons.prems(2)) simp
      show "list_all (\<lambda>c. (of_char c :: byte) \<noteq> 0) s'" if "(m', s') \<in> set tab" for m' s'
        by (rule Cons.prems(3) [of m']) (simp add: that)
      show "s' = s" if "(m, s') \<in> set tab" for s'
        using that by (intro Cons.prems(4)) simp
    qed
    ultimately show ?thesis by (simp add: e)
  qed
qed simp

lemma method_table: "distinct (map fst HTTP_METHOD_MAP)"
  by code_simp

lemma method_in_table: "m \<noteq> INVALID_METHOD \<Longrightarrow> m \<in> fst ` set HTTP_METHOD_MAP"
  by (cases m) (simp_all add: HTTP_METHOD_MAP_def)

lemma method_text_table:
  assumes "m \<noteq> INVALID_METHOD"
  obtains s where "(m, s) \<in> set HTTP_METHOD_MAP" "method_text m = lit s"
proof -
  obtain s where s: "(m, s) \<in> set HTTP_METHOD_MAP" using method_in_table [OF assms] by auto
  then have "map_of HTTP_METHOD_MAP m = Some s" using method_table by simp
  then show thesis using that s by (simp add: method_text_def HttpMethodToString_def)
qed

lemma CharsToHttpMethod_text:
  assumes "m \<noteq> INVALID_METHOD"
  shows "CharsToHttpMethod (method_text m @ rest) = Inr m"
proof -
  obtain s where s: "(m, s) \<in> set HTTP_METHOD_MAP" "method_text m = lit s" using method_text_table [OF assms] .
  have "chars_to_method HTTP_METHOD_MAP (lit s @ rest) = Inr m"
  proof (rule chars_to_method_found [OF s(1)])
    show "m' = m \<or> list_ex (\<lambda>(a, b). a \<noteq> b) (zip s' s)" if "(m', s') \<in> set HTTP_METHOD_MAP" for m' s'
      using method_names_differ s(1) that by (fastforce simp: list_all_iff)
    show "list_all (\<lambda>c. (of_char c :: byte) \<noteq> 0) s'" if "(m', s') \<in> set HTTP_METHOD_MAP" for m' s'
      using lit_nonzero that by (fastforce simp: list_all_iff)
    show "s' = s" if "(m, s') \<in> set HTTP_METHOD_MAP" for s'
      using that s(1) method_table by (metis map_of_is_SomeI option.inject)
  qed
  then show ?thesis using s(2) by (simp add: CharsToHttpMethod_def)
qed

lemma method_text_ok:
  assumes "m \<noteq> INVALID_METHOD" and "m \<noteq> MSEARCH"
  shows "method_text m \<noteq> []" "length (method_text m) \<le> 20" "\<forall>b \<in> set (method_text m). method_char (sint b)"
proof -
  obtain s where s: "(m, s) \<in> set HTTP_METHOD_MAP" "method_text m = lit s" using method_text_table [OF assms(1)] .
  then have "list_all (\<lambda>c. c \<in> set upper) s" "s \<noteq> []" "length s \<le> 20"
    using method_names_upper assms(2) by (fastforce simp: list_all_iff)+
  then show "method_text m \<noteq> []" "length (method_text m) \<le> 20" "\<forall>b \<in> set (method_text m). method_char (sint b)"
    using s(2) upper_bytes by (auto simp: lit_def list_all_iff)
qed

fun view_effect :: "view \<Rightarrow> HttpRequest \<Rightarrow> HttpRequest" where
  "view_effect (View_Field f v) d = setHeader f v d"
| "view_effect (View cb xs) d = (case cb of
      cb_request_method \<Rightarrow> (case CharsToHttpMethod xs of Inl _ \<Rightarrow> d | Inr m \<Rightarrow> d\<lparr>rq_method := m\<rparr>)
    | cb_fragment \<Rightarrow> d\<lparr>rq_fragment := xs\<rparr>
    | cb_request_path \<Rightarrow> d\<lparr>rq_path := xs\<rparr>
    | cb_query_string \<Rightarrow> d\<lparr>rq_query := xs\<rparr>
    | cb_http_version \<Rightarrow> d\<lparr>rq_version := (if xs = lit ''HTTP/1.1'' then 0x11 else 0x10)\<rparr>
    | _ \<Rightarrow> d)"

fun view_good :: "view \<Rightarrow> bool" where
  "view_good (View_Field f v) \<longleftrightarrow> f \<noteq> []"
| "view_good (View cb xs) \<longleftrightarrow>
     (cb = cb_request_method \<longrightarrow> (\<exists>m. m \<noteq> INVALID_METHOD \<and> xs = method_text m)) \<and>
     (cb = cb_http_version \<longrightarrow> xs = lit ''HTTP/1.1'' \<or> xs = lit ''HTTP/1.0'')"

lemma mk_string_slice:
  "p + n \<le> length buf \<Longrightarrow> length buf < 2 ^ 63 \<Longrightarrow> mk_string (buf @ beyond) p n = Inr (slice buf p n)"
  by (simp add: mk_string_def slice_def)

lemma drop_slice: "p + n \<le> length buf \<Longrightarrow> \<exists>rest. drop p (buf @ beyond) = slice buf p n @ rest"
  by (rule exI [of _ "drop n (drop p buf) @ beyond"]) (simp only: slice_def append_assoc [symmetric] append_take_drop_id drop_append, simp)

lemma http_versions_differ: "strncmp_eq (lit ''HTTP/1.1'') (lit ''HTTP/1.0'' @ rest) 8 = Inr False"
  "strncmp_eq (lit ''HTTP/1.1'') (lit ''HTTP/1.1'' @ rest) 8 = Inr True"
  "strncmp_eq (lit ''HTTP/1.0'') (lit ''HTTP/1.0'' @ rest) 8 = Inr True"
  by (simp_all add: lit_def eval_nat_numeral)

lemma on_event_view:
  assumes "event_bounded (length buf) e" and "length buf < 2 ^ 63" and "view_good (view_of buf e)"
  shows "on_event (buf @ beyond) e P = Inr (set_data (view_effect (view_of buf e)) P)"
proof (cases e)
  case (Element cb p n)
  then have b: "p + n \<le> length buf" using assms(1) by (simp add: event_bounded_def)
  note mk = mk_string_slice [OF b assms(2), of beyond]
  obtain rest where rest: "drop p (buf @ beyond) = slice buf p n @ rest" using drop_slice [OF b] by blast
  have n: "length (slice buf p n) = n" using b by (simp add: slice_def)
  show ?thesis
  proof (cases cb)
    case cb_request_method
    then obtain m where m: "m \<noteq> INVALID_METHOD" "slice buf p n = method_text m" using assms(3) Element by auto
    then show ?thesis using cb_request_method Element rest CharsToHttpMethod_text [OF m(1)] CharsToHttpMethod_text [OF m(1), of "[]"]
      by (simp add: on_event_def on_request_method_def set_data_def)
  next
    case cb_http_version
    then have v: "slice buf p n = lit ''HTTP/1.1'' \<or> slice buf p n = lit ''HTTP/1.0''" using assms(3) Element by auto
    then have "n = 8" using n by (auto simp: lit_def)
    then show ?thesis using v cb_http_version Element rest http_versions_differ
      by (auto simp: on_event_def on_request_version_def set_data_def lit_def)
  qed (simp_all add: Element on_event_def on_request_fragment_def on_request_path_def on_request_query_def mk set_data_def)
next
  case (Field f fn v vn)
  then have b: "f + fn \<le> length buf" "v + vn \<le> length buf" using assms(1) by (simp_all add: event_bounded_def)
  have "fn \<noteq> 0" using assms(3) Field by (auto simp: slice_def)
  then show ?thesis using Field mk_string_slice [OF b(1) assms(2)] mk_string_slice [OF b(2) assms(2)]
    by (simp add: on_event_def on_request_http_field_def set_data_def)
qed

lemma on_events_views:
  assumes "list_all (event_bounded (length buf)) evs" and "length buf < 2 ^ 63"
    and "list_all view_good (map (view_of buf) evs)"
  shows "on_events (buf @ beyond) evs P = Inr (set_data (fold view_effect (map (view_of buf) evs)) P)"
  using assms
proof (induction evs arbitrary: P)
  case (Cons e evs)
  then show ?case using on_event_view [of buf e beyond P] by (simp add: set_data_def)
qed (simp add: set_data_def)

subsection \<open>Executing the parser on a printed request\<close>

text \<open>The method of the request is one of the table, written as the table has it.\<close>

definition known_method :: "request \<Rightarrow> bool" where
  "known_method r \<longleftrightarrow> (\<exists>m. m \<noteq> INVALID_METHOD \<and> r_method r = method_text m)"

lemma show_version_lit: "r_minor r = 48 \<or> r_minor r = 49 \<Longrightarrow>
    show_version r = (if r_minor r = 49 then lit ''HTTP/1.1'' else lit ''HTTP/1.0'')"
  by (auto simp: show_version_def lit_def)

lemma request_views_good:
  assumes "request_ok r" and "known_method r"
  shows "list_all view_good (request_views r body)"
  using assms show_version_lit [of r]
  by (auto simp: request_views_def request_ok_def known_method_def header_ok_def list_all_iff split: option.splits)

definition set_headers :: "header list \<Rightarrow> MapType \<Rightarrow> MapType" where
  "set_headers hs m = fold (\<lambda>h. map_assign CaseInsensitiveLess (h_name h) (h_value h)) hs m"

text \<open>The request that the callbacks build.\<close>

definition built :: "request \<Rightarrow> HttpRequest \<Rightarrow> HttpRequest" where
  "built r d = d\<lparr>rq_method := (case CharsToHttpMethod (r_method r) of Inl _ \<Rightarrow> rq_method d | Inr m \<Rightarrow> m),
     rq_path := 47 # r_path r, rq_query := (case r_query r of None \<Rightarrow> rq_query d | Some q \<Rightarrow> q),
     rq_version := (if r_minor r = 49 then 0x11 else 0x10),
     rq_headers := set_headers (r_headers r) (rq_headers d)\<rparr>"

lemma fold_fields:
  "fold view_effect (map (\<lambda>h. View_Field (h_name h) (h_value h)) hs) d =
   d\<lparr>rq_headers := set_headers hs (rq_headers d)\<rparr>"
  by (induction hs arbitrary: d) (simp_all add: set_headers_def setHeader_def)

lemma lit_versions: "lit ''HTTP/1.1'' \<noteq> lit ''HTTP/1.0''"
  by (simp add: lit_def)

lemma views_built:
  assumes "request_ok r" and "known_method r"
  shows "fold view_effect (request_views r body) d = built r d"
proof -
  obtain m where m: "CharsToHttpMethod (r_method r) = Inr m"
    using assms(2) CharsToHttpMethod_text [of _ "[]"] by (auto simp: known_method_def)
  have minor: "r_minor r = 48 \<or> r_minor r = 49" using assms(1) by (simp add: request_ok_def)
  then have v: "show_version r = (if r_minor r = 49 then lit ''HTTP/1.1'' else lit ''HTTP/1.0'')"
    by (rule show_version_lit)
  show ?thesis
    by (cases "r_query r") (simp_all add: request_views_def fold_fields built_def m v lit_versions [symmetric])
qed

lemma execute_printed:
  assumes r: "request_ok r" "known_method r" and len: "length (show_request r @ body) < 2 ^ 63"
    and P: "cs (m_parser P) = http_parser_start" "all_installed (m_parser P)" "body_start (m_parser P) = 0"
  shows "\<exists>p. execute (show_request r @ body @ beyond) (length (show_request r @ body)) P =
    Inr (length (show_request r), P\<lparr>m_data := built r (m_data P), m_parser := p\<rparr>,
         overwrite (show_request r @ body @ beyond) 0 body) \<and> http_parser_finish p = 1"
proof -
  let ?buf = "show_request r @ body"
  obtain p evs where ex: "http_parser_execute (m_parser P) ?buf 0 = Inr (length (show_request r), p, evs)"
    and fin: "http_parser_finish p = 1" and views: "map (view_of ?buf) evs = request_views r body"
    and bnd: "list_all (event_bounded (length ?buf)) evs"
    using execute_show_request [OF r(1), of "m_parser P" body] P by (auto simp: http_parser_start_def)
  have "on_events (?buf @ beyond) evs P = Inr (set_data (built r) P)"
    using on_events_views [OF bnd len, of beyond P] request_views_good [OF r, of body] views_built [OF r, of body]
    by (simp add: views set_data_def)
  then show ?thesis using ex fin by (intro exI [of _ p]) (simp add: execute_def set_data_def)
qed

subsection \<open>Receiving a printed request\<close>

lemma new_parser [simp]:
  "cs (m_parser (new_HttpRequestParser raw)) = http_parser_start" "all_installed (m_parser (new_HttpRequestParser raw))"
  "body_start (m_parser (new_HttpRequestParser raw)) = 0" "m_error (new_HttpRequestParser raw) = 0"
  "m_data (new_HttpRequestParser raw) = new_HttpRequest 0x11 True"
  by (simp_all add: new_HttpRequestParser_def http_parser_init_def all_installed_def)

lemma finished_no_error: "http_parser_finish p = 1 \<Longrightarrow> \<not> http_parser_has_error p"
  by (auto simp: http_parser_finish_def)

lemma recv_head_printed:
  assumes r: "request_ok r" "known_method r"
    and fits: "length (show_request r @ body) \<le> length buffer" "length buffer < 2 ^ 63"
  shows "\<exists>p mem. recv_head buffer 0 (new_HttpRequestParser raw) ((show_request r @ body) # peer) =
      Inr (Some ((new_HttpRequestParser raw)\<lparr>m_data := built r (new_HttpRequest 0x11 True), m_parser := p\<rparr>, mem, length body), peer)
    \<and> take (length body) mem = body \<and> length body \<le> length mem"
proof -
  let ?c = "show_request r @ body" and ?P = "new_HttpRequestParser raw"
  have ne: "?c \<noteq> []" "0 < length (show_request r)" by (simp_all add: show_request_def)
  have got: "sock_recv (length buffer) (?c # peer) = (?c, peer)" using fits by (simp add: sock_recv_def)
  have mem: "overwrite buffer 0 ?c = show_request r @ body @ drop (length ?c) buffer" by (simp add: overwrite_def)
  obtain p where ex: "execute (show_request r @ body @ drop (length ?c) buffer) (length ?c) ?P =
      Inr (length (show_request r), ?P\<lparr>m_data := built r (m_data ?P), m_parser := p\<rparr>,
        overwrite (show_request r @ body @ drop (length ?c) buffer) 0 body)" and fin: "http_parser_finish p = 1"
    using execute_printed [OF r, of body ?P "drop (length ?c) buffer"] fits by auto
  let ?M = "overwrite (show_request r @ body @ drop (length ?c) buffer) 0 body"
  have M: "take (length body) ?M = body" "length body \<le> length ?M"
    using take_overwrite_all [of 0 "show_request r @ body @ drop (length ?c) buffer" body] by simp_all
  have "length body \<noteq> length buffer" using fits ne by auto
  then have "recv_head buffer 0 ?P (?c # peer) =
      Inr (Some (?P\<lparr>m_data := built r (new_HttpRequest 0x11 True), m_parser := p\<rparr>, ?M, length body), peer)"
    using ne got ex fin finished_no_error [OF fin] fits
    by (subst recv_head.simps) (simp add: mem hasError_def isFinished_def)
  with M show ?thesis by blast
qed

subsection \<open>What \<open>dump\<close> prints is a request of the grammar\<close>

lemma strcasecmp_list_zero:
  "0 \<notin> set a \<Longrightarrow> 0 \<notin> set b \<Longrightarrow> strcasecmp_list a b = 0 \<longleftrightarrow> map to_lower a = map to_lower b"
proof (induction a b rule: strcasecmp_list.induct)
  case (2 b bs)
  then have "to_lower b \<noteq> 0" using to_lower_nonzero by auto
  then show ?case by (simp add: uint_0_iff)
next
  case (3 a as)
  then have "to_lower a \<noteq> 0" using to_lower_nonzero by auto
  then show ?case by (simp add: uint_0_iff)
qed (auto simp: word_uint_eq_iff)

lemma strcasecmp_zero: "strcasecmp a b = 0 \<longleftrightarrow> eqv CaseInsensitiveLess a b"
  using strcasecmp_list_zero [OF cstr_nonzero cstr_nonzero]
  by (simp add: strcasecmp_def header_eqv lower_key_def)

definition connection_name :: str where "connection_name = lit ''connection''"
definition length_name :: str where "length_name = lit ''content-length''"

definition connection_value :: "bool \<Rightarrow> str" where
  "connection_value close = lit (if close then ''close'' else ''keep-alive'')"

definition plain :: "str \<times> str \<Rightarrow> header" where
  "plain h = \<lparr>h_name = fst h, h_blanks = [32], h_value = snd h\<rparr>"

definition length_headers :: "str \<Rightarrow> (str \<times> str) list" where
  "length_headers body = (if body = [] then [] else [(length_name, lit (show_nat (length body)))])"

definition to_request :: "HttpRequest \<Rightarrow> request" where
  "to_request rq = \<lparr>r_method = method_text (rq_method rq), r_path = tl (rq_path rq),
     r_query = (if rq_query rq = [] then None else Some (rq_query rq)),
     r_minor = 48 + (rq_version rq AND 0x0F),
     r_headers = map plain ((connection_name, connection_value (rq_close rq)) # rq_headers rq @ length_headers (rq_body rq))\<rparr>"

text \<open>A request that the grammar of the parser covers, without the headers that \<open>dump\<close> adds.\<close>

definition wf_request :: "HttpRequest \<Rightarrow> bool" where
  "wf_request rq \<longleftrightarrow> rq_method rq \<noteq> INVALID_METHOD \<and> rq_method rq \<noteq> MSEARCH
     \<and> rq_path rq \<noteq> [] \<and> hd (rq_path rq) = 47 \<and> (\<forall>b \<in> set (tl (rq_path rq)). path_char (sint b))
     \<and> (tl (rq_path rq) \<noteq> [] \<longrightarrow> hd (tl (rq_path rq)) \<noteq> 47)
     \<and> (\<forall>b \<in> set (rq_query rq). query_char (sint b)) \<and> rq_fragment rq = []
     \<and> (rq_version rq = 0x10 \<or> rq_version rq = 0x11) \<and> \<not> rq_websocket rq
     \<and> tree_sorted CaseInsensitiveLess fst (rq_headers rq)
     \<and> (\<forall>h \<in> set (rq_headers rq). header_ok (plain h) \<and> \<not> eqv CaseInsensitiveLess (fst h) connection_name
          \<and> \<not> eqv CaseInsensitiveLess (fst h) length_name)"

lemma digit_byte: "d < 10 \<Longrightarrow> (of_char (digit d) :: byte) = 48 + word_of_nat d"
  by (subst of_nat_of_char [symmetric]) (simp add: of_char_digit)

lemma digit_bytes_ok:
  "list_all (\<lambda>n. value_char (sint (word_of_nat n :: byte)) \<and> \<not> blank (sint (word_of_nat n :: byte))) [48..<58]"
  by code_simp

lemma digits_value: "c \<in> set (lit (show_nat n)) \<Longrightarrow> value_char (sint c) \<and> \<not> blank (sint c)"
proof -
  assume "c \<in> set (lit (show_nat n))"
  then obtain d where d: "is_digit d" "c = of_char d" using show_nat_digits by (auto simp: lit_def)
  have "c = word_of_nat (of_char d)" using d(2) by (simp only: of_nat_of_char)
  moreover have "of_char d \<in> set [48..<58]" using d(1) unfolding set_upt atLeastLessThan_iff is_digit_def by linarith
  ultimately show ?thesis using digit_bytes_ok unfolding list_all_iff by blast
qed

lemma names_ok:
  "list_all (\<lambda>c. token_char (sint c)) connection_name" "list_all (\<lambda>c. token_char (sint c)) length_name"
  "list_all (\<lambda>c. value_char (sint c) \<and> \<not> blank (sint c)) (connection_value close)"
proof -
  show "list_all (\<lambda>c. token_char (sint c)) connection_name" by code_simp
  show "list_all (\<lambda>c. token_char (sint c)) length_name" by code_simp
  have "list_all (\<lambda>c. value_char (sint c) \<and> \<not> blank (sint c)) (connection_value True)" by code_simp
  moreover have "list_all (\<lambda>c. value_char (sint c) \<and> \<not> blank (sint c)) (connection_value False)" by code_simp
  ultimately show "list_all (\<lambda>c. value_char (sint c) \<and> \<not> blank (sint c)) (connection_value close)"
    by (cases close) simp_all
qed

lemma names_start: "hd connection_name = 99" "hd length_name = 99" "connection_name \<noteq> []" "length_name \<noteq> []"
  by (simp_all add: connection_name_def length_name_def lit_def)

lemma lit_empty [simp]: "lit s = [] \<longleftrightarrow> s = []"
  by (simp add: lit_def)

lemma header_okI:
  assumes "list_all (\<lambda>c. token_char (sint c)) n" "n \<noteq> []" "hd n = 99" "\<And>c. c \<in> set v \<Longrightarrow> value_char (sint c) \<and> \<not> blank (sint c)"
  shows "header_ok (plain (n, v))"
  using assms hd_in_set [of v] by (simp add: plain_def header_ok_def list_all_iff blank_def)

lemma added_headers_ok:
  "header_ok (plain (connection_name, connection_value close))" "list_all (header_ok \<circ> plain) (length_headers body)"
proof -
  show "header_ok (plain (connection_name, connection_value close))"
    using names_ok names_start by (intro header_okI) (auto simp: list_all_iff)
  have "header_ok (plain (length_name, lit (show_nat n)))" for n
    using names_ok names_start digits_value by (intro header_okI) auto
  then show "list_all (header_ok \<circ> plain) (length_headers body)" by (simp add: length_headers_def)
qed

lemma version_digit: "v = 0x10 \<or> v = 0x11 \<Longrightarrow> dump_version v = [49, 46, 48 + (v AND 0x0F)]"
  by (auto simp: dump_version_def lit_def show_nat.simps digit_byte)

lemma to_request_ok:
  assumes "wf_request rq"
  shows "request_ok (to_request rq)" and "known_method (to_request rq)"
proof -
  show "request_ok (to_request rq)"
    using assms method_text_ok [of "rq_method rq"] added_headers_ok
    by (auto simp: wf_request_def request_ok_def to_request_def list_all_iff)
  show "known_method (to_request rq)" using assms by (auto simp: known_method_def to_request_def wf_request_def)
qed

lemma dump_headers:
  assumes "\<forall>h \<in> set hs. \<not> eqv CaseInsensitiveLess (fst h) connection_name"
  shows "concat (map (dump_header False) hs) = concat (map (show_header \<circ> plain) hs)"
  using assms
  by (induction hs) (auto simp: dump_header_def strcasecmp_zero connection_name_def show_header_def plain_def crlf_def lit_def)

lemma dump_show:
  assumes "wf_request rq"
  shows "HttpRequest_dump rq = show_request (to_request rq) @ rq_body rq"
proof -
  obtain p where p: "rq_path rq = 47 # p" using assms by (cases "rq_path rq") (auto simp: wf_request_def)
  have "rq_fragment rq = []" "\<not> rq_websocket rq" and v: "rq_version rq = 0x10 \<or> rq_version rq = 0x11"
    and h: "\<forall>h \<in> set (rq_headers rq). \<not> eqv CaseInsensitiveLess (fst h) connection_name"
    using assms by (auto simp: wf_request_def)
  then show ?thesis
    by (simp add: HttpRequest_dump_def show_request_def to_request_def p version_digit [OF v] dump_headers [OF h]
        method_text_def show_uri_def show_version_def dump_connection_def dump_body_def length_headers_def)
       (auto simp: show_header_def plain_def crlf_def connection_name_def connection_value_def length_name_def lit_def comp_def)
qed

subsection \<open>The headers that arrive\<close>

lemma set_headers_sorted:
  "tree_sorted CaseInsensitiveLess fst m \<Longrightarrow> tree_sorted CaseInsensitiveLess fst (set_headers hs m)"
  by (induction hs arbitrary: m) (simp_all add: set_headers_def header_map.sorted_assign)

lemma set_headers_append: "set_headers (hs @ hs') m = set_headers hs' (set_headers hs m)"
  by (simp add: set_headers_def)

lemma set_headers_find:
  assumes "tree_sorted CaseInsensitiveLess fst hs" and "tree_sorted CaseInsensitiveLess fst m"
  shows "map_find CaseInsensitiveLess k (set_headers (map plain hs) m) =
    (case map_find CaseInsensitiveLess k hs of Some v \<Rightarrow> Some v | None \<Rightarrow> map_find CaseInsensitiveLess k m)"
  using assms
proof (induction hs arbitrary: m)
  case Nil
  then show ?case by (simp add: set_headers_def map_find_def)
next
  case (Cons h hs)
  obtain a v where h: "h = (a, v)" by (cases h)
  let ?m = "map_assign CaseInsensitiveLess a v m"
  have s: "tree_sorted CaseInsensitiveLess fst hs" "tree_sorted CaseInsensitiveLess fst ?m"
    using Cons.prems header_map.sorted_assign by (auto simp: tree_sorted_Cons)
  have none: "map_find CaseInsensitiveLess k hs = None" if "eqv CaseInsensitiveLess a k"
  proof -
    have "\<not> eqv CaseInsensitiveLess (fst x) k" if "x \<in> set hs" for x
      using header_map.others_differ [of fst "[]" h hs k x] Cons.prems(1) \<open>eqv CaseInsensitiveLess a k\<close> that by (simp add: h)
    then show ?thesis using header_map.map_find_None [OF s(1)] by blast
  qed
  have "set_headers (map plain (h # hs)) m = set_headers (map plain hs) ?m"
    by (simp add: set_headers_def plain_def h)
  then show ?case using Cons.IH [OF s] none Cons.prems
    by (auto simp: h header_map.map_find_assign header_map.map_find_Cons split: option.splits)
qed

lemma added_headers_sorted: "tree_sorted CaseInsensitiveLess fst (length_headers body)"
  "tree_sorted CaseInsensitiveLess fst [(a, v)]"
  by (simp_all add: length_headers_def tree_sorted_Cons)

lemma find_length_headers:
  "map_find CaseInsensitiveLess k (length_headers body) =
   (if body \<noteq> [] \<and> eqv CaseInsensitiveLess length_name k then Some (lit (show_nat (length body))) else None)"
  by (auto simp: length_headers_def header_map.map_find_Cons [OF added_headers_sorted(2)])
     (simp_all add: map_find_def)

lemma find_single:
  "map_find CaseInsensitiveLess k [(a, v)] = (if eqv CaseInsensitiveLess a k then Some v else None)"
  unfolding header_map.map_find_Cons [OF added_headers_sorted(2)] by (simp add: map_find_def)

lemma names_differ: "\<not> eqv CaseInsensitiveLess connection_name length_name"
proof -
  have "lower_key connection_name = connection_name" "lower_key length_name = length_name" by code_simp+
  moreover have "connection_name \<noteq> length_name" by (simp add: connection_name_def length_name_def lit_def)
  ultimately show ?thesis by (simp add: header_eqv)
qed

lemma keep_alive: "strcasecmp (connection_value True) (lit ''keep-alive'') \<noteq> 0"
  "strcasecmp (connection_value False) (lit ''keep-alive'') = 0"
proof -
  have "strcasecmp (connection_value True) (lit ''keep-alive'') = - 8" by code_simp
  then show "strcasecmp (connection_value True) (lit ''keep-alive'') \<noteq> 0" by simp
  show "strcasecmp (connection_value False) (lit ''keep-alive'') = 0" by code_simp
qed

text \<open>What the server finds under a key.\<close>

definition received_header :: "HttpRequest \<Rightarrow> str \<Rightarrow> str option" where
  "received_header rq k =
     (if eqv CaseInsensitiveLess connection_name k then Some (connection_value (rq_close rq))
      else if rq_body rq \<noteq> [] \<and> eqv CaseInsensitiveLess length_name k then Some (lit (show_nat (length (rq_body rq))))
      else map_find CaseInsensitiveLess k (rq_headers rq))"

lemma built_headers:
  assumes "wf_request rq"
  shows "map_find CaseInsensitiveLess k (set_headers (r_headers (to_request rq)) []) = received_header rq k"
proof -
  let ?h = "rq_headers rq" and ?c = "[(connection_name, connection_value (rq_close rq))]"
  have s: "tree_sorted CaseInsensitiveLess fst ?h"
    and d: "\<forall>h \<in> set ?h. \<not> eqv CaseInsensitiveLess (fst h) connection_name \<and> \<not> eqv CaseInsensitiveLess (fst h) length_name"
    using assms by (auto simp: wf_request_def)
  have none: "map_find CaseInsensitiveLess k ?h = None"
    if "eqv CaseInsensitiveLess connection_name k \<or> eqv CaseInsensitiveLess length_name k"
  proof -
    have "\<not> eqv CaseInsensitiveLess (fst x) k" if "x \<in> set ?h" for x
      using d that \<open>eqv CaseInsensitiveLess connection_name k \<or> eqv CaseInsensitiveLess length_name k\<close>
        header_map.eqv_join eqv_sym by metis
    then show ?thesis using header_map.map_find_None [OF s] by blast
  qed
  have nd: "\<not> (eqv CaseInsensitiveLess connection_name k \<and> eqv CaseInsensitiveLess length_name k)"
    using names_differ header_map.eqv_join by blast
  define m0 where "m0 = set_headers (map plain ?c) []"
  have m0: "tree_sorted CaseInsensitiveLess fst m0"
    "map_find CaseInsensitiveLess k m0 = (if eqv CaseInsensitiveLess connection_name k then Some (connection_value (rq_close rq)) else None)"
    unfolding m0_def by (rule set_headers_sorted, simp)
      (simp only: set_headers_find [OF added_headers_sorted(2) tree_sorted_Nil] find_single, simp add: map_find_def)
  define m1 where "m1 = set_headers (map plain ?h) m0"
  have m1: "tree_sorted CaseInsensitiveLess fst m1" unfolding m1_def by (rule set_headers_sorted [OF m0(1)])
  have "set_headers (r_headers (to_request rq)) [] = set_headers (map plain (length_headers (rq_body rq))) m1"
    by (simp add: to_request_def m1_def m0_def set_headers_append [symmetric])
  then show ?thesis
    using none nd set_headers_find [OF added_headers_sorted(1) m1, of k "rq_body rq"] set_headers_find [OF s m0(1), of k]
    by (auto simp: find_length_headers m0(2) m1_def [symmetric] received_header_def split: option.splits if_splits)
qed

text \<open>What \<open>recvRequest\<close> does after the head of a request that arrived with the bytes \<open>b\<close> behind it.\<close>

definition parsed :: "HttpRequest \<Rightarrow> HttpRequest" where
  "parsed rq = built (to_request rq) (new_HttpRequest 0x11 True)"

lemma parsed_header:
  "wf_request rq \<Longrightarrow> map_find CaseInsensitiveLess k (rq_headers (parsed rq)) = received_header rq k"
  using built_headers [of rq k] by (simp add: parsed_def built_def new_HttpRequest_def)

lemma content_length:
  assumes wf: "wf_request rq" and n: "length (rq_body rq) < 2 ^ 63" and P: "m_data P = parsed rq"
    and cast: "\<And>n. n < 2 ^ 63 \<Longrightarrow> lexical_cast (lit (show_nat n)) = Some (word_of_nat n)"
  shows "sint (getContentLength lexical_cast P) = int (length (rq_body rq))"
proof -
  have "tree_sorted CaseInsensitiveLess fst (rq_headers rq)"
    "\<forall>x \<in> set (rq_headers rq). \<not> eqv CaseInsensitiveLess (fst x) length_name"
    using wf unfolding wf_request_def by blast+
  then have none: "map_find CaseInsensitiveLess length_name (rq_headers rq) = None"
    using header_map.map_find_None by blast
  have "received_header rq length_name = (if rq_body rq = [] then None else Some (lit (show_nat (length (rq_body rq)))))"
    using names_differ none header_map.eqv_refl by (auto simp: received_header_def)
  then show ?thesis using n cast [OF n]
    by (auto simp: getContentLength_def getAs_def P parsed_header [OF wf] length_name_def signed_of_nat signed_take_bit_int_eq_self)
qed

lemma init_parsed:
  assumes wf: "wf_request rq"
  shows "init ((parsed rq)\<lparr>rq_body := b\<rparr>) = (parsed rq)\<lparr>rq_body := b, rq_close := rq_close rq\<rparr>"
proof -
  have "getHeader ((parsed rq)\<lparr>rq_body := b\<rparr>) (lit ''connection'') [] = connection_value (rq_close rq)"
    using parsed_header [OF wf, of connection_name] header_map.eqv_refl
    by (simp add: getHeader_def find_or_def received_header_def connection_name_def)
  moreover have "strcasecmp (connection_value c) (lit ''keep-alive'') \<noteq> 0 \<longleftrightarrow> c" for c
    using keep_alive by (cases c) simp_all
  ultimately show ?thesis by (simp add: init_def) (simp add: connection_value_def)
qed

lemma parsed_fields:
  assumes wf: "wf_request rq"
  shows "rq_method (parsed rq) = rq_method rq" "rq_version (parsed rq) = rq_version rq" "rq_path (parsed rq) = rq_path rq"
    "rq_query (parsed rq) = rq_query rq" "rq_body (parsed rq) = []"
proof -
  have m: "CharsToHttpMethod (method_text (rq_method rq)) = Inr (rq_method rq)"
    using CharsToHttpMethod_text [of "rq_method rq" "[]"] wf by (simp add: wf_request_def)
  have path: "47 # tl (rq_path rq) = rq_path rq" using wf by (cases "rq_path rq") (auto simp: wf_request_def)
  show "rq_method (parsed rq) = rq_method rq" "rq_version (parsed rq) = rq_version rq" "rq_path (parsed rq) = rq_path rq"
    "rq_query (parsed rq) = rq_query rq" "rq_body (parsed rq) = []"
    using wf m path by (auto simp: parsed_def built_def to_request_def wf_request_def new_HttpRequest_def)
qed

lemma recv_printed:
  assumes wf: "wf_request rq"
    and fits: "length (show_request (to_request rq) @ b) \<le> length buffer" "length buffer < 2 ^ 63"
    and n: "length (rq_body rq) < 2 ^ 63"
    and cast: "\<And>n. n < 2 ^ 63 \<Longrightarrow> lexical_cast (lit (show_nat n)) = Some (word_of_nat n)"
  shows "\<exists>mem. take (length b) mem = b \<and> length b \<le> length mem \<and>
    recvRequest lexical_cast can_alloc raw buffer ((show_request (to_request rq) @ b) # peer) =
      (if rq_body rq = [] then Inr (Some ((parsed rq)\<lparr>rq_close := rq_close rq\<rparr>), peer)
       else bindE (recv_body can_alloc mem (length b) (length (rq_body rq)) peer) (\<lambda>(body, peer'). case body of
           None \<Rightarrow> Inr (None, peer')
         | Some x \<Rightarrow> Inr (Some ((parsed rq)\<lparr>rq_body := x, rq_close := rq_close rq\<rparr>), peer')))"
proof -
  obtain p mem where head: "recv_head buffer 0 (new_HttpRequestParser raw) ((show_request (to_request rq) @ b) # peer) =
      Inr (Some ((new_HttpRequestParser raw)\<lparr>m_data := parsed rq, m_parser := p\<rparr>, mem, length b), peer)"
    and mem: "take (length b) mem = b" "length b \<le> length mem"
    using recv_head_printed [OF to_request_ok [OF wf], of b buffer raw peer] fits unfolding parsed_def by blast
  have len: "sint (getContentLength lexical_cast ((new_HttpRequestParser raw)\<lparr>m_data := parsed rq, m_parser := p\<rparr>))
      = int (length (rq_body rq))"
    by (rule content_length [OF wf n _ cast]) simp_all
  have init0: "init (parsed rq) = (parsed rq)\<lparr>rq_close := rq_close rq\<rparr>"
    using init_parsed [OF wf, of "rq_body (parsed rq)"] by (cases "parsed rq") simp
  show ?thesis
    using head mem
    by (intro exI [of _ mem]) (simp add: recvRequest_def len init_parsed [OF wf] init0 cong: option.case_cong prod.case_cong)
qed



definition hello_request :: HttpRequest where
  "hello_request = (new_HttpRequest 0x11 False)\<lparr>rq_method := POST, rq_path := [47, 97], rq_body := [104, 105]\<rparr>"

definition decimal :: "str \<Rightarrow> u64 option" where
  "decimal s = Some (word_of_nat (read_nat (map (\<lambda>b. char_of (unat b)) s)))"

lemma decimal_show: "decimal (lit (show_nat n)) = Some (word_of_nat n)"
proof -
  have "(char_of (unat (of_char c :: byte)) :: char) = c" for c
    by (subst of_nat_of_char [symmetric]) (simp add: unsigned_of_nat take_bit_nat_eq_self)
  then show ?thesis by (simp add: decimal_def lit_def comp_def)
qed

lemma hello_request_ok: "wf_request hello_request"
  by (simp add: wf_request_def hello_request_def new_HttpRequest_def path_char_def)

lemma hello_length: "length (HttpRequest_dump hello_request) \<le> 100"
  by (simp add: HttpRequest_dump_def hello_request_def new_HttpRequest_def HttpMethodToString_def HTTP_METHOD_MAP_def lit_def
      dump_version_def dump_connection_def dump_body_def crlf_def show_nat.simps)



end
