(* ===== verification/HttpClientParser.thy ===== *)
theory HttpClientParser
  imports Prelude
begin

section \<open>The HTTP response automaton (net/http/httpclient\_parser)\<close>

text \<open>
  \<open>httpclient_parser_execute\<close> of src/spike/net/http/httpclient\_parser.cpp, the goto automaton that Ragel
  produced from httpclient\_parser.rl, written as the request automaton is in Http11: a label \<open>trN\<close> is
  \<open>client_trN\<close>, the case blocks are \<open>client_case_N\<close>, \<open>goto stN\<close> is \<open>cst N\<close> and \<open>goto st0\<close> is \<open>CErr\<close>.
\<close>

subsection \<open>Actions and targets\<close>

datatype client_action =
    CMark | CStartField | CWriteField | CWriteValue | CContentLen | CConnectionClose | CReasonPhrase
  | CStatusCode | CHttpVersion | CChunkSize | CTransChunked | CDone

datatype client_target = CErr | CGo "client_action list" nat | CBreak "client_action list" nat

definition cst :: "nat \<Rightarrow> client_target" where
  "cst n = CGo [] n"

definition httpclient_parser_start :: nat where "httpclient_parser_start = 1"
definition httpclient_parser_first_final :: nat where "httpclient_parser_first_final = 120"
definition httpclient_parser_error :: nat where "httpclient_parser_error = 0"

subsection \<open>Transition labels\<close>

definition client_tr0 :: client_target where
  "client_tr0 = CGo [CMark] 2"

definition client_tr2 :: client_target where
  "client_tr2 = CGo [CMark] 8"

definition client_tr3 :: client_target where
  "client_tr3 = CBreak [CChunkSize, CDone] 120"

definition client_tr4 :: client_target where
  "client_tr4 = CGo [CChunkSize] 3"

definition client_tr6 :: client_target where
  "client_tr6 = CGo [CChunkSize] 4"

definition client_tr7 :: client_target where
  "client_tr7 = CBreak [CDone] 120"

definition client_tr8 :: client_target where
  "client_tr8 = CGo [CStartField] 5"

definition client_tr9 :: client_target where
  "client_tr9 = CBreak [CWriteField, CMark, CWriteValue, CDone] 120"

definition client_tr10 :: client_target where
  "client_tr10 = CGo [CWriteField, CMark, CWriteValue] 3"

definition client_tr12 :: client_target where
  "client_tr12 = CGo [CWriteField, CMark, CWriteValue] 4"

definition client_tr13 :: client_target where
  "client_tr13 = CGo [CWriteField, CMark] 6"

definition client_tr14 :: client_target where
  "client_tr14 = CGo [CMark] 7"

definition client_tr15 :: client_target where
  "client_tr15 = CBreak [CWriteValue, CDone] 120"

definition client_tr16 :: client_target where
  "client_tr16 = CGo [CWriteValue] 3"

definition client_tr18 :: client_target where
  "client_tr18 = CGo [CWriteValue] 4"

definition client_tr26 :: client_target where
  "client_tr26 = CGo [CHttpVersion] 16"

definition client_tr27 :: client_target where
  "client_tr27 = CGo [CMark] 17"

definition client_tr28 :: client_target where
  "client_tr28 = CGo [CStatusCode] 18"

definition client_tr30 :: client_target where
  "client_tr30 = CGo [CMark] 19"

definition client_tr32 :: client_target where
  "client_tr32 = CGo [CReasonPhrase] 20"

definition client_tr33 :: client_target where
  "client_tr33 = CGo [CReasonPhrase] 24"

definition client_tr35 :: client_target where
  "client_tr35 = CGo [CStartField] 21"

definition client_tr36 :: client_target where
  "client_tr36 = CGo [CStartField] 25"

definition client_tr37 :: client_target where
  "client_tr37 = CGo [CStartField] 44"

definition client_tr39 :: client_target where
  "client_tr39 = CGo [CWriteField] 22"

definition client_tr40 :: client_target where
  "client_tr40 = CGo [CMark] 23"

definition client_tr41 :: client_target where
  "client_tr41 = CGo [CMark] 22"

definition client_tr42 :: client_target where
  "client_tr42 = CGo [CMark, CWriteValue] 20"

definition client_tr43 :: client_target where
  "client_tr43 = CGo [CMark, CWriteValue] 24"

definition client_tr45 :: client_target where
  "client_tr45 = CGo [CWriteValue] 20"

definition client_tr46 :: client_target where
  "client_tr46 = CGo [CWriteValue] 24"

definition client_tr58 :: client_target where
  "client_tr58 = CGo [CWriteField] 35"

definition client_tr59 :: client_target where
  "client_tr59 = CGo [CMark] 35"

definition client_tr60 :: client_target where
  "client_tr60 = CGo [CMark, CWriteValue] 36"

definition client_tr61 :: client_target where
  "client_tr61 = CGo [CMark, CWriteValue] 95"

definition client_tr62 :: client_target where
  "client_tr62 = CGo [CMark] 96"

definition client_tr64 :: client_target where
  "client_tr64 = CBreak [CDone] 122"

definition client_tr66 :: client_target where
  "client_tr66 = CGo [CStartField] 90"

definition client_tr74 :: client_target where
  "client_tr74 = CBreak [CConnectionClose, CDone] 120"

definition client_tr75 :: client_target where
  "client_tr75 = CGo [CConnectionClose] 3"

definition client_tr76 :: client_target where
  "client_tr76 = CGo [CConnectionClose, CStartField] 21"

definition client_tr77 :: client_target where
  "client_tr77 = CGo [CConnectionClose, CStartField] 25"

definition client_tr78 :: client_target where
  "client_tr78 = CGo [CConnectionClose, CStartField] 44"

definition client_tr95 :: client_target where
  "client_tr95 = CGo [CWriteField] 61"

definition client_tr96 :: client_target where
  "client_tr96 = CGo [CMark] 61"

definition client_tr97 :: client_target where
  "client_tr97 = CGo [CMark, CWriteValue] 62"

definition client_tr98 :: client_target where
  "client_tr98 = CGo [CMark, CWriteValue] 80"

definition client_tr99 :: client_target where
  "client_tr99 = CGo [CMark] 81"

definition client_tr101 :: client_target where
  "client_tr101 = CBreak [CDone] 121"

definition client_tr103 :: client_target where
  "client_tr103 = CGo [CMark, CStartField] 73"

definition client_tr104 :: client_target where
  "client_tr104 = CGo [CMark] 64"

definition client_tr111 :: client_target where
  "client_tr111 = CGo [CWriteValue, CTransChunked] 20"

definition client_tr112 :: client_target where
  "client_tr112 = CGo [CWriteValue] 71"

definition client_tr113 :: client_target where
  "client_tr113 = CGo [CTransChunked] 20"

definition client_tr136 :: client_target where
  "client_tr136 = CGo [CWriteValue] 43"

definition client_tr137 :: client_target where
  "client_tr137 = CGo [CWriteValue] 88"

definition client_tr148 :: client_target where
  "client_tr148 = CGo [CWriteField] 112"

definition client_tr149 :: client_target where
  "client_tr149 = CGo [CMark] 112"

definition client_tr150 :: client_target where
  "client_tr150 = CGo [CMark, CWriteValue] 113"

definition client_tr151 :: client_target where
  "client_tr151 = CGo [CMark, CWriteValue] 118"

definition client_tr152 :: client_target where
  "client_tr152 = CGo [CMark] 119"

definition client_tr154 :: client_target where
  "client_tr154 = CBreak [CDone] 123"

definition client_tr156 :: client_target where
  "client_tr156 = CGo [CMark, CStartField] 117"

definition client_tr157 :: client_target where
  "client_tr157 = CGo [CMark] 115"

definition client_tr158 :: client_target where
  "client_tr158 = CGo [CContentLen, CWriteValue] 20"

definition client_tr159 :: client_target where
  "client_tr159 = CGo [CContentLen, CWriteValue] 24"


subsection \<open>Case blocks\<close>

definition client_case_1 :: "nat \<Rightarrow> int \<Rightarrow> client_target" where
  "client_case_1 s c =
    (if s = 1 then (if c = 72 then client_tr2
        else if c < 65 then (if 48 \<le> c \<and> c \<le> 57 then client_tr0
          else CErr)
        else if c > 70 then (if 97 \<le> c \<and> c \<le> 102 then client_tr0
          else CErr)
        else client_tr0)
     else if s = 2 then (if c = 10 then client_tr3
        else if c = 13 then client_tr4
        else if c = 59 then client_tr6
        else if c < 65 then (if 48 \<le> c \<and> c \<le> 57 then cst 2
          else CErr)
        else if c > 70 then (if 97 \<le> c \<and> c \<le> 102 then cst 2
          else CErr)
        else cst 2)
     else if s = 120 then CErr
     else CErr)"

definition client_case_3 :: "nat \<Rightarrow> int \<Rightarrow> client_target" where
  "client_case_3 s c =
    (if s = 3 then (if c = 10 then client_tr7
        else CErr)
     else if s = 4 then (if c = 33 \<or> c = 124 \<or> c = 126 then client_tr8
        else if c < 45 then (if c > 39 then (if 42 \<le> c \<and> c \<le> 43 then client_tr8
            else CErr)
          else if c \<ge> 35 then client_tr8
          else CErr)
        else if c > 46 then (if c < 65 then (if 48 \<le> c \<and> c \<le> 57 then client_tr8
            else CErr)
          else if c > 90 then (if 94 \<le> c \<and> c \<le> 122 then client_tr8
            else CErr)
          else client_tr8)
        else client_tr8)
     else if s = 5 then (if c = 10 then client_tr9
        else if c = 13 then client_tr10
        else if c = 33 \<or> c = 124 \<or> c = 126 then cst 5
        else if c = 59 then client_tr12
        else if c = 61 then client_tr13
        else if c < 45 then (if c > 39 then (if 42 \<le> c \<and> c \<le> 43 then cst 5
            else CErr)
          else if c \<ge> 35 then cst 5
          else CErr)
        else if c > 46 then (if c < 65 then (if 48 \<le> c \<and> c \<le> 57 then cst 5
            else CErr)
          else if c > 90 then (if 94 \<le> c \<and> c \<le> 122 then cst 5
            else CErr)
          else cst 5)
        else cst 5)
     else if s = 6 then (if c = 33 \<or> c = 124 \<or> c = 126 then client_tr14
        else if c < 45 then (if c > 39 then (if 42 \<le> c \<and> c \<le> 43 then client_tr14
            else CErr)
          else if c \<ge> 35 then client_tr14
          else CErr)
        else if c > 46 then (if c < 65 then (if 48 \<le> c \<and> c \<le> 57 then client_tr14
            else CErr)
          else if c > 90 then (if 94 \<le> c \<and> c \<le> 122 then client_tr14
            else CErr)
          else client_tr14)
        else client_tr14)
     else CErr)"

definition client_case_7 :: "nat \<Rightarrow> int \<Rightarrow> client_target" where
  "client_case_7 s c =
    (if s = 7 then (if c = 10 then client_tr15
        else if c = 13 then client_tr16
        else if c = 33 \<or> c = 124 \<or> c = 126 then cst 7
        else if c = 59 then client_tr18
        else if c < 45 then (if c > 39 then (if 42 \<le> c \<and> c \<le> 43 then cst 7
            else CErr)
          else if c \<ge> 35 then cst 7
          else CErr)
        else if c > 46 then (if c < 65 then (if 48 \<le> c \<and> c \<le> 57 then cst 7
            else CErr)
          else if c > 90 then (if 94 \<le> c \<and> c \<le> 122 then cst 7
            else CErr)
          else cst 7)
        else cst 7)
     else if s = 8 then (if c = 84 then cst 9
        else CErr)
     else if s = 9 then (if c = 84 then cst 10
        else CErr)
     else if s = 10 then (if c = 80 then cst 11
        else CErr)
     else if s = 11 then (if c = 47 then cst 12
        else CErr)
     else if s = 12 then (if 48 \<le> c \<and> c \<le> 57 then cst 13
        else CErr)
     else if s = 13 then (if c = 46 then cst 14
        else if 48 \<le> c \<and> c \<le> 57 then cst 13
        else CErr)
     else if s = 14 then (if 48 \<le> c \<and> c \<le> 57 then cst 15
        else CErr)
     else if s = 15 then (if c = 32 then client_tr26
        else if 48 \<le> c \<and> c \<le> 57 then cst 15
        else CErr)
     else if s = 16 then (if 48 \<le> c \<and> c \<le> 57 then client_tr27
        else CErr)
     else if s = 17 then (if c = 32 then client_tr28
        else if 48 \<le> c \<and> c \<le> 57 then cst 17
        else CErr)
     else if s = 18 then (if c = 10 then CErr
        else client_tr30)
     else CErr)"

definition client_case_19 :: "nat \<Rightarrow> int \<Rightarrow> client_target" where
  "client_case_19 s c =
    (if s = 19 then (if c = 10 then client_tr32
        else if c = 13 then client_tr33
        else cst 19)
     else if s = 20 then (if c = 10 then client_tr7
        else if c = 13 then cst 3
        else if c = 33 \<or> c = 124 \<or> c = 126 then client_tr35
        else if c = 67 \<or> c = 99 then client_tr36
        else if c = 84 \<or> c = 116 then client_tr37
        else if c < 45 then (if c > 39 then (if 42 \<le> c \<and> c \<le> 43 then client_tr35
            else CErr)
          else if c \<ge> 35 then client_tr35
          else CErr)
        else if c > 46 then (if c < 65 then (if 48 \<le> c \<and> c \<le> 57 then client_tr35
            else CErr)
          else if c > 90 then (if 94 \<le> c \<and> c \<le> 122 then client_tr35
            else CErr)
          else client_tr35)
        else client_tr35)
     else if s = 21 then (if c = 33 \<or> c = 124 \<or> c = 126 then cst 21
        else if c = 58 then client_tr39
        else if c < 45 then (if c > 39 then (if 42 \<le> c \<and> c \<le> 43 then cst 21
            else CErr)
          else if c \<ge> 35 then cst 21
          else CErr)
        else if c > 46 then (if c < 65 then (if 48 \<le> c \<and> c \<le> 57 then cst 21
            else CErr)
          else if c > 90 then (if 94 \<le> c \<and> c \<le> 122 then cst 21
            else CErr)
          else cst 21)
        else cst 21)
     else CErr)"

definition client_case_22 :: "nat \<Rightarrow> int \<Rightarrow> client_target" where
  "client_case_22 s c =
    (if s = 22 then (if c = 10 then client_tr42
        else if c = 13 then client_tr43
        else if c = 32 then client_tr41
        else if 9 \<le> c \<and> c \<le> 12 then client_tr41
        else client_tr40)
     else if s = 23 then (if c = 10 then client_tr45
        else if c = 13 then client_tr46
        else cst 23)
     else if s = 24 then (if c = 10 then cst 20
        else CErr)
     else if s = 25 then (if c = 33 \<or> c = 124 \<or> c = 126 then cst 21
        else if c = 58 then client_tr39
        else if c = 79 \<or> c = 111 then cst 26
        else if c < 45 then (if c > 39 then (if 42 \<le> c \<and> c \<le> 43 then cst 21
            else CErr)
          else if c \<ge> 35 then cst 21
          else CErr)
        else if c > 46 then (if c < 65 then (if 48 \<le> c \<and> c \<le> 57 then cst 21
            else CErr)
          else if c > 90 then (if 94 \<le> c \<and> c \<le> 122 then cst 21
            else CErr)
          else cst 21)
        else cst 21)
     else if s = 26 then (if c = 33 \<or> c = 124 \<or> c = 126 then cst 21
        else if c = 58 then client_tr39
        else if c = 78 \<or> c = 110 then cst 27
        else if c < 45 then (if c > 39 then (if 42 \<le> c \<and> c \<le> 43 then cst 21
            else CErr)
          else if c \<ge> 35 then cst 21
          else CErr)
        else if c > 46 then (if c < 65 then (if 48 \<le> c \<and> c \<le> 57 then cst 21
            else CErr)
          else if c > 90 then (if 94 \<le> c \<and> c \<le> 122 then cst 21
            else CErr)
          else cst 21)
        else cst 21)
     else CErr)"

definition client_case_27 :: "nat \<Rightarrow> int \<Rightarrow> client_target" where
  "client_case_27 s c =
    (if s = 27 then (if c = 33 \<or> c = 124 \<or> c = 126 then cst 21
        else if c = 58 then client_tr39
        else if c = 78 \<or> c = 110 then cst 28
        else if c = 84 \<or> c = 116 then cst 101
        else if c < 45 then (if c > 39 then (if 42 \<le> c \<and> c \<le> 43 then cst 21
            else CErr)
          else if c \<ge> 35 then cst 21
          else CErr)
        else if c > 46 then (if c < 65 then (if 48 \<le> c \<and> c \<le> 57 then cst 21
            else CErr)
          else if c > 90 then (if 94 \<le> c \<and> c \<le> 122 then cst 21
            else CErr)
          else cst 21)
        else cst 21)
     else if s = 28 then (if c = 33 \<or> c = 124 \<or> c = 126 then cst 21
        else if c = 58 then client_tr39
        else if c = 69 \<or> c = 101 then cst 29
        else if c < 45 then (if c > 39 then (if 42 \<le> c \<and> c \<le> 43 then cst 21
            else CErr)
          else if c \<ge> 35 then cst 21
          else CErr)
        else if c > 46 then (if c < 65 then (if 48 \<le> c \<and> c \<le> 57 then cst 21
            else CErr)
          else if c > 90 then (if 94 \<le> c \<and> c \<le> 122 then cst 21
            else CErr)
          else cst 21)
        else cst 21)
     else if s = 29 then (if c = 33 \<or> c = 124 \<or> c = 126 then cst 21
        else if c = 58 then client_tr39
        else if c = 67 \<or> c = 99 then cst 30
        else if c < 45 then (if c > 39 then (if 42 \<le> c \<and> c \<le> 43 then cst 21
            else CErr)
          else if c \<ge> 35 then cst 21
          else CErr)
        else if c > 46 then (if c < 65 then (if 48 \<le> c \<and> c \<le> 57 then cst 21
            else CErr)
          else if c > 90 then (if 94 \<le> c \<and> c \<le> 122 then cst 21
            else CErr)
          else cst 21)
        else cst 21)
     else if s = 30 then (if c = 33 \<or> c = 124 \<or> c = 126 then cst 21
        else if c = 58 then client_tr39
        else if c = 84 \<or> c = 116 then cst 31
        else if c < 45 then (if c > 39 then (if 42 \<le> c \<and> c \<le> 43 then cst 21
            else CErr)
          else if c \<ge> 35 then cst 21
          else CErr)
        else if c > 46 then (if c < 65 then (if 48 \<le> c \<and> c \<le> 57 then cst 21
            else CErr)
          else if c > 90 then (if 94 \<le> c \<and> c \<le> 122 then cst 21
            else CErr)
          else cst 21)
        else cst 21)
     else if s = 31 then (if c = 33 \<or> c = 124 \<or> c = 126 then cst 21
        else if c = 58 then client_tr39
        else if c = 73 \<or> c = 105 then cst 32
        else if c < 45 then (if c > 39 then (if 42 \<le> c \<and> c \<le> 43 then cst 21
            else CErr)
          else if c \<ge> 35 then cst 21
          else CErr)
        else if c > 46 then (if c < 65 then (if 48 \<le> c \<and> c \<le> 57 then cst 21
            else CErr)
          else if c > 90 then (if 94 \<le> c \<and> c \<le> 122 then cst 21
            else CErr)
          else cst 21)
        else cst 21)
     else CErr)"

definition client_case_32 :: "nat \<Rightarrow> int \<Rightarrow> client_target" where
  "client_case_32 s c =
    (if s = 32 then (if c = 33 \<or> c = 124 \<or> c = 126 then cst 21
        else if c = 58 then client_tr39
        else if c = 79 \<or> c = 111 then cst 33
        else if c < 45 then (if c > 39 then (if 42 \<le> c \<and> c \<le> 43 then cst 21
            else CErr)
          else if c \<ge> 35 then cst 21
          else CErr)
        else if c > 46 then (if c < 65 then (if 48 \<le> c \<and> c \<le> 57 then cst 21
            else CErr)
          else if c > 90 then (if 94 \<le> c \<and> c \<le> 122 then cst 21
            else CErr)
          else cst 21)
        else cst 21)
     else if s = 33 then (if c = 33 \<or> c = 124 \<or> c = 126 then cst 21
        else if c = 58 then client_tr39
        else if c = 78 \<or> c = 110 then cst 34
        else if c < 45 then (if c > 39 then (if 42 \<le> c \<and> c \<le> 43 then cst 21
            else CErr)
          else if c \<ge> 35 then cst 21
          else CErr)
        else if c > 46 then (if c < 65 then (if 48 \<le> c \<and> c \<le> 57 then cst 21
            else CErr)
          else if c > 90 then (if 94 \<le> c \<and> c \<le> 122 then cst 21
            else CErr)
          else cst 21)
        else cst 21)
     else if s = 34 then (if c = 33 \<or> c = 124 \<or> c = 126 then cst 21
        else if c = 58 then client_tr58
        else if c < 45 then (if c > 39 then (if 42 \<le> c \<and> c \<le> 43 then cst 21
            else CErr)
          else if c \<ge> 35 then cst 21
          else CErr)
        else if c > 46 then (if c < 65 then (if 48 \<le> c \<and> c \<le> 57 then cst 21
            else CErr)
          else if c > 90 then (if 94 \<le> c \<and> c \<le> 122 then cst 21
            else CErr)
          else cst 21)
        else cst 21)
     else if s = 35 then (if c = 10 then client_tr60
        else if c = 13 then client_tr61
        else if c = 32 then client_tr59
        else if c = 67 \<or> c = 99 then client_tr62
        else if 9 \<le> c \<and> c \<le> 12 then client_tr59
        else client_tr40)
     else CErr)"

definition client_case_36 :: "nat \<Rightarrow> int \<Rightarrow> client_target" where
  "client_case_36 s c =
    (if s = 36 then (if c = 10 then client_tr64
        else if c = 13 then cst 89
        else if c = 32 then cst 37
        else if c = 33 \<or> c = 124 \<or> c = 126 then client_tr35
        else if c = 67 \<or> c = 99 then client_tr66
        else if c = 84 \<or> c = 116 then client_tr37
        else if c < 45 then (if c < 35 then (if 9 \<le> c \<and> c \<le> 12 then cst 37
            else CErr)
          else if c > 39 then (if 42 \<le> c \<and> c \<le> 43 then client_tr35
            else CErr)
          else client_tr35)
        else if c > 46 then (if c < 65 then (if 48 \<le> c \<and> c \<le> 57 then client_tr35
            else CErr)
          else if c > 90 then (if 94 \<le> c \<and> c \<le> 122 then client_tr35
            else CErr)
          else client_tr35)
        else client_tr35)
     else if s = 37 then (if c = 32 then cst 37
        else if c = 67 \<or> c = 99 then cst 38
        else if 9 \<le> c \<and> c \<le> 13 then cst 37
        else CErr)
     else if s = 38 then (if c = 76 \<or> c = 108 then cst 39
        else CErr)
     else if s = 39 then (if c = 79 \<or> c = 111 then cst 40
        else CErr)
     else if s = 40 then (if c = 83 \<or> c = 115 then cst 41
        else CErr)
     else if s = 41 then (if c = 69 \<or> c = 101 then cst 42
        else CErr)
     else if s = 42 then (if c = 10 then cst 43
        else if c = 13 then cst 88
        else CErr)
     else if s = 43 then (if c = 10 then client_tr74
        else if c = 13 then client_tr75
        else if c = 33 \<or> c = 124 \<or> c = 126 then client_tr76
        else if c = 67 \<or> c = 99 then client_tr77
        else if c = 84 \<or> c = 116 then client_tr78
        else if c < 45 then (if c > 39 then (if 42 \<le> c \<and> c \<le> 43 then client_tr76
            else CErr)
          else if c \<ge> 35 then client_tr76
          else CErr)
        else if c > 46 then (if c < 65 then (if 48 \<le> c \<and> c \<le> 57 then client_tr76
            else CErr)
          else if c > 90 then (if 94 \<le> c \<and> c \<le> 122 then client_tr76
            else CErr)
          else client_tr76)
        else client_tr76)
     else CErr)"

definition client_case_44 :: "nat \<Rightarrow> int \<Rightarrow> client_target" where
  "client_case_44 s c =
    (if s = 44 then (if c = 33 \<or> c = 124 \<or> c = 126 then cst 21
        else if c = 58 then client_tr39
        else if c = 82 \<or> c = 114 then cst 45
        else if c < 45 then (if c > 39 then (if 42 \<le> c \<and> c \<le> 43 then cst 21
            else CErr)
          else if c \<ge> 35 then cst 21
          else CErr)
        else if c > 46 then (if c < 65 then (if 48 \<le> c \<and> c \<le> 57 then cst 21
            else CErr)
          else if c > 90 then (if 94 \<le> c \<and> c \<le> 122 then cst 21
            else CErr)
          else cst 21)
        else cst 21)
     else if s = 45 then (if c = 33 \<or> c = 124 \<or> c = 126 then cst 21
        else if c = 58 then client_tr39
        else if c = 65 \<or> c = 97 then cst 46
        else if c < 45 then (if c > 39 then (if 42 \<le> c \<and> c \<le> 43 then cst 21
            else CErr)
          else if c \<ge> 35 then cst 21
          else CErr)
        else if c > 46 then (if c < 66 then (if 48 \<le> c \<and> c \<le> 57 then cst 21
            else CErr)
          else if c > 90 then (if 94 \<le> c \<and> c \<le> 122 then cst 21
            else CErr)
          else cst 21)
        else cst 21)
     else if s = 46 then (if c = 33 \<or> c = 124 \<or> c = 126 then cst 21
        else if c = 58 then client_tr39
        else if c = 78 \<or> c = 110 then cst 47
        else if c < 45 then (if c > 39 then (if 42 \<le> c \<and> c \<le> 43 then cst 21
            else CErr)
          else if c \<ge> 35 then cst 21
          else CErr)
        else if c > 46 then (if c < 65 then (if 48 \<le> c \<and> c \<le> 57 then cst 21
            else CErr)
          else if c > 90 then (if 94 \<le> c \<and> c \<le> 122 then cst 21
            else CErr)
          else cst 21)
        else cst 21)
     else if s = 47 then (if c = 33 \<or> c = 124 \<or> c = 126 then cst 21
        else if c = 58 then client_tr39
        else if c = 83 \<or> c = 115 then cst 48
        else if c < 45 then (if c > 39 then (if 42 \<le> c \<and> c \<le> 43 then cst 21
            else CErr)
          else if c \<ge> 35 then cst 21
          else CErr)
        else if c > 46 then (if c < 65 then (if 48 \<le> c \<and> c \<le> 57 then cst 21
            else CErr)
          else if c > 90 then (if 94 \<le> c \<and> c \<le> 122 then cst 21
            else CErr)
          else cst 21)
        else cst 21)
     else if s = 48 then (if c = 33 \<or> c = 124 \<or> c = 126 then cst 21
        else if c = 58 then client_tr39
        else if c = 70 \<or> c = 102 then cst 49
        else if c < 45 then (if c > 39 then (if 42 \<le> c \<and> c \<le> 43 then cst 21
            else CErr)
          else if c \<ge> 35 then cst 21
          else CErr)
        else if c > 46 then (if c < 65 then (if 48 \<le> c \<and> c \<le> 57 then cst 21
            else CErr)
          else if c > 90 then (if 94 \<le> c \<and> c \<le> 122 then cst 21
            else CErr)
          else cst 21)
        else cst 21)
     else CErr)"

definition client_case_49 :: "nat \<Rightarrow> int \<Rightarrow> client_target" where
  "client_case_49 s c =
    (if s = 49 then (if c = 33 \<or> c = 124 \<or> c = 126 then cst 21
        else if c = 58 then client_tr39
        else if c = 69 \<or> c = 101 then cst 50
        else if c < 45 then (if c > 39 then (if 42 \<le> c \<and> c \<le> 43 then cst 21
            else CErr)
          else if c \<ge> 35 then cst 21
          else CErr)
        else if c > 46 then (if c < 65 then (if 48 \<le> c \<and> c \<le> 57 then cst 21
            else CErr)
          else if c > 90 then (if 94 \<le> c \<and> c \<le> 122 then cst 21
            else CErr)
          else cst 21)
        else cst 21)
     else if s = 50 then (if c = 33 \<or> c = 124 \<or> c = 126 then cst 21
        else if c = 58 then client_tr39
        else if c = 82 \<or> c = 114 then cst 51
        else if c < 45 then (if c > 39 then (if 42 \<le> c \<and> c \<le> 43 then cst 21
            else CErr)
          else if c \<ge> 35 then cst 21
          else CErr)
        else if c > 46 then (if c < 65 then (if 48 \<le> c \<and> c \<le> 57 then cst 21
            else CErr)
          else if c > 90 then (if 94 \<le> c \<and> c \<le> 122 then cst 21
            else CErr)
          else cst 21)
        else cst 21)
     else if s = 51 then (if c = 33 \<or> c = 46 \<or> c = 124 \<or> c = 126 then cst 21
        else if c = 45 then cst 52
        else if c = 58 then client_tr39
        else if c < 48 then (if c > 39 then (if 42 \<le> c \<and> c \<le> 43 then cst 21
            else CErr)
          else if c \<ge> 35 then cst 21
          else CErr)
        else if c > 57 then (if c > 90 then (if 94 \<le> c \<and> c \<le> 122 then cst 21
            else CErr)
          else if c \<ge> 65 then cst 21
          else CErr)
        else cst 21)
     else if s = 52 then (if c = 33 \<or> c = 124 \<or> c = 126 then cst 21
        else if c = 58 then client_tr39
        else if c = 69 \<or> c = 101 then cst 53
        else if c < 45 then (if c > 39 then (if 42 \<le> c \<and> c \<le> 43 then cst 21
            else CErr)
          else if c \<ge> 35 then cst 21
          else CErr)
        else if c > 46 then (if c < 65 then (if 48 \<le> c \<and> c \<le> 57 then cst 21
            else CErr)
          else if c > 90 then (if 94 \<le> c \<and> c \<le> 122 then cst 21
            else CErr)
          else cst 21)
        else cst 21)
     else if s = 53 then (if c = 33 \<or> c = 124 \<or> c = 126 then cst 21
        else if c = 58 then client_tr39
        else if c = 78 \<or> c = 110 then cst 54
        else if c < 45 then (if c > 39 then (if 42 \<le> c \<and> c \<le> 43 then cst 21
            else CErr)
          else if c \<ge> 35 then cst 21
          else CErr)
        else if c > 46 then (if c < 65 then (if 48 \<le> c \<and> c \<le> 57 then cst 21
            else CErr)
          else if c > 90 then (if 94 \<le> c \<and> c \<le> 122 then cst 21
            else CErr)
          else cst 21)
        else cst 21)
     else CErr)"

definition client_case_54 :: "nat \<Rightarrow> int \<Rightarrow> client_target" where
  "client_case_54 s c =
    (if s = 54 then (if c = 33 \<or> c = 124 \<or> c = 126 then cst 21
        else if c = 58 then client_tr39
        else if c = 67 \<or> c = 99 then cst 55
        else if c < 45 then (if c > 39 then (if 42 \<le> c \<and> c \<le> 43 then cst 21
            else CErr)
          else if c \<ge> 35 then cst 21
          else CErr)
        else if c > 46 then (if c < 65 then (if 48 \<le> c \<and> c \<le> 57 then cst 21
            else CErr)
          else if c > 90 then (if 94 \<le> c \<and> c \<le> 122 then cst 21
            else CErr)
          else cst 21)
        else cst 21)
     else if s = 55 then (if c = 33 \<or> c = 124 \<or> c = 126 then cst 21
        else if c = 58 then client_tr39
        else if c = 79 \<or> c = 111 then cst 56
        else if c < 45 then (if c > 39 then (if 42 \<le> c \<and> c \<le> 43 then cst 21
            else CErr)
          else if c \<ge> 35 then cst 21
          else CErr)
        else if c > 46 then (if c < 65 then (if 48 \<le> c \<and> c \<le> 57 then cst 21
            else CErr)
          else if c > 90 then (if 94 \<le> c \<and> c \<le> 122 then cst 21
            else CErr)
          else cst 21)
        else cst 21)
     else if s = 56 then (if c = 33 \<or> c = 124 \<or> c = 126 then cst 21
        else if c = 58 then client_tr39
        else if c = 68 \<or> c = 100 then cst 57
        else if c < 45 then (if c > 39 then (if 42 \<le> c \<and> c \<le> 43 then cst 21
            else CErr)
          else if c \<ge> 35 then cst 21
          else CErr)
        else if c > 46 then (if c < 65 then (if 48 \<le> c \<and> c \<le> 57 then cst 21
            else CErr)
          else if c > 90 then (if 94 \<le> c \<and> c \<le> 122 then cst 21
            else CErr)
          else cst 21)
        else cst 21)
     else if s = 57 then (if c = 33 \<or> c = 124 \<or> c = 126 then cst 21
        else if c = 58 then client_tr39
        else if c = 73 \<or> c = 105 then cst 58
        else if c < 45 then (if c > 39 then (if 42 \<le> c \<and> c \<le> 43 then cst 21
            else CErr)
          else if c \<ge> 35 then cst 21
          else CErr)
        else if c > 46 then (if c < 65 then (if 48 \<le> c \<and> c \<le> 57 then cst 21
            else CErr)
          else if c > 90 then (if 94 \<le> c \<and> c \<le> 122 then cst 21
            else CErr)
          else cst 21)
        else cst 21)
     else if s = 58 then (if c = 33 \<or> c = 124 \<or> c = 126 then cst 21
        else if c = 58 then client_tr39
        else if c = 78 \<or> c = 110 then cst 59
        else if c < 45 then (if c > 39 then (if 42 \<le> c \<and> c \<le> 43 then cst 21
            else CErr)
          else if c \<ge> 35 then cst 21
          else CErr)
        else if c > 46 then (if c < 65 then (if 48 \<le> c \<and> c \<le> 57 then cst 21
            else CErr)
          else if c > 90 then (if 94 \<le> c \<and> c \<le> 122 then cst 21
            else CErr)
          else cst 21)
        else cst 21)
     else CErr)"

definition client_case_59 :: "nat \<Rightarrow> int \<Rightarrow> client_target" where
  "client_case_59 s c =
    (if s = 59 then (if c = 33 \<or> c = 124 \<or> c = 126 then cst 21
        else if c = 58 then client_tr39
        else if c = 71 \<or> c = 103 then cst 60
        else if c < 45 then (if c > 39 then (if 42 \<le> c \<and> c \<le> 43 then cst 21
            else CErr)
          else if c \<ge> 35 then cst 21
          else CErr)
        else if c > 46 then (if c < 65 then (if 48 \<le> c \<and> c \<le> 57 then cst 21
            else CErr)
          else if c > 90 then (if 94 \<le> c \<and> c \<le> 122 then cst 21
            else CErr)
          else cst 21)
        else cst 21)
     else if s = 60 then (if c = 33 \<or> c = 124 \<or> c = 126 then cst 21
        else if c = 58 then client_tr95
        else if c < 45 then (if c > 39 then (if 42 \<le> c \<and> c \<le> 43 then cst 21
            else CErr)
          else if c \<ge> 35 then cst 21
          else CErr)
        else if c > 46 then (if c < 65 then (if 48 \<le> c \<and> c \<le> 57 then cst 21
            else CErr)
          else if c > 90 then (if 94 \<le> c \<and> c \<le> 122 then cst 21
            else CErr)
          else cst 21)
        else cst 21)
     else if s = 61 then (if c = 10 then client_tr97
        else if c = 13 then client_tr98
        else if c = 32 then client_tr96
        else if c = 67 \<or> c = 99 then client_tr99
        else if 9 \<le> c \<and> c \<le> 12 then client_tr96
        else client_tr40)
     else if s = 62 then (if c = 10 then client_tr101
        else if c = 13 then cst 72
        else if c = 32 then cst 63
        else if c = 33 \<or> c = 124 \<or> c = 126 then client_tr35
        else if c = 67 \<or> c = 99 then client_tr103
        else if c = 84 \<or> c = 116 then client_tr37
        else if c < 45 then (if c < 35 then (if 9 \<le> c \<and> c \<le> 12 then cst 63
            else CErr)
          else if c > 39 then (if 42 \<le> c \<and> c \<le> 43 then client_tr35
            else CErr)
          else client_tr35)
        else if c > 46 then (if c < 65 then (if 48 \<le> c \<and> c \<le> 57 then client_tr35
            else CErr)
          else if c > 90 then (if 94 \<le> c \<and> c \<le> 122 then client_tr35
            else CErr)
          else client_tr35)
        else client_tr35)
     else if s = 63 then (if c = 32 then cst 63
        else if c = 67 \<or> c = 99 then client_tr104
        else if 9 \<le> c \<and> c \<le> 13 then cst 63
        else CErr)
     else CErr)"

definition client_case_64 :: "nat \<Rightarrow> int \<Rightarrow> client_target" where
  "client_case_64 s c =
    (if s = 64 then (if c = 72 \<or> c = 104 then cst 65
        else CErr)
     else if s = 65 then (if c = 85 \<or> c = 117 then cst 66
        else CErr)
     else if s = 66 then (if c = 78 \<or> c = 110 then cst 67
        else CErr)
     else if s = 67 then (if c = 75 \<or> c = 107 then cst 68
        else CErr)
     else if s = 68 then (if c = 69 \<or> c = 101 then cst 69
        else CErr)
     else if s = 69 then (if c = 68 \<or> c = 100 then cst 70
        else CErr)
     else if s = 70 then (if c = 10 then client_tr111
        else if c = 13 then client_tr112
        else CErr)
     else if s = 71 then (if c = 10 then client_tr113
        else CErr)
     else if s = 121 then (if c = 32 then cst 63
        else if c = 67 \<or> c = 99 then client_tr104
        else if 9 \<le> c \<and> c \<le> 13 then cst 63
        else CErr)
     else if s = 72 then (if c = 10 then client_tr101
        else if c = 32 then cst 63
        else if c = 67 \<or> c = 99 then client_tr104
        else if 9 \<le> c \<and> c \<le> 13 then cst 63
        else CErr)
     else CErr)"

definition client_case_73 :: "nat \<Rightarrow> int \<Rightarrow> client_target" where
  "client_case_73 s c =
    (if s = 73 then (if c = 33 \<or> c = 124 \<or> c = 126 then cst 21
        else if c = 58 then client_tr39
        else if c = 72 \<or> c = 104 then cst 74
        else if c = 79 \<or> c = 111 then cst 26
        else if c < 45 then (if c > 39 then (if 42 \<le> c \<and> c \<le> 43 then cst 21
            else CErr)
          else if c \<ge> 35 then cst 21
          else CErr)
        else if c > 46 then (if c < 65 then (if 48 \<le> c \<and> c \<le> 57 then cst 21
            else CErr)
          else if c > 90 then (if 94 \<le> c \<and> c \<le> 122 then cst 21
            else CErr)
          else cst 21)
        else cst 21)
     else if s = 74 then (if c = 33 \<or> c = 124 \<or> c = 126 then cst 21
        else if c = 58 then client_tr39
        else if c = 85 \<or> c = 117 then cst 75
        else if c < 45 then (if c > 39 then (if 42 \<le> c \<and> c \<le> 43 then cst 21
            else CErr)
          else if c \<ge> 35 then cst 21
          else CErr)
        else if c > 46 then (if c < 65 then (if 48 \<le> c \<and> c \<le> 57 then cst 21
            else CErr)
          else if c > 90 then (if 94 \<le> c \<and> c \<le> 122 then cst 21
            else CErr)
          else cst 21)
        else cst 21)
     else if s = 75 then (if c = 33 \<or> c = 124 \<or> c = 126 then cst 21
        else if c = 58 then client_tr39
        else if c = 78 \<or> c = 110 then cst 76
        else if c < 45 then (if c > 39 then (if 42 \<le> c \<and> c \<le> 43 then cst 21
            else CErr)
          else if c \<ge> 35 then cst 21
          else CErr)
        else if c > 46 then (if c < 65 then (if 48 \<le> c \<and> c \<le> 57 then cst 21
            else CErr)
          else if c > 90 then (if 94 \<le> c \<and> c \<le> 122 then cst 21
            else CErr)
          else cst 21)
        else cst 21)
     else if s = 76 then (if c = 33 \<or> c = 124 \<or> c = 126 then cst 21
        else if c = 58 then client_tr39
        else if c = 75 \<or> c = 107 then cst 77
        else if c < 45 then (if c > 39 then (if 42 \<le> c \<and> c \<le> 43 then cst 21
            else CErr)
          else if c \<ge> 35 then cst 21
          else CErr)
        else if c > 46 then (if c < 65 then (if 48 \<le> c \<and> c \<le> 57 then cst 21
            else CErr)
          else if c > 90 then (if 94 \<le> c \<and> c \<le> 122 then cst 21
            else CErr)
          else cst 21)
        else cst 21)
     else CErr)"

definition client_case_77 :: "nat \<Rightarrow> int \<Rightarrow> client_target" where
  "client_case_77 s c =
    (if s = 77 then (if c = 33 \<or> c = 124 \<or> c = 126 then cst 21
        else if c = 58 then client_tr39
        else if c = 69 \<or> c = 101 then cst 78
        else if c < 45 then (if c > 39 then (if 42 \<le> c \<and> c \<le> 43 then cst 21
            else CErr)
          else if c \<ge> 35 then cst 21
          else CErr)
        else if c > 46 then (if c < 65 then (if 48 \<le> c \<and> c \<le> 57 then cst 21
            else CErr)
          else if c > 90 then (if 94 \<le> c \<and> c \<le> 122 then cst 21
            else CErr)
          else cst 21)
        else cst 21)
     else if s = 78 then (if c = 33 \<or> c = 124 \<or> c = 126 then cst 21
        else if c = 58 then client_tr39
        else if c = 68 \<or> c = 100 then cst 79
        else if c < 45 then (if c > 39 then (if 42 \<le> c \<and> c \<le> 43 then cst 21
            else CErr)
          else if c \<ge> 35 then cst 21
          else CErr)
        else if c > 46 then (if c < 65 then (if 48 \<le> c \<and> c \<le> 57 then cst 21
            else CErr)
          else if c > 90 then (if 94 \<le> c \<and> c \<le> 122 then cst 21
            else CErr)
          else cst 21)
        else cst 21)
     else if s = 79 then (if c = 10 then client_tr111
        else if c = 13 then client_tr112
        else if c = 33 \<or> c = 124 \<or> c = 126 then cst 21
        else if c = 58 then client_tr39
        else if c < 45 then (if c > 39 then (if 42 \<le> c \<and> c \<le> 43 then cst 21
            else CErr)
          else if c \<ge> 35 then cst 21
          else CErr)
        else if c > 46 then (if c < 65 then (if 48 \<le> c \<and> c \<le> 57 then cst 21
            else CErr)
          else if c > 90 then (if 94 \<le> c \<and> c \<le> 122 then cst 21
            else CErr)
          else cst 21)
        else cst 21)
     else if s = 80 then (if c = 10 then cst 62
        else if c = 32 then cst 63
        else if c = 67 \<or> c = 99 then client_tr104
        else if 9 \<le> c \<and> c \<le> 13 then cst 63
        else CErr)
     else if s = 81 then (if c = 10 then client_tr45
        else if c = 13 then client_tr46
        else if c = 72 \<or> c = 104 then cst 82
        else cst 23)
     else if s = 82 then (if c = 10 then client_tr45
        else if c = 13 then client_tr46
        else if c = 85 \<or> c = 117 then cst 83
        else cst 23)
     else if s = 83 then (if c = 10 then client_tr45
        else if c = 13 then client_tr46
        else if c = 78 \<or> c = 110 then cst 84
        else cst 23)
     else CErr)"

definition client_case_84 :: "nat \<Rightarrow> int \<Rightarrow> client_target" where
  "client_case_84 s c =
    (if s = 84 then (if c = 10 then client_tr45
        else if c = 13 then client_tr46
        else if c = 75 \<or> c = 107 then cst 85
        else cst 23)
     else if s = 85 then (if c = 10 then client_tr45
        else if c = 13 then client_tr46
        else if c = 69 \<or> c = 101 then cst 86
        else cst 23)
     else if s = 86 then (if c = 10 then client_tr45
        else if c = 13 then client_tr46
        else if c = 68 \<or> c = 100 then cst 87
        else cst 23)
     else if s = 87 then (if c = 10 then client_tr111
        else if c = 13 then client_tr112
        else cst 23)
     else if s = 88 then (if c = 10 then cst 43
        else CErr)
     else if s = 122 then (if c = 32 then cst 37
        else if c = 67 \<or> c = 99 then cst 38
        else if 9 \<le> c \<and> c \<le> 13 then cst 37
        else CErr)
     else if s = 89 then (if c = 10 then client_tr64
        else if c = 32 then cst 37
        else if c = 67 \<or> c = 99 then cst 38
        else if 9 \<le> c \<and> c \<le> 13 then cst 37
        else CErr)
     else if s = 90 then (if c = 33 \<or> c = 124 \<or> c = 126 then cst 21
        else if c = 58 then client_tr39
        else if c = 76 \<or> c = 108 then cst 91
        else if c = 79 \<or> c = 111 then cst 26
        else if c < 45 then (if c > 39 then (if 42 \<le> c \<and> c \<le> 43 then cst 21
            else CErr)
          else if c \<ge> 35 then cst 21
          else CErr)
        else if c > 46 then (if c < 65 then (if 48 \<le> c \<and> c \<le> 57 then cst 21
            else CErr)
          else if c > 90 then (if 94 \<le> c \<and> c \<le> 122 then cst 21
            else CErr)
          else cst 21)
        else cst 21)
     else CErr)"

definition client_case_91 :: "nat \<Rightarrow> int \<Rightarrow> client_target" where
  "client_case_91 s c =
    (if s = 91 then (if c = 33 \<or> c = 124 \<or> c = 126 then cst 21
        else if c = 58 then client_tr39
        else if c = 79 \<or> c = 111 then cst 92
        else if c < 45 then (if c > 39 then (if 42 \<le> c \<and> c \<le> 43 then cst 21
            else CErr)
          else if c \<ge> 35 then cst 21
          else CErr)
        else if c > 46 then (if c < 65 then (if 48 \<le> c \<and> c \<le> 57 then cst 21
            else CErr)
          else if c > 90 then (if 94 \<le> c \<and> c \<le> 122 then cst 21
            else CErr)
          else cst 21)
        else cst 21)
     else if s = 92 then (if c = 33 \<or> c = 124 \<or> c = 126 then cst 21
        else if c = 58 then client_tr39
        else if c = 83 \<or> c = 115 then cst 93
        else if c < 45 then (if c > 39 then (if 42 \<le> c \<and> c \<le> 43 then cst 21
            else CErr)
          else if c \<ge> 35 then cst 21
          else CErr)
        else if c > 46 then (if c < 65 then (if 48 \<le> c \<and> c \<le> 57 then cst 21
            else CErr)
          else if c > 90 then (if 94 \<le> c \<and> c \<le> 122 then cst 21
            else CErr)
          else cst 21)
        else cst 21)
     else if s = 93 then (if c = 33 \<or> c = 124 \<or> c = 126 then cst 21
        else if c = 58 then client_tr39
        else if c = 69 \<or> c = 101 then cst 94
        else if c < 45 then (if c > 39 then (if 42 \<le> c \<and> c \<le> 43 then cst 21
            else CErr)
          else if c \<ge> 35 then cst 21
          else CErr)
        else if c > 46 then (if c < 65 then (if 48 \<le> c \<and> c \<le> 57 then cst 21
            else CErr)
          else if c > 90 then (if 94 \<le> c \<and> c \<le> 122 then cst 21
            else CErr)
          else cst 21)
        else cst 21)
     else if s = 94 then (if c = 10 then cst 43
        else if c = 13 then cst 88
        else if c = 33 \<or> c = 124 \<or> c = 126 then cst 21
        else if c = 58 then client_tr39
        else if c < 45 then (if c > 39 then (if 42 \<le> c \<and> c \<le> 43 then cst 21
            else CErr)
          else if c \<ge> 35 then cst 21
          else CErr)
        else if c > 46 then (if c < 65 then (if 48 \<le> c \<and> c \<le> 57 then cst 21
            else CErr)
          else if c > 90 then (if 94 \<le> c \<and> c \<le> 122 then cst 21
            else CErr)
          else cst 21)
        else cst 21)
     else if s = 95 then (if c = 10 then cst 36
        else if c = 32 then cst 37
        else if c = 67 \<or> c = 99 then cst 38
        else if 9 \<le> c \<and> c \<le> 13 then cst 37
        else CErr)
     else CErr)"

definition client_case_96 :: "nat \<Rightarrow> int \<Rightarrow> client_target" where
  "client_case_96 s c =
    (if s = 96 then (if c = 10 then client_tr45
        else if c = 13 then client_tr46
        else if c = 76 \<or> c = 108 then cst 97
        else cst 23)
     else if s = 97 then (if c = 10 then client_tr45
        else if c = 13 then client_tr46
        else if c = 79 \<or> c = 111 then cst 98
        else cst 23)
     else if s = 98 then (if c = 10 then client_tr45
        else if c = 13 then client_tr46
        else if c = 83 \<or> c = 115 then cst 99
        else cst 23)
     else if s = 99 then (if c = 10 then client_tr45
        else if c = 13 then client_tr46
        else if c = 69 \<or> c = 101 then cst 100
        else cst 23)
     else if s = 100 then (if c = 10 then client_tr136
        else if c = 13 then client_tr137
        else cst 23)
     else if s = 101 then (if c = 33 \<or> c = 124 \<or> c = 126 then cst 21
        else if c = 58 then client_tr39
        else if c = 69 \<or> c = 101 then cst 102
        else if c < 45 then (if c > 39 then (if 42 \<le> c \<and> c \<le> 43 then cst 21
            else CErr)
          else if c \<ge> 35 then cst 21
          else CErr)
        else if c > 46 then (if c < 65 then (if 48 \<le> c \<and> c \<le> 57 then cst 21
            else CErr)
          else if c > 90 then (if 94 \<le> c \<and> c \<le> 122 then cst 21
            else CErr)
          else cst 21)
        else cst 21)
     else if s = 102 then (if c = 33 \<or> c = 124 \<or> c = 126 then cst 21
        else if c = 58 then client_tr39
        else if c = 78 \<or> c = 110 then cst 103
        else if c < 45 then (if c > 39 then (if 42 \<le> c \<and> c \<le> 43 then cst 21
            else CErr)
          else if c \<ge> 35 then cst 21
          else CErr)
        else if c > 46 then (if c < 65 then (if 48 \<le> c \<and> c \<le> 57 then cst 21
            else CErr)
          else if c > 90 then (if 94 \<le> c \<and> c \<le> 122 then cst 21
            else CErr)
          else cst 21)
        else cst 21)
     else if s = 103 then (if c = 33 \<or> c = 124 \<or> c = 126 then cst 21
        else if c = 58 then client_tr39
        else if c = 84 \<or> c = 116 then cst 104
        else if c < 45 then (if c > 39 then (if 42 \<le> c \<and> c \<le> 43 then cst 21
            else CErr)
          else if c \<ge> 35 then cst 21
          else CErr)
        else if c > 46 then (if c < 65 then (if 48 \<le> c \<and> c \<le> 57 then cst 21
            else CErr)
          else if c > 90 then (if 94 \<le> c \<and> c \<le> 122 then cst 21
            else CErr)
          else cst 21)
        else cst 21)
     else CErr)"

definition client_case_104 :: "nat \<Rightarrow> int \<Rightarrow> client_target" where
  "client_case_104 s c =
    (if s = 104 then (if c = 33 \<or> c = 46 \<or> c = 124 \<or> c = 126 then cst 21
        else if c = 45 then cst 105
        else if c = 58 then client_tr39
        else if c < 48 then (if c > 39 then (if 42 \<le> c \<and> c \<le> 43 then cst 21
            else CErr)
          else if c \<ge> 35 then cst 21
          else CErr)
        else if c > 57 then (if c > 90 then (if 94 \<le> c \<and> c \<le> 122 then cst 21
            else CErr)
          else if c \<ge> 65 then cst 21
          else CErr)
        else cst 21)
     else if s = 105 then (if c = 33 \<or> c = 124 \<or> c = 126 then cst 21
        else if c = 58 then client_tr39
        else if c = 76 \<or> c = 108 then cst 106
        else if c < 45 then (if c > 39 then (if 42 \<le> c \<and> c \<le> 43 then cst 21
            else CErr)
          else if c \<ge> 35 then cst 21
          else CErr)
        else if c > 46 then (if c < 65 then (if 48 \<le> c \<and> c \<le> 57 then cst 21
            else CErr)
          else if c > 90 then (if 94 \<le> c \<and> c \<le> 122 then cst 21
            else CErr)
          else cst 21)
        else cst 21)
     else if s = 106 then (if c = 33 \<or> c = 124 \<or> c = 126 then cst 21
        else if c = 58 then client_tr39
        else if c = 69 \<or> c = 101 then cst 107
        else if c < 45 then (if c > 39 then (if 42 \<le> c \<and> c \<le> 43 then cst 21
            else CErr)
          else if c \<ge> 35 then cst 21
          else CErr)
        else if c > 46 then (if c < 65 then (if 48 \<le> c \<and> c \<le> 57 then cst 21
            else CErr)
          else if c > 90 then (if 94 \<le> c \<and> c \<le> 122 then cst 21
            else CErr)
          else cst 21)
        else cst 21)
     else if s = 107 then (if c = 33 \<or> c = 124 \<or> c = 126 then cst 21
        else if c = 58 then client_tr39
        else if c = 78 \<or> c = 110 then cst 108
        else if c < 45 then (if c > 39 then (if 42 \<le> c \<and> c \<le> 43 then cst 21
            else CErr)
          else if c \<ge> 35 then cst 21
          else CErr)
        else if c > 46 then (if c < 65 then (if 48 \<le> c \<and> c \<le> 57 then cst 21
            else CErr)
          else if c > 90 then (if 94 \<le> c \<and> c \<le> 122 then cst 21
            else CErr)
          else cst 21)
        else cst 21)
     else if s = 108 then (if c = 33 \<or> c = 124 \<or> c = 126 then cst 21
        else if c = 58 then client_tr39
        else if c = 71 \<or> c = 103 then cst 109
        else if c < 45 then (if c > 39 then (if 42 \<le> c \<and> c \<le> 43 then cst 21
            else CErr)
          else if c \<ge> 35 then cst 21
          else CErr)
        else if c > 46 then (if c < 65 then (if 48 \<le> c \<and> c \<le> 57 then cst 21
            else CErr)
          else if c > 90 then (if 94 \<le> c \<and> c \<le> 122 then cst 21
            else CErr)
          else cst 21)
        else cst 21)
     else CErr)"

definition client_case_109 :: "nat \<Rightarrow> int \<Rightarrow> client_target" where
  "client_case_109 s c =
    (if s = 109 then (if c = 33 \<or> c = 124 \<or> c = 126 then cst 21
        else if c = 58 then client_tr39
        else if c = 84 \<or> c = 116 then cst 110
        else if c < 45 then (if c > 39 then (if 42 \<le> c \<and> c \<le> 43 then cst 21
            else CErr)
          else if c \<ge> 35 then cst 21
          else CErr)
        else if c > 46 then (if c < 65 then (if 48 \<le> c \<and> c \<le> 57 then cst 21
            else CErr)
          else if c > 90 then (if 94 \<le> c \<and> c \<le> 122 then cst 21
            else CErr)
          else cst 21)
        else cst 21)
     else if s = 110 then (if c = 33 \<or> c = 124 \<or> c = 126 then cst 21
        else if c = 58 then client_tr39
        else if c = 72 \<or> c = 104 then cst 111
        else if c < 45 then (if c > 39 then (if 42 \<le> c \<and> c \<le> 43 then cst 21
            else CErr)
          else if c \<ge> 35 then cst 21
          else CErr)
        else if c > 46 then (if c < 65 then (if 48 \<le> c \<and> c \<le> 57 then cst 21
            else CErr)
          else if c > 90 then (if 94 \<le> c \<and> c \<le> 122 then cst 21
            else CErr)
          else cst 21)
        else cst 21)
     else if s = 111 then (if c = 33 \<or> c = 124 \<or> c = 126 then cst 21
        else if c = 58 then client_tr148
        else if c < 45 then (if c > 39 then (if 42 \<le> c \<and> c \<le> 43 then cst 21
            else CErr)
          else if c \<ge> 35 then cst 21
          else CErr)
        else if c > 46 then (if c < 65 then (if 48 \<le> c \<and> c \<le> 57 then cst 21
            else CErr)
          else if c > 90 then (if 94 \<le> c \<and> c \<le> 122 then cst 21
            else CErr)
          else cst 21)
        else cst 21)
     else if s = 112 then (if c = 10 then client_tr150
        else if c = 13 then client_tr151
        else if c = 32 then client_tr149
        else if c > 12 then (if 48 \<le> c \<and> c \<le> 57 then client_tr152
          else client_tr40)
        else if c \<ge> 9 then client_tr149
        else client_tr40)
     else CErr)"

definition client_case_113 :: "nat \<Rightarrow> int \<Rightarrow> client_target" where
  "client_case_113 s c =
    (if s = 113 then (if c = 10 then client_tr154
        else if c = 13 then cst 116
        else if c = 32 then cst 114
        else if c = 33 \<or> c = 124 \<or> c = 126 then client_tr35
        else if c = 67 \<or> c = 99 then client_tr36
        else if c = 84 \<or> c = 116 then client_tr37
        else if c < 45 then (if c < 35 then (if 9 \<le> c \<and> c \<le> 12 then cst 114
            else CErr)
          else if c > 39 then (if 42 \<le> c \<and> c \<le> 43 then client_tr35
            else CErr)
          else client_tr35)
        else if c > 46 then (if c < 65 then (if 48 \<le> c \<and> c \<le> 57 then client_tr156
            else CErr)
          else if c > 90 then (if 94 \<le> c \<and> c \<le> 122 then client_tr35
            else CErr)
          else client_tr35)
        else client_tr35)
     else if s = 114 then (if c = 32 then cst 114
        else if c > 13 then (if 48 \<le> c \<and> c \<le> 57 then client_tr157
          else CErr)
        else if c \<ge> 9 then cst 114
        else CErr)
     else if s = 115 then (if c = 10 then client_tr158
        else if c = 13 then client_tr159
        else if 48 \<le> c \<and> c \<le> 57 then cst 115
        else CErr)
     else if s = 123 then (if c = 32 then cst 114
        else if c > 13 then (if 48 \<le> c \<and> c \<le> 57 then client_tr157
          else CErr)
        else if c \<ge> 9 then cst 114
        else CErr)
     else if s = 116 then (if c = 10 then client_tr154
        else if c = 32 then cst 114
        else if c > 13 then (if 48 \<le> c \<and> c \<le> 57 then client_tr157
          else CErr)
        else if c \<ge> 9 then cst 114
        else CErr)
     else if s = 117 then (if c = 10 then client_tr158
        else if c = 13 then client_tr159
        else if c = 33 \<or> c = 124 \<or> c = 126 then cst 21
        else if c = 58 then client_tr39
        else if c < 45 then (if c > 39 then (if 42 \<le> c \<and> c \<le> 43 then cst 21
            else CErr)
          else if c \<ge> 35 then cst 21
          else CErr)
        else if c > 46 then (if c < 65 then (if 48 \<le> c \<and> c \<le> 57 then cst 117
            else CErr)
          else if c > 90 then (if 94 \<le> c \<and> c \<le> 122 then cst 21
            else CErr)
          else cst 21)
        else cst 21)
     else CErr)"

definition client_case_118 :: "nat \<Rightarrow> int \<Rightarrow> client_target" where
  "client_case_118 s c =
    (if s = 118 then (if c = 10 then cst 113
        else if c = 32 then cst 114
        else if c > 13 then (if 48 \<le> c \<and> c \<le> 57 then client_tr157
          else CErr)
        else if c \<ge> 9 then cst 114
        else CErr)
     else if s = 119 then (if c = 10 then client_tr158
        else if c = 13 then client_tr159
        else if 48 \<le> c \<and> c \<le> 57 then cst 119
        else cst 23)
     else CErr)"


text \<open>\<open>switch (cs)\<close>, for the states that have a case.\<close>

definition client_target_of :: "nat \<Rightarrow> int \<Rightarrow> client_target" where
  "client_target_of s c =
    (if s \<le> 2 \<or> s = 120 then client_case_1 s c
     else if s \<le> 6 then client_case_3 s c
     else if s \<le> 18 then client_case_7 s c
     else if s \<le> 21 then client_case_19 s c
     else if s \<le> 26 then client_case_22 s c
     else if s \<le> 31 then client_case_27 s c
     else if s \<le> 35 then client_case_32 s c
     else if s \<le> 43 then client_case_36 s c
     else if s \<le> 48 then client_case_44 s c
     else if s \<le> 53 then client_case_49 s c
     else if s \<le> 58 then client_case_54 s c
     else if s \<le> 63 then client_case_59 s c
     else if s \<le> 72 \<or> s = 121 then client_case_64 s c
     else if s \<le> 76 then client_case_73 s c
     else if s \<le> 83 then client_case_77 s c
     else if s \<le> 90 \<or> s = 122 then client_case_84 s c
     else if s \<le> 95 then client_case_91 s c
     else if s \<le> 103 then client_case_96 s c
     else if s \<le> 108 then client_case_104 s c
     else if s \<le> 112 then client_case_109 s c
     else if s \<le> 117 \<or> s = 123 then client_case_113 s c
     else client_case_118 s c)"

subsection \<open>Numbers in the text\<close>

text \<open>
  \<open>strtol\<close> on the bytes from a mark on: blanks, a sign, the optional \<open>0x\<close> of base 16, then the digits, in the
  range of \<open>long\<close>; the assignment to \<open>int\<close> keeps the low 32 bits.
\<close>

definition is_space :: "byte \<Rightarrow> bool" where
  "is_space b \<longleftrightarrow> b = 32 \<or> (9 \<le> b \<and> b \<le> 13)"

definition digit_val :: "byte \<Rightarrow> nat" where
  "digit_val b = (if 48 \<le> b \<and> b \<le> 57 then unat b - 48
     else if 97 \<le> b \<and> b \<le> 122 then unat b - 87
     else if 65 \<le> b \<and> b \<le> 90 then unat b - 55 else 36)"

fun strtol_digits :: "nat \<Rightarrow> nat \<Rightarrow> byte list \<Rightarrow> nat" where
  "strtol_digits base acc [] = acc"
| "strtol_digits base acc (b # bs) =
     (if digit_val b < base then strtol_digits base (acc * base + digit_val b) bs else acc)"

definition skip_0x :: "nat \<Rightarrow> byte list \<Rightarrow> byte list" where
  "skip_0x base bs = (case bs of
      a # b # c # rest \<Rightarrow> if base = 16 \<and> a = 48 \<and> (b = 120 \<or> b = 88) \<and> digit_val c < 16 then c # rest else bs
    | _ \<Rightarrow> bs)"

definition strtol :: "nat \<Rightarrow> byte list \<Rightarrow> int" where
  "strtol base bs =
     (let bs = dropWhile is_space bs;
          (neg, bs) = (case bs of b # rest \<Rightarrow> if b = 45 then (True, rest) else if b = 43 then (False, rest) else (False, bs)
                       | [] \<Rightarrow> (False, bs));
          v = int (strtol_digits base 0 (skip_0x base bs))
      in if neg then max (- v) (- (2 ^ 63)) else min v (2 ^ 63 - 1))"

subsection \<open>The parser\<close>

datatype client_callback =
    cl_http_field | cl_reason_phrase | cl_status_code | cl_chunk_size | cl_http_version | cl_header_done | cl_last_chunk

record httpclient_parser =
  cl_cs :: nat
  cl_body_start :: nat
  cl_content_len :: int
  cl_status :: int
  cl_chunked :: bool
  cl_chunks_done :: bool
  cl_close :: bool
  cl_nread :: nat
  cl_mark :: nat
  cl_field_start :: nat
  cl_field_len :: nat
  cl_installed :: "client_callback \<Rightarrow> bool"

datatype client_event =
    CElement client_callback nat nat
  | CField nat nat nat nat

definition httpclient_parser_init :: "httpclient_parser \<Rightarrow> httpclient_parser" where
  "httpclient_parser_init P = P\<lparr>cl_cs := httpclient_parser_start, cl_body_start := 0, cl_content_len := - 1,
     cl_chunked := False, cl_chunks_done := False, cl_mark := 0, cl_nread := 0, cl_field_len := 0,
     cl_field_start := 0, cl_close := False\<rparr>"

definition client_element :: "httpclient_parser \<Rightarrow> client_callback \<Rightarrow> nat \<Rightarrow> nat \<Rightarrow> client_event list" where
  "client_element P cb at len = (if cl_installed P cb then [CElement cb at len] else [])"

text \<open>One action at offset \<open>p\<close>; \<open>mem\<close> is the memory from the start of the buffer on, \<open>pe\<close> the length of the text in it.\<close>

definition client_perform :: "byte list \<Rightarrow> nat \<Rightarrow> nat \<Rightarrow> client_action \<Rightarrow> httpclient_parser \<Rightarrow> httpclient_parser \<times> client_event list" where
  "client_perform mem p pe act P =
     (let m = cl_mark P; len = sz_sub p (cl_mark P)
      in case act of
           CMark \<Rightarrow> (P\<lparr>cl_mark := p\<rparr>, [])
         | CStartField \<Rightarrow> (P\<lparr>cl_field_start := p\<rparr>, [])
         | CWriteField \<Rightarrow> (P\<lparr>cl_field_len := sz_sub p (cl_field_start P)\<rparr>, [])
         | CWriteValue \<Rightarrow> (P, if cl_installed P cl_http_field then [CField (cl_field_start P) (cl_field_len P) m len] else [])
         | CContentLen \<Rightarrow> (P\<lparr>cl_content_len := to_int (strtol 10 (drop m mem))\<rparr>, [])
         | CConnectionClose \<Rightarrow> (P\<lparr>cl_close := True\<rparr>, [])
         | CReasonPhrase \<Rightarrow> (P, client_element P cl_reason_phrase m len)
         | CStatusCode \<Rightarrow> (P\<lparr>cl_status := to_int (strtol 10 (drop m mem))\<rparr>, client_element P cl_status_code m len)
         | CHttpVersion \<Rightarrow> (P, client_element P cl_http_version m len)
         | CChunkSize \<Rightarrow>
             (let P = P\<lparr>cl_chunked := True, cl_content_len := to_int (strtol 16 (drop m mem))\<rparr>;
                  P = P\<lparr>cl_chunks_done := (cl_content_len P \<le> 0)\<rparr>
              in (P, if cl_chunks_done P \<and> cl_installed P cl_last_chunk then [CElement cl_last_chunk m len]
                     else client_element P cl_chunk_size m len))
         | CTransChunked \<Rightarrow> (P\<lparr>cl_chunked := True\<rparr>, [])
         | CDone \<Rightarrow> (P\<lparr>cl_body_start := p + 1\<rparr>, client_element P cl_header_done (p + 1) (pe - p - 1)))"

fun client_perform_all :: "byte list \<Rightarrow> nat \<Rightarrow> nat \<Rightarrow> client_action list \<Rightarrow> httpclient_parser \<Rightarrow> httpclient_parser \<times> client_event list" where
  "client_perform_all mem p pe [] P = (P, [])"
| "client_perform_all mem p pe (a # as) P =
     (let (P, evs) = client_perform mem p pe a P; (P, evs') = client_perform_all mem p pe as P
      in (P, evs @ evs'))"

fun client_exec_loop :: "byte list \<Rightarrow> nat \<Rightarrow> nat \<Rightarrow> nat \<Rightarrow> byte list \<Rightarrow> httpclient_parser \<Rightarrow> nat \<times> nat \<times> httpclient_parser \<times> client_event list" where
  "client_exec_loop mem pe s p [] P = (s, p, P, [])"
| "client_exec_loop mem pe s p (b # rest) P =
     (case client_target_of s (sint b) of
        CErr \<Rightarrow> (0, p, P, [])
      | CGo acts n \<Rightarrow>
          (let (P, evs) = client_perform_all mem p pe acts P;
               (s', p', P, evs') = client_exec_loop mem pe n (p + 1) rest P
           in (s', p', P, evs @ evs'))
      | CBreak acts n \<Rightarrow>
          (let (P, evs) = client_perform_all mem p pe acts P in (n, p + 1, P, evs)))"

text \<open>A \<open>cs\<close> without a case label, which 0 is, leaves the switch and runs into \<open>_test_eof2: cs = 2\<close>.\<close>

definition client_enter :: "byte list \<Rightarrow> nat \<Rightarrow> nat \<Rightarrow> nat \<Rightarrow> byte list \<Rightarrow> httpclient_parser \<Rightarrow> nat \<times> nat \<times> httpclient_parser \<times> client_event list" where
  "client_enter mem pe s p rest P =
     (if rest = [] then (s, p, P, [])
      else if 1 \<le> s \<and> s \<le> 123 then client_exec_loop mem pe s p rest P
      else (2, p, P, []))"

definition httpclient_parser_has_error :: "httpclient_parser \<Rightarrow> bool" where
  "httpclient_parser_has_error P \<longleftrightarrow> cl_cs P = httpclient_parser_error"

definition httpclient_parser_is_finished :: "httpclient_parser \<Rightarrow> bool" where
  "httpclient_parser_is_finished P \<longleftrightarrow> cl_cs P = httpclient_parser_first_final"

definition httpclient_parser_finish :: "httpclient_parser \<Rightarrow> int" where
  "httpclient_parser_finish P =
     (if httpclient_parser_has_error P then - 1 else if httpclient_parser_is_finished P then 1 else 0)"

text \<open>
  The text is the first \<open>len\<close> bytes of \<open>mem\<close>. The result is an \<open>int\<close>; \<open>check\<close> turns a mark outside the
  text into \<open>-1\<close>.
\<close>

definition httpclient_parser_execute :: "httpclient_parser \<Rightarrow> byte list \<Rightarrow> nat \<Rightarrow> nat \<Rightarrow> (int \<times> httpclient_parser \<times> client_event list) res" where
  "httpclient_parser_execute P mem len off =
     (let P = P\<lparr>cl_nread := 0, cl_mark := 0, cl_field_len := 0, cl_field_start := 0\<rparr>
      in if \<not> off \<le> len then Inl AssertFailed
         else if \<not> len < length mem then Inl HeapOverflow
         else if mem ! len \<noteq> 0 then Inl AssertFailed
         else if int len - int off \<noteq> to_int (to_int (int len) - to_int (int off)) then Inl AssertFailed
         else
           let (s, p, P, evs) = client_enter mem len (cl_cs P) off (drop off (take len mem)) P;
               P = P\<lparr>cl_cs := s, cl_nread := cl_nread P + (p - off)\<rparr>
           in if \<not> (p \<le> len \<and> cl_nread P \<le> len \<and> cl_body_start P \<le> len) then Inl AssertFailed
              else if cl_mark P < len \<and> cl_field_len P \<le> len \<and> cl_field_start P < len
                   then Inr (to_int (int (cl_nread P)), P, evs)
                   else Inr (- 1, P, evs))"

end
