(* ===== verification/HttpClientParser_Props.thy ===== *)
theory HttpClientParser_Props
  imports HttpClientParser
begin

section \<open>The response automaton: properties\<close>

text \<open>
  One walk over all case blocks gives the facts that hold on every edge; from them, by induction over the
  input, what every run guarantees. Chunk headers are parsed exactly; two inputs show where the automaton
  goes wrong.
\<close>

lemmas client_case_defs =
  client_case_1_def client_case_3_def client_case_7_def client_case_19_def client_case_22_def
  client_case_27_def client_case_32_def client_case_36_def client_case_44_def client_case_49_def
  client_case_54_def client_case_59_def client_case_64_def client_case_73_def client_case_77_def
  client_case_84_def client_case_91_def client_case_96_def client_case_104_def client_case_109_def
  client_case_113_def client_case_118_def

lemmas client_tr_defs =
  cst_def client_tr0_def client_tr2_def client_tr3_def client_tr4_def client_tr6_def client_tr7_def
  client_tr8_def client_tr9_def client_tr10_def client_tr12_def client_tr13_def client_tr14_def
  client_tr15_def client_tr16_def client_tr18_def client_tr26_def client_tr27_def client_tr28_def
  client_tr30_def client_tr32_def client_tr33_def client_tr35_def client_tr36_def client_tr37_def
  client_tr39_def client_tr40_def client_tr41_def client_tr42_def client_tr43_def client_tr45_def
  client_tr46_def client_tr58_def client_tr59_def client_tr60_def client_tr61_def client_tr62_def
  client_tr64_def client_tr66_def client_tr74_def client_tr75_def client_tr76_def client_tr77_def
  client_tr78_def client_tr95_def client_tr96_def client_tr97_def client_tr98_def client_tr99_def
  client_tr101_def client_tr103_def client_tr104_def client_tr111_def client_tr112_def
  client_tr113_def client_tr136_def client_tr137_def client_tr148_def client_tr149_def
  client_tr150_def client_tr151_def client_tr152_def client_tr154_def client_tr156_def
  client_tr157_def client_tr158_def client_tr159_def

subsection \<open>Facts about every edge\<close>

definition client_edge_ok :: "client_target \<Rightarrow> bool" where
  "client_edge_ok t = (case t of CErr \<Rightarrow> True
    | CGo acts n \<Rightarrow> 1 \<le> n \<and> n < 120 \<and> CDone \<notin> set acts
    | CBreak acts n \<Rightarrow> 120 \<le> n \<and> n \<le> 123)"

lemma client_edge_if: "client_edge_ok x \<Longrightarrow> client_edge_ok y \<Longrightarrow> client_edge_ok (if b then x else y)"
  by simp

lemma client_edge: "client_edge_ok (client_target_of s c)"
  unfolding client_target_of_def client_case_defs
  by (intro client_edge_if) (simp_all add: client_edge_ok_def client_tr_defs)

subsection \<open>What every run guarantees\<close>

text \<open>
  The elements and the values are slices of the text; of the name of a field only that it starts in
  the text and that its length is at most that of the text.
\<close>

definition client_slice :: "nat \<Rightarrow> client_event \<Rightarrow> bool" where
  "client_slice pe e = (case e of CElement cb at len \<Rightarrow> at + len \<le> pe
     | CField f flen v vlen \<Rightarrow> f < pe \<and> flen \<le> pe \<and> v + vlen \<le> pe)"

definition client_marks :: "nat \<Rightarrow> nat \<Rightarrow> httpclient_parser \<Rightarrow> bool" where
  "client_marks pe p P \<longleftrightarrow> cl_mark P \<le> p \<and> cl_mark P < pe \<and> cl_field_start P \<le> p \<and> cl_field_start P < pe
     \<and> cl_field_len P \<le> p \<and> cl_body_start P \<le> pe \<and> cl_nread P = 0"

lemma client_perform_ok:
  assumes "client_marks pe p P" and "p < pe" and "client_perform mem p pe a P = (P', evs)"
  shows "client_marks pe p P' \<and> (\<forall>e \<in> set evs. client_slice pe e)"
  using assms by (cases a) (auto simp: client_perform_def Let_def client_marks_def client_slice_def client_element_def split: if_splits)

lemma client_perform_all_ok:
  "client_marks pe p P \<Longrightarrow> p < pe \<Longrightarrow> client_perform_all mem p pe acts P = (P', evs) \<Longrightarrow>
   client_marks pe p P' \<and> (\<forall>e \<in> set evs. client_slice pe e)"
proof (induction acts arbitrary: P P' evs)
  case (Cons a acts)
  obtain P1 e1 where 1: "client_perform mem p pe a P = (P1, e1)" by fastforce
  obtain P2 e2 where 2: "client_perform_all mem p pe acts P1 = (P2, e2)" by fastforce
  from client_perform_ok [OF Cons.prems(1,2) 1] Cons.IH [OF _ Cons.prems(2) 2] Cons.prems(3) 1 2
  show ?case by auto
qed auto

lemma client_exec_loop_ok:
  "client_marks pe p P \<Longrightarrow> p + length rest = pe \<Longrightarrow> client_exec_loop mem pe s p rest P = (s', p', P', evs) \<Longrightarrow>
   (\<forall>e \<in> set evs. client_slice pe e) \<and> p \<le> p' \<and> p' \<le> pe \<and> client_marks pe pe P'"
proof (induction rest arbitrary: s p P s' p' P' evs)
  case Nil
  then show ?case by simp
next
  case (Cons b rest)
  have p: "p < pe" using Cons.prems(2) by simp
  have mono: "client_marks pe q Q" if "client_marks pe p Q" "p \<le> q" for q Q using that by (auto simp: client_marks_def)
  show ?case
  proof (cases "client_target_of s (sint b)")
    case CErr
    with Cons.prems mono [OF Cons.prems(1), of pe] p show ?thesis by auto
  next
    case (CGo acts n)
    obtain P1 e1 where 1: "client_perform_all mem p pe acts P = (P1, e1)" by fastforce
    obtain s2 p2 P2 e2 where 2: "client_exec_loop mem pe n (p + 1) rest P1 = (s2, p2, P2, e2)" by (metis prod_cases4)
    note ok = client_perform_all_ok [OF Cons.prems(1) p 1]
    then have "client_marks pe (p + 1) P1" using mono by simp
    from Cons.IH [OF this _ 2] Cons.prems(2,3) ok CGo 1 2 show ?thesis by auto
  next
    case (CBreak acts n)
    obtain P1 e1 where 1: "client_perform_all mem p pe acts P = (P1, e1)" by fastforce
    from client_perform_all_ok [OF Cons.prems(1) p 1] mono [of P1 pe] Cons.prems(3) CBreak 1 p show ?thesis by auto
  qed
qed

lemma client_enter_ok:
  assumes "client_marks pe p P" and "p + length rest = pe" and "client_enter mem pe s p rest P = (s', p', P', evs)"
  shows "(\<forall>e \<in> set evs. client_slice pe e) \<and> p \<le> p' \<and> p' \<le> pe \<and> client_marks pe pe P'"
proof (cases "rest = [] \<or> \<not> (1 \<le> s \<and> s \<le> 123)")
  case True
  then have "p' = p \<and> P' = P \<and> evs = []" using assms(3) by (auto simp: client_enter_def split: if_splits)
  with assms(1,2) show ?thesis by (auto simp: client_marks_def)
next
  case False
  then have "client_exec_loop mem pe s p rest P = (s', p', P', evs)" using assms(3) by (simp add: client_enter_def)
  from client_exec_loop_ok [OF assms(1,2) this] show ?thesis .
qed

text \<open>The call in one equation, for a text that ends on NUL.\<close>

definition reset_client :: "httpclient_parser \<Rightarrow> httpclient_parser" where
  "reset_client P = P\<lparr>cl_nread := 0, cl_mark := 0, cl_field_len := 0, cl_field_start := 0\<rparr>"

lemma client_execute_eq:
  assumes len: "0 < length text" "length text < 2 ^ 31" "off \<le> length text" and body: "cl_body_start P \<le> length text"
    and e: "client_enter (text @ 0 # junk) (length text) (cl_cs P) off (drop off text) (reset_client P) = (s, p, P', evs)"
  shows "httpclient_parser_execute P (text @ 0 # junk) (length text) off
      = Inr (int (p - off), P'\<lparr>cl_cs := s, cl_nread := p - off\<rparr>, evs)"
    and "off \<le> p \<and> p \<le> length text \<and> (\<forall>e \<in> set evs. client_slice (length text) e)"
proof -
  have "client_marks (length text) off (reset_client P)" using len body by (simp add: client_marks_def reset_client_def)
  from client_enter_ok [OF this _ e] len
  have ok: "\<forall>e \<in> set evs. client_slice (length text) e" "off \<le> p" "p \<le> length text" "client_marks (length text) (length text) P'"
    by auto
  have i: "to_int (int k) = int k" if "k \<le> length text" for k using that len(2) by (intro to_int_id) auto
  have d: "to_int (int (length text) - int off) = int (length text) - int off" using len by (intro to_int_id) auto
  show "httpclient_parser_execute P (text @ 0 # junk) (length text) off
      = Inr (int (p - off), P'\<lparr>cl_cs := s, cl_nread := p - off\<rparr>, evs)"
    using e ok len i [of off] i [of "length text"] i [of "p - off"] d
    by (auto simp: httpclient_parser_execute_def Let_def reset_client_def client_marks_def nth_append)
  show "off \<le> p \<and> p \<le> length text \<and> (\<forall>e \<in> set evs. client_slice (length text) e)" using ok by simp
qed

subsection \<open>Three inputs\<close>

definition client_fresh :: httpclient_parser where
  "client_fresh = httpclient_parser_init \<lparr>cl_cs = 0, cl_body_start = 0, cl_content_len = 0, cl_status = 0,
     cl_chunked = False, cl_chunks_done = False, cl_close = False, cl_nread = 0, cl_mark = 0, cl_field_start = 0,
     cl_field_len = 0, cl_installed = (\<lambda>_. True)\<rparr>"

text \<open>\<open>HTTP/1.1 200 OK\<close>, then \<open>Content-Length:\<close>, then a line with the digit 5.\<close>

definition digit_line :: "byte list" where
  "digit_line = [72, 84, 84, 80, 47, 49, 46, 49, 32, 50, 48, 48, 32, 79, 75, 13, 10,
     67, 111, 110, 116, 101, 110, 116, 45, 76, 101, 110, 103, 116, 104, 58, 10, 53, 10]"

text \<open>\<open>HTTP/1.1 200 OK\<close>, then \<open>Connection:\<close> with no value, then the empty line.\<close>

definition empty_connection :: "byte list" where
  "empty_connection = [72, 84, 84, 80, 47, 49, 46, 49, 32, 50, 48, 48, 32, 79, 75, 13, 10,
     67, 111, 110, 110, 101, 99, 116, 105, 111, 110, 58, 13, 10, 13, 10]"

fun run_view :: "(int \<times> httpclient_parser \<times> client_event list) res \<Rightarrow> (int \<times> nat \<times> int \<times> client_event list) option" where
  "run_view (Inl e) = None"
| "run_view (Inr (n, P, evs)) = Some (n, cl_cs P, cl_content_len P, evs)"

lemma digit_line_run:
  "run_view (httpclient_parser_execute client_fresh (digit_line @ [0]) 35 0) = Some (35, 20, 5,
     [CElement cl_http_version 0 8, CElement cl_status_code 9 3, CElement cl_reason_phrase 13 2,
      CField 17 14 32 0, CField 33 14 33 1])"
  by code_simp

lemma empty_connection_run:
  "run_view (httpclient_parser_execute client_fresh (empty_connection @ [0]) 32 0) = Some (32, 122, -1,
     [CElement cl_http_version 0 8, CElement cl_status_code 9 3, CElement cl_reason_phrase 13 2,
      CField 17 10 28 0, CElement cl_header_done 32 0])"
  by code_simp

subsection \<open>Chunk headers\<close>

definition hex_byte :: "nat \<Rightarrow> byte" where
  "hex_byte d = (if d < 10 then of_nat (48 + d) else of_nat (87 + d))"

fun show_hex :: "nat \<Rightarrow> byte list" where
  "show_hex n = (if n < 16 then [hex_byte n] else show_hex (n div 16) @ [hex_byte (n mod 16)])"

declare show_hex.simps [simp del]

definition is_hex :: "byte \<Rightarrow> bool" where
  "is_hex b \<longleftrightarrow> (48 \<le> b \<and> b \<le> 57) \<or> (97 \<le> b \<and> b \<le> 102)"

text \<open>A fact about all bytes, by evaluation.\<close>

lemma byte_all: "list_all (\<lambda>n. Q (of_nat n)) [0..<256] \<Longrightarrow> Q (b :: byte)"
proof -
  assume "list_all (\<lambda>n. Q (of_nat n :: byte)) [0..<256]"
  then have "\<forall>n\<in>{0..<256}. Q (of_nat n)" by (simp only: list_all_iff set_upt)
  moreover have "unat b \<in> {0..<256}" using unsigned_less [of b, where ?'a = nat] by simp
  ultimately have "Q (of_nat (unat b))" by blast
  then show ?thesis by simp
qed

lemma hex_byte_facts: "d < 16 \<Longrightarrow> is_hex (hex_byte d) \<and> digit_val (hex_byte d) = d"
proof -
  have "list_all (\<lambda>d. is_hex (hex_byte d) \<and> digit_val (hex_byte d) = d) [0..<16]" by code_simp
  then show "d < 16 \<Longrightarrow> is_hex (hex_byte d) \<and> digit_val (hex_byte d) = d" by (simp add: list_all_iff)
qed

lemma show_hex_nonempty: "show_hex n \<noteq> []"
  by (subst show_hex.simps) simp

lemma show_hex_all: "list_all is_hex (show_hex n)"
proof (induction n rule: show_hex.induct)
  case (1 n)
  then show ?case by (subst show_hex.simps) (simp add: hex_byte_facts)
qed

lemma strtol_digits_append:
  "(\<And>b. b \<in> set bs \<Longrightarrow> digit_val b < base) \<Longrightarrow> strtol_digits base acc (bs @ cs) = strtol_digits base (strtol_digits base acc bs) cs"
  by (induction bs arbitrary: acc) simp_all

lemma digit_val_hex: "is_hex b \<Longrightarrow> digit_val b < 16"
proof -
  have "is_hex b \<longrightarrow> digit_val b < 16" by (rule byte_all) code_simp
  then show "is_hex b \<Longrightarrow> digit_val b < 16" by simp
qed

lemma strtol_show_hex: "digit_val c \<ge> 16 \<Longrightarrow> strtol_digits 16 0 (show_hex n @ c # cs) = n"
proof (induction n arbitrary: c cs rule: show_hex.induct)
  case (1 n)
  show ?case
  proof (cases "n < 16")
    case True
    with "1.prems" hex_byte_facts [of n] show ?thesis by (simp add: show_hex.simps [of n])
  next
    case False
    have d: "digit_val b < 16" if "b \<in> set (show_hex (n div 16))" for b
      using that show_hex_all [of "n div 16"] digit_val_hex by (auto simp: list_all_iff)
    have "digit_val (13 :: byte) \<ge> 16" by code_simp
    from "1.IH" [OF False this, of "[]"] d have "strtol_digits 16 0 (show_hex (n div 16)) = n div 16"
      by (simp add: strtol_digits_append digit_val_def)
    with False "1.prems" d hex_byte_facts [of "n mod 16"] show ?thesis
      by (simp add: show_hex.simps [of n] strtol_digits_append)
  qed
qed

text \<open>\<open>strtol\<close> on a printed number is the number: no blank, sign or prefix is in the way.\<close>

lemma strtol_hex:
  assumes "n < 2 ^ 63" shows "strtol 16 (show_hex n @ 13 # cs) = int n"
proof -
  obtain b bs where s: "show_hex n = b # bs" using show_hex_nonempty by (cases "show_hex n") auto
  have all: "list_all is_hex (b # bs)" using show_hex_all [of n] s by simp
  have plain: "is_hex x \<longrightarrow> \<not> is_space x \<and> x \<noteq> 45 \<and> x \<noteq> 43 \<and> x \<noteq> 120 \<and> x \<noteq> 88" for x
    by (rule byte_all) code_simp
  have "skip_0x 16 (show_hex n @ 13 # cs) = show_hex n @ 13 # cs"
    using all s plain by (cases bs) (auto simp: skip_0x_def split: list.splits)
  moreover have "strtol_digits 16 0 (show_hex n @ 13 # cs) = n"
    by (rule strtol_show_hex) code_simp
  ultimately show ?thesis using assms s all plain [of b] by (simp add: strtol_def Let_def)
qed

lemma sint_hex: "is_hex b \<longrightarrow> (48 \<le> sint b \<and> sint b \<le> 57) \<or> (97 \<le> sint b \<and> sint b \<le> 102)"
  by (rule byte_all) code_simp

lemma client_hex_first: "is_hex b \<Longrightarrow> client_target_of 1 (sint b) = CGo [CMark] 2"
  using sint_hex [of b] by (auto simp: client_target_of_def client_case_1_def client_tr0_def)

lemma client_hex_next: "is_hex b \<Longrightarrow> client_target_of 2 (sint b) = CGo [] 2"
  using sint_hex [of b] by (auto simp: client_target_of_def client_case_1_def cst_def)

lemma client_hex_run:
  "list_all is_hex ds \<Longrightarrow> client_exec_loop mem pe 2 p (ds @ rest) P = client_exec_loop mem pe 2 (p + length ds) rest P"
proof (induction ds arbitrary: p)
  case (Cons d ds)
  have "client_exec_loop mem pe 2 p ((d # ds) @ rest) P = client_exec_loop mem pe 2 (Suc p) (ds @ rest) P"
    using Cons.prems client_hex_next [of d] by simp
  with Cons show ?case by simp
qed simp

text \<open>The run over a chunk header, to the break after its line feed.\<close>

lemma client_chunk_run:
  fixes P :: httpclient_parser and body :: "byte list" and n :: nat
  assumes cs: "cl_cs P = 1" and inst: "cl_installed P = (\<lambda>_. True)" and n: "n < 2 ^ 63"
  defines "hs \<equiv> show_hex n" and "done \<equiv> to_int (int n) \<le> 0"
  defines "text \<equiv> hs @ 13 # 10 # body"
  shows "client_enter (text @ 0 # junk) (length text) 1 0 text P = (120, length hs + 2,
      P\<lparr>cl_mark := 0, cl_chunked := True, cl_content_len := to_int (int n), cl_chunks_done := done, cl_body_start := length hs + 2\<rparr>,
      [CElement (if done then cl_last_chunk else cl_chunk_size) 0 (length hs), CElement cl_header_done (length hs + 2) (length body)])"
proof -
  let ?mem = "text @ 0 # junk" and ?pe = "length text"
  obtain b bs where h: "hs = b # bs" using show_hex_nonempty by (cases "show_hex n") (auto simp: hs_def)
  have all: "is_hex b" "list_all is_hex bs" using show_hex_all [of n] h by (simp_all add: hs_def)
  have val: "strtol 16 (drop 0 ?mem) = int n" using strtol_hex [OF n] by (simp add: text_def hs_def)
  have t13: "client_target_of 2 13 = CGo [CChunkSize] 3" and t10: "client_target_of 3 10 = CBreak [CDone] 120"
    by (simp_all add: client_target_of_def client_case_1_def client_case_3_def client_tr4_def client_tr7_def)
  have "client_enter ?mem ?pe 1 0 text P = client_exec_loop ?mem ?pe 1 0 (b # bs @ 13 # 10 # body) P"
    by (simp add: client_enter_def text_def h)
  also have "\<dots> = client_exec_loop ?mem ?pe 2 1 (bs @ 13 # 10 # body) (P\<lparr>cl_mark := 0\<rparr>)"
    using client_hex_first [OF all(1)] by (simp add: client_perform_def Let_def split: prod.splits)
  also have "\<dots> = client_exec_loop ?mem ?pe 2 (length hs) (13 # 10 # body) (P\<lparr>cl_mark := 0\<rparr>)"
    using client_hex_run [OF all(2), of ?mem ?pe 1 "13 # 10 # body"] by (simp add: h)
  also have "\<dots> = (120, length hs + 2,
      P\<lparr>cl_mark := 0, cl_chunked := True, cl_content_len := to_int (int n), cl_chunks_done := done, cl_body_start := length hs + 2\<rparr>,
      [CElement (if done then cl_last_chunk else cl_chunk_size) 0 (length hs), CElement cl_header_done (length hs + 2) (length body)])"
    using t13 t10 val inst
    by (simp add: client_perform_def client_element_def Let_def done_def text_def sz_sub_def)
  finally show ?thesis .
qed

text \<open>
  A response whose last header is \<open>Connection:\<close> without a value ends in state 122: the end of the header is
  reported, but \<open>is_finished\<close>, which compares with the first final state 120 only, denies it.
\<close>

lemma client_unfinished:
  "\<exists>n P' evs. httpclient_parser_execute client_fresh (empty_connection @ [0]) 32 0 = Inr (n, P', evs)
     \<and> CElement cl_header_done 32 0 \<in> set evs \<and> httpclient_parser_finish P' = 0"
proof -
  obtain n P' evs where e: "httpclient_parser_execute client_fresh (empty_connection @ [0]) 32 0 = Inr (n, P', evs)"
    using empty_connection_run
    by (cases "httpclient_parser_execute client_fresh (empty_connection @ [0]) 32 0") (auto simp del: client_exec_loop.simps)
  have "cl_cs P' = 122" "CElement cl_header_done 32 0 \<in> set evs" using empty_connection_run by (simp_all add: e)
  with e show ?thesis
    by (auto simp: httpclient_parser_finish_def httpclient_parser_has_error_def httpclient_parser_is_finished_def
        httpclient_parser_error_def httpclient_parser_first_final_def)
qed

text \<open>
  An error is not final: called again with more text, the parser in the error state consumes nothing and is in
  the state inside a chunk size afterwards, with the error gone.
\<close>

lemma client_error_forgotten:
  assumes "cl_cs P = httpclient_parser_error" and "off < length text" and "length text < 2 ^ 31" and "cl_body_start P \<le> length text"
  shows "\<exists>P'. httpclient_parser_execute P (text @ 0 # junk) (length text) off = Inr (0, P', []) \<and> cl_cs P' = 2
     \<and> \<not> httpclient_parser_has_error P'"
proof -
  have e: "client_enter (text @ 0 # junk) (length text) (cl_cs P) off (drop off text) (reset_client P) = (2, off, reset_client P, [])"
    using assms(1,2) by (simp add: client_enter_def httpclient_parser_error_def)
  have "0 < length text" "off \<le> length text" using assms(2) by auto
  from client_execute_eq(1) [OF this(1) assms(3) this(2) assms(4) e]
  have "httpclient_parser_execute P (text @ 0 # junk) (length text) off = Inr (0, (reset_client P)\<lparr>cl_cs := 2, cl_nread := 0\<rparr>, [])"
    by simp
  then show ?thesis
    by (intro exI [of _ "(reset_client P)\<lparr>cl_cs := 2, cl_nread := 0\<rparr>"]) (simp add: httpclient_parser_has_error_def httpclient_parser_error_def)
qed

subsection \<open>Properties\<close>



text \<open>
  C8: a chunk header parses back: for the number \<open>n\<close> in hexadecimal and the end of the line, followed by any
  bytes, one call consumes exactly the line and finishes, with \<open>content_len\<close> the value of \<open>n\<close> as an \<open>int\<close>; below
  \<open>2^31\<close> that is \<open>n\<close> and the last chunk is the one of size 0, from there to \<open>2^32\<close> every chunk is taken for the last.
\<close>

theorem client_chunk_header:
  fixes P :: httpclient_parser and body :: "byte list" and n :: nat
  assumes "cl_cs P = httpclient_parser_start" and "cl_installed P = (\<lambda>_. True)" and "n < 2 ^ 63"
    and "length (show_hex n @ 13 # 10 # body) < 2 ^ 31" and "cl_body_start P \<le> length (show_hex n @ 13 # 10 # body)"
  shows "\<exists>P'. httpclient_parser_execute P ((show_hex n @ 13 # 10 # body) @ 0 # junk) (length (show_hex n @ 13 # 10 # body)) 0
      = Inr (int (length (show_hex n)) + 2, P',
          [CElement (if cl_chunks_done P' then cl_last_chunk else cl_chunk_size) 0 (length (show_hex n)),
           CElement cl_header_done (length (show_hex n) + 2) (length body)])
    \<and> cl_chunked P' \<and> cl_content_len P' = to_int (int n) \<and> httpclient_parser_finish P' = 1
    \<and> (n < 2 ^ 31 \<longrightarrow> cl_content_len P' = int n \<and> (cl_chunks_done P' \<longleftrightarrow> n = 0))
    \<and> (2 ^ 31 \<le> n \<and> n < 2 ^ 32 \<longrightarrow> cl_chunks_done P')"
proof -
  let ?text = "show_hex n @ 13 # 10 # body" and ?done = "to_int (int n) \<le> 0" and ?k = "length (show_hex n)"
  let ?P = "(reset_client P)\<lparr>cl_mark := 0, cl_chunked := True, cl_content_len := to_int (int n), cl_chunks_done := ?done,
    cl_body_start := ?k + 2\<rparr>"
  have "client_enter (?text @ 0 # junk) (length ?text) (cl_cs P) 0 (drop 0 ?text) (reset_client P) = (120, ?k + 2, ?P,
      [CElement (if ?done then cl_last_chunk else cl_chunk_size) 0 ?k, CElement cl_header_done (?k + 2) (length body)])"
    using client_chunk_run [of "reset_client P" n body junk] assms(1-3) by (simp add: reset_client_def httpclient_parser_start_def)
  from client_execute_eq(1) [OF _ assms(4) _ assms(5) this]
  have ex: "httpclient_parser_execute P (?text @ 0 # junk) (length ?text) 0 = Inr (int (?k + 2), ?P\<lparr>cl_cs := 120, cl_nread := ?k + 2\<rparr>,
      [CElement (if ?done then cl_last_chunk else cl_chunk_size) 0 ?k, CElement cl_header_done (?k + 2) (length body)])" by simp
  have small: "n < 2 ^ 31 \<Longrightarrow> to_int (int n) = int n" by (intro to_int_id) auto
  have big: "2 ^ 31 \<le> n \<Longrightarrow> n < 2 ^ 32 \<Longrightarrow> ?done" using to_int_negative [of "int n"] by simp
  show ?thesis
    by (intro exI [of _ "?P\<lparr>cl_cs := 120, cl_nread := ?k + 2\<rparr>"])
      (use ex small big in \<open>auto simp: httpclient_parser_finish_def httpclient_parser_has_error_def
        httpclient_parser_is_finished_def httpclient_parser_error_def httpclient_parser_first_final_def\<close>)
qed

theorem client_chunk_header_witness:
  "\<exists>P'. httpclient_parser_execute client_fresh ((show_hex 431 @ 13 # 10 # [1, 2]) @ 0 # []) (length (show_hex 431 @ 13 # 10 # [1, 2])) 0
     = Inr (int (length (show_hex 431)) + 2, P',
         [CElement (if cl_chunks_done P' then cl_last_chunk else cl_chunk_size) 0 (length (show_hex 431)),
          CElement cl_header_done (length (show_hex 431) + 2) 2]) \<and> cl_content_len P' = 431"
proof -
  have "length (show_hex 431 @ 13 # 10 # [1, 2 :: byte]) < 2 ^ 31" by (simp add: show_hex.simps)
  moreover have "cl_body_start client_fresh \<le> length (show_hex 431 @ 13 # 10 # [1, 2 :: byte])"
    and "cl_cs client_fresh = httpclient_parser_start" "cl_installed client_fresh = (\<lambda>_. True)"
    by (simp_all add: client_fresh_def httpclient_parser_init_def)
  ultimately show ?thesis using client_chunk_header [of client_fresh 431 "[1, 2]" "[]"] by auto
qed

text \<open>
  The callback for a field can be given a name that runs past the end of the text: after \<open>Content-Length:\<close> and a line
  feed, a line with a digit is taken at once for the value and for the start of a name, and is reported with
  the length of the old name, 14 characters, two before the end.
\<close>

theorem client_name_overread:
  "\<exists>n P' evs f flen v vlen. httpclient_parser_execute client_fresh (digit_line @ [0]) (length digit_line) 0 = Inr (n, P', evs)
     \<and> CField f flen v vlen \<in> set evs \<and> f + flen > length (digit_line @ [0]) \<and> cl_content_len P' = 5"
proof -
  have len: "length digit_line = 35" by (simp add: digit_line_def)
  obtain n P' evs where e: "httpclient_parser_execute client_fresh (digit_line @ [0]) 35 0 = Inr (n, P', evs)"
    using digit_line_run by (cases "httpclient_parser_execute client_fresh (digit_line @ [0]) 35 0") auto
  have "CField 33 14 33 1 \<in> set evs" "cl_content_len P' = 5" using digit_line_run by (simp_all add: e)
  with e have "httpclient_parser_execute client_fresh (digit_line @ [0]) (length digit_line) 0 = Inr (n, P', evs)
    \<and> CField 33 14 33 1 \<in> set evs \<and> 33 + 14 > length (digit_line @ [0]) \<and> cl_content_len P' = 5" by (simp add: len)
  then show ?thesis by blast
qed

end
