(* ===== verification/LogStream.thy ===== *)
theory LogStream
  imports Prelude "HOL-Library.Signed_Division"
begin

section \<open>Log buffers and streams (splog/LogStream)\<close>

text \<open>
  \<open>FixedBuffer\<close> is its array \<open>m_data\<close> and the offset of \<open>m_cur\<close> in it. A piece of text that does not fit is
  dropped as a whole; what writes past the array is \<open>HeapOverflow\<close>. \<open>LogStream\<close> has one such buffer, of
  \<open>kSmallBuffer\<close> bytes. The text that \<open>snprintf\<close> makes of a \<open>double\<close> is an argument.
\<close>

definition kSmallBuffer :: nat where "kSmallBuffer = 4000"
definition kLargeBuffer :: nat where "kLargeBuffer = 4000 * 1000"
definition kMaxNumericSize :: nat where "kMaxNumericSize = 48"

record FixedBuffer =
  fb_data :: string
  fb_cur :: nat

definition new_FixedBuffer :: "string \<Rightarrow> FixedBuffer" where
  "new_FixedBuffer raw = \<lparr>fb_data = raw, fb_cur = 0\<rparr>"

definition fb_avail :: "FixedBuffer \<Rightarrow> int" where
  "fb_avail b = to_int (int (length (fb_data b)) - int (fb_cur b))"

definition fb_length :: "FixedBuffer \<Rightarrow> int" where
  "fb_length b = to_int (int (fb_cur b))"

text \<open>\<open>memcpy(m_cur, buf, len)\<close>\<close>

definition fb_write :: "string \<Rightarrow> FixedBuffer \<Rightarrow> FixedBuffer res" where
  "fb_write s b =
     (if fb_cur b + length s \<le> length (fb_data b) then Inr (b\<lparr>fb_data := overwrite (fb_data b) (fb_cur b) s\<rparr>)
      else Inl HeapOverflow)"

definition fb_add :: "nat \<Rightarrow> FixedBuffer \<Rightarrow> FixedBuffer" where
  "fb_add len b = b\<lparr>fb_cur := fb_cur b + len\<rparr>"

definition fb_append :: "string \<Rightarrow> nat \<Rightarrow> FixedBuffer \<Rightarrow> FixedBuffer res" where
  "fb_append buf len b =
     (if to_int (int len) \<le> fb_avail b
      then if length buf < len then Inl HeapOverflow
           else bindE (fb_write (take len buf) b) (\<lambda>b. Inr (fb_add len b))
      else Inr b)"

definition fb_reset :: "FixedBuffer \<Rightarrow> FixedBuffer" where
  "fb_reset b = b\<lparr>fb_cur := 0\<rparr>"

definition fb_bzero :: "FixedBuffer \<Rightarrow> FixedBuffer" where
  "fb_bzero b = b\<lparr>fb_data := replicate (length (fb_data b)) NUL\<rparr>"

definition fb_toString :: "FixedBuffer \<Rightarrow> string" where
  "fb_toString b = take (fb_cur b) (fb_data b)"

subsection \<open>Integers\<close>

text \<open>The digits of a negative remainder are read to the left of \<open>zero\<close>; \<open>smod\<close> and \<open>sdiv\<close> truncate as in C++.\<close>

definition digits :: string where "digits = ''9876543210123456789''"

definition zero_at :: "int \<Rightarrow> char" where
  "zero_at lsd = digits ! nat (9 + lsd)"

function convert_loop :: "int \<Rightarrow> string" where
  "convert_loop i = zero_at (i smod 10) # (if i sdiv 10 \<noteq> 0 then convert_loop (i sdiv 10) else [])"
  by pat_completeness auto
termination
  by (relation "measure (\<lambda>i. nat \<bar>i\<bar>)")
    (auto simp: signed_divide_int_def abs_mult sgn_if nat_less_iff zdiv_int [symmetric] split: if_splits)

declare convert_loop.simps [simp del]

definition convert :: "int \<Rightarrow> string" where
  "convert v = rev (convert_loop v @ (if v < 0 then ''-'' else []))"

definition formatInteger :: "int \<Rightarrow> FixedBuffer \<Rightarrow> FixedBuffer res" where
  "formatInteger v b =
     (if int kMaxNumericSize \<le> fb_avail b
      then bindE (fb_write (convert v @ [NUL]) b) (\<lambda>b. Inr (fb_add (length (convert v)) b))
      else Inr b)"

subsection \<open>The operators\<close>

definition log_bool :: "bool \<Rightarrow> FixedBuffer \<Rightarrow> FixedBuffer res" where
  "log_bool v = fb_append (if v then ''1'' else ''0'') 1"

definition log_char :: "char \<Rightarrow> FixedBuffer \<Rightarrow> FixedBuffer res" where
  "log_char c = fb_append [c] 1"

text \<open>A C string is the memory from its first character on, \<open>None\<close> a null pointer.\<close>

definition log_cstr :: "string option \<Rightarrow> FixedBuffer \<Rightarrow> FixedBuffer res" where
  "log_cstr str b = (case str of
       None \<Rightarrow> fb_append ''(null)'' 6 b
     | Some mem \<Rightarrow> if NUL \<in> set mem then fb_append mem (length (c_str mem)) b else Inl HeapOverflow)"

definition log_string :: "string \<Rightarrow> FixedBuffer \<Rightarrow> FixedBuffer res" where
  "log_string v = fb_append v (length v)"

text \<open>\<open>snprintf\<close> writes at most 47 characters and the NUL, and returns the length of the whole text.\<close>

definition log_double :: "string \<Rightarrow> FixedBuffer \<Rightarrow> FixedBuffer res" where
  "log_double printed b =
     (if int kMaxNumericSize \<le> fb_avail b
      then bindE (fb_write (take (kMaxNumericSize - 1) printed @ [NUL]) b) (\<lambda>b. Inr (fb_add (length printed) b))
      else Inr b)"

definition log_stream :: "FixedBuffer \<Rightarrow> FixedBuffer \<Rightarrow> FixedBuffer res" where
  "log_stream stream = fb_append (fb_data stream) (fb_cur stream)"

text \<open>A chain of \<open><<\<close> is a list of operands.\<close>

datatype operand = OBool bool | OInt int | OChar char | OCstr "string option" | OString string | ODouble string

fun log_operand :: "operand \<Rightarrow> FixedBuffer \<Rightarrow> FixedBuffer res" where
  "log_operand (OBool v) = log_bool v"
| "log_operand (OInt v) = formatInteger v"
| "log_operand (OChar c) = log_char c"
| "log_operand (OCstr str) = log_cstr str"
| "log_operand (OString v) = log_string v"
| "log_operand (ODouble printed) = log_double printed"

fun log_operands :: "operand list \<Rightarrow> FixedBuffer \<Rightarrow> FixedBuffer res" where
  "log_operands [] b = Inr b"
| "log_operands (x # xs) b = bindE (log_operand x b) (log_operands xs)"

end
