(* ===== verification/LogFormatter.thy ===== *)
theory LogFormatter
  imports LogStream
begin

section \<open>Log messages and their format (splog/LogLevel, LogMessage, LogFormatter)\<close>

text \<open>
  Levels, the file name of a message, the cached text of a second, and \<open>LogFormatter\<close>: \<open>init\<close> compiles a
  pattern to a list of items, \<open>format\<close> runs them on a log stream. The id and the name of the thread and
  \<open>localtime_r\<close> with \<open>snprintf\<close> are an argument, \<open>log_env\<close>.
\<close>

subsection \<open>Levels\<close>

datatype LogLevel =
    LogLevel_UNKNOWN | LogLevel_TRACE | LogLevel_DEBUG | LogLevel_INFO
  | LogLevel_WARN | LogLevel_ERROR | LogLevel_FATAL | LogLevel_OFF

fun level_rank :: "LogLevel \<Rightarrow> nat" where
  "level_rank LogLevel_UNKNOWN = 0"
| "level_rank LogLevel_TRACE = 1"
| "level_rank LogLevel_DEBUG = 2"
| "level_rank LogLevel_INFO = 3"
| "level_rank LogLevel_WARN = 4"
| "level_rank LogLevel_ERROR = 5"
| "level_rank LogLevel_FATAL = 6"
| "level_rank LogLevel_OFF = 7"

lemma level_rank_inject: "level_rank a = level_rank b \<Longrightarrow> a = b"
  by (cases a; cases b) simp_all

instantiation LogLevel :: linorder
begin

definition less_eq_LogLevel :: "LogLevel \<Rightarrow> LogLevel \<Rightarrow> bool" where
  "less_eq_LogLevel a b \<longleftrightarrow> level_rank a \<le> level_rank b"

definition less_LogLevel :: "LogLevel \<Rightarrow> LogLevel \<Rightarrow> bool" where
  "less_LogLevel a b \<longleftrightarrow> level_rank a < level_rank b"

instance
  by standard (auto simp: less_eq_LogLevel_def less_LogLevel_def level_rank_inject)

end

fun Level_ToString :: "LogLevel \<Rightarrow> string" where
  "Level_ToString LogLevel_TRACE = ''TRACE''"
| "Level_ToString LogLevel_DEBUG = ''DEBUG''"
| "Level_ToString LogLevel_INFO = ''INFO''"
| "Level_ToString LogLevel_WARN = ''WARN''"
| "Level_ToString LogLevel_ERROR = ''ERROR''"
| "Level_ToString LogLevel_FATAL = ''FATAL''"
| "Level_ToString LogLevel_OFF = ''OFF''"
| "Level_ToString LogLevel_UNKNOWN = ''UNKNOWN''"

definition Level_FromString :: "string \<Rightarrow> LogLevel" where
  "Level_FromString val =
     (if val = ''TRACE'' then LogLevel_TRACE
      else if val = ''DEBUG'' then LogLevel_DEBUG
      else if val = ''INFO'' then LogLevel_INFO
      else if val = ''WARN'' then LogLevel_WARN
      else if val = ''ERROR'' then LogLevel_ERROR
      else if val = ''FATAL'' then LogLevel_FATAL
      else if val = ''OFF'' then LogLevel_OFF
      else LogLevel_UNKNOWN)"

lemma level_roundtrip: "Level_FromString (Level_ToString l) = l"
  by (cases l) (simp_all add: Level_FromString_def)

subsection \<open>File names\<close>

text \<open>\<open>fn_data\<close> is the memory from the pointer on. \<open>last_slash\<close> is \<open>strrchr(s, '/')\<close>.\<close>

record FileName =
  fn_data :: string
  fn_size :: int

fun last_slash :: "string \<Rightarrow> nat option" where
  "last_slash [] = None"
| "last_slash (c # cs) = (case last_slash cs of Some k \<Rightarrow> Some (Suc k) | None \<Rightarrow> if c = CHR ''/'' then Some 0 else None)"

text \<open>From an array, which a file name literal is: the array ends with its NUL.\<close>

definition FileName_array :: "string \<Rightarrow> FileName" where
  "FileName_array arr =
     (case last_slash (c_str arr) of
        None \<Rightarrow> \<lparr>fn_data = arr, fn_size = int (length arr) - 1\<rparr>
      | Some k \<Rightarrow> \<lparr>fn_data = drop (Suc k) arr, fn_size = int (length arr) - 1 - int (Suc k)\<rparr>)"

definition FileName_cstr :: "string \<Rightarrow> FileName" where
  "FileName_cstr filename =
     (let d = (case last_slash (c_str filename) of None \<Rightarrow> filename | Some k \<Rightarrow> drop (Suc k) filename)
      in \<lparr>fn_data = d, fn_size = int (length (c_str d))\<rparr>)"

definition log_file :: "FileName \<Rightarrow> FixedBuffer \<Rightarrow> FixedBuffer res" where
  "log_file v = fb_append (fn_data v) (nat (fn_size v))"

subsection \<open>Messages and their surroundings\<close>

record LogMessage =
  lm_file :: FileName
  lm_level :: LogLevel
  lm_line :: u32
  lm_time :: u64
  lm_name :: string
  lm_stream :: FixedBuffer

record log_env =
  le_thread_id :: int
  le_thread_name :: string
  le_localtime :: "int \<Rightarrow> string"

record TimeManager =
  tm_lastTimeString :: string
  tm_lastSeconds :: int

definition formatString :: "log_env \<Rightarrow> int \<Rightarrow> TimeManager \<Rightarrow> TimeManager" where
  "formatString env seconds tm = tm\<lparr>tm_lastTimeString := le_localtime env seconds, tm_lastSeconds := seconds\<rparr>"

definition getTimeString :: "log_env \<Rightarrow> int \<Rightarrow> TimeManager \<Rightarrow> string \<times> TimeManager" where
  "getTimeString env seconds tm =
     (let tm = (if seconds \<noteq> tm_lastSeconds tm then formatString env seconds tm else tm)
      in (tm_lastTimeString tm, tm))"

subsection \<open>Items\<close>

datatype FormatItem =
    LevelFormatItem | FileNameFormatItem | LineFormatItem | DateTimeFormatItem | ThreadIdFormatItem
  | ThreadNameFormatItem | MessageFormatItem | NewLineFormatItem | PercentSignFormatItem | TabFormatItem
  | ElapseFormatItem | NameFormatItem | StringFormatItem string

definition format_item_map :: "char \<Rightarrow> FormatItem option" where
  "format_item_map ch =
     (if ch = CHR ''p'' then Some LevelFormatItem
      else if ch = CHR ''f'' then Some FileNameFormatItem
      else if ch = CHR ''l'' then Some LineFormatItem
      else if ch = CHR ''d'' then Some DateTimeFormatItem
      else if ch = CHR ''t'' then Some ThreadIdFormatItem
      else if ch = CHR ''N'' then Some ThreadNameFormatItem
      else if ch = CHR ''m'' then Some MessageFormatItem
      else if ch = CHR ''n'' then Some NewLineFormatItem
      else if ch = CHR ''%'' then Some PercentSignFormatItem
      else if ch = CHR ''T'' then Some TabFormatItem
      else if ch = CHR ''r'' then Some ElapseFormatItem
      else if ch = CHR ''c'' then Some NameFormatItem
      else None)"

text \<open>\<open>FormatItem::format\<close>; the time of a message, a \<open>uint64_t\<close>, becomes a \<open>time_t\<close>.\<close>

fun item_format :: "log_env \<Rightarrow> LogMessage \<Rightarrow> FormatItem \<Rightarrow> TimeManager \<times> FixedBuffer \<Rightarrow> (TimeManager \<times> FixedBuffer) res" where
  "item_format env event DateTimeFormatItem (tm, stream) =
     (let (buf, tm) = getTimeString env (sint (lm_time event)) tm
      in bindE (log_string buf stream) (\<lambda>stream. Inr (tm, stream)))"
| "item_format env event item (tm, stream) =
     bindE (case item of
         LevelFormatItem \<Rightarrow> log_string (Level_ToString (lm_level event)) stream
       | FileNameFormatItem \<Rightarrow> log_file (lm_file event) stream
       | LineFormatItem \<Rightarrow> formatInteger (uint (lm_line event)) stream
       | ThreadIdFormatItem \<Rightarrow> formatInteger (le_thread_id env) stream
       | ThreadNameFormatItem \<Rightarrow> log_string (le_thread_name env) stream
       | MessageFormatItem \<Rightarrow> log_stream (lm_stream event) stream
       | NewLineFormatItem \<Rightarrow> log_char (CHR 0x0A) stream
       | PercentSignFormatItem \<Rightarrow> log_char (CHR ''%'') stream
       | TabFormatItem \<Rightarrow> log_char (CHR 0x09) stream
       | ElapseFormatItem \<Rightarrow> formatInteger 0 stream
       | NameFormatItem \<Rightarrow> log_string (lm_name event) stream
       | StringFormatItem str \<Rightarrow> log_string str stream
       | DateTimeFormatItem \<Rightarrow> Inr stream)
       (\<lambda>stream. Inr (tm, stream))"

subsection \<open>Compiling a pattern\<close>

record LogFormatter =
  m_pattern :: string
  m_items :: "FormatItem list"
  m_format_error :: bool

datatype PARSE_STATUS = SCAN_STATUS | CREATE_STATUS

text \<open>The inner loop: the first percent sign from \<open>j\<close> on, or the end.\<close>

function scan_end :: "string \<Rightarrow> nat \<Rightarrow> nat" where
  "scan_end pattern j =
     (if j < length pattern then if pattern ! j = CHR ''%'' then j else scan_end pattern (Suc j) else j)"
  by pat_completeness auto
termination
  by (relation "measure (\<lambda>(pattern, j). length pattern - j)") auto

declare scan_end.simps [simp del]

lemma scan_end_ge: "j \<le> scan_end pattern j"
  by (induction pattern j rule: scan_end.induct) (subst scan_end.simps, auto intro: Suc_leD)

function init_loop :: "string \<Rightarrow> nat \<Rightarrow> PARSE_STATUS \<Rightarrow> FormatItem list \<Rightarrow> bool \<Rightarrow> FormatItem list \<times> bool" where
  "init_loop pattern i status items err =
     (if i < length pattern
      then case status of
          SCAN_STATUS \<Rightarrow>
            let str_end = scan_end pattern i
            in init_loop pattern (Suc str_end) (if str_end < length pattern then CREATE_STATUS else SCAN_STATUS)
                 (items @ [StringFormatItem (take (str_end - i) (drop i pattern))]) err
        | CREATE_STATUS \<Rightarrow>
            (case format_item_map (pattern ! i) of
               None \<Rightarrow> init_loop pattern (Suc i) SCAN_STATUS (items @ [StringFormatItem ''<error format>'']) True
             | Some item \<Rightarrow> init_loop pattern (Suc i) SCAN_STATUS (items @ [item]) err)
      else (items, err))"
  by pat_completeness auto
termination
  by (relation "measure (\<lambda>(pattern, i, _). length pattern - i)")
    (auto intro: diff_less_mono2 le_imp_less_Suc [OF scan_end_ge])

declare init_loop.simps [simp del]

definition new_LogFormatter :: "string \<Rightarrow> LogFormatter" where
  "new_LogFormatter pattern =
     (let (items, err) = init_loop pattern 0 SCAN_STATUS [] False
      in \<lparr>m_pattern = pattern, m_items = items, m_format_error = err\<rparr>)"

fun items_format :: "log_env \<Rightarrow> LogMessage \<Rightarrow> FormatItem list \<Rightarrow> TimeManager \<times> FixedBuffer \<Rightarrow> (TimeManager \<times> FixedBuffer) res" where
  "items_format env event [] st = Inr st"
| "items_format env event (i # items) st = bindE (item_format env event i st) (items_format env event items)"

definition formatter_format :: "log_env \<Rightarrow> LogFormatter \<Rightarrow> LogMessage \<Rightarrow> TimeManager \<times> FixedBuffer \<Rightarrow> (TimeManager \<times> FixedBuffer) res" where
  "formatter_format env fm event st = items_format env event (m_items fm) st"

definition DEFAULT_PATTERN :: string where
  "DEFAULT_PATTERN = ''%d%T%t %N%T[%c] [%p] %f:%l%T%m%n''"

end
