(* ===== verification/LogManager.thy ===== *)
theory LogManager
  imports LogFormatter "HOL-Library.AList" "HOL-Library.List_Lexorder" "HOL-Library.Char_ord"
begin

section \<open>Loggers, appenders and their configuration (splog/Logger, LogAppender, LogManager, LogInitializer)\<close>

text \<open>
  The objects live in a store: a \<open>shared_ptr\<close> is its index, a null one \<open>None\<close>, so that the loggers that other
  code keeps are the ones that a new configuration changes. What is written is a list of pairs: the appender and
  the text given to its sink. Appenders are those that \<open>LogManager\<close> makes, on the console and on a file;
  whether \<open>fopen\<close> succeeds on a name is an argument. \<open>ap_open\<close> says whether the stream of the sink, \<open>m_ptr\<close>, is
  not null. \<open>m_started\<close> is uninitialised in a new appender: its first value is an argument, \<open>garbage\<close>.
\<close>

subsection \<open>Appenders\<close>

datatype appender_type = ConsoleAppender | FileAppender

record LogAppenderDefine =
  lad_type :: int
  lad_name :: string
  lad_file :: string
  lad_formatter :: string
  lad_level :: LogLevel
  lad_append :: bool

record OutputAppender =
  ap_type :: appender_type
  ap_name :: string
  ap_level :: LogLevel
  ap_formatter :: "LogFormatter option"
  ap_file :: string
  ap_append :: bool
  ap_started :: bool
  ap_open :: bool

definition new_OutputAppender :: "bool \<Rightarrow> appender_type \<Rightarrow> LogAppenderDefine \<Rightarrow> OutputAppender" where
  "new_OutputAppender garbage t lad =
     \<lparr>ap_type = t, ap_name = lad_name lad, ap_level = lad_level lad, ap_formatter = Some (new_LogFormatter (lad_formatter lad)),
      ap_file = lad_file lad, ap_append = lad_append lad, ap_started = garbage,
      ap_open = (t = ConsoleAppender)\<rparr>"

definition getType :: "OutputAppender \<Rightarrow> int" where
  "getType ap = (case ap_type ap of ConsoleAppender \<Rightarrow> 0 | FileAppender \<Rightarrow> 1)"

text \<open>\<open>OutputAppender::start\<close>; both kinds have a sink. A file that cannot be opened is \<open>setbuffer\<close> on a null pointer.\<close>

definition output_start :: "OutputAppender \<Rightarrow> OutputAppender" where
  "output_start ap = (if ap_formatter ap = None then ap else ap\<lparr>ap_started := True\<rparr>)"

definition appender_start :: "(string \<Rightarrow> bool) \<Rightarrow> OutputAppender \<Rightarrow> OutputAppender res" where
  "appender_start can_open ap = (case ap_type ap of
       ConsoleAppender \<Rightarrow> Inr (output_start ap)
     | FileAppender \<Rightarrow> if can_open (ap_file ap) then Inr (output_start (ap\<lparr>ap_open := True\<rparr>)) else Inl NullDeref)"

text \<open>\<open>LogAppender::doAppend\<close> with \<open>format\<close> and \<open>append\<close>; \<open>raw\<close> is the array of the stream on the stack.\<close>

definition output_format :: "log_env \<Rightarrow> LogMessage \<Rightarrow> OutputAppender \<Rightarrow> TimeManager \<times> FixedBuffer \<Rightarrow> (TimeManager \<times> FixedBuffer) res" where
  "output_format env message ap st =
     (if \<not> ap_started ap then Inr st
      else if ap_level ap \<le> lm_level message then
        (case ap_formatter ap of None \<Rightarrow> Inl NullDeref | Some fm \<Rightarrow> formatter_format env fm message st)
      else Inr st)"

definition doAppend :: "log_env \<Rightarrow> string \<Rightarrow> LogMessage \<Rightarrow> OutputAppender \<Rightarrow> TimeManager \<Rightarrow> (TimeManager \<times> string list) res" where
  "doAppend env raw message ap tm =
     (if \<not> ap_started ap then Inr (tm, [])
      else bindE (output_format env message ap (tm, new_FixedBuffer raw)) (\<lambda>(tm, stream).
             if ap_open ap then Inr (tm, [fb_toString stream]) else Inl NullDeref))"

subsection \<open>Loggers\<close>

record Logger =
  lg_name :: string
  lg_level :: LogLevel
  lg_appenders :: "nat list"

definition new_Logger :: Logger where
  "new_Logger = \<lparr>lg_name = [], lg_level = LogLevel_DEBUG, lg_appenders = []\<rparr>"

record LogManager =
  w_appender :: "nat \<Rightarrow> OutputAppender"
  w_logger :: "nat \<Rightarrow> Logger"
  w_next :: nat
  m_appenders :: "(string \<times> nat option) list"
  m_loggers :: "(string \<times> nat) list"
  m_root :: nat

definition set_logger :: "nat \<Rightarrow> (Logger \<Rightarrow> Logger) \<Rightarrow> LogManager \<Rightarrow> LogManager" where
  "set_logger l f w = w\<lparr>w_logger := (w_logger w)(l := f (w_logger w l))\<rparr>"

definition addAppender :: "(string \<Rightarrow> bool) \<Rightarrow> nat option \<Rightarrow> nat \<Rightarrow> LogManager \<Rightarrow> LogManager res" where
  "addAppender can_open p l w = (case p of
       None \<Rightarrow> Inl NullDeref
     | Some a \<Rightarrow>
         bindE (if ap_started (w_appender w a) then Inr w
                else bindE (appender_start can_open (w_appender w a)) (\<lambda>ap. Inr (w\<lparr>w_appender := (w_appender w)(a := ap)\<rparr>)))
           (\<lambda>w. Inr (set_logger l (\<lambda>lg. lg\<lparr>lg_appenders := lg_appenders lg @ [a]\<rparr>) w)))"

definition detachAppender :: "LogManager \<Rightarrow> string \<Rightarrow> Logger \<Rightarrow> Logger" where
  "detachAppender w name lg = lg\<lparr>lg_appenders := filter (\<lambda>a. ap_name (w_appender w a) \<noteq> name) (lg_appenders lg)\<rparr>"

definition clearAppender :: "Logger \<Rightarrow> Logger" where
  "clearAppender lg = lg\<lparr>lg_appenders := []\<rparr>"

definition Logger_getAppender :: "LogManager \<Rightarrow> string \<Rightarrow> Logger \<Rightarrow> nat option" where
  "Logger_getAppender w name lg = find (\<lambda>a. ap_name (w_appender w a) = name) (lg_appenders lg)"

fun append_all :: "log_env \<Rightarrow> string \<Rightarrow> LogMessage \<Rightarrow> LogManager \<Rightarrow> nat list \<Rightarrow> TimeManager \<Rightarrow> (TimeManager \<times> (nat \<times> string) list) res" where
  "append_all env raw message w [] tm = Inr (tm, [])"
| "append_all env raw message w (a # as) tm =
     bindE (doAppend env raw message (w_appender w a) tm) (\<lambda>(tm, ss).
       bindE (append_all env raw message w as tm) (\<lambda>(tm, out). Inr (tm, map (Pair a) ss @ out)))"

text \<open>\<open>Logger::log\<close>, which calls itself on the root logger; the fuel bounds the depth of the calls.\<close>

fun logger_log :: "nat \<Rightarrow> log_env \<Rightarrow> string \<Rightarrow> LogMessage \<Rightarrow> LogManager \<Rightarrow> nat \<Rightarrow> TimeManager \<Rightarrow> (TimeManager \<times> (nat \<times> string) list) res" where
  "logger_log 0 env raw message w l tm = Inl Diverge"
| "logger_log (Suc depth) env raw message w l tm =
     (if lg_level (w_logger w l) \<le> lm_level message then
        if lg_appenders (w_logger w l) \<noteq> [] then append_all env raw message w (lg_appenders (w_logger w l)) tm
        else logger_log depth env raw message w (m_root w) tm
      else Inr (tm, []))"

subsection \<open>The manager\<close>

record LoggerDefine =
  ld_name :: string
  ld_appender_refs :: "string list"
  ld_level :: LogLevel

definition alloc_logger :: "Logger \<Rightarrow> LogManager \<Rightarrow> nat \<times> LogManager" where
  "alloc_logger lg w = (w_next w, w\<lparr>w_logger := (w_logger w)(w_next w := lg), w_next := Suc (w_next w)\<rparr>)"

definition alloc_appender :: "OutputAppender \<Rightarrow> LogManager \<Rightarrow> nat \<times> LogManager" where
  "alloc_appender ap w = (w_next w, w\<lparr>w_appender := (w_appender w)(w_next w := ap), w_next := Suc (w_next w)\<rparr>)"

definition getLogger :: "string \<Rightarrow> LogManager \<Rightarrow> nat \<times> LogManager" where
  "getLogger name w =
     (if lg_name (w_logger w (m_root w)) = name then (m_root w, w)
      else case map_of (m_loggers w) name of
          Some l \<Rightarrow> (l, w)
        | None \<Rightarrow>
            let (l, w) = alloc_logger (new_Logger\<lparr>lg_name := name\<rparr>) w
            in (l, w\<lparr>m_loggers := AList.update name l (m_loggers w)\<rparr>))"

definition delLogger :: "string \<Rightarrow> LogManager \<Rightarrow> LogManager" where
  "delLogger name w = (case map_of (m_loggers w) name of
       Some l \<Rightarrow> set_logger l (\<lambda>lg. (clearAppender lg)\<lparr>lg_level := LogLevel_OFF\<rparr>) w
     | None \<Rightarrow> w)"

text \<open>The loop over the references: \<open>m_appenders[name]\<close> makes a null entry for a name that is not there.\<close>

fun add_refs :: "(string \<Rightarrow> bool) \<Rightarrow> nat \<Rightarrow> string list \<Rightarrow> LogManager \<Rightarrow> LogManager res" where
  "add_refs can_open l [] w = Inr w"
| "add_refs can_open l (r # refs) w =
     (let w = (if map_of (m_appenders w) r = None then w\<lparr>m_appenders := AList.update r None (m_appenders w)\<rparr> else w)
      in bindE (addAppender can_open (the (map_of (m_appenders w) r)) l w) (add_refs can_open l refs))"

definition updateLogger :: "(string \<Rightarrow> bool) \<Rightarrow> nat \<Rightarrow> LoggerDefine \<Rightarrow> LogManager \<Rightarrow> LogManager res" where
  "updateLogger can_open l ld w =
     add_refs can_open l (ld_appender_refs ld)
       (set_logger l (\<lambda>lg. clearAppender (lg\<lparr>lg_name := ld_name ld, lg_level := ld_level ld\<rparr>)) w)"

definition createLogger :: "(string \<Rightarrow> bool) \<Rightarrow> LoggerDefine \<Rightarrow> LogManager \<Rightarrow> LogManager res" where
  "createLogger can_open ld w =
     (let (l, w) = alloc_logger new_Logger w
      in updateLogger can_open l ld (w\<lparr>m_loggers := AList.update (ld_name ld) l (m_loggers w)\<rparr>))"

definition createOrUpdateLogger :: "(string \<Rightarrow> bool) \<Rightarrow> LoggerDefine \<Rightarrow> LogManager \<Rightarrow> LogManager res" where
  "createOrUpdateLogger can_open ld w = (case map_of (m_loggers w) (ld_name ld) of
       Some l \<Rightarrow> updateLogger can_open l ld w
     | None \<Rightarrow> createLogger can_open ld w)"

text \<open>\<open>getAppender\<close> falls back to the console; \<open>m_appenders[name]\<close> makes an entry there too.\<close>

definition getAppender :: "string \<Rightarrow> LogManager \<Rightarrow> nat option \<times> LogManager" where
  "getAppender name w = (case map_of (m_appenders w) name of
       Some p \<Rightarrow> (p, w)
     | None \<Rightarrow> (case map_of (m_appenders w) ''console'' of
           Some p \<Rightarrow> (p, w)
         | None \<Rightarrow> (None, w\<lparr>m_appenders := AList.update ''console'' None (m_appenders w)\<rparr>)))"

definition delAppender :: "string \<Rightarrow> LogManager \<Rightarrow> LogManager" where
  "delAppender name w =
     (let w = w\<lparr>m_appenders := AList.delete name (m_appenders w)\<rparr>
      in foldr (\<lambda>(_, l). set_logger l (detachAppender w name)) (m_loggers w) w)"

definition createAppender :: "bool \<Rightarrow> LogAppenderDefine \<Rightarrow> LogManager \<Rightarrow> LogManager" where
  "createAppender garbage lad w =
     (let (p, w) = (if lad_type lad = 0 then let (a, w) = alloc_appender (new_OutputAppender garbage ConsoleAppender lad) w in (Some a, w)
                    else if lad_type lad = 1 then let (a, w) = alloc_appender (new_OutputAppender garbage FileAppender lad) w in (Some a, w)
                    else (None, w))
      in w\<lparr>m_appenders := AList.update (lad_name lad) p (m_appenders w)\<rparr>)"

definition updateAppender :: "nat \<Rightarrow> LogAppenderDefine \<Rightarrow> LogManager \<Rightarrow> LogManager" where
  "updateAppender a lad w = w\<lparr>w_appender := (w_appender w)(a := (w_appender w a)\<lparr>ap_name := lad_name lad\<rparr>)\<rparr>"

definition createOrUpdateAppender :: "bool \<Rightarrow> LogAppenderDefine \<Rightarrow> LogManager \<Rightarrow> LogManager res" where
  "createOrUpdateAppender garbage lad w = (case map_of (m_appenders w) (lad_name lad) of
       None \<Rightarrow> Inr (createAppender garbage lad w)
     | Some None \<Rightarrow> Inl NullDeref
     | Some (Some a) \<Rightarrow> Inr (if getType (w_appender w a) \<noteq> lad_type lad then w else updateAppender a lad w))"

text \<open>The constructor of the manager; \<open>w\<close> has the store it starts from.\<close>

definition console_appender :: OutputAppender where
  "console_appender = \<lparr>ap_type = ConsoleAppender, ap_name = ''console'', ap_level = LogLevel_TRACE,
     ap_formatter = Some (new_LogFormatter DEFAULT_PATTERN), ap_file = [], ap_append = True, ap_started = True, ap_open = True\<rparr>"

definition manager_init :: "LogManager \<Rightarrow> LogManager" where
  "manager_init w =
     (let (c, w) = alloc_appender console_appender w;
          w = w\<lparr>m_appenders := [(''console'', Some c)]\<rparr>;
          (r, w) = alloc_logger (new_Logger\<lparr>lg_name := ''root'', lg_appenders := [c]\<rparr>) w;
          (s, w) = alloc_logger (new_Logger\<lparr>lg_name := ''system'', lg_appenders := [c]\<rparr>) w
      in w\<lparr>m_root := r, m_loggers := [(''system'', s)]\<rparr>)"

subsection \<open>A new configuration\<close>

record LogConfigerDefine =
  lc_loggers :: "LoggerDefine list"
  lc_appenders :: "LogAppenderDefine list"

fun merge_appenders :: "bool \<Rightarrow> LogAppenderDefine list \<Rightarrow> LogAppenderDefine list \<Rightarrow> LogManager \<Rightarrow> LogManager res" where
  "merge_appenders garbage [] olds w = Inr w"
| "merge_appenders garbage (n # news) [] w =
     bindE (createOrUpdateAppender garbage n w) (merge_appenders garbage news [])"
| "merge_appenders garbage (n # news) (d # olds) w =
     (if lad_name n < lad_name d then bindE (createOrUpdateAppender garbage n w) (merge_appenders garbage news (d # olds))
      else if lad_name d < lad_name n then merge_appenders garbage (n # news) olds w
      else bindE (createOrUpdateAppender garbage n w) (merge_appenders garbage news olds))"

text \<open>
  The loop over the loggers has an \<open>if\<close> where that over the appenders has \<open>else if\<close>: after \<open>++it3\<close> the same turn
  goes on with the next \<open>*it3\<close>, which may be the end.
\<close>

fun merge_loggers :: "(string \<Rightarrow> bool) \<Rightarrow> LoggerDefine list \<Rightarrow> LoggerDefine list \<Rightarrow> LogManager \<Rightarrow> LogManager res" where
  "merge_loggers can_open [] olds w = Inr (fold (\<lambda>d. delLogger (ld_name d)) olds w)"
| "merge_loggers can_open (n # news) [] w = bindE (createOrUpdateLogger can_open n w) (merge_loggers can_open news [])"
| "merge_loggers can_open (n # news) (d # olds) w =
     (if ld_name n < ld_name d then
        bindE (createOrUpdateLogger can_open n w) (\<lambda>w. case news of
            [] \<Rightarrow> Inl IteratorRange
          | n' # news' \<Rightarrow>
              if ld_name d < ld_name n' then merge_loggers can_open (n' # news') olds (delLogger (ld_name d) w)
              else bindE (createOrUpdateLogger can_open n' w) (merge_loggers can_open news' olds))
      else if ld_name d < ld_name n then merge_loggers can_open (n # news) olds (delLogger (ld_name d) w)
      else bindE (createOrUpdateLogger can_open n w) (merge_loggers can_open news olds))"

definition log_listener :: "bool \<Rightarrow> (string \<Rightarrow> bool) \<Rightarrow> LogConfigerDefine \<Rightarrow> LogConfigerDefine \<Rightarrow> LogManager \<Rightarrow> LogManager res" where
  "log_listener garbage can_open old_val new_val w =
     bindE (merge_appenders garbage (sort_key lad_name (lc_appenders new_val)) (sort_key lad_name (lc_appenders old_val)) w)
       (merge_loggers can_open (sort_key ld_name (lc_loggers new_val)) (sort_key ld_name (lc_loggers old_val)))"

end
