(* ===== verification/LogStream_Props.thy ===== *)
theory LogStream_Props
  imports LogStream
begin

section \<open>What a log stream holds\<close>

subsection \<open>Integers in decimal\<close>

definition show_int :: "int \<Rightarrow> string" where
  "show_int v = (if v < 0 then ''-'' else []) @ show_nat (nat \<bar>v\<bar>)"

lemma digit_cases: "d < 10 \<Longrightarrow> zero_at (int d) = digit d \<and> zero_at (- int d) = digit d"
proof -
  have "list_all (\<lambda>d. zero_at (int d) = digit d \<and> zero_at (- int d) = digit d) [0..<10]" by code_simp
  then show "d < 10 \<Longrightarrow> ?thesis" by (simp add: list_all_iff)
qed

lemma sdiv_smod_10:
  "int n sdiv 10 = int (n div 10)" "int n smod 10 = int (n mod 10)"
  "(- int n) sdiv 10 = - int (n div 10)" "(- int n) smod 10 = - int (n mod 10)"
  by (simp_all add: signed_divide_int_def signed_modulo_int_def sgn_mult sgn_if zdiv_int zmod_int minus_div_mult_eq_mod
      algebra_simps minus_mod_eq_mult_div)

lemma convert_loop_show: "convert_loop (int n) = rev (show_nat n) \<and> convert_loop (- int n) = rev (show_nat n)"
proof (induction n rule: show_nat.induct)
  case (1 n)
  have d: "zero_at (int (n mod 10)) = digit (n mod 10)" "zero_at (- int (n mod 10)) = digit (n mod 10)"
    using digit_cases [of "n mod 10"] by simp_all
  have pos: "convert_loop (int n) = zero_at (int (n mod 10)) # (if int (n div 10) \<noteq> 0 then convert_loop (int (n div 10)) else [])"
    and neg: "convert_loop (- int n) = zero_at (- int (n mod 10)) # (if - int (n div 10) \<noteq> 0 then convert_loop (- int (n div 10)) else [])"
    by (subst convert_loop.simps, simp only: sdiv_smod_10)+
  show ?case
  proof (cases "n < 10")
    case True
    then have "n div 10 = 0" "n mod 10 = n" by simp_all
    with True d show ?thesis unfolding pos neg show_nat.simps [of n] by simp
  next
    case False
    then have "n div 10 \<noteq> 0" by (simp add: div_eq_0_iff)
    then have "int (n div 10) \<noteq> 0" "- int (n div 10) \<noteq> 0" by linarith+
    with 1 [OF False] False d show ?thesis unfolding pos neg show_nat.simps [of n] by (simp only: if_True if_False rev_append) simp
  qed
qed

lemma convert_show: "convert v = show_int v"
proof (cases "v < 0")
  case True
  then have "v = - int (nat (- v))" "\<bar>v\<bar> = - v" by simp_all
  with True convert_loop_show [of "nat (- v)"] show ?thesis by (simp add: convert_def show_int_def)
next
  case False
  with convert_loop_show [of "nat v"] show ?thesis by (simp add: convert_def show_int_def)
qed

lemma show_int_length: "- (2 ^ 63) \<le> v \<Longrightarrow> v < 2 ^ 64 \<Longrightarrow> length (show_int v) \<le> 20"
proof -
  assume v: "- (2 ^ 63) \<le> v" "v < 2 ^ 64"
  have "length (show_nat (nat \<bar>v\<bar>)) \<le> (if v < 0 then 19 else 20)"
    using v by (auto intro!: show_nat_length simp: nat_less_iff)
  then show ?thesis by (auto simp: show_int_def split: if_splits)
qed

subsection \<open>One piece of text\<close>

definition fb_ok :: "FixedBuffer \<Rightarrow> bool" where
  "fb_ok b \<longleftrightarrow> fb_cur b \<le> length (fb_data b) \<and> length (fb_data b) < 2 ^ 31"

definition room :: "FixedBuffer \<Rightarrow> nat" where
  "room b = length (fb_data b) - fb_cur b"

text \<open>\<open>b'\<close> is \<open>b\<close> with the text \<open>s\<close> after what it held.\<close>

definition holds_more :: "FixedBuffer \<Rightarrow> string \<Rightarrow> FixedBuffer \<Rightarrow> bool" where
  "holds_more b s b' \<longleftrightarrow> fb_ok b' \<and> length (fb_data b') = length (fb_data b) \<and> fb_cur b' = fb_cur b + length s
     \<and> fb_toString b' = fb_toString b @ s"

lemma fb_avail_room: "fb_ok b \<Longrightarrow> fb_avail b = int (room b)"
  by (auto simp: fb_avail_def fb_ok_def room_def simp flip: of_nat_diff intro!: to_int_id)

lemma holds_more_refl: "fb_ok b \<Longrightarrow> holds_more b [] b"
  by (simp add: holds_more_def)

lemma holds_more_trans: "holds_more b s b' \<Longrightarrow> holds_more b' t b'' \<Longrightarrow> holds_more b (s @ t) b''"
  by (simp add: holds_more_def)

lemma holds_more_room: "holds_more b s b' \<Longrightarrow> room b' = room b - length s"
  by (simp add: holds_more_def room_def)

lemma fb_write_keep:
  assumes "fb_ok b" and "length s + length t \<le> room b"
  shows "\<exists>b'. fb_write (s @ t) b = Inr b' \<and> holds_more b s (fb_add (length s) b')"
  using assms
  by (auto simp: fb_write_def room_def fb_ok_def holds_more_def fb_add_def fb_toString_def overwrite_def min_def)

lemma fb_append_spec:
  assumes "fb_ok b" and "len \<le> length buf" and "len < 2 ^ 31"
  shows "\<exists>b'. fb_append buf len b = Inr b' \<and> holds_more b (if len \<le> room b then take len buf else []) b'"
proof (cases "len \<le> room b")
  case True
  obtain b' where "fb_write (take len buf @ []) b = Inr b'" "holds_more b (take len buf) (fb_add (length (take len buf)) b')"
    using fb_write_keep [OF assms(1), of "take len buf" "[]"] True assms(2) by auto
  with True assms show ?thesis by (auto simp: fb_append_def fb_avail_room min_absorb2)
next
  case False
  with assms show ?thesis by (simp add: fb_append_def fb_avail_room holds_more_refl)
qed

lemma formatInteger_spec:
  assumes "fb_ok b" and "- (2 ^ 63) \<le> v" and "v < 2 ^ 64"
  shows "\<exists>b'. formatInteger v b = Inr b' \<and> holds_more b (if kMaxNumericSize \<le> room b then show_int v else []) b'"
proof (cases "kMaxNumericSize \<le> room b")
  case True
  have "length (show_int v) + length [NUL] \<le> room b"
    using show_int_length [OF assms(2,3)] True by (simp add: kMaxNumericSize_def)
  from fb_write_keep [OF assms(1) this] True assms(1) show ?thesis
    by (auto simp: formatInteger_def fb_avail_room convert_show)
next
  case False
  with assms(1) show ?thesis by (simp add: formatInteger_def fb_avail_room holds_more_refl)
qed

lemma log_double_spec:
  assumes "fb_ok b" and "length printed < kMaxNumericSize"
  shows "\<exists>b'. log_double printed b = Inr b' \<and> holds_more b (if kMaxNumericSize \<le> room b then printed else []) b'"
proof (cases "kMaxNumericSize \<le> room b")
  case True
  have "length printed + length [NUL] \<le> room b" using assms(2) True by simp
  from fb_write_keep [OF assms(1) this] True assms show ?thesis
    by (auto simp: log_double_def fb_avail_room)
next
  case False
  with assms(1) show ?thesis by (simp add: log_double_def fb_avail_room holds_more_refl)
qed

subsection \<open>A chain of operands\<close>

text \<open>The text of an operand, the room it asks for, and the operands a program may write.\<close>

fun operand_text :: "operand \<Rightarrow> string" where
  "operand_text (OBool v) = (if v then ''1'' else ''0'')"
| "operand_text (OInt v) = show_int v"
| "operand_text (OChar c) = [c]"
| "operand_text (OCstr str) = (case str of None \<Rightarrow> ''(null)'' | Some mem \<Rightarrow> c_str mem)"
| "operand_text (OString v) = v"
| "operand_text (ODouble printed) = printed"

fun operand_need :: "operand \<Rightarrow> nat" where
  "operand_need (OInt v) = kMaxNumericSize"
| "operand_need (ODouble printed) = kMaxNumericSize"
| "operand_need x = length (operand_text x)"

fun operand_ok :: "operand \<Rightarrow> bool" where
  "operand_ok (OInt v) \<longleftrightarrow> - (2 ^ 63) \<le> v \<and> v < 2 ^ 64"
| "operand_ok (OCstr (Some mem)) \<longleftrightarrow> NUL \<in> set mem \<and> length (c_str mem) < 2 ^ 31"
| "operand_ok (OString v) \<longleftrightarrow> length v < 2 ^ 31"
| "operand_ok (ODouble printed) \<longleftrightarrow> length printed < kMaxNumericSize"
| "operand_ok x \<longleftrightarrow> True"

text \<open>What a chain leaves in a buffer with \<open>n\<close> free bytes: every operand that finds the room it asks for.\<close>

fun kept_text :: "nat \<Rightarrow> operand list \<Rightarrow> string" where
  "kept_text n [] = []"
| "kept_text n (x # xs) =
     (if operand_need x \<le> n then operand_text x @ kept_text (n - length (operand_text x)) xs else kept_text n xs)"

lemma c_str_length: "length (c_str mem) \<le> length mem"
  by (simp add: c_str_def length_takeWhile_le)

lemma c_str_take: "take (length (c_str mem)) mem = c_str mem"
  by (simp add: c_str_def takeWhile_eq_take [symmetric])

lemma log_operand_spec:
  assumes "fb_ok b" and "operand_ok x"
  shows "\<exists>b'. log_operand x b = Inr b' \<and> holds_more b (if operand_need x \<le> room b then operand_text x else []) b'"
proof (cases x)
  case (OBool v)
  show ?thesis using fb_append_spec [OF assms(1), of 1 "''1''"] fb_append_spec [OF assms(1), of 1 "''0''"]
    by (cases v) (simp_all add: OBool log_bool_def split: if_splits)
next
  case (OInt v)
  show ?thesis using formatInteger_spec [OF assms(1), of v] assms(2) by (simp add: OInt split: if_splits)
next
  case (OChar c)
  show ?thesis using fb_append_spec [OF assms(1), of 1 "[c]"] by (simp add: OChar log_char_def split: if_splits)
next
  case (OCstr str)
  show ?thesis
  proof (cases str)
    case None
    have six: "operand_need x = 6" "operand_text x = take 6 ''(null)''" by (simp_all add: OCstr None)
    have "6 \<le> length ''(null)''" "(6::nat) < 2 ^ 31" by simp_all
    from fb_append_spec [OF assms(1) this] show ?thesis unfolding six by (simp add: OCstr None log_cstr_def)
  next
    case (Some mem)
    show ?thesis using fb_append_spec [OF assms(1) c_str_length, of mem] assms(2)
      by (simp add: OCstr Some log_cstr_def c_str_take split: if_splits)
  qed
next
  case (OString v)
  show ?thesis using fb_append_spec [OF assms(1), of "length v" v] assms(2) by (simp add: OString log_string_def split: if_splits)
next
  case (ODouble printed)
  show ?thesis using log_double_spec [OF assms(1), of printed] assms(2) by (simp add: ODouble split: if_splits)
qed

lemma log_operands_spec:
  "fb_ok b \<Longrightarrow> \<forall>x \<in> set xs. operand_ok x \<Longrightarrow> \<exists>b'. log_operands xs b = Inr b' \<and> holds_more b (kept_text (room b) xs) b'"
proof (induction xs arbitrary: b)
  case Nil
  then show ?case by (simp add: holds_more_refl)
next
  case (Cons x xs)
  obtain b1 where b1: "log_operand x b = Inr b1" "holds_more b (if operand_need x \<le> room b then operand_text x else []) b1"
    using log_operand_spec [of b x] Cons.prems by auto
  then have "fb_ok b1" by (simp add: holds_more_def)
  with Cons obtain b2 where "log_operands xs b1 = Inr b2" "holds_more b1 (kept_text (room b1) xs) b2" by auto
  with b1 holds_more_trans [OF b1(2)] holds_more_room [OF b1(2)] show ?case by auto
qed

text \<open>With 48 bytes to spare nothing is dropped.\<close>

lemma operand_need_bound: "operand_need x \<le> max kMaxNumericSize (length (operand_text x))"
  by (cases x) auto

lemma kept_text_all:
  "length (concat (map operand_text xs)) + kMaxNumericSize \<le> n \<Longrightarrow> kept_text n xs = concat (map operand_text xs)"
proof (induction xs arbitrary: n)
  case (Cons x xs)
  have "operand_need x \<le> n" using operand_need_bound [of x] Cons.prems by simp
  with Cons show ?case by simp
qed simp

lemma kept_text_length: "(\<And>x. x \<in> set xs \<Longrightarrow> operand_ok x) \<Longrightarrow> length (kept_text n xs) \<le> n"
proof (induction xs arbitrary: n)
  case (Cons x xs)
  have "length (operand_text x) \<le> operand_need x"
    using Cons.prems [of x] by (cases x) (auto intro: order_trans [OF show_int_length] simp: kMaxNumericSize_def)
  with Cons.IH [OF Cons.prems, of n] Cons.IH [OF Cons.prems, of "n - length (operand_text x)"] show ?case by auto
qed simp

subsection \<open>Properties\<close>

text \<open>
  C30: a chain of operands on a fresh log stream never writes past the array of 4000 bytes: the stream holds in order the
  texts of the operands that found room, numbers in decimal, and all of them when the whole text leaves 48
  bytes free.
\<close>

theorem log_stream_text:
  assumes "length raw = kSmallBuffer" and "\<forall>x \<in> set xs. operand_ok x"
  shows "\<exists>b. log_operands xs (new_FixedBuffer raw) = Inr b \<and> fb_cur b \<le> kSmallBuffer
    \<and> fb_toString b = kept_text kSmallBuffer xs
    \<and> (length (concat (map operand_text xs)) + kMaxNumericSize \<le> kSmallBuffer \<longrightarrow> fb_toString b = concat (map operand_text xs))"
proof -
  let ?b = "new_FixedBuffer raw"
  have ok: "fb_ok ?b" and r: "room ?b = kSmallBuffer" and t: "fb_toString ?b = []"
    using assms(1) by (simp_all add: new_FixedBuffer_def fb_ok_def room_def fb_toString_def kSmallBuffer_def)
  obtain b where b: "log_operands xs ?b = Inr b" "holds_more ?b (kept_text kSmallBuffer xs) b"
    using log_operands_spec [OF ok assms(2)] r by auto
  then have "fb_toString b = kept_text kSmallBuffer xs" by (simp add: holds_more_def t)
  moreover have "fb_cur b \<le> kSmallBuffer" using b(2) assms(1) by (simp add: holds_more_def fb_ok_def new_FixedBuffer_def)
  ultimately show ?thesis using b(1) kept_text_all by auto
qed

theorem log_stream_text_witness:
  "\<exists>b. log_operands [OString ''fd='', OInt (- 17), OCstr None, OBool True] (new_FixedBuffer (replicate kSmallBuffer NUL)) = Inr b
     \<and> fb_toString b = ''fd=-17(null)1''"
proof -
  have "kept_text 4000 [OString ''fd='', OInt (- 17), OCstr None, OBool True] = ''fd=-17(null)1''" by code_simp
  then show ?thesis
    using log_stream_text [of "replicate kSmallBuffer NUL" "[OString ''fd='', OInt (- 17), OCstr None, OBool True]"]
    by (auto simp: kSmallBuffer_def)
qed

text \<open>
  The room is compared as an \<open>int\<close>: a string of 2 to 4 gigabytes has a negative length there, is taken to fit
  into any buffer and is copied past its end.
\<close>

lemma log_string_overrun:
  assumes "fb_ok b" and "2 ^ 31 \<le> length v" and "length v < 2 ^ 32"
  shows "log_string v b = Inl HeapOverflow"
proof -
  have "to_int (int (length v)) < 0" using assms by (intro to_int_negative) auto
  then have "to_int (int (length v)) \<le> fb_avail b" using fb_avail_room [OF assms(1)] by simp
  moreover have "\<not> fb_cur b + length v \<le> length (fb_data b)" using assms by (simp add: fb_ok_def)
  ultimately show ?thesis by (simp add: log_string_def fb_append_def fb_write_def)
qed

lemma log_string_overrun_witness:
  "log_string (replicate (2 ^ 31) CHR ''a'') (new_FixedBuffer (replicate kSmallBuffer NUL)) = Inl HeapOverflow"
  by (rule log_string_overrun) (simp_all add: fb_ok_def new_FixedBuffer_def kSmallBuffer_def)

end
