(* ===== verification/LogFormatter_Props.thy ===== *)
theory LogFormatter_Props
  imports LogFormatter LogStream_Props
begin

section \<open>What a log line says\<close>

text \<open>
  The reference is the substitution that a pattern stands for, character by character; the compiled items run
  as the chain of operands \<open>item_operand\<close>.
\<close>

subsection \<open>The substitution\<close>

definition item_operand :: "log_env \<Rightarrow> LogMessage \<Rightarrow> FormatItem \<Rightarrow> operand" where
  "item_operand env event item = (case item of
       LevelFormatItem \<Rightarrow> OString (Level_ToString (lm_level event))
     | FileNameFormatItem \<Rightarrow> OString (take (nat (fn_size (lm_file event))) (fn_data (lm_file event)))
     | LineFormatItem \<Rightarrow> OInt (uint (lm_line event))
     | DateTimeFormatItem \<Rightarrow> OString (le_localtime env (sint (lm_time event)))
     | ThreadIdFormatItem \<Rightarrow> OInt (le_thread_id env)
     | ThreadNameFormatItem \<Rightarrow> OString (le_thread_name env)
     | MessageFormatItem \<Rightarrow> OString (fb_toString (lm_stream event))
     | NewLineFormatItem \<Rightarrow> OChar (CHR 0x0A)
     | PercentSignFormatItem \<Rightarrow> OChar (CHR ''%'')
     | TabFormatItem \<Rightarrow> OChar (CHR 0x09)
     | ElapseFormatItem \<Rightarrow> OInt 0
     | NameFormatItem \<Rightarrow> OString (lm_name event)
     | StringFormatItem str \<Rightarrow> OString str)"

abbreviation item_text :: "log_env \<Rightarrow> LogMessage \<Rightarrow> FormatItem \<Rightarrow> string" where
  "item_text env event item \<equiv> operand_text (item_operand env event item)"

definition field_text :: "log_env \<Rightarrow> LogMessage \<Rightarrow> char \<Rightarrow> string" where
  "field_text env event c = (case format_item_map c of None \<Rightarrow> ''<error format>'' | Some item \<Rightarrow> item_text env event item)"

text \<open>A percent sign at the very end stands for nothing.\<close>

fun expand :: "log_env \<Rightarrow> LogMessage \<Rightarrow> string \<Rightarrow> string" where
  "expand env event [] = []"
| "expand env event [c] = (if c = CHR ''%'' then [] else [c])"
| "expand env event (c # d # cs) =
     (if c = CHR ''%'' then field_text env event d @ expand env event cs else c # expand env event (d # cs))"

definition items_text :: "log_env \<Rightarrow> LogMessage \<Rightarrow> FormatItem list \<Rightarrow> string" where
  "items_text env event items = concat (map (item_text env event) items)"

lemma items_text_snoc: "items_text env event (items @ [i]) = items_text env event items @ item_text env event i"
  by (simp add: items_text_def)

lemma string_item_text: "item_text env event (StringFormatItem s) = s"
  by (simp add: item_operand_def)

lemma expand_plain: "c \<noteq> CHR ''%'' \<Longrightarrow> expand env event (c # cs) = c # expand env event cs"
  by (cases cs) simp_all

lemma expand_percent:
  "expand env event (CHR ''%'' # cs) = (case cs of [] \<Rightarrow> [] | d # ds \<Rightarrow> field_text env event d @ expand env event ds)"
  by (cases cs) simp_all

subsection \<open>The compiler finds the fields\<close>

lemma scan_end_le: "j \<le> length pattern \<Longrightarrow> scan_end pattern j \<le> length pattern"
  by (induction pattern j rule: scan_end.induct) (subst scan_end.simps, auto)

lemma scan_end_percent: "scan_end pattern j < length pattern \<Longrightarrow> pattern ! scan_end pattern j = CHR ''%''"
proof (induction pattern j rule: scan_end.induct)
  case (1 pattern j)
  then show ?case by (subst scan_end.simps, subst (asm) (2) scan_end.simps) (auto split: if_splits)
qed

lemma expand_scan:
  "j \<le> length pattern \<Longrightarrow> expand env event (drop j pattern)
     = take (scan_end pattern j - j) (drop j pattern) @ expand env event (drop (scan_end pattern j) pattern)"
proof (induction pattern j rule: scan_end.induct)
  case (1 pattern j)
  show ?case
  proof (cases "j < length pattern \<and> pattern ! j \<noteq> CHR ''%''")
    case True
    then have e: "scan_end pattern j = scan_end pattern (Suc j)" by (subst scan_end.simps) simp
    have d: "drop j pattern = pattern ! j # drop (Suc j) pattern" using True by (simp add: Cons_nth_drop_Suc)
    have "Suc (scan_end pattern (Suc j) - Suc j) = scan_end pattern (Suc j) - j"
      using scan_end_ge [of "Suc j" pattern] by simp
    then have "take (scan_end pattern (Suc j) - j) (drop j pattern)
        = pattern ! j # take (scan_end pattern (Suc j) - Suc j) (drop (Suc j) pattern)"
      using d by (metis take_Suc_Cons)
    moreover have "expand env event (drop j pattern) = pattern ! j # expand env event (drop (Suc j) pattern)"
      unfolding d using True by (simp add: expand_plain)
    ultimately show ?thesis using 1 True by (simp add: e)
  next
    case False
    then have "scan_end pattern j = j" by (subst scan_end.simps) auto
    then show ?thesis by simp
  qed
qed

lemma init_loop_text:
  "items_text env event (fst (init_loop pattern i status items err)) = items_text env event items
     @ (case status of SCAN_STATUS \<Rightarrow> expand env event (drop i pattern)
        | CREATE_STATUS \<Rightarrow> expand env event (CHR ''%'' # drop i pattern))"
proof (induction pattern i status items err rule: init_loop.induct)
  case (1 pattern i status items err)
  show ?case
  proof (cases "i < length pattern")
    case False
    then show ?thesis by (subst init_loop.simps) (auto split: PARSE_STATUS.splits)
  next
    case True
    show ?thesis
    proof (cases status)
      case SCAN_STATUS
      let ?e = "scan_end pattern i"
      have step: "init_loop pattern i status items err
          = init_loop pattern (Suc ?e) (if ?e < length pattern then CREATE_STATUS else SCAN_STATUS)
              (items @ [StringFormatItem (take (?e - i) (drop i pattern))]) err"
        using True SCAN_STATUS by (subst init_loop.simps) (simp add: Let_def)
      have "drop ?e pattern = (if ?e < length pattern then CHR ''%'' # drop (Suc ?e) pattern else [])"
        using scan_end_percent [of pattern i] by (simp add: Cons_nth_drop_Suc [symmetric])
      then show ?thesis unfolding step
        using 1(1) [OF True SCAN_STATUS refl] expand_scan [of i pattern env event] True
        by (simp add: SCAN_STATUS items_text_snoc string_item_text split: if_splits)
    next
      case CREATE_STATUS
      have d: "drop i pattern = pattern ! i # drop (Suc i) pattern" using True by (simp add: Cons_nth_drop_Suc)
      show ?thesis
      proof (cases "format_item_map (pattern ! i)")
        case None
        then show ?thesis using 1(2) [OF True CREATE_STATUS None] True
          by (subst init_loop.simps) (simp add: CREATE_STATUS d field_text_def items_text_snoc string_item_text expand_percent)
      next
        case (Some item)
        then show ?thesis using 1(3) [OF True CREATE_STATUS Some] True
          by (subst init_loop.simps) (simp add: CREATE_STATUS d field_text_def items_text_snoc expand_percent)
      qed
    qed
  qed
qed

lemma formatter_items_text: "items_text env event (m_items (new_LogFormatter pattern)) = expand env event pattern"
  using init_loop_text [of env event pattern 0 SCAN_STATUS "[]" False]
  by (simp add: new_LogFormatter_def items_text_def case_prod_beta)

subsection \<open>The items run\<close>

definition tm_ok :: "log_env \<Rightarrow> TimeManager \<Rightarrow> bool" where
  "tm_ok env tm \<longleftrightarrow> tm_lastTimeString tm = le_localtime env (tm_lastSeconds tm)"

definition event_ok :: "log_env \<Rightarrow> LogMessage \<Rightarrow> bool" where
  "event_ok env event \<longleftrightarrow> fb_ok (lm_stream event) \<and> length (fn_data (lm_file event)) < 2 ^ 31
     \<and> nat (fn_size (lm_file event)) \<le> length (fn_data (lm_file event)) \<and> length (lm_name event) < 2 ^ 31
     \<and> - (2 ^ 31) \<le> le_thread_id env \<and> le_thread_id env < 2 ^ 31 \<and> length (le_thread_name env) < 2 ^ 31
     \<and> length (le_localtime env (sint (lm_time event))) < 2 ^ 31"

lemma getTimeString_ok:
  "tm_ok env tm \<Longrightarrow> \<exists>tm'. getTimeString env s tm = (le_localtime env s, tm') \<and> tm_ok env tm'"
  by (auto simp: getTimeString_def formatString_def tm_ok_def)

lemma fb_append_take: "n \<le> length buf \<Longrightarrow> fb_append buf n b = fb_append (take n buf) n b"
  by (simp add: fb_append_def)

lemma item_runs:
  assumes "tm_ok env tm" and "event_ok env event"
  shows "\<exists>tm'. tm_ok env tm' \<and> item_format env event item (tm, b)
    = bindE (log_operand (item_operand env event item) b) (\<lambda>b. Inr (tm', b))"
proof (cases item)
  case DateTimeFormatItem
  with getTimeString_ok [OF assms(1), of "sint (lm_time event)"] show ?thesis by (auto simp: item_operand_def)
next
  case FileNameFormatItem
  with assms show ?thesis
    by (auto simp: item_operand_def log_file_def log_string_def event_ok_def min_absorb2 fb_append_take [of _ "fn_data (lm_file event)"])
next
  case MessageFormatItem
  with assms show ?thesis
    by (auto simp: item_operand_def log_stream_def log_string_def event_ok_def fb_ok_def fb_toString_def min_absorb2
        fb_append_take [of _ "fb_data (lm_stream event)"])
qed (use assms in \<open>auto simp: item_operand_def log_string_def\<close>)

lemma items_run:
  assumes "event_ok env event"
  shows "tm_ok env tm \<Longrightarrow> \<exists>tm'. tm_ok env tm' \<and> items_format env event items (tm, b)
    = bindE (log_operands (map (item_operand env event) items) b) (\<lambda>b. Inr (tm', b))"
proof (induction items arbitrary: tm b)
  case (Cons i items)
  obtain tm1 where t1: "tm_ok env tm1" "item_format env event i (tm, b) = bindE (log_operand (item_operand env event i) b) (\<lambda>b. Inr (tm1, b))"
    using item_runs [OF Cons.prems assms] by blast
  show ?case
  proof (cases "log_operand (item_operand env event i) b")
    case (Inl e)
    with t1 show ?thesis by auto
  next
    case (Inr b1)
    with Cons.IH [OF t1(1), of b1] t1 show ?thesis by auto
  qed
qed auto

text \<open>Every operand of a compiled pattern is one the stream can take.\<close>

lemma level_text_short: "length (Level_ToString l) \<le> 7"
  by (cases l) simp_all

definition pattern_item :: "string \<Rightarrow> FormatItem \<Rightarrow> bool" where
  "pattern_item pattern item \<longleftrightarrow> (\<forall>s. item = StringFormatItem s \<longrightarrow> length s \<le> length pattern + 14)"

lemma format_item_map_field: "format_item_map c = Some item \<Longrightarrow> pattern_item pattern item"
  by (auto simp: format_item_map_def pattern_item_def split: if_splits)

lemma init_loop_items:
  "\<forall>it \<in> set items. pattern_item pattern it \<Longrightarrow>
   \<forall>it \<in> set (fst (init_loop pattern i status items err)). pattern_item pattern it"
proof (induction pattern i status items err rule: init_loop.induct)
  case (1 pattern i status items err)
  show ?case
  proof (cases "i < length pattern")
    case False
    with 1(4) show ?thesis by (subst init_loop.simps) simp
  next
    case True
    show ?thesis
    proof (cases status)
      case SCAN_STATUS
      show ?thesis using True 1(1) [OF True SCAN_STATUS refl] 1(4)
        by (subst init_loop.simps) (simp add: Let_def SCAN_STATUS pattern_item_def)
    next
      case CREATE_STATUS
      show ?thesis
      proof (cases "format_item_map (pattern ! i)")
        case None
        with True 1(2) [OF True CREATE_STATUS None] 1(4) show ?thesis
          by (subst init_loop.simps) (simp add: CREATE_STATUS pattern_item_def)
      next
        case (Some item)
        with True 1(3) [OF True CREATE_STATUS Some] 1(4) format_item_map_field [OF Some] show ?thesis
          by (subst init_loop.simps) (simp add: CREATE_STATUS)
      qed
    qed
  qed
qed

lemma item_operand_ok:
  assumes "event_ok env event" and "pattern_item pattern item" and "length pattern + 14 < 2 ^ 31"
  shows "operand_ok (item_operand env event item)"
  using assms level_text_short [of "lm_level event"] uint_lt2p [of "lm_line event"]
  by (cases item) (auto simp: item_operand_def event_ok_def pattern_item_def fb_ok_def fb_toString_def
      intro: order_trans [OF _ uint_ge_0])

lemma formatter_runs:
  assumes "event_ok env event" and "tm_ok env tm" and "fb_ok b" and "length pattern + 14 < 2 ^ 31"
  shows "\<exists>tm' b'. formatter_format env (new_LogFormatter pattern) event (tm, b) = Inr (tm', b') \<and> tm_ok env tm'
    \<and> holds_more b (kept_text (room b) (map (item_operand env event) (m_items (new_LogFormatter pattern)))) b'"
proof -
  let ?ops = "map (item_operand env event) (m_items (new_LogFormatter pattern))"
  have "\<forall>x \<in> set ?ops. operand_ok x"
    using init_loop_items [of "[]" pattern 0 SCAN_STATUS False] item_operand_ok [OF assms(1) _ assms(4)]
    by (auto simp: new_LogFormatter_def case_prod_beta)
  from log_operands_spec [OF assms(3) this] items_run [OF assms(1,2), of "m_items (new_LogFormatter pattern)" b]
  show ?thesis unfolding formatter_format_def by fastforce
qed

text \<open>A message of level \<open>WARN\<close>, for the examples.\<close>

definition demo_env :: log_env where
  "demo_env = \<lparr>le_thread_id = 77, le_thread_name = ''worker'', le_localtime = (\<lambda>s. ''1970-01-01 00:00:00'')\<rparr>"

definition demo_event :: LogMessage where
  "demo_event = \<lparr>lm_file = FileName_array (''net/Hook.cpp'' @ [NUL]), lm_level = LogLevel_WARN, lm_line = 42, lm_time = 0,
     lm_name = ''system'', lm_stream = \<lparr>fb_data = ''timed out....'', fb_cur = 9\<rparr>\<rparr>"

definition demo_time :: TimeManager where
  "demo_time = \<lparr>tm_lastTimeString = ''1970-01-01 00:00:00'', tm_lastSeconds = 5\<rparr>"

lemma demo_ok: "event_ok demo_env demo_event" "tm_ok demo_env demo_time"
  by (simp_all add: event_ok_def tm_ok_def demo_env_def demo_time_def demo_event_def FileName_array_def c_str_def NUL_def fb_ok_def)

definition demo_line :: string where
  "demo_line = ''1970-01-01 00:00:00'' @ [CHR 0x09] @ ''77 worker'' @ [CHR 0x09] @ ''[system] [WARN] Hook.cpp:42'' @ [CHR 0x09]
     @ ''timed out'' @ [CHR 0x0A]"

lemma demo_line: "expand demo_env demo_event DEFAULT_PATTERN = demo_line"
  by code_simp

subsection \<open>Properties\<close>



end
