(* ===== verification/LogManager_Props.thy ===== *)
theory LogManager_Props
  imports LogManager LogFormatter_Props
begin

section \<open>What a configuration of the log does\<close>

subsection \<open>Invariant and references\<close>

text \<open>The pointers of the manager are allocated and different; the root logger is not in its map.\<close>

definition mgr_ok :: "LogManager \<Rightarrow> bool" where
  "mgr_ok w \<longleftrightarrow> distinct (map fst (m_loggers w)) \<and> distinct (m_root w # map snd (m_loggers w))
     \<and> (\<forall>l \<in> set (m_root w # map snd (m_loggers w)). l < w_next w)
     \<and> (\<forall>p \<in> set (m_appenders w). \<forall>a. snd p = Some a \<longrightarrow> a < w_next w)"

definition ready :: "OutputAppender \<Rightarrow> bool" where
  "ready ap \<longleftrightarrow> ap_started ap \<and> ap_open ap"

definition usable :: "(string \<Rightarrow> bool) \<Rightarrow> OutputAppender \<Rightarrow> bool" where
  "usable can_open ap \<longleftrightarrow> (if ap_started ap then ap_open ap
     else ap_formatter ap \<noteq> None \<and> (case ap_type ap of ConsoleAppender \<Rightarrow> ap_open ap | FileAppender \<Rightarrow> can_open (ap_file ap)))"

definition ref_ok :: "(string \<Rightarrow> bool) \<Rightarrow> LogManager \<Rightarrow> string \<Rightarrow> bool" where
  "ref_ok can_open w r \<longleftrightarrow> (\<exists>a. map_of (m_appenders w) r = Some (Some a) \<and> usable can_open (w_appender w a))"

definition resolved :: "LogManager \<Rightarrow> string \<Rightarrow> nat" where
  "resolved w r = the (the (map_of (m_appenders w) r))"

definition configured :: "LogManager \<Rightarrow> LoggerDefine \<Rightarrow> bool" where
  "configured w ld \<longleftrightarrow> (\<exists>l. map_of (m_loggers w) (ld_name ld) = Some l \<and> w_logger w l =
     \<lparr>lg_name = ld_name ld, lg_level = ld_level ld, lg_appenders = map (resolved w) (ld_appender_refs ld)\<rparr>)
     \<and> (\<forall>r \<in> set (ld_appender_refs ld). ready (w_appender w (resolved w r)))"

text \<open>Between the two worlds appenders have at most been started, and the maps are the same.\<close>

definition started_of :: "OutputAppender \<Rightarrow> OutputAppender \<Rightarrow> bool" where
  "started_of ap ap' \<longleftrightarrow> ap' = ap \<or> ap' = ap\<lparr>ap_started := True, ap_open := True\<rparr>"

definition same_maps :: "LogManager \<Rightarrow> LogManager \<Rightarrow> bool" where
  "same_maps w w' \<longleftrightarrow> m_appenders w' = m_appenders w \<and> m_loggers w' = m_loggers w \<and> m_root w' = m_root w \<and> w_next w' = w_next w
     \<and> (\<forall>a. started_of (w_appender w a) (w_appender w' a))"

lemma started_of_refl [simp]: "started_of ap ap"
  by (simp add: started_of_def)

lemma started_of_trans: "started_of a b \<Longrightarrow> started_of b c \<Longrightarrow> started_of a c"
  by (auto simp: started_of_def)

lemma started_of_usable: "started_of ap ap' \<Longrightarrow> usable can_open ap \<Longrightarrow> usable can_open ap'"
  by (auto simp: started_of_def usable_def split: if_splits appender_type.splits)

lemma started_of_ready: "started_of ap ap' \<Longrightarrow> ready ap \<Longrightarrow> ready ap'"
  by (auto simp: started_of_def ready_def)

lemma same_maps_refl [simp]: "same_maps w w"
  by (simp add: same_maps_def)

lemma same_maps_trans: "same_maps w w' \<Longrightarrow> same_maps w' w'' \<Longrightarrow> same_maps w w''"
  by (auto simp: same_maps_def intro: started_of_trans)

lemma same_maps_ref: "same_maps w w' \<Longrightarrow> ref_ok can_open w r \<Longrightarrow> ref_ok can_open w' r"
  by (auto simp: same_maps_def ref_ok_def intro: started_of_usable)

lemma same_maps_set_logger [simp]: "same_maps w (set_logger l f w)"
  by (simp add: same_maps_def set_logger_def)

lemma resolved_same: "m_appenders w' = m_appenders w \<Longrightarrow> resolved w' = resolved w"
  by (simp add: resolved_def fun_eq_iff)

lemma same_maps_resolved: "same_maps w w' \<Longrightarrow> resolved w' = resolved w"
  by (rule resolved_same) (simp add: same_maps_def)

subsection \<open>Single operations\<close>

lemma addAppender_ok:
  assumes "usable can_open (w_appender w a)"
  shows "\<exists>w'. addAppender can_open (Some a) l w = Inr w' \<and> same_maps w w'
    \<and> w_logger w' = (w_logger w)(l := (w_logger w l)\<lparr>lg_appenders := lg_appenders (w_logger w l) @ [a]\<rparr>)
    \<and> ready (w_appender w' a)"
  using assms
  by (auto simp: addAppender_def appender_start_def output_start_def usable_def ready_def same_maps_def set_logger_def started_of_def
      split: appender_type.splits if_splits)

lemma add_refs_ok:
  "\<forall>r \<in> set refs. ref_ok can_open w r \<Longrightarrow> \<exists>w'. add_refs can_open l refs w = Inr w' \<and> same_maps w w'
    \<and> w_logger w' = (w_logger w)(l := (w_logger w l)\<lparr>lg_appenders := lg_appenders (w_logger w l) @ map (resolved w) refs\<rparr>)
    \<and> (\<forall>r \<in> set refs. ready (w_appender w' (resolved w r)))"
proof (induction refs arbitrary: w)
  case (Cons r refs)
  obtain a where a: "map_of (m_appenders w) r = Some (Some a)" "usable can_open (w_appender w a)"
    using Cons.prems by (auto simp: ref_ok_def)
  obtain w1 where w1: "addAppender can_open (Some a) l w = Inr w1" "same_maps w w1"
      "w_logger w1 = (w_logger w)(l := (w_logger w l)\<lparr>lg_appenders := lg_appenders (w_logger w l) @ [a]\<rparr>)"
      "ready (w_appender w1 a)"
    using addAppender_ok [OF a(2)] by blast
  have "\<forall>r \<in> set refs. ref_ok can_open w1 r" using Cons.prems same_maps_ref [OF w1(2)] by simp
  from Cons.IH [OF this] obtain w2 where w2: "add_refs can_open l refs w1 = Inr w2" "same_maps w1 w2"
      "w_logger w2 = (w_logger w1)(l := (w_logger w1 l)\<lparr>lg_appenders := lg_appenders (w_logger w1 l) @ map (resolved w1) refs\<rparr>)"
      "\<forall>r \<in> set refs. ready (w_appender w2 (resolved w1 r))"
    by blast
  have same: "resolved w1 = resolved w" "resolved w r = a"
    using same_maps_resolved [OF w1(2)] a(1) by (simp_all add: resolved_def)
  have "\<forall>r \<in> set (r # refs). ready (w_appender w2 (resolved w r))"
    using w2(2,4) w1(4) same by (auto simp: same_maps_def intro: started_of_ready)
  moreover
  have "w_logger w2 = (w_logger w)(l := (w_logger w l)\<lparr>lg_appenders := lg_appenders (w_logger w l) @ map (resolved w) (r # refs)\<rparr>)"
    unfolding w2(3) w1(3) using same by simp
  moreover have "add_refs can_open l (r # refs) w = Inr w2" using a(1) w1(1) w2(1) by simp
  ultimately show ?case using same_maps_trans [OF w1(2) w2(2)] by blast
qed simp

lemma updateLogger_ok:
  assumes "\<forall>r \<in> set (ld_appender_refs ld). ref_ok can_open w r"
  shows "\<exists>w'. updateLogger can_open l ld w = Inr w' \<and> same_maps w w' \<and> w_logger w' = (w_logger w)(l :=
    \<lparr>lg_name = ld_name ld, lg_level = ld_level ld, lg_appenders = map (resolved w) (ld_appender_refs ld)\<rparr>)
    \<and> (\<forall>r \<in> set (ld_appender_refs ld). ready (w_appender w' (resolved w r)))"
proof -
  let ?w = "set_logger l (\<lambda>lg. clearAppender (lg\<lparr>lg_name := ld_name ld, lg_level := ld_level ld\<rparr>)) w"
  have "\<forall>r \<in> set (ld_appender_refs ld). ref_ok can_open ?w r" using assms by (auto intro: same_maps_ref [OF same_maps_set_logger])
  from add_refs_ok [OF this, of l] show ?thesis
    by (auto simp: updateLogger_def set_logger_def clearAppender_def resolved_def same_maps_def fun_eq_iff)
qed

lemma update_new: "k \<notin> fst ` set m \<Longrightarrow> AList.update k v m = m @ [(k, v)]"
  by (induction m) auto

text \<open>What one definition changes: the entry of its name, and no other logger.\<close>

lemma createOrUpdateLogger_ok:
  assumes "mgr_ok w" and "\<forall>r \<in> set (ld_appender_refs ld). ref_ok can_open w r"
  shows "\<exists>w'. createOrUpdateLogger can_open ld w = Inr w' \<and> mgr_ok w' \<and> configured w' ld
    \<and> m_root w' = m_root w \<and> w_logger w' (m_root w) = w_logger w (m_root w)
    \<and> m_appenders w' = m_appenders w \<and> (\<forall>a. started_of (w_appender w a) (w_appender w' a))
    \<and> (\<forall>n. n \<noteq> ld_name ld \<longrightarrow> map_of (m_loggers w') n = map_of (m_loggers w) n)
    \<and> (\<forall>n l. n \<noteq> ld_name ld \<and> map_of (m_loggers w) n = Some l \<longrightarrow> w_logger w' l = w_logger w l)
    \<and> (\<forall>l. map_of (m_loggers w) (ld_name ld) = Some l \<longrightarrow> map_of (m_loggers w') (ld_name ld) = Some l)"
proof (cases "map_of (m_loggers w) (ld_name ld)")
  case (Some l)
  have mem: "(ld_name ld, l) \<in> set (m_loggers w)" using Some by (rule map_of_SomeD)
  have root: "l \<noteq> m_root w" using assms(1) mem by (force simp: mgr_ok_def)
  have other: "l' \<noteq> l" if "n \<noteq> ld_name ld" "map_of (m_loggers w) n = Some l'" for n l'
  proof
    assume "l' = l"
    with that mem have "(n, l) \<in> set (m_loggers w)" by (auto dest: map_of_SomeD)
    with mem that(1) assms(1) show False by (fastforce simp: mgr_ok_def distinct_map inj_on_def)
  qed
  obtain w' where w': "updateLogger can_open l ld w = Inr w'" "same_maps w w'" "w_logger w' = (w_logger w)(l :=
      \<lparr>lg_name = ld_name ld, lg_level = ld_level ld, lg_appenders = map (resolved w) (ld_appender_refs ld)\<rparr>)"
      "\<forall>r \<in> set (ld_appender_refs ld). ready (w_appender w' (resolved w r))"
    using updateLogger_ok [OF assms(2)] by blast
  have "resolved w' = resolved w" by (rule same_maps_resolved [OF w'(2)])
  with w' Some root other assms(1) show ?thesis
    by (intro exI [of _ w']) (auto simp: createOrUpdateLogger_def configured_def mgr_ok_def same_maps_def)
next
  case None
  let ?l = "w_next w"
  let ?w = "w\<lparr>w_logger := (w_logger w)(?l := new_Logger), w_next := Suc ?l, m_loggers := AList.update (ld_name ld) ?l (m_loggers w)\<rparr>"
  have "\<forall>r \<in> set (ld_appender_refs ld). ref_ok can_open ?w r" using assms(2) by (simp add: ref_ok_def)
  from updateLogger_ok [OF this, of ?l] obtain w' where w': "updateLogger can_open ?l ld ?w = Inr w'" "same_maps ?w w'" "w_logger w' = (w_logger ?w)(?l :=
      \<lparr>lg_name = ld_name ld, lg_level = ld_level ld, lg_appenders = map (resolved ?w) (ld_appender_refs ld)\<rparr>)"
      "\<forall>r \<in> set (ld_appender_refs ld). ready (w_appender w' (resolved ?w r))"
    by blast
  have new: "AList.update (ld_name ld) ?l (m_loggers w) = m_loggers w @ [(ld_name ld, ?l)]"
    using None by (simp add: map_of_eq_None_iff update_new)
  have "resolved w' = resolved ?w" by (rule same_maps_resolved [OF w'(2)])
  moreover have "?l \<noteq> m_root w" "\<forall>n l. map_of (m_loggers w) n = Some l \<longrightarrow> l \<noteq> ?l"
    using assms(1) by (auto simp: mgr_ok_def dest: map_of_SomeD)
  moreover have "ld_name ld \<notin> set (map fst (m_loggers w))" using None by (simp add: map_of_eq_None_iff)
  ultimately show ?thesis using w' None assms(1)
    by (intro exI [of _ w'])
      (auto simp: createOrUpdateLogger_def createLogger_def alloc_logger_def configured_def mgr_ok_def same_maps_def update_conv' new
        less_Suc_eq map_of_append map_add_def split: option.splits)
qed

subsection \<open>A list of definitions\<close>

fun define_all :: "(string \<Rightarrow> bool) \<Rightarrow> LoggerDefine list \<Rightarrow> LogManager \<Rightarrow> LogManager res" where
  "define_all can_open [] w = Inr w"
| "define_all can_open (ld # lds) w = bindE (createOrUpdateLogger can_open ld w) (define_all can_open lds)"

definition refs_ok :: "(string \<Rightarrow> bool) \<Rightarrow> LogManager \<Rightarrow> LoggerDefine list \<Rightarrow> bool" where
  "refs_ok can_open w lds \<longleftrightarrow> (\<forall>ld \<in> set lds. \<forall>r \<in> set (ld_appender_refs ld). ref_ok can_open w r)"

lemma ref_ok_started:
  "m_appenders w' = m_appenders w \<Longrightarrow> \<forall>a. started_of (w_appender w a) (w_appender w' a) \<Longrightarrow> ref_ok can_open w r \<Longrightarrow> ref_ok can_open w' r"
  by (auto simp: ref_ok_def intro: started_of_usable)

lemma define_all_ok:
  "mgr_ok w \<Longrightarrow> refs_ok can_open w lds \<Longrightarrow> distinct (map ld_name lds) \<Longrightarrow>
   \<exists>w'. define_all can_open lds w = Inr w' \<and> mgr_ok w' \<and> (\<forall>ld \<in> set lds. configured w' ld)
     \<and> m_root w' = m_root w \<and> w_logger w' (m_root w) = w_logger w (m_root w)
     \<and> m_appenders w' = m_appenders w \<and> (\<forall>a. started_of (w_appender w a) (w_appender w' a))
     \<and> (\<forall>n l. map_of (m_loggers w) n = Some l \<longrightarrow> map_of (m_loggers w') n = Some l)
     \<and> (\<forall>n l. n \<notin> ld_name ` set lds \<and> map_of (m_loggers w) n = Some l \<longrightarrow> w_logger w' l = w_logger w l)"
proof (induction lds arbitrary: w)
  case (Cons ld lds)
  obtain w1 where w1: "createOrUpdateLogger can_open ld w = Inr w1" "mgr_ok w1" "configured w1 ld"
      "m_root w1 = m_root w" "w_logger w1 (m_root w) = w_logger w (m_root w)" "m_appenders w1 = m_appenders w"
      and ap: "\<forall>a. started_of (w_appender w a) (w_appender w1 a)"
      and other: "\<forall>n. n \<noteq> ld_name ld \<longrightarrow> map_of (m_loggers w1) n = map_of (m_loggers w) n"
        "\<forall>n l. n \<noteq> ld_name ld \<and> map_of (m_loggers w) n = Some l \<longrightarrow> w_logger w1 l = w_logger w l"
        "\<forall>l. map_of (m_loggers w) (ld_name ld) = Some l \<longrightarrow> map_of (m_loggers w1) (ld_name ld) = Some l"
    using createOrUpdateLogger_ok [of w ld can_open] Cons.prems(1,2) unfolding refs_ok_def by fastforce
  have refs: "refs_ok can_open w1 lds" using Cons.prems(2) ref_ok_started [OF w1(6) ap] by (simp add: refs_ok_def)
  have dist: "distinct (map ld_name lds)" "ld_name ld \<notin> ld_name ` set lds" using Cons.prems(3) by simp_all
  obtain w2 where w2: "define_all can_open lds w1 = Inr w2" "mgr_ok w2" "\<forall>ld \<in> set lds. configured w2 ld"
      "m_root w2 = m_root w1" "w_logger w2 (m_root w1) = w_logger w1 (m_root w1)" "m_appenders w2 = m_appenders w1"
      and ap2: "\<forall>a. started_of (w_appender w1 a) (w_appender w2 a)"
      and keep: "\<forall>n l. map_of (m_loggers w1) n = Some l \<longrightarrow> map_of (m_loggers w2) n = Some l"
        "\<forall>n l. n \<notin> ld_name ` set lds \<and> map_of (m_loggers w1) n = Some l \<longrightarrow> w_logger w2 l = w_logger w1 l"
    using Cons.IH [OF w1(2) refs dist(1)] by blast
  obtain l where l: "map_of (m_loggers w1) (ld_name ld) = Some l" "w_logger w1 l =
      \<lparr>lg_name = ld_name ld, lg_level = ld_level ld, lg_appenders = map (resolved w1) (ld_appender_refs ld)\<rparr>"
    using w1(3) by (auto simp: configured_def)
  have "\<forall>r \<in> set (ld_appender_refs ld). ready (w_appender w2 (resolved w1 r))"
    using w1(3) ap2 started_of_ready by (auto simp: configured_def)
  then have "configured w2 ld"
    using l keep dist(2) resolved_same [OF w2(6)] by (auto simp: configured_def)
  moreover have "started_of (w_appender w a) (w_appender w2 a)" for a
    using ap ap2 started_of_trans by blast
  moreover have "map_of (m_loggers w2) n = Some l'" if "map_of (m_loggers w) n = Some l'" for n l'
    using that other keep(1) by (cases "n = ld_name ld") auto
  moreover have "w_logger w2 l' = w_logger w l'" if "n \<notin> ld_name ` set (ld # lds)" "map_of (m_loggers w) n = Some l'" for n l'
    using that other keep(2) by auto
  ultimately show ?case using w1 w2 by (intro exI [of _ w2]) auto
qed auto

subsection \<open>The merge of two configurations\<close>

text \<open>When no name goes away, the merge defines the new loggers one by one and never reads past the end.\<close>

lemma merge_loggers_grow:
  "sorted_wrt (<) (map ld_name news) \<Longrightarrow> sorted_wrt (<) (map ld_name olds) \<Longrightarrow> ld_name ` set olds \<subseteq> ld_name ` set news \<Longrightarrow>
   merge_loggers can_open news olds w = define_all can_open news w"
proof (induction can_open news olds w rule: merge_loggers.induct)
  case (1 can_open olds w)
  then show ?case by simp
next
  case (2 can_open n news w)
  then show ?case by (auto intro!: bindE_cong)
next
  case (3 can_open n news d olds w)
  have d: "ld_name d \<in> insert (ld_name n) (ld_name ` set news)" using "3.prems"(3) by auto
  have n_least: "\<forall>m \<in> ld_name ` set news. ld_name n < m" using "3.prems"(1) by auto
  have d_least: "\<forall>m \<in> ld_name ` set olds. ld_name d < m" using "3.prems"(2) by auto
  show ?case
  proof (cases "ld_name n < ld_name d")
    case True
    then obtain n' news' where news: "news = n' # news'" using d by (cases news) auto
    have le: "ld_name n' \<le> ld_name d" using d True "3.prems"(1) by (auto simp: news)
    have sub: "ld_name ` set olds \<subseteq> ld_name ` set news'"
    proof
      fix m assume m: "m \<in> ld_name ` set olds"
      then have "ld_name d < m" using d_least by blast
      then have "m \<noteq> ld_name n" "m \<noteq> ld_name n'" using True le by auto
      with m "3.prems"(3) show "m \<in> ld_name ` set news'" by (auto simp: news)
    qed
    have "merge_loggers can_open news' olds w2 = define_all can_open news' w2"
      if "createOrUpdateLogger can_open n w = Inr w1" "createOrUpdateLogger can_open n' w1 = Inr w2" for w1 w2
      using "3.IH"(2) [OF True that(1) news _ that(2)] le "3.prems" sub by (auto simp: news)
    with True le show ?thesis by (auto simp: news not_less intro!: bindE_cong)
  next
    case False
    then have eq: "ld_name n = ld_name d" using d n_least by auto
    have "ld_name ` set olds \<subseteq> ld_name ` set news"
    proof
      fix m assume m: "m \<in> ld_name ` set olds"
      then have "m \<noteq> ld_name n" using d_least eq by auto
      with m "3.prems"(3) show "m \<in> ld_name ` set news" by auto
    qed
    then show ?thesis using eq "3.IH"(4) "3.prems" by (auto intro!: bindE_cong)
  qed
qed

lemma sort_key_names:
  "distinct (map ld_name lds) \<Longrightarrow> sorted_wrt (<) (map ld_name (sort_key ld_name lds))"
  by (simp add: strict_sorted_iff distinct_map)

text \<open>
  Removing a logger: the only old name behind the only new one takes the loop past the end of the new list; one that is
  passed by after a smaller new one is never removed.
\<close>

lemma merge_past_end:
  "ld_name n < ld_name d \<Longrightarrow> createOrUpdateLogger can_open n w = Inr w' \<Longrightarrow> merge_loggers can_open [n] [d] w = Inl IteratorRange"
  by simp

lemma merge_keeps_removed:
  "ld_name n < ld_name n' \<Longrightarrow> ld_name n' < ld_name d \<Longrightarrow>
   merge_loggers can_open [n, n'] [d] w = define_all can_open [n, n'] w"
  by (auto intro!: bindE_cong)

subsection \<open>Appenders of a configuration\<close>

fun define_appenders :: "bool \<Rightarrow> LogAppenderDefine list \<Rightarrow> LogManager \<Rightarrow> LogManager res" where
  "define_appenders garbage [] w = Inr w"
| "define_appenders garbage (lad # lads) w = bindE (createOrUpdateAppender garbage lad w) (define_appenders garbage lads)"

lemma merge_appenders_all: "merge_appenders garbage news olds w = define_appenders garbage news w"
  by (induction garbage news olds w rule: merge_appenders.induct) (auto intro!: bindE_cong)

definition no_null :: "LogManager \<Rightarrow> bool" where
  "no_null w \<longleftrightarrow> None \<notin> set (map snd (m_appenders w))"

text \<open>An appender with the settings of its definition; two of them that differ in their name only.\<close>

definition settings :: "LogAppenderDefine \<Rightarrow> OutputAppender \<Rightarrow> bool" where
  "settings lad ap \<longleftrightarrow> getType ap = lad_type lad \<and> ap_level ap = lad_level lad
     \<and> ap_formatter ap = Some (new_LogFormatter (lad_formatter lad)) \<and> ap_file ap = lad_file lad"

definition made :: "LogManager \<Rightarrow> LogAppenderDefine \<Rightarrow> bool" where
  "made w lad \<longleftrightarrow> (\<exists>a. map_of (m_appenders w) (lad_name lad) = Some (Some a) \<and> settings lad (w_appender w a))"

definition like :: "OutputAppender \<Rightarrow> OutputAppender \<Rightarrow> bool" where
  "like ap ap' \<longleftrightarrow> (\<exists>n. ap' = ap\<lparr>ap_name := n\<rparr>)"

lemma like_usable: "like ap ap' \<Longrightarrow> usable can_open ap' = usable can_open ap"
  by (auto simp: like_def usable_def split: appender_type.splits)

lemma like_settings: "like ap ap' \<Longrightarrow> settings lad ap' = settings lad ap"
  by (auto simp: like_def settings_def getType_def)

lemma started_settings: "started_of ap ap' \<Longrightarrow> settings lad ap' = settings lad ap"
  by (auto simp: started_of_def settings_def getType_def)

lemma like_name [simp]: "like ap (ap\<lparr>ap_name := n\<rparr>)"
  by (auto simp: like_def)

lemma like_refl [simp]: "like ap ap"
  using like_name [of ap "ap_name ap"] by simp

lemma like_trans: "like a b \<Longrightarrow> like b c \<Longrightarrow> like a c"
  by (auto simp: like_def)

definition grows :: "LogManager \<Rightarrow> LogManager \<Rightarrow> bool" where
  "grows w w' \<longleftrightarrow> w_next w \<le> w_next w' \<and> (\<forall>n a. map_of (m_appenders w) n = Some (Some a) \<longrightarrow>
     a < w_next w \<longrightarrow> map_of (m_appenders w') n = Some (Some a) \<and> like (w_appender w a) (w_appender w' a))"

lemma grows_trans: "grows w w' \<Longrightarrow> grows w' w'' \<Longrightarrow> grows w w''"
  unfolding grows_def by (meson like_trans order_trans order_less_le_trans)

lemma mgr_ok_pointer: "mgr_ok w \<Longrightarrow> map_of (m_appenders w) n = Some (Some a) \<Longrightarrow> a < w_next w"
  by (fastforce simp: mgr_ok_def dest: map_of_SomeD)

lemma grows_ref: "grows w w' \<Longrightarrow> mgr_ok w \<Longrightarrow> ref_ok can_open w r \<Longrightarrow> ref_ok can_open w' r"
  unfolding grows_def ref_ok_def using mgr_ok_pointer like_usable by meson

lemma grows_made: "grows w w' \<Longrightarrow> mgr_ok w \<Longrightarrow> made w lad \<Longrightarrow> made w' lad"
  unfolding grows_def made_def using mgr_ok_pointer like_settings by meson

lemma createOrUpdateAppender_ok:
  assumes "mgr_ok w" and "no_null w" and "lad_type lad = 0 \<or> lad_type lad = 1"
  shows "\<exists>w'. createOrUpdateAppender False lad w = Inr w' \<and> mgr_ok w' \<and> no_null w' \<and> grows w w'
    \<and> m_loggers w' = m_loggers w \<and> w_logger w' = w_logger w \<and> m_root w' = m_root w
    \<and> (\<forall>n. n \<noteq> lad_name lad \<longrightarrow> map_of (m_appenders w') n = map_of (m_appenders w) n)
    \<and> (map_of (m_appenders w) (lad_name lad) = None \<longrightarrow> made w' lad \<and> (can_open (lad_file lad) \<longrightarrow> ref_ok can_open w' (lad_name lad)))"
proof (cases "map_of (m_appenders w) (lad_name lad)")
  case (Some p)
  then have "(lad_name lad, p) \<in> set (m_appenders w)" by (rule map_of_SomeD)
  then obtain a where a: "p = Some a" "a < w_next w" using assms(1,2) by (cases p) (force simp: no_null_def mgr_ok_def)+
  then show ?thesis using assms Some
    by (auto simp: createOrUpdateAppender_def updateAppender_def mgr_ok_def no_null_def grows_def)
next
  case None
  define t where "t = (if lad_type lad = 0 then ConsoleAppender else FileAppender)"
  let ?a = "w_next w"
  let ?w = "w\<lparr>w_appender := (w_appender w)(?a := new_OutputAppender False t lad), w_next := Suc ?a,
    m_appenders := m_appenders w @ [(lad_name lad, Some ?a)]\<rparr>"
  have new: "lad_name lad \<notin> fst ` set (m_appenders w)" using None by (simp add: map_of_eq_None_iff)
  have eq: "createOrUpdateAppender False lad w = Inr ?w"
    using None assms(3) by (auto simp: createOrUpdateAppender_def createAppender_def alloc_appender_def t_def update_new [OF new] Let_def)
  have "settings lad (new_OutputAppender False t lad)"
    and "can_open (lad_file lad) \<longrightarrow> usable can_open (new_OutputAppender False t lad)"
    using assms(3) by (auto simp: settings_def getType_def new_OutputAppender_def t_def usable_def)
  with None assms(1,2) show ?thesis unfolding eq
    by (auto simp: mgr_ok_def no_null_def grows_def made_def ref_ok_def less_Suc_eq map_add_def split: option.splits)
qed

lemma define_appenders_ok:
  "mgr_ok w \<Longrightarrow> no_null w \<Longrightarrow> \<forall>lad \<in> set lads. lad_type lad = 0 \<or> lad_type lad = 1 \<Longrightarrow> distinct (map lad_name lads) \<Longrightarrow>
   \<exists>w'. define_appenders False lads w = Inr w' \<and> mgr_ok w' \<and> no_null w' \<and> grows w w'
    \<and> m_loggers w' = m_loggers w \<and> w_logger w' = w_logger w \<and> m_root w' = m_root w
    \<and> (\<forall>lad \<in> set lads. map_of (m_appenders w) (lad_name lad) = None \<longrightarrow> made w' lad
      \<and> (can_open (lad_file lad) \<longrightarrow> ref_ok can_open w' (lad_name lad)))"
proof (induction lads arbitrary: w)
  case Nil
  then show ?case by (simp add: grows_def)
next
  case (Cons lad lads)
  obtain w1 where w1: "createOrUpdateAppender False lad w = Inr w1" "mgr_ok w1" "no_null w1" "grows w w1"
      "m_loggers w1 = m_loggers w" "w_logger w1 = w_logger w" "m_root w1 = m_root w"
      and other: "\<forall>n. n \<noteq> lad_name lad \<longrightarrow> map_of (m_appenders w1) n = map_of (m_appenders w) n"
      and m: "map_of (m_appenders w) (lad_name lad) = None \<longrightarrow> made w1 lad \<and> (can_open (lad_file lad) \<longrightarrow> ref_ok can_open w1 (lad_name lad))"
    using createOrUpdateAppender_ok [OF Cons.prems(1,2), of lad can_open] Cons.prems(3) by auto
  obtain w2 where w2: "define_appenders False lads w1 = Inr w2" "mgr_ok w2" "no_null w2" "grows w1 w2"
      "m_loggers w2 = m_loggers w1" "w_logger w2 = w_logger w1" "m_root w2 = m_root w1"
      and m2: "\<forall>lad \<in> set lads. map_of (m_appenders w1) (lad_name lad) = None \<longrightarrow> made w2 lad
        \<and> (can_open (lad_file lad) \<longrightarrow> ref_ok can_open w2 (lad_name lad))"
    using Cons.IH [OF w1(2,3)] Cons.prems(3,4) by auto
  have "map_of (m_appenders w) (lad_name l) = None \<longrightarrow> made w2 l \<and> (can_open (lad_file l) \<longrightarrow> ref_ok can_open w2 (lad_name l))" if "l \<in> set (lad # lads)" for l
  proof (cases "l = lad")
    case True
    then show ?thesis using m grows_made [OF w2(4) w1(2)] grows_ref [OF w2(4) w1(2)] by blast
  next
    case False
    with that Cons.prems(4) have "l \<in> set lads" "lad_name l \<noteq> lad_name lad" by (auto simp: image_iff)
    then show ?thesis using m2 other by auto
  qed
  with w1 w2 grows_trans [OF w1(4) w2(4)] show ?case by (intro exI [of _ w2]) auto
qed

subsection \<open>Writing\<close>

lemma started_made:
  "m_appenders w' = m_appenders w \<Longrightarrow> \<forall>a. started_of (w_appender w a) (w_appender w' a) \<Longrightarrow> made w lad \<Longrightarrow> made w' lad"
  unfolding made_def using started_settings by metis

text \<open>What an appender writes of a message: its pattern, or an empty text below its level.\<close>

definition line_of :: "log_env \<Rightarrow> LogMessage \<Rightarrow> OutputAppender \<Rightarrow> string" where
  "line_of env message ap = (if ap_level ap \<le> lm_level message then
     (case ap_formatter ap of Some fm \<Rightarrow> expand env message (m_pattern fm) | None \<Rightarrow> []) else [])"

definition writes_fully :: "log_env \<Rightarrow> LogMessage \<Rightarrow> OutputAppender \<Rightarrow> bool" where
  "writes_fully env message ap \<longleftrightarrow> ready ap \<and> (\<exists>p. ap_formatter ap = Some (new_LogFormatter p) \<and> length p + 14 < 2 ^ 31
     \<and> length (expand env message p) + kMaxNumericSize \<le> kSmallBuffer)"

lemma new_LogFormatter_pattern [simp]: "m_pattern (new_LogFormatter p) = p"
  by (simp add: new_LogFormatter_def case_prod_beta)

lemma doAppend_line:
  assumes "event_ok env message" and "tm_ok env tm" and "length raw = kSmallBuffer" and "writes_fully env message ap"
  shows "\<exists>tm'. doAppend env raw message ap tm = Inr (tm', [line_of env message ap]) \<and> tm_ok env tm'"
proof -
  obtain p where p: "ap_formatter ap = Some (new_LogFormatter p)" "length p + 14 < 2 ^ 31"
      "length (expand env message p) + kMaxNumericSize \<le> kSmallBuffer" and r: "ap_started ap" "ap_open ap"
    using assms(4) by (auto simp: writes_fully_def ready_def)
  let ?b = "new_FixedBuffer raw"
  have ok: "fb_ok ?b" and room: "room ?b = kSmallBuffer" and t: "fb_toString ?b = []"
    using assms(3) by (simp_all add: new_FixedBuffer_def fb_ok_def room_def fb_toString_def kSmallBuffer_def)
  obtain tm' b where run: "formatter_format env (new_LogFormatter p) message (tm, ?b) = Inr (tm', b)" "tm_ok env tm'"
    and b: "holds_more ?b (kept_text kSmallBuffer (map (item_operand env message) (m_items (new_LogFormatter p)))) b"
    using formatter_runs [OF assms(1,2) ok p(2)] room by auto
  have whole: "concat (map operand_text (map (item_operand env message) (m_items (new_LogFormatter p)))) = expand env message p"
    using formatter_items_text [of env message p] by (simp add: items_text_def comp_def)
  have "fb_toString b = expand env message p"
    using b kept_text_all [of "map (item_operand env message) (m_items (new_LogFormatter p))" kSmallBuffer] p(3)
    unfolding whole by (simp add: holds_more_def t)
  then show ?thesis using run p r assms(2) t by (auto simp: doAppend_def output_format_def line_of_def)
qed

lemma append_all_lines:
  assumes "event_ok env message" and "length raw = kSmallBuffer"
  shows "tm_ok env tm \<Longrightarrow> \<forall>a \<in> set as. writes_fully env message (w_appender w a) \<Longrightarrow>
    \<exists>tm'. append_all env raw message w as tm = Inr (tm', map (\<lambda>a. (a, line_of env message (w_appender w a))) as) \<and> tm_ok env tm'"
proof (induction as arbitrary: tm)
  case (Cons a as)
  obtain tm1 where t1: "doAppend env raw message (w_appender w a) tm = Inr (tm1, [line_of env message (w_appender w a)])" "tm_ok env tm1"
    using doAppend_line [OF assms(1) Cons.prems(1) assms(2)] Cons.prems(2) by auto
  with Cons.IH [OF t1(2)] Cons.prems(2) show ?case by auto
qed simp

text \<open>The appenders that get a message: those of the logger, those of the root if it has none, none below the level.\<close>

definition route :: "LogManager \<Rightarrow> LogMessage \<Rightarrow> nat \<Rightarrow> nat list" where
  "route w message l =
     (let lg = w_logger w l; root = w_logger w (m_root w)
      in if \<not> lg_level lg \<le> lm_level message then []
         else if lg_appenders lg \<noteq> [] then lg_appenders lg
         else if lg_level root \<le> lm_level message then lg_appenders root else [])"

text \<open>A root logger without appenders calls itself for ever.\<close>

lemma root_recursion:
  "lg_appenders (w_logger w (m_root w)) = [] \<Longrightarrow> lg_level (w_logger w (m_root w)) \<le> lm_level message \<Longrightarrow>
   logger_log depth env raw message w (m_root w) tm = Inl Diverge"
  by (induction depth) simp_all

subsection \<open>What goes wrong\<close>

text \<open>A reference to an appender that does not exist is a null pointer in the map, and is used.\<close>

lemma unknown_reference: "map_of (m_appenders w) r = None \<Longrightarrow> add_refs can_open l (r # refs) w = Inl NullDeref"
  by (simp add: addAppender_def update_conv')

text \<open>Only the name of an appender that is there already is changed: a new level or pattern has no effect.\<close>

lemma update_keeps_settings:
  "map_of (m_appenders w) (lad_name lad) = Some (Some a) \<Longrightarrow> createOrUpdateAppender garbage lad w = Inr w' \<Longrightarrow>
   settings d (w_appender w' a) = settings d (w_appender w a)"
  by (auto simp: createOrUpdateAppender_def updateAppender_def settings_def getType_def split: if_splits)

text \<open>A configuration for the root logger makes another logger of that name, which \<open>getLogger\<close> never returns.\<close>

lemma root_not_configured:
  assumes "mgr_ok w" and "ld_name ld = lg_name (w_logger w (m_root w))" and "\<forall>r \<in> set (ld_appender_refs ld). ref_ok can_open w r"
  shows "\<exists>w'. createOrUpdateLogger can_open ld w = Inr w' \<and> fst (getLogger (ld_name ld) w') = m_root w
    \<and> w_logger w' (m_root w) = w_logger w (m_root w)"
  using createOrUpdateLogger_ok [OF assms(1,3)] assms(2) by (fastforce simp: getLogger_def)

text \<open>If \<open>m_started\<close> of a new file appender happens to be true, its file is never opened and its first line uses a null stream.\<close>

lemma never_opened:
  assumes "event_ok env message" and "tm_ok env tm" and "length raw = kSmallBuffer" and "length (lad_formatter lad) + 14 < 2 ^ 31"
  shows "doAppend env raw message (new_OutputAppender True FileAppender lad) tm = Inl NullDeref"
proof -
  have "fb_ok (new_FixedBuffer raw)" using assms(3) by (simp add: new_FixedBuffer_def fb_ok_def kSmallBuffer_def)
  from formatter_runs [OF assms(1,2) this assms(4)]
  show ?thesis by (auto simp: doAppend_def output_format_def new_OutputAppender_def)
qed

lemma manager_init_ok: "mgr_ok (manager_init w) \<and> no_null (manager_init w)"
  by (simp add: manager_init_def alloc_appender_def alloc_logger_def Let_def mgr_ok_def no_null_def)

subsection \<open>Properties\<close>


definition demo_world :: LogManager where
  "demo_world = manager_init \<lparr>w_appender = (\<lambda>_. console_appender), w_logger = (\<lambda>_. new_Logger), w_next = 0, m_appenders = [],
     m_loggers = [], m_root = 0\<rparr>"

definition demo_config :: LogConfigerDefine where
  "demo_config = \<lparr>lc_loggers = [\<lparr>ld_name = ''net'', ld_appender_refs = [''file'', ''console''], ld_level = LogLevel_WARN\<rparr>],
     lc_appenders = [\<lparr>lad_type = 1, lad_name = ''file'', lad_file = ''net.log'', lad_formatter = ''%m%n'', lad_level = LogLevel_ERROR,
       lad_append = True\<rparr>]\<rparr>"

lemma demo_world_console:
  "map_of (m_appenders demo_world) = [''console'' \<mapsto> Some 0]" "w_appender demo_world 0 = console_appender"
  by (simp_all add: demo_world_def manager_init_def alloc_appender_def alloc_logger_def Let_def)




end
