(* ===== verification/AsyncAppender.thy ===== *)
theory AsyncAppender
  imports LogStream_Props "HOL-Library.Sublist"
begin

section \<open>The asynchronous appender and the sink below it (splog/LogAppender, LogSink)\<close>

text \<open>
  \<open>AsyncAppender\<close>: the threads that log fill \<open>buffer1\<close> under \<open>m_append_mutex\<close>, one back-end thread, \<open>run\<close>,
  collects the buffers under the same lock and writes them out without it, \<open>stop\<close> hands over the last one.
  A critical section is one step; between its steps a thread is at a control point. A buffer pointer is an
  option, the array of a fresh buffer an argument. \<open>m_appender\<close> is the text that was written to it.
\<close>

subsection \<open>The double buffer\<close>

record DoubleBuffer =
  buffer1 :: "FixedBuffer option"
  buffer2 :: "FixedBuffer option"
  buffer_vec :: "FixedBuffer option list"

definition new_DoubleBuffer :: "string \<Rightarrow> DoubleBuffer" where
  "new_DoubleBuffer raw =
     \<lparr>buffer1 = Some (fb_bzero (new_FixedBuffer raw)), buffer2 = Some (fb_bzero (new_FixedBuffer raw)), buffer_vec = []\<rparr>"

definition submitBuffer :: "string \<Rightarrow> DoubleBuffer \<Rightarrow> DoubleBuffer" where
  "submitBuffer raw db =
     (let db = db\<lparr>buffer_vec := buffer_vec db @ [buffer1 db], buffer1 := None\<rparr>
      in if buffer2 db \<noteq> None then db\<lparr>buffer1 := buffer2 db, buffer2 := None\<rparr>
         else db\<lparr>buffer1 := Some (new_FixedBuffer raw)\<rparr>)"

definition front_append :: "string \<Rightarrow> DoubleBuffer \<Rightarrow> DoubleBuffer res" where
  "front_append logline db = (case buffer1 db of
       None \<Rightarrow> Inl NullDeref
     | Some b \<Rightarrow> bindE (fb_append logline (length logline) b) (\<lambda>b. Inr (db\<lparr>buffer1 := Some b\<rparr>)))"

text \<open>\<open>append\<close> from the lock on; the flag says whether it notifies.\<close>

definition async_append :: "string \<Rightarrow> string \<Rightarrow> DoubleBuffer \<Rightarrow> (DoubleBuffer \<times> bool) res" where
  "async_append raw logline db = (case buffer1 db of
       None \<Rightarrow> Inl NullDeref
     | Some b \<Rightarrow>
         if int (length logline) < fb_avail b then bindE (front_append logline db) (\<lambda>db. Inr (db, False))
         else bindE (front_append logline (submitBuffer raw db)) (\<lambda>db. Inr (db, True)))"

text \<open>The critical section of \<open>run\<close> after the wait, on \<open>newBuffer\<close> and \<open>m_buffer\<close>.\<close>

definition collect :: "DoubleBuffer \<Rightarrow> DoubleBuffer \<Rightarrow> DoubleBuffer \<times> DoubleBuffer" where
  "collect new db =
     (let db = db\<lparr>buffer_vec := buffer_vec db @ [buffer1 db], buffer1 := buffer1 new\<rparr>;
          new = new\<lparr>buffer1 := None, buffer_vec := buffer_vec db\<rparr>;
          db = db\<lparr>buffer_vec := []\<rparr>
      in if buffer2 db = None then (new\<lparr>buffer2 := None\<rparr>, db\<lparr>buffer2 := buffer2 new\<rparr>) else (new, db))"

definition cut_excess :: "FixedBuffer option list \<Rightarrow> FixedBuffer option list" where
  "cut_excess vec = (if 25 < length vec then take 2 vec else vec)"

text \<open>The loop over the collected buffers; the result is the text that was written.\<close>

fun write_all :: "FixedBuffer option list \<Rightarrow> string res" where
  "write_all [] = Inr []"
| "write_all (None # vec) = Inl NullDeref"
| "write_all (Some b # vec) = bindE (write_all vec) (\<lambda>s. Inr (fb_toString b @ s))"

text \<open>\<open>p = buffer_vec.back(); buffer_vec.pop_back(); p->reset()\<close> when \<open>p\<close> is null.\<close>

definition refill :: "FixedBuffer option \<Rightarrow> FixedBuffer option list \<Rightarrow> (FixedBuffer option \<times> FixedBuffer option list) res" where
  "refill p vec = (case p of
       Some b \<Rightarrow> Inr (p, vec)
     | None \<Rightarrow>
         if vec = [] then Inl IteratorRange
         else (case last vec of
             None \<Rightarrow> Inl NullDeref
           | Some b \<Rightarrow> Inr (Some (fb_reset b), butlast vec)))"

definition DoubleBuffer_reset :: "DoubleBuffer \<Rightarrow> DoubleBuffer res" where
  "DoubleBuffer_reset db =
     (let vec = (if 2 < length (buffer_vec db) then take 2 (buffer_vec db) else buffer_vec db)
      in bindE (refill (buffer1 db) vec) (\<lambda>(b1, vec).
         bindE (refill (buffer2 db) vec) (\<lambda>(b2, vec).
           Inr \<lparr>buffer1 = b1, buffer2 = b2, buffer_vec = []\<rparr>)))"

text \<open>The asserts at the head of the loop.\<close>

definition is_fresh :: "FixedBuffer option \<Rightarrow> bool" where
  "is_fresh p = (case p of Some b \<Rightarrow> fb_length b = 0 | None \<Rightarrow> False)"

definition loop_asserts :: "DoubleBuffer \<Rightarrow> bool" where
  "loop_asserts new \<longleftrightarrow> is_fresh (buffer1 new) \<and> is_fresh (buffer2 new) \<and> buffer_vec new = []"

subsection \<open>Threads\<close>

text \<open>
  \<open>RTest\<close>: before the loop condition; \<open>RLock\<close>: before the critical section; \<open>RWait\<close>: in \<open>waitTime\<close>, which
  ends by a notification or by its timeout; \<open>RWrite\<close>: behind the critical section; \<open>RExit\<close>: returned.
  \<open>passed\<close> holds the lines of the threads that have seen \<open>isStarted()\<close> and are not yet in the critical
  section. Three components are not in the code: \<open>logged\<close>, all lines in the order they went through the
  critical section, \<open>cut\<close>, whether buffers were ever thrown away, and \<open>late\<close>, whether a line came after \<open>stop\<close> had
  handed over its buffer.
\<close>

datatype run_at = RTest | RLock | RWait | RWrite | RExit | RFault fault
datatype stop_at = SRunning | SFlagged | SJoining

record async =
  aa_started :: bool
  aa_buffer :: DoubleBuffer
  aa_new :: DoubleBuffer
  aa_run :: run_at
  aa_stop :: stop_at
  aa_passed :: "string list"
  aa_out :: string
  aa_logged :: string
  aa_cut :: bool
  aa_late :: bool

definition async_init :: "string \<Rightarrow> async" where
  "async_init raw =
     \<lparr>aa_started = True, aa_buffer = new_DoubleBuffer raw, aa_new = new_DoubleBuffer raw, aa_run = RTest,
      aa_stop = SRunning, aa_passed = [], aa_out = [], aa_logged = [], aa_cut = False, aa_late = False\<rparr>"

text \<open>The body of the loop behind the critical section.\<close>

definition run_write :: "async \<Rightarrow> async" where
  "run_write st =
     (let vec = cut_excess (buffer_vec (aa_new st))
      in case bindE (write_all vec) (\<lambda>s. bindE (DoubleBuffer_reset ((aa_new st)\<lparr>buffer_vec := vec\<rparr>)) (\<lambda>new. Inr (s, new))) of
           Inl e \<Rightarrow> st\<lparr>aa_run := RFault e\<rparr>
         | Inr (s, new) \<Rightarrow> st\<lparr>aa_out := aa_out st @ s, aa_new := new, aa_run := RTest,
             aa_cut := aa_cut st \<or> 25 < length (buffer_vec (aa_new st))\<rparr>)"

definition run_collect :: "async \<Rightarrow> async" where
  "run_collect st =
     (let (new, db) = collect (aa_new st) (aa_buffer st)
      in st\<lparr>aa_new := new, aa_buffer := db, aa_run := (if buffer_vec new = [] then RFault AssertFailed else RWrite)\<rparr>)"

inductive astep :: "async \<Rightarrow> async \<Rightarrow> bool" where
  pass_check: "aa_started st \<Longrightarrow> length line \<le> kSmallBuffer \<Longrightarrow> astep st (st\<lparr>aa_passed := line # aa_passed st\<rparr>)"
| append_line: "aa_passed st = ls @ line # ls' \<Longrightarrow> length raw = kLargeBuffer \<Longrightarrow>
     async_append raw line (aa_buffer st) = Inr (db, notify) \<Longrightarrow>
     astep st (st\<lparr>aa_passed := ls @ ls', aa_buffer := db, aa_logged := aa_logged st @ line,
       aa_late := aa_late st \<or> aa_stop st = SJoining\<rparr>)"
| append_fault: "aa_passed st = ls @ line # ls' \<Longrightarrow> length raw = kLargeBuffer \<Longrightarrow>
     async_append raw line (aa_buffer st) = Inl e \<Longrightarrow> astep st (st\<lparr>aa_run := RFault e\<rparr>)"
| run_test: "aa_run st = RTest \<Longrightarrow>
     astep st (st\<lparr>aa_run :=
       if \<not> aa_started st \<and> buffer_vec (aa_buffer st) = [] then RExit
       else if loop_asserts (aa_new st) then RLock else RFault AssertFailed\<rparr>)"
| run_lock: "aa_run st = RLock \<Longrightarrow>
     astep st (if buffer_vec (aa_buffer st) = [] then st\<lparr>aa_run := RWait\<rparr> else run_collect st)"
| run_wake: "aa_run st = RWait \<Longrightarrow> astep st (run_collect st)"
| run_write: "aa_run st = RWrite \<Longrightarrow> astep st (run_write st)"
| stop_flag: "aa_started st \<Longrightarrow> aa_stop st = SRunning \<Longrightarrow> astep st (st\<lparr>aa_started := False, aa_stop := SFlagged\<rparr>)"
| stop_submit: "aa_stop st = SFlagged \<Longrightarrow> length raw = kLargeBuffer \<Longrightarrow>
     astep st (st\<lparr>aa_buffer := submitBuffer raw (aa_buffer st), aa_stop := SJoining\<rparr>)"

subsection \<open>The sink\<close>

text \<open>
  \<open>LogSink::append\<close>: the answers of \<open>fwrite\<close> are a list, one per call; each call writes as many characters as
  it returns. The result is what was written, and whether the call has returned within these answers.
\<close>

fun sink_loop :: "nat list \<Rightarrow> string \<Rightarrow> nat \<Rightarrow> nat \<Rightarrow> string \<Rightarrow> string \<times> bool" where
  "sink_loop answers logline n 0 out = (out, True)"
| "sink_loop [] logline n (Suc r) out = (out, False)"
| "sink_loop (x # answers) logline n (Suc r) out =
     (if x = 0 then (out, True)
      else sink_loop answers logline n (length logline - n) (out @ take x (drop n logline)))"

definition sink_append :: "nat list \<Rightarrow> string \<Rightarrow> string \<times> bool" where
  "sink_append answers logline = (case answers of
       [] \<Rightarrow> ([], False)
     | n # answers \<Rightarrow> sink_loop answers logline n (length logline - n) (take n logline))"

end
