(* ===== verification/AsyncAppender_Props.thy ===== *)
theory AsyncAppender_Props
  imports AsyncAppender
begin

section \<open>The asynchronous appender neither loses nor reorders lines\<close>

text \<open>
  The invariant of the threads: what was logged is what was written, then what the back-end holds, then what the
  double buffer holds; pointers that are dereferenced are not null and the spare buffers are empty.
\<close>

definition large :: "FixedBuffer option \<Rightarrow> bool" where
  "large p \<longleftrightarrow> (\<exists>b. p = Some b \<and> fb_ok b \<and> length (fb_data b) = kLargeBuffer)"

definition ptext :: "FixedBuffer option \<Rightarrow> string" where
  "ptext p = fb_toString (the p)"

definition spare :: "FixedBuffer option \<Rightarrow> bool" where
  "spare p \<longleftrightarrow> large p \<and> fb_cur (the p) = 0"

definition vtext :: "FixedBuffer option list \<Rightarrow> string" where
  "vtext vec = concat (map ptext vec)"

definition front_ok :: "DoubleBuffer \<Rightarrow> bool" where
  "front_ok db \<longleftrightarrow> large (buffer1 db) \<and> (\<forall>p \<in> set (buffer_vec db). large p)
     \<and> (if buffer2 db = None then buffer_vec db \<noteq> [] else spare (buffer2 db))"

definition front_text :: "DoubleBuffer \<Rightarrow> string" where
  "front_text db = vtext (buffer_vec db) @ ptext (buffer1 db)"

definition back_empty :: "DoubleBuffer \<Rightarrow> bool" where
  "back_empty new \<longleftrightarrow> spare (buffer1 new) \<and> spare (buffer2 new) \<and> buffer_vec new = []"

definition back_full :: "DoubleBuffer \<Rightarrow> bool" where
  "back_full new \<longleftrightarrow> buffer1 new = None \<and> buffer_vec new \<noteq> [] \<and> (\<forall>p \<in> set (buffer_vec new). large p)
     \<and> (if buffer2 new = None then 2 \<le> length (buffer_vec new) else spare (buffer2 new))"

lemma spare_text [simp]: "spare p \<Longrightarrow> ptext p = []"
  by (simp add: spare_def ptext_def fb_toString_def)

lemma spare_large [simp]: "spare p \<Longrightarrow> large p"
  by (simp add: spare_def)

lemma large_not_None [simp]: "\<not> large None"
  by (simp add: large_def)

lemma spare_not_None [simp]: "\<not> spare None"
  by (simp add: spare_def)

lemma vtext_simps [simp]: "vtext [] = []" "vtext (p # vec) = ptext p @ vtext vec" "vtext (vec @ vec') = vtext vec @ vtext vec'"
  by (simp_all add: vtext_def)

lemma spare_new: "length raw = kLargeBuffer \<Longrightarrow> spare (Some (new_FixedBuffer raw)) \<and> spare (Some (fb_bzero (new_FixedBuffer raw)))"
  by (simp add: spare_def large_def new_FixedBuffer_def fb_bzero_def fb_ok_def kLargeBuffer_def)

lemma spare_reset: "large (Some b) \<Longrightarrow> spare (Some (fb_reset b))"
  by (simp add: spare_def large_def fb_reset_def fb_ok_def)

lemma spare_fresh: "spare p \<Longrightarrow> is_fresh p"
  by (auto simp: spare_def large_def is_fresh_def fb_length_def)

subsection \<open>The operations\<close>

lemma submitBuffer_ok:
  assumes "front_ok db" and "length raw = kLargeBuffer"
  shows "front_ok (submitBuffer raw db) \<and> spare (buffer1 (submitBuffer raw db))
    \<and> front_text (submitBuffer raw db) = front_text db"
  using assms spare_new [OF assms(2)]
  by (auto simp: submitBuffer_def front_ok_def front_text_def Let_def split: if_splits)

lemma front_append_ok:
  assumes "front_ok db" and "length line \<le> room (the (buffer1 db))" and "length line < 2 ^ 31"
  shows "\<exists>db'. front_append line db = Inr db' \<and> front_ok db' \<and> front_text db' = front_text db @ line"
proof -
  obtain b where b: "buffer1 db = Some b" "fb_ok b" "length (fb_data b) = kLargeBuffer"
    using assms(1) by (auto simp: front_ok_def large_def)
  obtain b' where "fb_append line (length line) b = Inr b'" "holds_more b line b'"
    using fb_append_spec [OF b(2) order_refl assms(3)] assms(2) b(1) by auto
  with b assms(1) show ?thesis
    by (auto simp: front_append_def front_ok_def front_text_def large_def holds_more_def ptext_def)
qed

lemma async_append_ok:
  assumes "front_ok db" and "length line \<le> kSmallBuffer" and "length raw = kLargeBuffer"
  shows "\<exists>db' notify. async_append raw line db = Inr (db', notify) \<and> front_ok db' \<and> front_text db' = front_text db @ line"
proof -
  obtain b where b: "buffer1 db = Some b" "fb_ok b" "length (fb_data b) = kLargeBuffer"
    using assms(1) by (auto simp: front_ok_def large_def)
  have len: "length line < 2 ^ 31" using assms(2) by (simp add: kSmallBuffer_def)
  show ?thesis
  proof (cases "int (length line) < fb_avail b")
    case True
    then have "length line \<le> room (the (buffer1 db))" using b fb_avail_room [OF b(2)] by simp
    from front_append_ok [OF assms(1) this len] True b show ?thesis by (auto simp: async_append_def)
  next
    case False
    let ?db = "submitBuffer raw db"
    have ok: "front_ok ?db" "spare (buffer1 ?db)" "front_text ?db = front_text db"
      using submitBuffer_ok [OF assms(1,3)] by auto
    then have "length line \<le> room (the (buffer1 ?db))"
      using assms(2) by (auto simp: spare_def large_def room_def kSmallBuffer_def kLargeBuffer_def)
    from front_append_ok [OF ok(1) this len] False b ok show ?thesis by (auto simp: async_append_def)
  qed
qed

lemma collect_ok:
  assumes "back_empty new" and "front_ok db" and "collect new db = (new', db')"
  shows "back_full new' \<and> front_ok db' \<and> vtext (buffer_vec new') = front_text db \<and> front_text db' = [] \<and> spare (buffer1 db')"
  using assms
  by (auto simp: collect_def back_empty_def back_full_def front_ok_def front_text_def Let_def Suc_le_eq split: if_splits)

lemma write_all_ok: "\<forall>p \<in> set vec. large p \<Longrightarrow> write_all vec = Inr (vtext vec)"
  by (induction vec rule: write_all.induct) (auto simp: large_def ptext_def)

lemma refill_ok:
  assumes "p = None \<or> spare p" and "p = None \<Longrightarrow> vec \<noteq> []" and "\<forall>p \<in> set vec. large p"
  shows "\<exists>p' vec'. refill p vec = Inr (p', vec') \<and> spare p' \<and> set vec' \<subseteq> set vec \<and> length vec \<le> Suc (length vec')
    \<and> (p \<noteq> None \<longrightarrow> vec' = vec)"
proof (cases p)
  case (Some b)
  with assms show ?thesis by (simp add: refill_def)
next
  case None
  with assms have "vec \<noteq> []" "large (last vec)" by simp_all
  then obtain b where "last vec = Some b" "large (Some b)" by (auto simp: large_def)
  with None \<open>vec \<noteq> []\<close> spare_reset show ?thesis by (auto simp: refill_def dest: in_set_butlastD)
qed

lemma DoubleBuffer_reset_ok:
  assumes "buffer1 db = None" and "buffer_vec db \<noteq> []" and "\<forall>p \<in> set (buffer_vec db). large p"
    and "buffer2 db = None \<Longrightarrow> 2 \<le> length (buffer_vec db)" and "buffer2 db \<noteq> None \<Longrightarrow> spare (buffer2 db)"
  shows "\<exists>new. DoubleBuffer_reset db = Inr new \<and> back_empty new"
proof -
  let ?vec = "if 2 < length (buffer_vec db) then take 2 (buffer_vec db) else buffer_vec db"
  have vec: "?vec \<noteq> []" "\<forall>p \<in> set ?vec. large p" "buffer2 db = None \<Longrightarrow> 2 \<le> length ?vec"
    using assms by (auto dest: in_set_takeD)
  obtain p1 v1 where r1: "refill None ?vec = Inr (p1, v1)" "spare p1" "set v1 \<subseteq> set ?vec" "length ?vec \<le> Suc (length v1)"
    using refill_ok [of None ?vec] vec by auto
  have "\<exists>p2 v2. refill (buffer2 db) v1 = Inr (p2, v2) \<and> spare p2"
    using refill_ok [of "buffer2 db" v1] r1(3,4) vec assms(5) by fastforce
  with r1(1,2) assms(1) show ?thesis by (auto simp: DoubleBuffer_reset_def back_empty_def Let_def)
qed

subsection \<open>The invariant\<close>

definition run_ok :: "async \<Rightarrow> bool" where
  "run_ok st = (case aa_run st of
       RFault e \<Rightarrow> False
     | RWrite \<Rightarrow> back_full (aa_new st)
     | _ \<Rightarrow> back_empty (aa_new st))"

definition pending :: "async \<Rightarrow> string" where
  "pending st = vtext (buffer_vec (aa_new st)) @ front_text (aa_buffer st)"

definition async_ok :: "async \<Rightarrow> bool" where
  "async_ok st \<longleftrightarrow> front_ok (aa_buffer st) \<and> run_ok st \<and> (\<forall>line \<in> set (aa_passed st). length line \<le> kSmallBuffer)
     \<and> (aa_started st \<longleftrightarrow> aa_stop st = SRunning)
     \<and> (\<not> aa_cut st \<longrightarrow> aa_out st @ pending st = aa_logged st)
     \<and> subseq (aa_out st @ pending st) (aa_logged st)
     \<and> (aa_stop st = SJoining \<and> \<not> aa_late st \<longrightarrow> ptext (buffer1 (aa_buffer st)) = [])"

lemma run_ok_simps:
  "aa_run st = RWrite \<Longrightarrow> run_ok st \<longleftrightarrow> back_full (aa_new st)"
  "aa_run st \<in> {RTest, RLock, RWait, RExit} \<Longrightarrow> run_ok st \<longleftrightarrow> back_empty (aa_new st)"
  "run_ok (st\<lparr>aa_passed := p\<rparr>) = run_ok st" "run_ok (st\<lparr>aa_buffer := db\<rparr>) = run_ok st"
  "run_ok (st\<lparr>aa_started := b\<rparr>) = run_ok st" "run_ok (st\<lparr>aa_stop := s\<rparr>) = run_ok st"
  "run_ok (st\<lparr>aa_logged := l\<rparr>) = run_ok st" "run_ok (st\<lparr>aa_late := b\<rparr>) = run_ok st"
  by (auto simp: run_ok_def split: run_at.splits)

lemma async_ok_init: "length raw = kLargeBuffer \<Longrightarrow> async_ok (async_init raw)"
  using spare_new [of raw]
  by (simp add: async_ok_def async_init_def new_DoubleBuffer_def front_ok_def run_ok_def back_empty_def pending_def front_text_def)

lemma subseq_more: "subseq xs ys \<Longrightarrow> subseq (xs @ zs) (ys @ zs)"
  by (simp add: list_emb_append_mono)

lemma run_collect_ok:
  assumes "async_ok st" and "aa_run st = RLock \<or> aa_run st = RWait"
  shows "async_ok (run_collect st)"
proof -
  obtain new db where c: "collect (aa_new st) (aa_buffer st) = (new, db)" by fastforce
  have idle: "back_empty (aa_new st)" using assms by (auto simp: async_ok_def run_ok_def)
  have "front_ok (aa_buffer st)" using assms(1) by (simp add: async_ok_def)
  from collect_ok [OF idle this c] idle assms(1) show ?thesis
    by (auto simp: run_collect_def c async_ok_def run_ok_def back_full_def back_empty_def pending_def)
qed

lemma run_write_ok:
  assumes "async_ok st" and "aa_run st = RWrite"
  shows "async_ok (run_write st)"
proof -
  let ?new = "aa_new st"
  let ?vec = "cut_excess (buffer_vec ?new)"
  have filled: "back_full ?new" using assms by (simp add: async_ok_def run_ok_def)
  have vec: "?vec \<noteq> []" "\<forall>p \<in> set ?vec. large p" "buffer2 ?new = None \<Longrightarrow> 2 \<le> length ?vec"
    using filled by (auto simp: back_full_def cut_excess_def split: if_splits dest: in_set_takeD)
  have "\<exists>new. DoubleBuffer_reset (?new\<lparr>buffer_vec := ?vec\<rparr>) = Inr new \<and> back_empty new"
    by (rule DoubleBuffer_reset_ok) (use vec filled in \<open>auto simp: back_full_def split: if_splits\<close>)
  then obtain new where new: "DoubleBuffer_reset (?new\<lparr>buffer_vec := ?vec\<rparr>) = Inr new" "back_empty new" by blast
  have wr: "run_write st = st\<lparr>aa_out := aa_out st @ vtext ?vec, aa_new := new, aa_run := RTest,
      aa_cut := aa_cut st \<or> 25 < length (buffer_vec ?new)\<rparr>"
    using write_all_ok [OF vec(2)] new(1) by (simp add: run_write_def Let_def)
  have empty: "buffer_vec new = []" using new(2) by (simp add: back_empty_def)
  have "buffer_vec ?new = take 2 (buffer_vec ?new) @ drop 2 (buffer_vec ?new)" by simp
  then have "vtext (buffer_vec ?new) = vtext (take 2 (buffer_vec ?new)) @ vtext (drop 2 (buffer_vec ?new))"
    by (metis vtext_simps(3))
  then have "subseq (vtext ?vec) (vtext (buffer_vec ?new))"
    by (cases "25 < length (buffer_vec ?new)") (auto simp: cut_excess_def)
  then have "subseq (aa_out st @ vtext ?vec @ front_text (aa_buffer st)) (aa_out st @ pending st)"
    by (simp add: pending_def list_emb_append_mono)
  then have sub: "subseq (aa_out st @ vtext ?vec @ front_text (aa_buffer st)) (aa_logged st)"
    using assms(1) unfolding async_ok_def by (meson subseq_order.order_trans)
  have "\<not> 25 < length (buffer_vec ?new) \<Longrightarrow> ?vec = buffer_vec ?new" by (simp add: cut_excess_def)
  with sub empty new(2) assms(1) show ?thesis unfolding wr by (auto simp: async_ok_def run_ok_def pending_def)
qed

lemma append_line_ok:
  assumes "async_ok st" and "aa_passed st = ls @ line # ls'" and "length raw = kLargeBuffer"
  shows "\<exists>db notify. async_append raw line (aa_buffer st) = Inr (db, notify) \<and> front_ok db
    \<and> front_text db = front_text (aa_buffer st) @ line"
  using async_append_ok [OF _ _ assms(3)] assms(1,2) by (auto simp: async_ok_def)

lemma async_ok_step: "astep st st' \<Longrightarrow> async_ok st \<Longrightarrow> async_ok st'"
proof (induction rule: astep.induct)
  case (pass_check st line)
  then show ?case by (simp add: async_ok_def run_ok_simps pending_def)
next
  case (append_line st ls line ls' raw db notify)
  with append_line_ok [OF append_line.prems append_line.hyps(1,2)] have "front_ok db"
    and t: "front_text db = front_text (aa_buffer st) @ line" by auto
  moreover have "subseq (aa_out st @ pending st @ line) (aa_logged st @ line)"
    using append_line.prems subseq_more [of "aa_out st @ pending st"] by (simp add: async_ok_def)
  ultimately show ?case using append_line by (auto simp: async_ok_def run_ok_simps pending_def)
next
  case (append_fault st ls line ls' raw e)
  with append_line_ok [OF append_fault.prems append_fault.hyps(1,2)] show ?case by auto
next
  case (run_test st)
  then show ?case
    by (auto simp: async_ok_def run_ok_def pending_def loop_asserts_def back_empty_def spare_fresh)
next
  case (run_lock st)
  then show ?case using run_collect_ok [of st] by (auto simp: async_ok_def run_ok_def pending_def)
next
  case (run_wake st)
  then show ?case using run_collect_ok by auto
next
  case (run_write st)
  then show ?case using run_write_ok by auto
next
  case (stop_flag st)
  then show ?case by (auto simp: async_ok_def run_ok_simps pending_def)
next
  case (stop_submit st raw)
  then have "front_ok (aa_buffer st)" by (simp add: async_ok_def)
  from submitBuffer_ok [OF this stop_submit.hyps(2)] stop_submit show ?case
    by (auto simp: async_ok_def run_ok_simps pending_def)
qed

lemma async_reachable: "length raw = kLargeBuffer \<Longrightarrow> astep\<^sup>*\<^sup>* (async_init raw) st \<Longrightarrow> async_ok st"
  by (rotate_tac 1) (induction rule: rtranclp_induct, auto intro: async_ok_init async_ok_step)

subsection \<open>One turn of the back-end\<close>

lemma rtranclp_2: "R x y \<Longrightarrow> R y z \<Longrightarrow> R\<^sup>*\<^sup>* x z"
  by (rule rtranclp.rtrancl_into_rtrancl [OF r_into_rtranclp])

lemma run_collect_simps:
  "aa_logged (run_collect st) = aa_logged st" "aa_out (run_collect st) = aa_out st" "aa_cut (run_collect st) = aa_cut st"
  "aa_started (run_collect st) = aa_started st" "aa_stop (run_collect st) = aa_stop st" "aa_late (run_collect st) = aa_late st"
  "aa_run (run_collect st) = RWrite" "buffer_vec (aa_buffer (run_collect st)) = []"
  "length (buffer_vec (aa_new (run_collect st))) = Suc (length (buffer_vec (aa_buffer st)))"
  by (simp_all add: run_collect_def collect_def Let_def case_prod_beta)

lemma run_collect_front:
  assumes "async_ok st" and "aa_run st = RLock \<or> aa_run st = RWait"
  shows "front_text (aa_buffer (run_collect st)) = []"
proof -
  obtain new db where c: "collect (aa_new st) (aa_buffer st) = (new, db)" by fastforce
  have "back_empty (aa_new st)" "front_ok (aa_buffer st)" using assms by (auto simp: async_ok_def run_ok_def)
  from collect_ok [OF this c] show ?thesis by (simp add: run_collect_def c)
qed

lemma run_write_fields:
  "aa_buffer (run_write st) = aa_buffer st" "aa_logged (run_write st) = aa_logged st" "aa_started (run_write st) = aa_started st"
  "aa_stop (run_write st) = aa_stop st" "aa_late (run_write st) = aa_late st"
  by (simp_all add: run_write_def Let_def split: sum.splits)

lemma write_turn:
  assumes "async_ok st" and "aa_run st = RWrite" and "front_text (aa_buffer st) = []" and "\<not> aa_cut st"
    and "length (buffer_vec (aa_new st)) \<le> 25"
  shows "aa_run (run_write st) = RTest \<and> aa_out (run_write st) = aa_logged st \<and> \<not> aa_cut (run_write st)"
proof -
  have ok: "async_ok (run_write st)" by (rule run_write_ok [OF assms(1,2)])
  have cut: "\<not> aa_cut (run_write st)" and at: "aa_run (run_write st) = RTest \<or> (\<exists>e. aa_run (run_write st) = RFault e)"
    using assms(4,5) by (auto simp: run_write_def Let_def split: sum.splits)
  from at ok have t: "aa_run (run_write st) = RTest" by (auto simp: async_ok_def run_ok_def)
  then have "buffer_vec (aa_new (run_write st)) = []" using ok by (simp add: async_ok_def run_ok_def back_empty_def)
  then have "pending (run_write st) = []" using assms(3) by (simp add: pending_def run_write_fields)
  with ok cut t show ?thesis by (simp add: async_ok_def run_write_fields)
qed

lemma turn_steps:
  assumes "async_ok st" and "aa_run st = RTest" and "aa_started st \<or> buffer_vec (aa_buffer st) \<noteq> []"
  shows "\<exists>at. (at = RLock \<or> at = RWait) \<and> async_ok (st\<lparr>aa_run := at\<rparr>) \<and> astep\<^sup>*\<^sup>* st (run_collect (st\<lparr>aa_run := at\<rparr>))"
proof -
  let ?st = "st\<lparr>aa_run := RLock\<rparr>"
  have "loop_asserts (aa_new st)" using assms(1,2) by (auto simp: async_ok_def run_ok_def loop_asserts_def back_empty_def spare_fresh)
  then have s1: "astep st ?st" using astep.run_test [OF assms(2)] assms(3) by auto
  have ok: "async_ok ?st" by (rule async_ok_step [OF s1 assms(1)])
  show ?thesis
  proof (cases "buffer_vec (aa_buffer st) = []")
    case True
    let ?sw = "st\<lparr>aa_run := RWait\<rparr>"
    have s2: "astep ?st ?sw" using astep.run_lock [of ?st] True by simp
    have s3: "astep ?sw (run_collect ?sw)" by (rule astep.run_wake) simp
    have "astep\<^sup>*\<^sup>* st (run_collect ?sw)" using rtranclp_2 [of astep, OF s1 s2] s3 by (rule rtranclp.rtrancl_into_rtrancl)
    then show ?thesis using async_ok_step [OF s2 ok] by blast
  next
    case False
    have "astep ?st (run_collect ?st)" using astep.run_lock [of ?st] False by simp
    then show ?thesis using rtranclp_2 [of astep, OF s1] ok by blast
  qed
qed

lemma turn:
  assumes "async_ok st" and "aa_run st = RTest" and "aa_started st \<or> buffer_vec (aa_buffer st) \<noteq> []"
    and "length (buffer_vec (aa_buffer st)) \<le> 24" and "\<not> aa_cut st"
  shows "\<exists>st'. astep\<^sup>*\<^sup>* st st' \<and> async_ok st' \<and> aa_run st' = RTest \<and> aa_out st' = aa_logged st \<and> aa_logged st' = aa_logged st
    \<and> buffer_vec (aa_buffer st') = [] \<and> \<not> aa_cut st' \<and> aa_started st' = aa_started st \<and> aa_stop st' = aa_stop st \<and> aa_late st' = aa_late st"
proof -
  obtain at where at: "at = RLock \<or> at = RWait" "async_ok (st\<lparr>aa_run := at\<rparr>)" "astep\<^sup>*\<^sup>* st (run_collect (st\<lparr>aa_run := at\<rparr>))"
    using turn_steps [OF assms(1-3)] by blast
  let ?s = "run_collect (st\<lparr>aa_run := at\<rparr>)"
  have ok: "async_ok ?s" and e: "front_text (aa_buffer ?s) = []"
    using run_collect_ok [OF at(2)] run_collect_front [OF at(2)] at(1) by simp_all
  have run: "aa_run ?s = RWrite" by (simp add: run_collect_simps)
  have "astep\<^sup>*\<^sup>* st (run_write ?s)" using at(3) astep.run_write [OF run] by (rule rtranclp.rtrancl_into_rtrancl)
  moreover have "aa_run (run_write ?s) = RTest \<and> aa_out (run_write ?s) = aa_logged ?s \<and> \<not> aa_cut (run_write ?s)"
    by (rule write_turn [OF ok run e]) (use assms(4,5) in \<open>simp_all add: run_collect_simps\<close>)
  ultimately show ?thesis using run_write_ok [OF ok run]
    by (intro exI [of _ "run_write ?s"]) (simp add: run_collect_simps run_write_fields)
qed

subsection \<open>Properties\<close>

text \<open>
  C24: whatever the loggers, the back-end and \<open>stop\<close> do, in whatever order: no assertion of the back-end fails and no
  null buffer is used; what was written is a subsequence of what was logged, in the same order; and unless more than 25
  buffers piled up, what was written, what the back-end holds and what the buffers hold is all that was logged.
\<close>

theorem async_keeps_lines:
  assumes "length raw = kLargeBuffer" and "astep\<^sup>*\<^sup>* (async_init raw) st"
  shows "(\<forall>e. aa_run st \<noteq> RFault e) \<and> subseq (aa_out st) (aa_logged st)
    \<and> (\<not> aa_cut st \<longrightarrow> aa_out st @ vtext (buffer_vec (aa_new st)) @ front_text (aa_buffer st) = aa_logged st)"
proof -
  have ok: "async_ok st" by (rule async_reachable [OF assms])
  then have "subseq (aa_out st @ pending st) (aa_logged st)" by (simp add: async_ok_def)
  then have "subseq (aa_out st) (aa_logged st)" by (rule subseq_order.order_trans [rotated]) (simp add: prefix_imp_subseq)
  with ok show ?thesis by (auto simp: async_ok_def run_ok_def pending_def)
qed

text \<open>A first line, and its way to the sink.\<close>

definition first_line :: async where
  "first_line = (let raw = replicate kLargeBuffer NUL; st = async_init raw
     in st\<lparr>aa_buffer := fst (case async_append raw ''one'' (aa_buffer st) of Inr x \<Rightarrow> x | Inl e \<Rightarrow> (aa_buffer st, False)), aa_logged := ''one''\<rparr>)"

lemma first_line_reachable: "astep\<^sup>*\<^sup>* (async_init (replicate kLargeBuffer NUL)) first_line"
proof -
  let ?raw = "replicate kLargeBuffer NUL"
  let ?st = "async_init ?raw"
  let ?s1 = "?st\<lparr>aa_passed := [''one'']\<rparr>"
  have len: "length ?raw = kLargeBuffer" by simp
  have "astep ?st (?st\<lparr>aa_passed := ''one'' # aa_passed ?st\<rparr>)"
    by (rule astep.pass_check) (simp_all add: async_init_def kSmallBuffer_def)
  then have s1: "astep ?st ?s1" by (simp add: async_init_def)
  have "front_ok (new_DoubleBuffer ?raw)" using async_ok_init [OF len] by (simp add: async_ok_def async_init_def)
  from async_append_ok [OF this _ len, of "''one''"]
  obtain db n where a: "async_append ?raw ''one'' (new_DoubleBuffer ?raw) = Inr (db, n)" by (auto simp: kSmallBuffer_def)
  have "astep ?s1 (?s1\<lparr>aa_passed := [] @ [], aa_buffer := db, aa_logged := aa_logged ?s1 @ ''one'',
      aa_late := aa_late ?s1 \<or> aa_stop ?s1 = SJoining\<rparr>)"
    by (rule astep.append_line [OF _ len, where notify = n]) (simp_all add: a async_init_def)
  moreover have "?s1\<lparr>aa_passed := [] @ [], aa_buffer := db, aa_logged := aa_logged ?s1 @ ''one'',
      aa_late := aa_late ?s1 \<or> aa_stop ?s1 = SJoining\<rparr> = first_line"
    using a by (simp add: first_line_def Let_def async_init_def)
  ultimately show ?thesis using rtranclp_2 [of astep, OF s1] by simp
qed

lemma first_line_simps:
  "aa_logged first_line = ''one''" "aa_started first_line" "aa_run first_line = RTest" "aa_stop first_line = SRunning"
  "aa_out first_line = []" "\<not> aa_cut first_line" "\<not> aa_late first_line"
  by (simp_all add: first_line_def Let_def async_init_def)

lemma first_line_vec: "buffer_vec (aa_buffer first_line) = []"
  by (simp add: first_line_def Let_def async_init_def new_DoubleBuffer_def async_append_def front_append_def fb_append_def
      fb_bzero_def new_FixedBuffer_def fb_avail_def fb_write_def kLargeBuffer_def)

theorem async_keeps_lines_witness:
  "aa_logged first_line = ''one'' \<and> aa_out first_line @ vtext (buffer_vec (aa_new first_line)) @ front_text (aa_buffer first_line) = ''one''"
  using async_keeps_lines [OF _ first_line_reachable] by (simp add: first_line_simps)



text \<open>
  C26: \<open>stop\<close>: when the back-end has returned after \<open>stop\<close> handed over the last buffer, and no line came after that,
  everything that was logged has been written.
\<close>

theorem async_stop_flushes:
  assumes "length raw = kLargeBuffer" and "astep\<^sup>*\<^sup>* (async_init raw) st" and "aa_run st = RExit" and "aa_stop st = SJoining"
    and "buffer_vec (aa_buffer st) = []" and "\<not> aa_cut st" and "\<not> aa_late st"
  shows "aa_out st = aa_logged st"
proof -
  have "async_ok st" by (rule async_reachable [OF assms(1,2)])
  with assms(3-7) show ?thesis by (auto simp: async_ok_def run_ok_def back_empty_def pending_def front_text_def)
qed

text \<open>The orderly end: \<open>stop\<close> hands over the buffer while the back-end still runs.\<close>

lemma stop_path:
  fixes raw :: string
  assumes "async_ok st" and "aa_run st = RTest" and "aa_started st" and "length raw = kLargeBuffer"
    and "length (buffer_vec (aa_buffer st)) \<le> 20" and "\<not> aa_cut st" and "\<not> aa_late st"
  shows "\<exists>st'. astep\<^sup>*\<^sup>* st st' \<and> aa_run st' = RExit \<and> aa_stop st' = SJoining \<and> buffer_vec (aa_buffer st') = []
    \<and> \<not> aa_cut st' \<and> \<not> aa_late st' \<and> aa_logged st' = aa_logged st"
proof -
  let ?f = "st\<lparr>aa_started := False, aa_stop := SFlagged\<rparr>"
  let ?j = "?f\<lparr>aa_buffer := submitBuffer raw (aa_buffer ?f), aa_stop := SJoining\<rparr>"
  have "aa_stop st = SRunning" using assms(1,3) by (simp add: async_ok_def)
  then have sf: "astep st ?f" using astep.stop_flag [of st] assms(3) by simp
  have sj: "astep ?f ?j" using astep.stop_submit [of ?f raw] assms(4) by simp
  have okj: "async_ok ?j" by (rule async_ok_step [OF sj async_ok_step [OF sf assms(1)]])
  have vec: "buffer_vec (submitBuffer raw (aa_buffer st)) \<noteq> []" "length (buffer_vec (submitBuffer raw (aa_buffer st))) \<le> 24"
    using assms(5) by (simp_all add: submitBuffer_def Let_def)
  obtain s1 where s1: "astep\<^sup>*\<^sup>* ?j s1" "aa_run s1 = RTest" "aa_logged s1 = aa_logged st" "buffer_vec (aa_buffer s1) = []"
      "\<not> aa_cut s1" "\<not> aa_started s1" "aa_stop s1 = SJoining" "\<not> aa_late s1"
    using turn [OF okj] assms(2,6,7) vec by auto
  have "astep s1 (s1\<lparr>aa_run := RExit\<rparr>)" using astep.run_test [OF s1(2)] s1(4,6) by simp
  with rtranclp_trans [OF rtranclp_2 [of astep, OF sf sj] s1(1)] have "astep\<^sup>*\<^sup>* st (s1\<lparr>aa_run := RExit\<rparr>)"
    by (rule rtranclp.rtrancl_into_rtrancl)
  with s1 show ?thesis by (intro exI [of _ "s1\<lparr>aa_run := RExit\<rparr>"]) simp
qed

theorem async_stop_flushes_witness:
  "\<exists>st. astep\<^sup>*\<^sup>* (async_init (replicate kLargeBuffer NUL)) st \<and> aa_run st = RExit \<and> aa_stop st = SJoining \<and> aa_out st = ''one''"
proof -
  let ?raw = "replicate kLargeBuffer NUL"
  have len: "length ?raw = kLargeBuffer" by simp
  obtain st where st: "astep\<^sup>*\<^sup>* first_line st" "aa_run st = RExit" "aa_stop st = SJoining" "buffer_vec (aa_buffer st) = []"
      "\<not> aa_cut st" "\<not> aa_late st" "aa_logged st = ''one''"
    using stop_path [OF async_reachable [OF len first_line_reachable] _ _ len] by (auto simp: first_line_simps first_line_vec)
  have r: "astep\<^sup>*\<^sup>* (async_init ?raw) st" by (rule rtranclp_trans [OF first_line_reachable st(1)])
  from async_stop_flushes [OF len r st(2-6)] r st show ?thesis by auto
qed

text \<open>
  \<open>stop\<close> clears \<open>m_started\<close> before it takes the lock: a back-end that tests its loop condition in between sees no full
  buffer and returns, and the lines in the current buffer are never written, although \<open>stop\<close> was the last call.
\<close>

theorem async_stop_loses:
  "\<exists>st. astep\<^sup>*\<^sup>* (async_init (replicate kLargeBuffer NUL)) st \<and> aa_run st = RExit \<and> aa_stop st = SJoining \<and> \<not> aa_cut st
     \<and> \<not> aa_late st \<and> aa_logged st = ''one'' \<and> aa_out ` {st'. astep\<^sup>*\<^sup>* st st'} = {[]}"
proof -
  let ?raw = "replicate kLargeBuffer NUL"
  let ?f = "first_line\<lparr>aa_started := False, aa_stop := SFlagged\<rparr>"
  let ?x = "?f\<lparr>aa_run := RExit\<rparr>"
  let ?j = "?x\<lparr>aa_buffer := submitBuffer ?raw (aa_buffer ?x), aa_stop := SJoining\<rparr>"
  have s1: "astep first_line ?f" by (rule astep.stop_flag) (simp_all add: first_line_simps)
  have s2: "astep ?f ?x" using astep.run_test [of ?f] by (simp add: first_line_simps first_line_vec)
  have s3: "astep ?x ?j" by (rule astep.stop_submit) simp_all
  have r: "astep\<^sup>*\<^sup>* (async_init ?raw) ?j"
    using rtranclp_trans [OF first_line_reachable rtranclp_2 [of astep, OF s1 s2]] s3 by (rule rtranclp.rtrancl_into_rtrancl)
  have stay: "aa_out st' = [] \<and> (aa_run st' = RExit \<or> (\<exists>e. aa_run st' = RFault e))" if "astep\<^sup>*\<^sup>* ?j st'" for st'
    using that
  proof (induction rule: rtranclp_induct)
    case base
    then show ?case by (simp add: first_line_simps)
  next
    case (step y z)
    from step.hyps(2) step.IH show ?case by cases auto
  qed
  then have "aa_out ` {st'. astep\<^sup>*\<^sup>* ?j st'} = {[]}" by auto
  then show ?thesis by (intro exI [of _ ?j] conjI r) (simp_all add: first_line_simps)
qed

subsection \<open>The sink\<close>

text \<open>A write of the whole line returns at once.\<close>

lemma sink_full_write: "length logline \<le> n \<Longrightarrow> sink_append (n # answers) logline = (logline, True)"
  by (simp add: sink_append_def)

text \<open>
  After a short write the count is never advanced: \<open>x += x\<close> stands for \<open>n += x\<close>. The rest of the line is written
  over and over, and the call does not return as long as the writes succeed.
\<close>

lemma sink_loop_repeats:
  "n < length logline \<Longrightarrow> sink_loop (replicate k (length logline - n)) logline n (length logline - n) out
     = (out @ concat (replicate k (drop n logline)), False)"
proof (induction k arbitrary: out)
  case 0
  then obtain r where "length logline - n = Suc r" by (metis Suc_diff_Suc)
  then show ?case by simp
next
  case (Suc k)
  then obtain r where r: "length logline - n = Suc r" by (metis Suc_diff_Suc)
  have "take (Suc r) (drop n logline) = drop n logline" using r by simp
  then show ?case using Suc.IH [OF Suc.prems] Suc.prems unfolding r by (simp add: r)
qed

lemma sink_short_write:
  "n < length logline \<Longrightarrow> sink_append (n # replicate k (length logline - n)) logline
     = (take n logline @ concat (replicate k (drop n logline)), False)"
  by (simp add: sink_append_def sink_loop_repeats)

end
