(* ===== verification/LFQueue.thy ===== *)
theory LFQueue
  imports Prelude
begin

section \<open>The lock-free queue\<close>

text \<open>
  \<open>LFQueue\<close> of src/spike/base/LFQueue.h: a singly linked list of heap nodes with two atomic pointers.
  Queues whose nodes are handed from one to the other share a heap. An access to a node that is not
  allocated is the fault \<open>DanglingPtr\<close>. This theory has the operations as they run when nothing
  interferes, and the locale \<open>fifo\<close> of what a client may rely on; LFQueue\_Threads has the interleavings.
\<close>

type_synonym qaddr = nat

record 'a qnode =
  q_data :: 'a
  q_next :: "qaddr option"

record 'a qheap =
  q_nodes :: "qaddr \<rightharpoonup> 'a qnode"
  q_fresh :: qaddr

record lfqueue =
  q_head :: "qaddr option"
  q_tail :: "qaddr option"

definition q_empty :: lfqueue where
  "q_empty = \<lparr>q_head = None, q_tail = None\<rparr>"

subsection \<open>Nodes\<close>

definition q_new :: "'a \<Rightarrow> 'a qheap \<Rightarrow> qaddr \<times> 'a qheap" where
  "q_new value H = (q_fresh H,
     \<lparr>q_nodes = (q_nodes H)(q_fresh H \<mapsto> \<lparr>q_data = value, q_next = None\<rparr>), q_fresh = Suc (q_fresh H)\<rparr>)"

definition q_deref :: "'a qheap \<Rightarrow> qaddr \<Rightarrow> 'a qnode res" where
  "q_deref H a = (case q_nodes H a of None \<Rightarrow> Inl DanglingPtr | Some n \<Rightarrow> Inr n)"

text \<open>\<open>old_tail->next_ = new_node\<close>.\<close>

definition q_link :: "qaddr \<Rightarrow> qaddr \<Rightarrow> 'a qheap \<Rightarrow> 'a qheap res" where
  "q_link a n H = bindE (q_deref H a) (\<lambda>nd. Inr (H\<lparr>q_nodes := (q_nodes H)(a \<mapsto> nd\<lparr>q_next := Some n\<rparr>)\<rparr>))"

definition q_delete :: "qaddr \<Rightarrow> 'a qheap \<Rightarrow> 'a qheap" where
  "q_delete a H = H\<lparr>q_nodes := (q_nodes H)(a := None)\<rparr>"

subsection \<open>Operations\<close>

definition enqueue :: "'a \<Rightarrow> 'a qheap \<Rightarrow> lfqueue \<Rightarrow> ('a qheap \<times> lfqueue) res" where
  "enqueue value H q =
     (let (new_node, H) = q_new value H; old_tail = q_tail q; q = q\<lparr>q_tail := Some new_node\<rparr>
      in case old_tail of
           Some a \<Rightarrow> bindE (q_link a new_node H) (\<lambda>H. Inr (H, q))
         | None \<Rightarrow> Inr (H, q\<lparr>q_head := Some new_node\<rparr>))"

text \<open>The compare-and-swap loop ends in its first successful round.\<close>

definition dequeue :: "'a qheap \<Rightarrow> lfqueue \<Rightarrow> ('a option \<times> 'a qheap \<times> lfqueue) res" where
  "dequeue H q =
     (case q_head q of
        None \<Rightarrow> Inr (None, H, q\<lparr>q_tail := None\<rparr>)
      | Some old_head \<Rightarrow> bindE (q_deref H old_head) (\<lambda>n.
          let q = q\<lparr>q_head := q_next n\<rparr>;
              q = (if q_next n = None then q\<lparr>q_tail := None\<rparr> else q)
          in Inr (Some (q_data n), q_delete old_head H, q)))"

definition concatenate :: "'a qheap \<Rightarrow> lfqueue \<Rightarrow> lfqueue \<Rightarrow> (bool \<times> 'a qheap \<times> lfqueue \<times> lfqueue) res" where
  "concatenate H q other =
     (let otherHead = q_head other; other = other\<lparr>q_head := None\<rparr>
      in case otherHead of
           None \<Rightarrow> Inr (False, H, q, other)
         | Some h \<Rightarrow>
             let prevTail = q_tail q; q = q\<lparr>q_tail := Some h\<rparr>
             in bindE (case prevTail of
                         Some t \<Rightarrow> bindE (q_link t h H) (\<lambda>H. Inr (H, q))
                       | None \<Rightarrow> Inr (H, q\<lparr>q_head := Some h\<rparr>)) (\<lambda>(H, q).
                  Inr (True, H, q\<lparr>q_tail := q_tail other\<rparr>, other\<lparr>q_tail := None\<rparr>)))"

definition queue_empty :: "lfqueue \<Rightarrow> bool" where
  "queue_empty q \<longleftrightarrow> q_head q = None"

text \<open>The destructor deletes the nodes from the head on; the heap has at most \<open>q_fresh H\<close> of them.\<close>

fun destroy_loop :: "nat \<Rightarrow> 'a qheap \<Rightarrow> qaddr option \<Rightarrow> 'a qheap res" where
  "destroy_loop 0 H current = Inl Diverge"
| "destroy_loop (Suc fuel) H current =
     (case current of
        None \<Rightarrow> Inr H
      | Some a \<Rightarrow> bindE (q_deref H a) (\<lambda>n. destroy_loop fuel (q_delete a H) (q_next n)))"

definition destroy :: "'a qheap \<Rightarrow> lfqueue \<Rightarrow> 'a qheap res" where
  "destroy H q = destroy_loop (Suc (q_fresh H)) H (q_head q)"

subsection \<open>What a queue represents\<close>

text \<open>\<open>chain N p as\<close>: from pointer \<open>p\<close> the links run through the addresses \<open>as\<close> and end.\<close>

fun chained :: "(qaddr \<rightharpoonup> 'a qnode) \<Rightarrow> qaddr option \<Rightarrow> qaddr list \<Rightarrow> bool" where
  "chained N p [] \<longleftrightarrow> p = None"
| "chained N p (a # as) \<longleftrightarrow> p = Some a \<and> (case N a of None \<Rightarrow> False | Some n \<Rightarrow> chained N (q_next n) as)"

definition last_opt :: "'b list \<Rightarrow> 'b option" where
  "last_opt as = (if as = [] then None else Some (last as))"

definition heap_ok :: "'a qheap \<Rightarrow> bool" where
  "heap_ok H \<longleftrightarrow> (\<forall>a\<ge>q_fresh H. q_nodes H a = None)"

definition contents_of :: "'a qheap \<Rightarrow> qaddr list \<Rightarrow> 'a list" where
  "contents_of H as = map (\<lambda>a. q_data (the (q_nodes H a))) as"

definition q_rep :: "'a qheap \<Rightarrow> lfqueue \<Rightarrow> qaddr list \<Rightarrow> 'a list \<Rightarrow> bool" where
  "q_rep H q as xs \<longleftrightarrow> distinct as \<and> chained (q_nodes H) (q_head q) as \<and> q_tail q = last_opt as
     \<and> xs = contents_of H as"

text \<open>Two queues over one heap, holding \<open>xs\<close> and \<open>ys\<close>.\<close>

definition two_queues :: "'a qheap \<Rightarrow> lfqueue \<Rightarrow> lfqueue \<Rightarrow> 'a list \<Rightarrow> 'a list \<Rightarrow> bool" where
  "two_queues H p q xs ys \<longleftrightarrow> heap_ok H \<and>
     (\<exists>as bs. q_rep H p as xs \<and> q_rep H q bs ys \<and> set as \<inter> set bs = {})"

subsection \<open>Chains\<close>

lemma chained_alloc: "chained N p as \<Longrightarrow> a \<in> set as \<Longrightarrow> N a \<noteq> None"
  by (induction as arbitrary: p) (auto split: option.splits)

lemma chained_cong: "(\<And>a. a \<in> set as \<Longrightarrow> N a = N' a) \<Longrightarrow> chained N p as = chained N' p as"
  by (induction as arbitrary: p) (auto split: option.splits)

lemma chained_upd [simp]: "a \<notin> set as \<Longrightarrow> chained (N(a := v)) p as = chained N p as"
  by (rule chained_cong) auto

lemma chained_snoc:
  "chained N p as \<Longrightarrow> as \<noteq> [] \<Longrightarrow> distinct as \<Longrightarrow> set as \<inter> set bs = {} \<Longrightarrow> chained N (Some b) bs \<Longrightarrow>
   chained (N(last as \<mapsto> (the (N (last as)))\<lparr>q_next := Some b\<rparr>)) p (as @ bs)"
proof (induction as arbitrary: p)
  case (Cons a as)
  then obtain n where n: "N a = Some n" "p = Some a" "chained N (q_next n) as" by (auto split: option.splits)
  show ?case
  proof (cases "as = []")
    case True
    have "chained (N(a \<mapsto> n\<lparr>q_next := Some b\<rparr>)) (Some b) bs" using Cons.prems by simp
    with n True show ?thesis by (simp add: fun_upd_def)
  next
    case False
    then have "last as \<noteq> a" using Cons.prems(3) by auto
    with Cons.IH [OF n(3) False] Cons.prems n False show ?thesis by simp
  qed
qed simp

lemma last_opt_simps [simp]:
  "last_opt [] = None" "last_opt (as @ [b]) = Some b" "bs \<noteq> [] \<Longrightarrow> last_opt (as @ bs) = last_opt bs"
  "as \<noteq> [] \<Longrightarrow> last_opt (a # as) = last_opt as" "last_opt [a] = Some a"
  by (simp_all add: last_opt_def)

lemma last_opt_eq: "last_opt as = None \<longleftrightarrow> as = []" "last_opt as = Some t \<longleftrightarrow> as \<noteq> [] \<and> t = last as"
  by (auto simp: last_opt_def)

lemma contents_upd_next [simp]:
  "q_nodes H a = Some nd \<Longrightarrow>
   contents_of (H\<lparr>q_nodes := (q_nodes H)(a \<mapsto> nd\<lparr>q_next := v\<rparr>)\<rparr>) as = contents_of H as"
  by (simp add: contents_of_def)

lemma contents_cong: "(\<And>a. a \<in> set as \<Longrightarrow> q_nodes H a = q_nodes H' a) \<Longrightarrow> contents_of H as = contents_of H' as"
  by (simp add: contents_of_def)

lemma contents_append [simp]: "contents_of H (as @ bs) = contents_of H as @ contents_of H bs"
  by (simp add: contents_of_def)

lemma contents_Nil [simp]: "contents_of H as = [] \<longleftrightarrow> as = []" "[] = contents_of H as \<longleftrightarrow> as = []"
  by (auto simp: contents_of_def)

lemma heap_ok_fresh: "heap_ok H \<Longrightarrow> chained (q_nodes H) p as \<Longrightarrow> q_fresh H \<notin> set as"
  using chained_alloc by (fastforce simp: heap_ok_def)

lemma q_rep_mono:
  "q_rep H q as xs \<Longrightarrow> (\<And>a. a \<in> set as \<Longrightarrow> q_nodes H' a = q_nodes H a) \<Longrightarrow> q_rep H' q as xs"
  unfolding q_rep_def using chained_cong [of as "q_nodes H" "q_nodes H'"] contents_cong [of as H H'] by auto

lemma q_rep_empty: "q_rep H q_empty [] []"
  by (simp add: q_rep_def q_empty_def contents_of_def)

text \<open>A chain whose last link is set to the head of another one.\<close>

lemma q_link_last:
  assumes "chained (q_nodes H) p as" "as \<noteq> []" "distinct as" "set as \<inter> set bs = {}"
    and "chained (q_nodes H) (Some b) bs"
  obtains H' where "q_link (last as) b H = Inr H'" "q_fresh H' = q_fresh H"
    and "chained (q_nodes H') p (as @ bs)" "\<And>cs. contents_of H' cs = contents_of H cs"
    and "\<And>c. c \<noteq> last as \<Longrightarrow> q_nodes H' c = q_nodes H c" "q_nodes H' (last as) \<noteq> None"
proof -
  from assms(1,2) obtain nd where nd: "q_nodes H (last as) = Some nd" using chained_alloc by fastforce
  let ?H = "H\<lparr>q_nodes := (q_nodes H)(last as \<mapsto> nd\<lparr>q_next := Some b\<rparr>)\<rparr>"
  show thesis
    by (rule that [of ?H]) (use nd chained_snoc [OF assms] in \<open>simp_all add: q_link_def q_deref_def\<close>)
qed

lemma two_queuesI:
  "heap_ok H \<Longrightarrow> q_rep H p as xs \<Longrightarrow> q_rep H q bs ys \<Longrightarrow> set as \<inter> set bs = {} \<Longrightarrow> two_queues H p q xs ys"
  by (auto simp: two_queues_def)

lemma q_delete_frame:
  "a \<notin> set as \<Longrightarrow> contents_of (q_delete a H) as = contents_of H as"
  "a \<notin> set as \<Longrightarrow> chained (q_nodes (q_delete a H)) p as = chained (q_nodes H) p as"
  by (auto simp: contents_of_def q_delete_def)

lemma heap_ok_link:
  assumes "heap_ok H" "chained (q_nodes H) p as" "as \<noteq> []" "q_fresh H' = q_fresh H"
    and "\<And>c. c \<noteq> last as \<Longrightarrow> q_nodes H' c = q_nodes H c"
  shows "heap_ok H'"
proof -
  have "last as < q_fresh H"
    using assms(1) chained_alloc [OF assms(2), of "last as"] assms(3) by (auto simp: heap_ok_def not_less [symmetric])
  then show ?thesis using assms(1,4,5) by (metis heap_ok_def not_less)
qed

lemma enqueue_rep:
  assumes "two_queues H p q xs ys"
  shows "\<exists>H' p'. enqueue v H p = Inr (H', p') \<and> two_queues H' p' q (xs @ [v]) ys"
proof -
  from assms obtain as bs where H: "heap_ok H" and a: "q_rep H p as xs" and b: "q_rep H q bs ys"
    and d: "set as \<inter> set bs = {}" by (auto simp: two_queues_def)
  define n H1 where "n = q_fresh H" and "H1 = snd (q_new v H)"
  then have new: "q_new v H = (n, H1)" by (simp add: q_new_def)
  have fresh: "n \<notin> set as" "n \<notin> set bs" using heap_ok_fresh [OF H] a b by (auto simp: q_rep_def n_def)
  have H1: "heap_ok H1" "\<And>c. c \<noteq> n \<Longrightarrow> q_nodes H1 c = q_nodes H c" "q_nodes H1 n = Some \<lparr>q_data = v, q_next = None\<rparr>"
    using H by (auto simp: H1_def n_def q_new_def heap_ok_def)
  have a1: "q_rep H1 p as xs" by (rule q_rep_mono [OF a]) (use fresh H1(2) in metis)
  have b1: "q_rep H1 q bs ys" by (rule q_rep_mono [OF b]) (use fresh H1(2) in metis)
  show ?thesis
  proof (cases "as = []")
    case True
    then have p: "q_tail p = None" "xs = []" using a1 by (auto simp: q_rep_def contents_of_def)
    have "q_rep H1 \<lparr>q_head = Some n, q_tail = Some n\<rparr> [n] [v]" using H1(3) by (simp add: q_rep_def contents_of_def)
    from two_queuesI [OF H1(1) this b1] fresh p show ?thesis
      by (cases p) (simp add: enqueue_def new Let_def)
  next
    case False
    obtain H2 where H2: "q_link (last as) n H1 = Inr H2" "q_fresh H2 = q_fresh H1"
      "chained (q_nodes H2) (q_head p) (as @ [n])" "\<And>cs. contents_of H2 cs = contents_of H1 cs"
      "\<And>c. c \<noteq> last as \<Longrightarrow> q_nodes H2 c = q_nodes H1 c" "q_nodes H2 (last as) \<noteq> None"
      using q_link_last [of H1 "q_head p" as "[n]" n] a1 False fresh H1(3) by (auto simp: q_rep_def)
    have "heap_ok H2" using heap_ok_link [OF H1(1) _ False H2(2,5)] a1 by (auto simp: q_rep_def)
    have "contents_of H1 [n] = [v]" by (simp add: contents_of_def H1(3))
    with H2(4) have "contents_of H2 (as @ [n]) = contents_of H1 as @ [v]" by (simp only: contents_append)
    with a1 H2(3) fresh have q2: "q_rep H2 (p\<lparr>q_tail := Some n\<rparr>) (as @ [n]) (xs @ [v])"
      by (simp add: q_rep_def)
    have "last as \<notin> set bs" using d last_in_set [OF False] by blast
    then have "q_rep H2 q bs ys" by (intro q_rep_mono [OF b1] H2(5)) auto
    with \<open>heap_ok H2\<close> q2 have "two_queues H2 (p\<lparr>q_tail := Some n\<rparr>) q (xs @ [v]) ys"
      by (rule two_queuesI) (use d fresh in auto)
    moreover have "q_tail p = Some (last as)" using a1 False by (simp add: q_rep_def last_opt_def)
    ultimately show ?thesis using H2(1) by (simp add: enqueue_def new Let_def)
  qed
qed

lemma dequeue_empty: "two_queues H p q [] ys \<Longrightarrow> dequeue H p = Inr (None, H, p)"
  by (auto simp: two_queues_def q_rep_def dequeue_def)

lemma dequeue_rep:
  assumes "two_queues H p q (x # xs) ys"
  shows "\<exists>H' p'. dequeue H p = Inr (Some x, H', p') \<and> two_queues H' p' q xs ys"
proof -
  from assms obtain as bs where H: "heap_ok H" and a: "q_rep H p as (x # xs)" and b: "q_rep H q bs ys"
    and d: "set as \<inter> set bs = {}" by (auto simp: two_queues_def)
  then obtain a0 as' n where as: "as = a0 # as'" "q_nodes H a0 = Some n" "q_data n = x" "q_head p = Some a0"
    "xs = contents_of H as'" "chained (q_nodes H) (q_next n) as'" "a0 \<notin> set as'" "distinct as'"
    by (cases as) (auto simp: q_rep_def contents_of_def split: option.splits)
  let ?H = "q_delete a0 H" and ?p = "\<lparr>q_head = q_next n, q_tail = last_opt as'\<rparr>"
  have nil: "q_next n = None \<longleftrightarrow> as' = []" using as(6) by (cases as') auto
  have "heap_ok ?H" using H by (simp add: heap_ok_def q_delete_def)
  moreover have "q_rep ?H ?p as' xs" using as by (simp add: q_rep_def q_delete_frame)
  moreover have "q_rep ?H q bs ys" by (rule q_rep_mono [OF b]) (use d as(1) in \<open>auto simp: q_delete_def\<close>)
  ultimately have "two_queues ?H ?p q xs ys" by (rule two_queuesI) (use d as(1) in auto)
  moreover have "dequeue H p = Inr (Some x, ?H, ?p)"
    using as nil a by (cases p) (auto simp: dequeue_def q_deref_def Let_def q_rep_def last_opt_def)
  ultimately show ?thesis by blast
qed

lemma concatenate_rep:
  assumes "two_queues H p q xs ys"
  shows "\<exists>H' p' q'. concatenate H p q = Inr (ys \<noteq> [], H', p', q') \<and> two_queues H' p' q' (xs @ ys) []"
proof -
  from assms obtain as bs where H: "heap_ok H" and a: "q_rep H p as xs" and b: "q_rep H q bs ys"
    and d: "set as \<inter> set bs = {}" by (auto simp: two_queues_def)
  show ?thesis
  proof (cases bs)
    case Nil
    with a b H show ?thesis by (auto simp: concatenate_def Let_def two_queues_def q_rep_def)
  next
    case (Cons b0 bs')
    with b have h: "q_head q = Some b0" "ys \<noteq> []" "q_tail q = last_opt bs" by (auto simp: q_rep_def)
    show ?thesis
    proof (cases "as = []")
      case True
      with a b h H Cons show ?thesis
        by (auto simp: concatenate_def Let_def two_queues_def q_rep_def intro!: exI [of _ bs])
    next
      case False
      obtain H2 where H2: "q_link (last as) b0 H = Inr H2" "q_fresh H2 = q_fresh H"
        "chained (q_nodes H2) (q_head p) (as @ bs)" "\<And>cs. contents_of H2 cs = contents_of H cs"
        "\<And>c. c \<noteq> last as \<Longrightarrow> q_nodes H2 c = q_nodes H c" "q_nodes H2 (last as) \<noteq> None"
        using q_link_last [of H "q_head p" as bs b0] a b h False d by (auto simp: q_rep_def)
      have "heap_ok H2" using heap_ok_link [OF H _ False H2(2,5)] a by (auto simp: q_rep_def)
      moreover have "q_rep H2 (p\<lparr>q_tail := last_opt bs\<rparr>) (as @ bs) (xs @ ys)"
        using a b d H2(3,4) Cons by (simp add: q_rep_def)
      moreover have "q_rep H2 q_empty [] []" by (rule q_rep_empty)
      ultimately have "two_queues H2 (p\<lparr>q_tail := last_opt bs\<rparr>) q_empty (xs @ ys) []"
        by (rule two_queuesI) simp
      moreover have "q_tail p = Some (last as)" using a False by (simp add: q_rep_def last_opt_def)
      then have "concatenate H p q = Inr (True, H2, p\<lparr>q_tail := last_opt bs\<rparr>, q_empty)"
        using h H2(1) by (cases q) (simp add: concatenate_def Let_def q_empty_def)
      ultimately show ?thesis using h(2) by auto
    qed
  qed
qed

text \<open>The destructor frees the nodes of its queue and no other.\<close>

lemma destroy_loop_chain:
  "chained (q_nodes H) p as \<Longrightarrow> distinct as \<Longrightarrow> length as < fuel \<Longrightarrow>
   destroy_loop fuel H p = Inr (H\<lparr>q_nodes := (q_nodes H) |` (- set as)\<rparr>)"
proof (induction as arbitrary: fuel H p)
  case Nil
  then show ?case by (cases fuel) auto
next
  case (Cons a as)
  then obtain n k where n: "q_nodes H a = Some n" "p = Some a" "chained (q_nodes H) (q_next n) as" "fuel = Suc k"
    by (cases fuel) (auto split: option.splits)
  have "(q_nodes H)(a := None) |` (- set as) = q_nodes H |` (- set (a # as))"
    by (auto simp: restrict_map_def fun_eq_iff)
  moreover have "chained ((q_nodes H)(a := None)) (q_next n) as" using n Cons.prems by simp
  ultimately show ?case using Cons.IH [of "q_delete a H" "q_next n" k] Cons.prems n
    by (simp add: q_deref_def q_delete_def del: fun_upd_apply)
qed

lemma destroy_rep:
  assumes "two_queues H p q xs ys"
  shows "\<exists>H'. destroy H p = Inr H' \<and> two_queues H' q_empty q [] ys"
proof -
  from assms obtain as bs where H: "heap_ok H" and a: "q_rep H p as xs" and b: "q_rep H q bs ys"
    and d: "set as \<inter> set bs = {}" by (auto simp: two_queues_def)
  let ?H = "H\<lparr>q_nodes := (q_nodes H) |` (- set as)\<rparr>"
  have "set as \<subseteq> {..<q_fresh H}"
    using a H chained_alloc by (fastforce simp: q_rep_def heap_ok_def not_less [symmetric])
  then have "length as < Suc (q_fresh H)"
    using card_mono [of "{..<q_fresh H}" "set as"] a by (simp add: q_rep_def distinct_card)
  then have "destroy H p = Inr ?H"
    unfolding destroy_def by (intro destroy_loop_chain) (use a in \<open>auto simp: q_rep_def\<close>)
  moreover have "q_rep ?H q bs ys" by (rule q_rep_mono [OF b]) (use d in \<open>auto simp: restrict_map_def\<close>)
  then have "two_queues ?H q_empty q [] ys"
    by (intro two_queuesI [OF _ q_rep_empty]) (use H in \<open>simp_all add: heap_ok_def restrict_map_def\<close>)
  ultimately show ?thesis by blast
qed

subsection \<open>The contract\<close>

text \<open>
  What the processor relies on: two queues over one heap, of which one is served and the other is filled.
\<close>

locale fifo =
  fixes two :: "'h \<Rightarrow> 'q \<Rightarrow> 'q \<Rightarrow> 'a list \<Rightarrow> 'a list \<Rightarrow> bool"
    and enq :: "'a \<Rightarrow> 'h \<Rightarrow> 'q \<Rightarrow> ('h \<times> 'q) res"
    and deq :: "'h \<Rightarrow> 'q \<Rightarrow> ('a option \<times> 'h \<times> 'q) res"
    and cat :: "'h \<Rightarrow> 'q \<Rightarrow> 'q \<Rightarrow> (bool \<times> 'h \<times> 'q \<times> 'q) res"
    and emp :: "'q \<Rightarrow> bool"
  assumes swap: "two H p q xs ys \<Longrightarrow> two H q p ys xs"
    and enq: "two H p q xs ys \<Longrightarrow> \<exists>H' p'. enq v H p = Inr (H', p') \<and> two H' p' q (xs @ [v]) ys"
    and deq_Nil: "two H p q [] ys \<Longrightarrow> \<exists>H' p'. deq H p = Inr (None, H', p') \<and> two H' p' q [] ys"
    and deq_Cons: "two H p q (x # xs) ys \<Longrightarrow> \<exists>H' p'. deq H p = Inr (Some x, H', p') \<and> two H' p' q xs ys"
    and cat: "two H p q xs ys \<Longrightarrow> \<exists>H' p' q'. cat H p q = Inr (ys \<noteq> [], H', p', q') \<and> two H' p' q' (xs @ ys) []"
    and emp: "two H p q xs ys \<Longrightarrow> emp p \<longleftrightarrow> xs = []"
begin

lemma enq_second:
  "two H p q xs ys \<Longrightarrow> \<exists>H' q'. enq v H q = Inr (H', q') \<and> two H' p q' xs (ys @ [v])"
  using enq swap by meson

lemma enq_all:
  "two H p q xs ys \<Longrightarrow>
   \<exists>H' q'. fold (\<lambda>v s. bindE s (\<lambda>(H, q). enq v H q)) vs (Inr (H, q)) = Inr (H', q') \<and> two H' p q' xs (ys @ vs)"
proof (induction vs arbitrary: H q ys)
  case (Cons v vs)
  from enq_second [OF Cons.prems] obtain H1 q1
    where 1: "enq v H q = Inr (H1, q1)" and 2: "two H1 p q1 xs (ys @ [v])" by blast
  from Cons.IH [OF 2] 1 show ?case by simp
qed simp

text \<open>One take: the front of the first queue, or nothing when it is empty.\<close>

lemma take_front:
  "two H p q xs ys \<Longrightarrow> \<exists>H' p'. deq H p = Inr (case xs of [] \<Rightarrow> None | x # _ \<Rightarrow> Some x, H', p') \<and> two H' p' q (tl xs) ys"
  using deq_Nil deq_Cons by (cases xs) auto

text \<open>A refill: take; when nothing is there, move the second queue over and take again.\<close>

lemma refill:
  assumes "two H p q xs ys"
  shows "\<exists>H1 p1. deq H p = Inr (case xs of [] \<Rightarrow> None | x # _ \<Rightarrow> Some x, H1, p1) \<and> two H1 p1 q (tl xs) ys
     \<and> (xs = [] \<longrightarrow> (\<exists>H2 p2 q2 H3 p3. cat H1 p1 q = Inr (ys \<noteq> [], H2, p2, q2)
           \<and> deq H2 p2 = Inr (case ys of [] \<Rightarrow> None | y # _ \<Rightarrow> Some y, H3, p3) \<and> two H3 p3 q2 (tl ys) []))"
proof -
  from take_front [OF assms] obtain H1 p1
    where 1: "deq H p = Inr (case xs of [] \<Rightarrow> None | x # _ \<Rightarrow> Some x, H1, p1)" "two H1 p1 q (tl xs) ys" by blast
  moreover have "\<exists>H2 p2 q2 H3 p3. cat H1 p1 q = Inr (ys \<noteq> [], H2, p2, q2)
      \<and> deq H2 p2 = Inr (case ys of [] \<Rightarrow> None | y # _ \<Rightarrow> Some y, H3, p3) \<and> two H3 p3 q2 (tl ys) []" if "xs = []"
    using cat [OF 1(2)] take_front that by fastforce
  ultimately show ?thesis by blast
qed

end

lemma two_queues_swap: "two_queues H p q xs ys \<Longrightarrow> two_queues H q p ys xs"
  by (auto simp: two_queues_def)

lemma two_queues_empty: "two_queues H p q xs ys \<Longrightarrow> queue_empty p \<longleftrightarrow> xs = []"
  by (cases "xs = []") (auto simp: two_queues_def q_rep_def queue_empty_def contents_of_def neq_Nil_conv)

interpretation lfq: fifo two_queues enqueue dequeue concatenate queue_empty
proof unfold_locales
  fix H :: "'a qheap" and p q and xs ys :: "'a list" and v x :: 'a
  show "two_queues H p q xs ys \<Longrightarrow> two_queues H q p ys xs" by (rule two_queues_swap)
  show "two_queues H p q xs ys \<Longrightarrow> \<exists>H' p'. enqueue v H p = Inr (H', p') \<and> two_queues H' p' q (xs @ [v]) ys"
    by (rule enqueue_rep)
  show "two_queues H p q [] ys \<Longrightarrow> \<exists>H' p'. dequeue H p = Inr (None, H', p') \<and> two_queues H' p' q [] ys"
    using dequeue_empty by blast
  show "two_queues H p q (x # xs) ys \<Longrightarrow> \<exists>H' p'. dequeue H p = Inr (Some x, H', p') \<and> two_queues H' p' q xs ys"
    by (rule dequeue_rep)
  show "two_queues H p q xs ys \<Longrightarrow>
    \<exists>H' p' q'. concatenate H p q = Inr (ys \<noteq> [], H', p', q') \<and> two_queues H' p' q' (xs @ ys) []"
    by (rule concatenate_rep)
  show "two_queues H p q xs ys \<Longrightarrow> queue_empty p \<longleftrightarrow> xs = []" by (rule two_queues_empty)
qed

lemma two_queues_init: "two_queues \<lparr>q_nodes = Map.empty, q_fresh = 0\<rparr> q_empty q_empty [] []"
  by (rule two_queuesI [OF _ q_rep_empty q_rep_empty]) (simp_all add: heap_ok_def)

end
