(* ===== verification/LFQueue_Threads.thy ===== *)
theory LFQueue_Threads
  imports LFQueue
begin

section \<open>The lock-free queue under several threads\<close>

text \<open>
  The atomic accesses of \<open>enqueue\<close> and \<open>concatenate\<close> one by one, as sequentially consistent steps: a
  producer exchanges the tail and then links the node it got; the consumer exchanges the head of the
  shared queue and then takes its tail, and it dequeues from a queue of its own. Producers alone are safe
  and linear; a consumer that dequeues between the two steps of a producer makes that producer write into
  a deleted node.
\<close>

subsection \<open>The steps of the operations\<close>

definition enq_exchange :: "'a \<Rightarrow> 'a qheap \<Rightarrow> lfqueue \<Rightarrow> qaddr option \<times> qaddr \<times> 'a qheap \<times> lfqueue" where
  "enq_exchange value H q = (let (new_node, H) = q_new value H in (q_tail q, new_node, H, q\<lparr>q_tail := Some new_node\<rparr>))"

definition enq_link :: "qaddr option \<Rightarrow> qaddr \<Rightarrow> 'a qheap \<Rightarrow> lfqueue \<Rightarrow> ('a qheap \<times> lfqueue) res" where
  "enq_link old_tail new_node H q = (case old_tail of
       Some a \<Rightarrow> bindE (q_link a new_node H) (\<lambda>H. Inr (H, q))
     | None \<Rightarrow> Inr (H, q\<lparr>q_head := Some new_node\<rparr>))"

definition cat_finish :: "qaddr \<Rightarrow> 'a qheap \<Rightarrow> lfqueue \<Rightarrow> lfqueue \<Rightarrow> ('a qheap \<times> lfqueue \<times> lfqueue) res" where
  "cat_finish h H q other =
     bindE (enq_link (q_tail q) h H (q\<lparr>q_tail := Some h\<rparr>)) (\<lambda>(H, q).
       Inr (H, q\<lparr>q_tail := q_tail other\<rparr>, other\<lparr>q_tail := None\<rparr>))"

lemma enqueue_steps:
  "enqueue v H q = (case enq_exchange v H q of (old_tail, new_node, H, q) \<Rightarrow> enq_link old_tail new_node H q)"
  by (simp add: enqueue_def enq_exchange_def enq_link_def Let_def split: prod.splits)

lemma concatenate_steps:
  "concatenate H q other = (case q_head other of
      None \<Rightarrow> Inr (False, H, q, other)
    | Some h \<Rightarrow> bindE (cat_finish h H q (other\<lparr>q_head := None\<rparr>)) (\<lambda>(H, q, other). Inr (True, H, q, other)))"
  by (cases other) (auto simp: concatenate_def cat_finish_def enq_link_def Let_def bindE_assoc split: option.splits)

subsection \<open>Interleaving\<close>

text \<open>
  \<open>mp_pend s t\<close> is what thread \<open>t\<close> holds between its two steps. \<open>mp_log\<close> is a history variable: the values
  in the order in which the exchanges took place.
\<close>

record 'a mpq =
  mp_heap :: "'a qheap"
  mp_queue :: lfqueue
  mp_pend :: "nat \<Rightarrow> (qaddr option \<times> qaddr) option"
  mp_run :: lfqueue
  mp_mid :: "qaddr option"
  mp_log :: "'a list"

definition mp_init :: "'a mpq" where
  "mp_init = \<lparr>mp_heap = \<lparr>q_nodes = Map.empty, q_fresh = 0\<rparr>, mp_queue = q_empty, mp_pend = (\<lambda>_. None),
     mp_run = q_empty, mp_mid = None, mp_log = []\<rparr>"

inductive qstep :: "'a mpq \<Rightarrow> 'a mpq \<Rightarrow> bool" where
  exchange: "mp_pend s t = None \<Longrightarrow> enq_exchange v (mp_heap s) (mp_queue s) = (old_tail, n, H, q) \<Longrightarrow>
    qstep s (s\<lparr>mp_heap := H, mp_queue := q, mp_pend := (mp_pend s)(t \<mapsto> (old_tail, n)), mp_log := mp_log s @ [v]\<rparr>)"
| link: "mp_pend s t = Some (old_tail, n) \<Longrightarrow> enq_link old_tail n (mp_heap s) (mp_queue s) = Inr (H, q) \<Longrightarrow>
    qstep s (s\<lparr>mp_heap := H, mp_queue := q, mp_pend := (mp_pend s)(t := None)\<rparr>)"

inductive mstep :: "'a mpq \<Rightarrow> 'a mpq \<Rightarrow> bool" where
  producer: "qstep s s' \<Longrightarrow> mstep s s'"
| take_head: "mp_mid s = None \<Longrightarrow> q_head (mp_queue s) = Some h \<Longrightarrow>
    mstep s (s\<lparr>mp_queue := (mp_queue s)\<lparr>q_head := None\<rparr>, mp_mid := Some h\<rparr>)"
| take_tail: "mp_mid s = Some h \<Longrightarrow> cat_finish h (mp_heap s) (mp_run s) (mp_queue s) = Inr (H, r, q) \<Longrightarrow>
    mstep s (s\<lparr>mp_heap := H, mp_run := r, mp_queue := q, mp_mid := None\<rparr>)"
| serve: "mp_mid s = None \<Longrightarrow> dequeue (mp_heap s) (mp_run s) = Inr (x, H, r) \<Longrightarrow>
    mstep s (s\<lparr>mp_heap := H, mp_run := r\<rparr>)"

inductive_cases qstepE: "qstep s s'"

text \<open>Undefined behaviour: the pending write of a producer hits a deleted node.\<close>

definition mp_fault :: "'a mpq \<Rightarrow> bool" where
  "mp_fault s \<longleftrightarrow> (\<exists>t old_tail n. mp_pend s t = Some (old_tail, n) \<and>
     enq_link old_tail n (mp_heap s) (mp_queue s) = Inl DanglingPtr)"

subsection \<open>Producers only\<close>

text \<open>
  \<open>as\<close> are the nodes in the order of the exchanges. The cell before the \<open>i\<close>-th node, that is the head or the
  link of its predecessor, either names it already or is still empty, and then exactly one thread is about to write it.
\<close>

definition before :: "qaddr list \<Rightarrow> nat \<Rightarrow> qaddr option" where
  "before as i = (if i = 0 then None else Some (as ! (i - 1)))"

definition cell :: "'a mpq \<Rightarrow> qaddr option \<Rightarrow> qaddr option" where
  "cell s c = (case c of None \<Rightarrow> q_head (mp_queue s) | Some a \<Rightarrow> q_next (the (q_nodes (mp_heap s) a)))"

definition waiting :: "'a mpq \<Rightarrow> qaddr list \<Rightarrow> nat \<Rightarrow> bool" where
  "waiting s as i \<longleftrightarrow> (\<exists>t. mp_pend s t = Some (before as i, as ! i))"

definition mp_shape :: "'a mpq \<Rightarrow> qaddr list \<Rightarrow> bool" where
  "mp_shape s as \<longleftrightarrow> distinct as \<and> heap_ok (mp_heap s) \<and> (\<forall>a\<in>set as. q_nodes (mp_heap s) a \<noteq> None)
     \<and> mp_log s = contents_of (mp_heap s) as \<and> q_tail (mp_queue s) = before as (length as)"

definition mp_inv :: "'a mpq \<Rightarrow> qaddr list \<Rightarrow> bool" where
  "mp_inv s as \<longleftrightarrow> mp_shape s as
     \<and> (\<forall>i<length as. cell s (before as i) = (if waiting s as i then None else Some (as ! i)))
     \<and> cell s (before as (length as)) = None
     \<and> (\<forall>t p. mp_pend s t = Some p \<longrightarrow> (\<exists>i<length as. p = (before as i, as ! i)))
     \<and> (\<forall>t t' p. mp_pend s t = Some p \<longrightarrow> mp_pend s t' = Some p \<longrightarrow> t = t')"

lemma before_snoc [simp]: "i \<le> length as \<Longrightarrow> before (as @ [n]) i = before as i"
  by (auto simp: before_def nth_append)

lemma before_snoc_end [simp]: "before (as @ [n]) (Suc (length as)) = Some n"
  by (simp add: before_def)

lemma before_inject:
  "distinct as \<Longrightarrow> i \<le> length as \<Longrightarrow> j \<le> length as \<Longrightarrow> before as i = before as j \<longleftrightarrow> i = j"
  by (auto simp: before_def nth_eq_iff_index_eq)

lemma before_mem: "before as i = Some a \<Longrightarrow> i \<le> length as \<Longrightarrow> a \<in> set as"
  by (auto simp: before_def split: if_splits)

lemma mp_inv_init: "mp_inv mp_init []"
  by (simp add: mp_inv_def mp_shape_def mp_init_def before_def cell_def q_empty_def heap_ok_def)

lemma mp_inv_not_fault:
  assumes "mp_inv s as" shows "\<not> mp_fault s"
proof
  assume "mp_fault s"
  then obtain t a n where p: "mp_pend s t = Some (Some a, n)" and none: "q_nodes (mp_heap s) a = None"
    by (auto simp: mp_fault_def enq_link_def q_link_def q_deref_def bindE_eq_Inl split: option.splits)
  have "\<exists>i<length as. (Some a, n) = (before as i, as ! i)" using assms p unfolding mp_inv_def by blast
  then obtain i where i: "i < length as" "before as i = Some a" by auto
  then have "a \<in> set as" using before_mem [OF i(2)] by simp
  with assms none show False unfolding mp_inv_def mp_shape_def by blast
qed

text \<open>An exchange adds a node at the end; its cell is the old end, and its writer is this thread.\<close>

lemma mp_inv_exchange:
  assumes inv: "mp_inv s as" and t: "mp_pend s t = None"
    and ex: "enq_exchange v (mp_heap s) (mp_queue s) = (old_tail, n, H, q)"
  defines "s' \<equiv> s\<lparr>mp_heap := H, mp_queue := q, mp_pend := (mp_pend s)(t \<mapsto> (old_tail, n)), mp_log := mp_log s @ [v]\<rparr>"
  shows "mp_inv s' (as @ [n])"
proof -
  note I = inv [unfolded mp_inv_def]
  have sh: "distinct as" "heap_ok (mp_heap s)" "\<And>a. a \<in> set as \<Longrightarrow> q_nodes (mp_heap s) a \<noteq> None"
    "mp_log s = contents_of (mp_heap s) as" "q_tail (mp_queue s) = before as (length as)"
    using I by (auto simp: mp_shape_def)
  have H: "old_tail = before as (length as)" "q_head q = q_head (mp_queue s)" "q_tail q = Some n"
      "q_fresh H = Suc n" "n = q_fresh (mp_heap s)"
      "\<And>c. q_nodes H c = (if c = n then Some \<lparr>q_data = v, q_next = None\<rparr> else q_nodes (mp_heap s) c)"
    using ex sh(5) by (auto simp: enq_exchange_def q_new_def Let_def)
  have "q_nodes (mp_heap s) n = None" using sh(2) H(5) by (simp add: heap_ok_def)
  with sh(3) have n: "n \<notin> set as" by blast
  have cell: "cell s' (before as i) = cell s (before as i)" if "i \<le> length as" for i
    using before_mem [of as i] that n H(2,6) by (auto simp: cell_def s'_def split: option.splits)
  have pend: "mp_pend s' u = Some p \<longleftrightarrow> (if u = t then p = (before as (length as), n) else mp_pend s u = Some p)" for u p
    using H(1) by (auto simp: s'_def)
  have old: "snd p \<in> set as" if "mp_pend s u = Some p" for u p
    using I that by (metis nth_mem snd_conv)
  have wait: "waiting s' (as @ [n]) i \<longleftrightarrow> (if i = length as then True else waiting s as i)" if "i \<le> length as" for i
  proof (cases "i = length as")
    case True then show ?thesis by (auto simp: waiting_def pend)
  next
    case False
    with that n have "as ! i \<noteq> n" "(as @ [n]) ! i = as ! i" by (auto simp: nth_append)
    with False that t show ?thesis unfolding waiting_def pend by (auto split: if_splits) (metis option.distinct(1))
  qed
  have "contents_of H as = contents_of (mp_heap s) as" using n H(6) by (intro contents_cong) auto
  then have shape: "mp_shape s' (as @ [n])"
    using sh n H by (auto simp: mp_shape_def s'_def heap_ok_def contents_of_def)
  show ?thesis unfolding mp_inv_def
  proof (intro conjI allI impI)
    show "mp_shape s' (as @ [n])" by (rule shape)
  next
    fix i assume i: "i < length (as @ [n])"
    then have i': "i \<le> length as" by simp
    show "cell s' (before (as @ [n]) i) = (if waiting s' (as @ [n]) i then None else Some ((as @ [n]) ! i))"
      using wait [OF i'] cell [OF i'] I i i' by (auto simp: nth_append)
  next
    show "cell s' (before (as @ [n]) (length (as @ [n]))) = None" using H(6) by (simp add: cell_def s'_def)
  next
    fix u p assume u: "mp_pend s' u = Some p"
    show "\<exists>i<length (as @ [n]). p = (before (as @ [n]) i, (as @ [n]) ! i)"
    proof (cases "u = t")
      case True with u pend show ?thesis by (intro exI [of _ "length as"]) simp
    next
      case False
      with u pend I obtain i where "i < length as" "p = (before as i, as ! i)" by metis
      then show ?thesis by (intro exI [of _ i]) (simp add: nth_append)
    qed
  next
    fix u u' p assume "mp_pend s' u = Some p" "mp_pend s' u' = Some p"
    then have "(if u = t then snd p = n else mp_pend s u = Some p)" "(if u' = t then snd p = n else mp_pend s u' = Some p)"
      by (simp_all add: pend split: if_splits)
    moreover have "snd p \<noteq> n" if "mp_pend s w = Some p" for w using old [OF that] n by metis
    ultimately show "u = u'" using I by metis
  qed
qed

text \<open>A link fills the one cell its thread is waiting to fill.\<close>

lemma mp_inv_link:
  assumes inv: "mp_inv s as" and t: "mp_pend s t = Some (old_tail, n)"
    and ln: "enq_link old_tail n (mp_heap s) (mp_queue s) = Inr (H, q)"
  defines "s' \<equiv> s\<lparr>mp_heap := H, mp_queue := q, mp_pend := (mp_pend s)(t := None)\<rparr>"
  shows "mp_inv s' as"
proof -
  note I = inv [unfolded mp_inv_def]
  have d: "distinct as" using I by (simp add: mp_shape_def)
  from I t obtain i where i: "i < length as" "old_tail = before as i" "n = as ! i" by blast
  have H: "q_fresh H = q_fresh (mp_heap s)" "q_tail q = q_tail (mp_queue s)"
      "\<And>cs. contents_of H cs = contents_of (mp_heap s) cs" "\<And>c. q_nodes H c = None \<longleftrightarrow> q_nodes (mp_heap s) c = None"
      "\<And>c. cell s' c = (if c = old_tail then Some n else cell s c)"
    using ln by (auto simp: enq_link_def q_link_def q_deref_def bindE_eq_Inr cell_def s'_def contents_of_def split: option.splits if_splits)
  have same: "before as j = old_tail \<longleftrightarrow> j = i" if "j \<le> length as" for j
    using before_inject [OF d that, of i] i by simp
  have pend: "mp_pend s' u = (if u = t then None else mp_pend s u)" for u by (simp add: s'_def)
  have wait: "waiting s' as j \<longleftrightarrow> waiting s as j \<and> j \<noteq> i" if "j < length as" for j
  proof -
    have "u = t" if "mp_pend s u = Some (before as i, as ! i)" for u using I t i that by metis
    moreover have "mp_pend s t \<noteq> Some (before as j, as ! j)" if "j \<noteq> i" using t i same [of j] that \<open>j < length as\<close> by auto
    ultimately show ?thesis unfolding waiting_def pend by (metis option.distinct(1))
  qed
  show ?thesis unfolding mp_inv_def
  proof (intro conjI allI impI)
    have "mp_log s' = mp_log s" "mp_heap s' = H" "mp_queue s' = q" by (simp_all add: s'_def)
    with H show "mp_shape s' as" using I by (simp add: mp_shape_def heap_ok_def)
  next
    fix j assume j: "j < length as"
    show "cell s' (before as j) = (if waiting s' as j then None else Some (as ! j))"
      using wait [OF j] same [of j] H(5) I j i(3) by auto
  next
    show "cell s' (before as (length as)) = None" using H(5) same [of "length as"] I i(1) by simp
  next
    fix u p assume "mp_pend s' u = Some p"
    then show "\<exists>j<length as. p = (before as j, as ! j)" using I pend by (metis option.distinct(1))
  next
    fix u u' p assume "mp_pend s' u = Some p" "mp_pend s' u' = Some p"
    then show "u = u'" using I pend by (metis option.distinct(1))
  qed
qed

lemma mp_inv_reachable: "qstep\<^sup>*\<^sup>* mp_init s \<Longrightarrow> \<exists>as. mp_inv s as"
proof (induction rule: rtranclp_induct)
  case base
  show ?case using mp_inv_init by blast
next
  case (step s s')
  then obtain as where inv: "mp_inv s as" by blast
  from step.hyps(2) show ?case
    by (cases rule: qstepE) (use mp_inv_exchange [OF inv] mp_inv_link [OF inv] in blast)+
qed

text \<open>When no thread is between its steps, the links run through all the nodes.\<close>

lemma mp_inv_chained:
  assumes inv: "mp_inv s as" and quiet: "\<And>t. mp_pend s t = None"
  shows "i \<le> length as \<Longrightarrow> chained (q_nodes (mp_heap s)) (cell s (before as i)) (drop i as)"
proof (induction "length as - i" arbitrary: i)
  case 0
  then show ?case using inv by (simp add: mp_inv_def)
next
  case (Suc k)
  then have i: "i < length as" by simp
  have "cell s (before as i) = Some (as ! i)" using inv i quiet by (simp add: mp_inv_def waiting_def)
  moreover have "q_nodes (mp_heap s) (as ! i) \<noteq> None" using inv i by (auto simp: mp_inv_def mp_shape_def)
  moreover have "chained (q_nodes (mp_heap s)) (cell s (Some (as ! i))) (drop (Suc i) as)"
    using Suc.hyps(1) [of "Suc i"] Suc.hyps(2) i by (simp add: before_def)
  ultimately show ?case using Cons_nth_drop_Suc [OF i, symmetric] by (auto simp: cell_def)
qed

lemma mp_inv_quiet:
  assumes inv: "mp_inv s as" and quiet: "\<And>t. mp_pend s t = None"
  shows "q_rep (mp_heap s) (mp_queue s) as (mp_log s)"
  using mp_inv_chained [OF assms, of 0] inv
  by (auto simp: q_rep_def mp_inv_def mp_shape_def cell_def before_def last_opt_def last_conv_nth)

subsection \<open>A consumer in between\<close>

text \<open>
  Thread 1 has exchanged the tail and not yet linked; the consumer takes the queue over, dequeues the node
  that thread 1 is to write to, and deletes it.
\<close>

definition race_heap :: "'a \<Rightarrow> 'a \<Rightarrow> 'a qheap" where
  "race_heap v w = \<lparr>q_nodes = [0 \<mapsto> \<lparr>q_data = v, q_next = None\<rparr>, 1 \<mapsto> \<lparr>q_data = w, q_next = None\<rparr>], q_fresh = 2\<rparr>"

definition race_state :: "'a \<Rightarrow> 'a \<Rightarrow> 'a mpq" where
  "race_state v w = \<lparr>mp_heap = race_heap v w, mp_queue = \<lparr>q_head = Some 0, q_tail = Some 1\<rparr>,
     mp_pend = (\<lambda>_. None)(1 := Some (Some 0, 1)), mp_run = q_empty, mp_mid = None, mp_log = [v, w]\<rparr>"

lemma race_state_reachable: "qstep\<^sup>*\<^sup>* mp_init (race_state v (w :: 'a))"
proof -
  let ?H = "\<lparr>q_nodes = [0 \<mapsto> \<lparr>q_data = v, q_next = None\<rparr>], q_fresh = 1\<rparr>"
  let ?s1 = "(mp_init :: 'a mpq)\<lparr>mp_heap := ?H, mp_queue := \<lparr>q_head = None, q_tail = Some 0\<rparr>,
     mp_pend := (mp_pend (mp_init :: 'a mpq))(0 \<mapsto> (None, 0)), mp_log := mp_log (mp_init :: 'a mpq) @ [v]\<rparr>"
  let ?s2 = "?s1\<lparr>mp_heap := ?H, mp_queue := \<lparr>q_head = Some 0, q_tail = Some 0\<rparr>, mp_pend := (mp_pend ?s1)(0 := None)\<rparr>"
  let ?s3 = "?s2\<lparr>mp_heap := race_heap v w, mp_queue := \<lparr>q_head = Some 0, q_tail = Some 1\<rparr>,
     mp_pend := (mp_pend ?s2)(1 \<mapsto> (Some 0, 1)), mp_log := mp_log ?s2 @ [w]\<rparr>"
  have "qstep mp_init ?s1"
    by (rule exchange) (simp_all add: mp_init_def enq_exchange_def q_new_def q_empty_def)
  moreover have "qstep ?s1 ?s2" by (rule link [of _ _ None 0]) (simp_all add: enq_link_def)
  moreover have "qstep ?s2 ?s3"
    by (rule exchange) (simp_all add: mp_init_def enq_exchange_def q_new_def race_heap_def)
  ultimately have "qstep\<^sup>*\<^sup>* mp_init ?s3" by (meson r_into_rtranclp rtranclp_trans)
  moreover have "?s3 = race_state v w" by (simp add: race_state_def mp_init_def fun_upd_idem)
  ultimately show ?thesis by simp
qed

lemma qstep_mstep: "qstep\<^sup>*\<^sup>* s s' \<Longrightarrow> mstep\<^sup>*\<^sup>* s s'"
  using mono_rtranclp [of qstep mstep] producer by blast

lemma race_fault: "\<exists>s. mstep\<^sup>*\<^sup>* (race_state v w) s \<and> mp_fault s"
proof -
  let ?s4 = "(race_state v w)\<lparr>mp_queue := (mp_queue (race_state v w))\<lparr>q_head := None\<rparr>, mp_mid := Some 0\<rparr>"
  let ?s5 = "?s4\<lparr>mp_heap := race_heap v w, mp_run := \<lparr>q_head = Some 0, q_tail = Some 1\<rparr>, mp_queue := q_empty, mp_mid := None\<rparr>"
  let ?s6 = "?s5\<lparr>mp_heap := q_delete 0 (race_heap v w), mp_run := q_empty\<rparr>"
  have "mstep (race_state v w) ?s4" by (rule take_head) (simp_all add: race_state_def)
  moreover have "mstep ?s4 ?s5"
    by (rule take_tail [of _ 0]) (simp_all add: race_state_def cat_finish_def enq_link_def q_empty_def)
  moreover have "mstep ?s5 ?s6"
    by (rule serve [of _ "Some v"])
      (simp_all add: race_heap_def dequeue_def q_deref_def q_empty_def q_delete_def)
  ultimately have "mstep\<^sup>*\<^sup>* (race_state v w) ?s6" by (meson r_into_rtranclp rtranclp_trans)
  moreover have "mp_pend ?s6 1 = Some (Some 0, 1)" by (simp add: race_state_def)
  then have "mp_fault ?s6" unfolding mp_fault_def
    by (intro exI [of _ 1] exI [of _ "Some 0"] exI) (simp add: enq_link_def q_link_def q_deref_def q_delete_def)
  ultimately show ?thesis by blast
qed

subsection \<open>Properties\<close>



text \<open>
  C16: any number of threads may enqueue at once: whatever the interleaving of their atomic steps, no step is
  undefined, and whenever no thread is between its two steps the queue holds exactly the enqueued values, in
  the order of the exchanges of the tail.
\<close>

theorem lfqueue_producers_linear:
  assumes "qstep\<^sup>*\<^sup>* mp_init s"
  shows "\<not> mp_fault s \<and> ((\<forall>t. mp_pend s t = None) \<longrightarrow> (\<exists>as. q_rep (mp_heap s) (mp_queue s) as (mp_log s)))"
  using mp_inv_reachable [OF assms] mp_inv_not_fault mp_inv_quiet by blast

theorem lfqueue_producers_linear_witness:
  "\<not> mp_fault (race_state (3::nat) 4)"
  using lfqueue_producers_linear [OF race_state_reachable [of "3::nat" 4]] by blast

text \<open>
  With one consumer that moves the queue to its own and dequeues, as \<open>Processor::getNextTask\<close> does, the queue
  is not safe: some interleaving lets a producer write through the tail it exchanged after the consumer has
  deleted that node.
\<close>

theorem lfqueue_consumer_race:
  "\<exists>s :: 'a mpq. mstep\<^sup>*\<^sup>* mp_init s \<and> mp_fault s"
  using race_fault qstep_mstep [OF race_state_reachable] rtranclp_trans [of mstep] by metis

end
