(* ===== verification/Processor.thy ===== *)
theory Processor
  imports LFQueue
begin

section \<open>Tasks and the processor\<close>

text \<open>
  \<open>Processor\<close> of src/spike/coroutine/Processor.cpp and the states of \<open>Task\<close> (src/spike/coroutine/Task.h).
  A processor is one thread that runs the tasks of two lock-free queues: \<open>m_runableQueue\<close>, which only it
  touches, and \<open>m_newQueue\<close>, where tasks that were created or woken wait. The body of a coroutine is a
  parameter \<open>body\<close>: what a task does from \<open>swapIn\<close> to the next \<open>swapOut\<close>, namely how it ends, the tasks it
  hands to \<open>addTask\<close> of this processor on the way, and the new state of the program around it.
\<close>

type_synonym task = nat

text \<open>\<open>TERM'\<close> is the state \<open>TERM\<close>, whose name the logic keeps for itself.\<close>

datatype TaskState = READY | EXEC | HOLD | EXCEPT | TERM'

text \<open>How a slice ends: \<open>Task::yield\<close>, \<open>Task::hold\<close>, or the end of the callback in \<open>Task::run\<close>, by a return or an exception.\<close>

datatype slice_end = Yields | Holds | Returns | Throws

primrec end_state :: "slice_end \<Rightarrow> TaskState" where
  "end_state Yields = READY"
| "end_state Holds = HOLD"
| "end_state Returns = TERM'"
| "end_state Throws = EXCEPT"

record processor =
  m_id :: nat
  m_idled :: bool
  m_notified :: bool
  m_curTask :: "task option"
  m_queues :: "task qheap"
  m_newQueue :: lfqueue
  m_runableQueue :: lfqueue
  m_garbageList :: "task list"
  m_switchCount :: u64
  m_addNewRemain :: int
  m_taskState :: "task \<Rightarrow> TaskState"
  m_taskProcessor :: "task \<Rightarrow> nat option"

definition new_Processor :: "nat \<Rightarrow> processor" where
  "new_Processor n = \<lparr>m_id = n, m_idled = False, m_notified = False, m_curTask = None,
     m_queues = \<lparr>q_nodes = Map.empty, q_fresh = 0\<rparr>, m_newQueue = q_empty, m_runableQueue = q_empty,
     m_garbageList = [], m_switchCount = 0, m_addNewRemain = 0, m_taskState = (\<lambda>_. READY), m_taskProcessor = (\<lambda>_. None)\<rparr>"

subsection \<open>Queueing\<close>

text \<open>\<open>tickle\<close>: to a sleeping processor it is the signal, which has no effect on the fields.\<close>

definition tickle :: "processor \<Rightarrow> processor" where
  "tickle pr = (if m_idled pr then pr else if \<not> m_notified pr then pr\<lparr>m_notified := True\<rparr> else pr)"

definition addTask :: "task \<Rightarrow> processor \<Rightarrow> processor res" where
  "addTask t pr = bindE (enqueue t (m_queues pr) (m_newQueue pr)) (\<lambda>(H, q).
     Inr (tickle (pr\<lparr>m_queues := H, m_newQueue := q\<rparr>)))"

definition wakeupTask :: "task \<Rightarrow> processor \<Rightarrow> processor res" where
  "wakeupTask t pr = addTask t pr"

fun addTasks :: "task list \<Rightarrow> processor \<Rightarrow> processor res" where
  "addTasks [] pr = Inr pr"
| "addTasks (t # ts) pr = bindE (addTask t pr) (addTasks ts)"

text \<open>\<open>dequeue(m_curTask)\<close>: a failed one leaves \<open>m_curTask\<close> as it is.\<close>

definition dequeue_cur :: "processor \<Rightarrow> (bool \<times> processor) res" where
  "dequeue_cur pr = bindE (dequeue (m_queues pr) (m_runableQueue pr)) (\<lambda>(x, H, q).
     let pr = pr\<lparr>m_queues := H, m_runableQueue := q\<rparr>
     in case x of None \<Rightarrow> Inr (False, pr) | Some t \<Rightarrow> Inr (True, pr\<lparr>m_curTask := Some t\<rparr>))"

definition concatenate_new :: "processor \<Rightarrow> processor res" where
  "concatenate_new pr = bindE (concatenate (m_queues pr) (m_runableQueue pr) (m_newQueue pr)) (\<lambda>(_, H, r, n).
     Inr (pr\<lparr>m_queues := H, m_runableQueue := r, m_newQueue := n\<rparr>))"

definition getNextTask :: "bool \<Rightarrow> processor \<Rightarrow> processor res" where
  "getNextTask flag pr = bindE (dequeue_cur pr) (\<lambda>(ok, pr).
     if ok then Inr pr
     else
       bindE (if flag \<or> m_addNewRemain pr > 0
              then bindE (concatenate_new pr) (\<lambda>pr.
                     Inr (if \<not> flag then pr\<lparr>m_addNewRemain := m_addNewRemain pr - 1\<rparr> else pr))
              else Inr pr) (\<lambda>pr.
       bindE (dequeue_cur pr) (\<lambda>(_, pr). Inr pr)))"

definition garbageCollection :: "processor \<Rightarrow> processor" where
  "garbageCollection pr = pr\<lparr>m_garbageList := []\<rparr>"

subsection \<open>Running\<close>

text \<open>The switch over the state that task \<open>t\<close> left when it swapped out.\<close>

definition after_slice :: "task \<Rightarrow> processor \<Rightarrow> processor res" where
  "after_slice t pr = (case m_taskState pr t of
      READY \<Rightarrow> bindE (enqueue t (m_queues pr) (m_runableQueue pr)) (\<lambda>(H, q).
                 Inr (pr\<lparr>m_queues := H, m_runableQueue := q\<rparr>))
    | HOLD \<Rightarrow> Inr pr
    | _ \<Rightarrow> let pr = (if length (m_garbageList pr) > 16 then garbageCollection pr else pr)
           in Inr (pr\<lparr>m_garbageList := m_garbageList pr @ [t]\<rparr>))"

text \<open>The body of the inner loop of \<open>run\<close>, for the current task \<open>t\<close>.\<close>

definition run_slice :: "(task \<Rightarrow> 's \<Rightarrow> slice_end \<times> task list \<times> 's) \<Rightarrow> task \<Rightarrow> processor \<Rightarrow> 's \<Rightarrow> (processor \<times> 's) res" where
  "run_slice body t pr s =
     (let pr = pr\<lparr>m_taskProcessor := (m_taskProcessor pr)(t \<mapsto> m_id pr), m_switchCount := m_switchCount pr + 1\<rparr>;
          (e, added, s) = body t s
      in bindE (addTasks added pr) (\<lambda>pr.
         bindE (after_slice t (pr\<lparr>m_taskState := (m_taskState pr)(t := end_state e)\<rparr>)) (\<lambda>pr.
         bindE (getNextTask False (pr\<lparr>m_curTask := None\<rparr>)) (\<lambda>pr. Inr (pr, s)))))"

text \<open>
  \<open>idle\<close>: return at once when notified, otherwise sleep until a signal. What other threads enqueue meanwhile is
  the argument \<open>arrivals\<close>; how the signal and the flags work together under several threads is the subject of Handshake.
\<close>

definition idle :: "('s \<Rightarrow> task list \<times> 's) \<Rightarrow> processor \<Rightarrow> 's \<Rightarrow> (processor \<times> 's) res" where
  "idle arrivals pr s =
     (if m_notified pr then Inr (pr\<lparr>m_notified := False\<rparr>, s)
      else
        let pr = pr\<lparr>m_idled := True\<rparr>; (ts, s) = arrivals s
        in bindE (addTasks ts pr) (\<lambda>pr. Inr (pr\<lparr>m_idled := False\<rparr>, s)))"

text \<open>The loops of \<open>run\<close>, one test of a loop condition at a time.\<close>

datatype run_pc = Outer | Inner | Exited

definition run_step :: "(task \<Rightarrow> 's \<Rightarrow> slice_end \<times> task list \<times> 's) \<Rightarrow> ('s \<Rightarrow> task list \<times> 's) \<Rightarrow> ('s \<Rightarrow> bool)
    \<Rightarrow> run_pc \<times> processor \<times> 's \<Rightarrow> (run_pc \<times> processor \<times> 's) res" where
  "run_step body arrivals stopping c = (case c of
      (Outer, pr, s) \<Rightarrow>
        if stopping s then Inr (Exited, pr, s)
        else bindE (getNextTask True pr) (\<lambda>pr.
          if m_curTask pr = None
          then bindE (idle arrivals (garbageCollection pr) s) (\<lambda>(pr, s).
               bindE (concatenate_new pr) (\<lambda>pr. Inr (Outer, pr, s)))
          else Inr (Inner, pr\<lparr>m_addNewRemain := 1\<rparr>, s))
    | (Inner, pr, s) \<Rightarrow> (case m_curTask pr of
          None \<Rightarrow> Inr (Outer, pr, s)
        | Some t \<Rightarrow> if stopping s then Inr (Outer, pr, s)
            else bindE (run_slice body t pr s) (\<lambda>(pr, s). Inr (Inner, pr, s)))
    | (Exited, pr, s) \<Rightarrow> Inr (Exited, pr, s))"

fun run_steps :: "(task \<Rightarrow> 's \<Rightarrow> slice_end \<times> task list \<times> 's) \<Rightarrow> ('s \<Rightarrow> task list \<times> 's) \<Rightarrow> ('s \<Rightarrow> bool)
    \<Rightarrow> nat \<Rightarrow> run_pc \<times> processor \<times> 's \<Rightarrow> (run_pc \<times> processor \<times> 's) res" where
  "run_steps body arrivals stopping 0 c = Inr c"
| "run_steps body arrivals stopping (Suc k) c =
     bindE (run_step body arrivals stopping c) (run_steps body arrivals stopping k)"

subsection \<open>Dispatch\<close>

text \<open>
  \<open>Scheduler::addTask\<close> of src/spike/coroutine/Scheduler.cpp picks the processor: the one of the task, else the one of
  the calling thread when it belongs to this scheduler, else the first active one of \<open>m_processors\<close> from
  \<open>m_lastActiveIdx\<close> on, else the main one. Processors are named by numbers; \<open>activated\<close> and \<open>scheduler_of\<close> read their fields.
\<close>

record scheduler =
  m_processors :: "nat list"
  m_mainProcessor :: nat
  m_lastActiveIdx :: nat

fun find_active :: "(nat \<Rightarrow> bool) \<Rightarrow> nat list \<Rightarrow> nat \<Rightarrow> nat \<Rightarrow> nat option \<Rightarrow> nat option" where
  "find_active activated ps 0 idx p = p"
| "find_active activated ps (Suc k) idx p =
     (let idx = idx mod length ps; p = ps ! idx
      in if activated p then Some p else find_active activated ps k (Suc idx) (Some p))"

definition dispatch :: "(nat \<Rightarrow> bool) \<Rightarrow> (nat \<Rightarrow> 'sched) \<Rightarrow> 'sched \<Rightarrow> nat option \<Rightarrow> nat option \<Rightarrow> scheduler \<Rightarrow> nat" where
  "dispatch activated scheduler_of this task_proc current sc =
     (let ok = (\<lambda>p. case p of None \<Rightarrow> False | Some q \<Rightarrow> activated q);
          mine = (\<lambda>p. case p of None \<Rightarrow> False | Some q \<Rightarrow> activated q \<and> scheduler_of q = this);
          ps = m_processors sc
      in if ok task_proc then the task_proc
         else if mine current then the current
         else
           let processor = find_active activated ps (length ps) (m_lastActiveIdx sc) current
           in if mine processor then the processor else m_mainProcessor sc)"

end
