(* ===== verification/Processor_Props.thy ===== *)
theory Processor_Props
  imports Processor "HOL-Library.Multiset"
begin

section \<open>The processor refines a round-robin scheduler\<close>

text \<open>
  The abstract scheduler has two lists instead of the two linked queues. Every step of the run loop on the
  linked queues is a step of it, so its fairness and its starvation are those of the code.
\<close>

record sched =
  s_run :: "task list"
  s_new :: "task list"
  s_cur :: "task option"
  s_remain :: int
  s_garbage :: "task list"
  s_notified :: bool

definition proc_abs :: "processor \<Rightarrow> sched \<Rightarrow> bool" where
  "proc_abs pr A \<longleftrightarrow> two_queues (m_queues pr) (m_runableQueue pr) (m_newQueue pr) (s_run A) (s_new A)
     \<and> m_curTask pr = s_cur A \<and> m_addNewRemain pr = s_remain A \<and> m_garbageList pr = s_garbage A
     \<and> m_notified pr = s_notified A \<and> \<not> m_idled pr"

definition a_add :: "task list \<Rightarrow> sched \<Rightarrow> sched" where
  "a_add ts A = A\<lparr>s_new := s_new A @ ts, s_notified := s_notified A \<or> ts \<noteq> []\<rparr>"

definition a_next :: "bool \<Rightarrow> sched \<Rightarrow> sched" where
  "a_next flag A = (case s_run A of
      t # ts \<Rightarrow> A\<lparr>s_run := ts, s_cur := Some t\<rparr>
    | [] \<Rightarrow>
        if flag \<or> s_remain A > 0
        then let A = A\<lparr>s_remain := (if flag then s_remain A else s_remain A - 1)\<rparr>
             in case s_new A of [] \<Rightarrow> A | t # ts \<Rightarrow> A\<lparr>s_run := ts, s_new := [], s_cur := Some t\<rparr>
        else A)"

definition a_slice :: "(task \<Rightarrow> 's \<Rightarrow> slice_end \<times> task list \<times> 's) \<Rightarrow> task \<Rightarrow> sched \<Rightarrow> 's \<Rightarrow> sched \<times> 's" where
  "a_slice body t A s = (case body t s of (e, added, s) \<Rightarrow>
     let A = a_add added A;
         A = (case e of
                Yields \<Rightarrow> A\<lparr>s_run := s_run A @ [t]\<rparr>
              | Holds \<Rightarrow> A
              | _ \<Rightarrow> A\<lparr>s_garbage := (if length (s_garbage A) > 16 then [] else s_garbage A) @ [t]\<rparr>)
     in (a_next False (A\<lparr>s_cur := None\<rparr>), s))"

definition a_idle :: "('s \<Rightarrow> task list \<times> 's) \<Rightarrow> sched \<Rightarrow> 's \<Rightarrow> sched \<times> 's" where
  "a_idle arrivals A s =
     (let (A, s) = (if s_notified A then (A\<lparr>s_notified := False\<rparr>, s)
                    else case arrivals s of (ts, s) \<Rightarrow> (A\<lparr>s_new := s_new A @ ts\<rparr>, s))
      in (A\<lparr>s_run := s_run A @ s_new A, s_new := []\<rparr>, s))"

definition a_step :: "(task \<Rightarrow> 's \<Rightarrow> slice_end \<times> task list \<times> 's) \<Rightarrow> ('s \<Rightarrow> task list \<times> 's) \<Rightarrow> ('s \<Rightarrow> bool)
    \<Rightarrow> run_pc \<times> sched \<times> 's \<Rightarrow> run_pc \<times> sched \<times> 's" where
  "a_step body arrivals stopping c = (case c of
      (Outer, A, s) \<Rightarrow>
        if stopping s then (Exited, A, s)
        else let A = a_next True A
             in if s_cur A = None then (Outer, a_idle arrivals (A\<lparr>s_garbage := []\<rparr>) s)
                else (Inner, A\<lparr>s_remain := 1\<rparr>, s)
    | (Inner, A, s) \<Rightarrow> (case s_cur A of
          None \<Rightarrow> (Outer, A, s)
        | Some t \<Rightarrow> if stopping s then (Outer, A, s) else (Inner, a_slice body t A s))
    | (Exited, A, s) \<Rightarrow> (Exited, A, s))"

subsection \<open>Simulation\<close>

lemma proc_abs_taskState [simp]:
  "proc_abs (pr\<lparr>m_taskState := f\<rparr>) A = proc_abs pr A"
  "proc_abs (pr\<lparr>m_taskProcessor := g\<rparr>) A = proc_abs pr A"
  "proc_abs (pr\<lparr>m_switchCount := n\<rparr>) A = proc_abs pr A"
  by (simp_all add: proc_abs_def)

lemma addTask_queues:
  assumes "two_queues (m_queues pr) (m_runableQueue pr) (m_newQueue pr) xs ys"
  shows "\<exists>H q. addTask t pr = Inr (tickle (pr\<lparr>m_queues := H, m_newQueue := q\<rparr>))
     \<and> two_queues H (m_runableQueue pr) q xs (ys @ [t])"
  using lfq.enq_second [OF assms, of t] unfolding addTask_def by fastforce

lemma tickle_fields [simp]:
  "m_queues (tickle pr) = m_queues pr" "m_runableQueue (tickle pr) = m_runableQueue pr"
  "m_newQueue (tickle pr) = m_newQueue pr" "m_curTask (tickle pr) = m_curTask pr"
  "m_addNewRemain (tickle pr) = m_addNewRemain pr" "m_garbageList (tickle pr) = m_garbageList pr"
  "m_idled (tickle pr) = m_idled pr" "m_notified (tickle pr) = (m_notified pr \<or> \<not> m_idled pr)"
  by (simp_all add: tickle_def)

lemma addTasks_queues:
  "two_queues (m_queues pr) (m_runableQueue pr) (m_newQueue pr) xs ys \<Longrightarrow>
   \<exists>pr'. addTasks ts pr = Inr pr' \<and> two_queues (m_queues pr') (m_runableQueue pr') (m_newQueue pr') xs (ys @ ts)
     \<and> m_curTask pr' = m_curTask pr \<and> m_addNewRemain pr' = m_addNewRemain pr \<and> m_garbageList pr' = m_garbageList pr
     \<and> m_idled pr' = m_idled pr \<and> m_notified pr' = (m_notified pr \<or> (\<not> m_idled pr \<and> ts \<noteq> []))"
proof (induction ts arbitrary: pr ys)
  case (Cons t ts)
  from addTask_queues [OF Cons.prems, of t] obtain H q
    where 1: "addTask t pr = Inr (tickle (pr\<lparr>m_queues := H, m_newQueue := q\<rparr>))"
      and 2: "two_queues H (m_runableQueue pr) q xs (ys @ [t])" by blast
  from Cons.IH [of "tickle (pr\<lparr>m_queues := H, m_newQueue := q\<rparr>)" "ys @ [t]"] 2
  show ?case by (auto simp: 1)
qed simp

lemma addTasks_abs:
  assumes "proc_abs pr A" shows "\<exists>pr'. addTasks ts pr = Inr pr' \<and> proc_abs pr' (a_add ts A)"
proof -
  from assms have "two_queues (m_queues pr) (m_runableQueue pr) (m_newQueue pr) (s_run A) (s_new A)"
    by (simp add: proc_abs_def)
  from addTasks_queues [OF this, of ts] assms show ?thesis by (auto simp: proc_abs_def a_add_def)
qed

lemma dequeue_cur_abs:
  assumes "proc_abs pr A"
  shows "\<exists>pr'. dequeue_cur pr = Inr (s_run A \<noteq> [], pr')
     \<and> proc_abs pr' (case s_run A of [] \<Rightarrow> A | t # ts \<Rightarrow> A\<lparr>s_run := ts, s_cur := Some t\<rparr>)"
  using assms lfq.take_front [of "m_queues pr" "m_runableQueue pr" "m_newQueue pr" "s_run A" "s_new A"]
  by (cases "s_run A") (auto simp: dequeue_cur_def proc_abs_def Let_def)

lemma concatenate_new_abs:
  assumes "proc_abs pr A"
  shows "\<exists>pr'. concatenate_new pr = Inr pr' \<and> proc_abs pr' (A\<lparr>s_run := s_run A @ s_new A, s_new := []\<rparr>)"
  using assms lfq.cat [of "m_queues pr" "m_runableQueue pr" "m_newQueue pr" "s_run A" "s_new A"]
  by (auto simp: concatenate_new_def proc_abs_def)

lemma getNextTask_abs:
  assumes abs: "proc_abs pr A" shows "\<exists>pr'. getNextTask flag pr = Inr pr' \<and> proc_abs pr' (a_next flag A)"
proof (cases "s_run A")
  case (Cons t ts)
  with dequeue_cur_abs [OF abs] show ?thesis by (auto simp: getNextTask_def a_next_def)
next
  case Nil
  with dequeue_cur_abs [OF abs] obtain p1 where 1: "dequeue_cur pr = Inr (False, p1)" "proc_abs p1 A" by auto
  show ?thesis
  proof (cases "flag \<or> s_remain A > 0")
    case False
    with dequeue_cur_abs [OF 1(2)] 1 Nil show ?thesis by (auto simp: getNextTask_def a_next_def proc_abs_def)
  next
    case True
    from concatenate_new_abs [OF 1(2)] Nil obtain p2
      where 2: "concatenate_new p1 = Inr p2" "proc_abs p2 (A\<lparr>s_run := s_new A, s_new := []\<rparr>)" by auto
    define p3 A3 where "p3 = (if \<not> flag then p2\<lparr>m_addNewRemain := m_addNewRemain p2 - 1\<rparr> else p2)"
      and "A3 = A\<lparr>s_run := s_new A, s_new := [], s_remain := (if flag then s_remain A else s_remain A - 1)\<rparr>"
    have "proc_abs p3 A3" using 2(2) by (auto simp: proc_abs_def p3_def A3_def)
    from dequeue_cur_abs [OF this] obtain b p4
      where 4: "dequeue_cur p3 = Inr (b, p4)" "proc_abs p4 (case s_new A of [] \<Rightarrow> A3 | t # ts \<Rightarrow> A3\<lparr>s_run := ts, s_cur := Some t\<rparr>)"
      by (auto simp: A3_def)
    have "getNextTask flag pr = Inr p4"
      using 1 2(1) 4(1) True by (auto simp: getNextTask_def proc_abs_def p3_def)
    moreover have "proc_abs p4 (a_next flag A)"
      using 4(2) True Nil by (auto simp: a_next_def A3_def Let_def proc_abs_def split: list.splits)
    ultimately show ?thesis by blast
  qed
qed

lemma garbage_abs:
  "proc_abs pr A \<Longrightarrow> proc_abs (garbageCollection pr) (A\<lparr>s_garbage := []\<rparr>)"
  by (simp add: proc_abs_def garbageCollection_def)

lemma enqueue_run_abs:
  assumes "proc_abs pr A"
  shows "\<exists>H q. enqueue t (m_queues pr) (m_runableQueue pr) = Inr (H, q)
     \<and> proc_abs (pr\<lparr>m_queues := H, m_runableQueue := q\<rparr>) (A\<lparr>s_run := s_run A @ [t]\<rparr>)"
  using assms lfq.enq [of "m_queues pr" "m_runableQueue pr" "m_newQueue pr" "s_run A" "s_new A" t]
  by (auto simp: proc_abs_def)

text \<open>The switch over the state that a slice left.\<close>

lemma after_slice_abs:
  assumes abs: "proc_abs pr A" and st: "m_taskState pr t = end_state e"
  shows "\<exists>pr'. after_slice t pr = Inr pr' \<and> proc_abs pr' (case e of
        Yields \<Rightarrow> A\<lparr>s_run := s_run A @ [t]\<rparr>
      | Holds \<Rightarrow> A
      | _ \<Rightarrow> A\<lparr>s_garbage := (if length (s_garbage A) > 16 then [] else s_garbage A) @ [t]\<rparr>)"
proof -
  have g: "proc_abs (p\<lparr>m_garbageList := m_garbageList p @ [t]\<rparr>) (B\<lparr>s_garbage := s_garbage B @ [t]\<rparr>)"
    if "proc_abs p B" for p B using that by (simp add: proc_abs_def)
  have "m_garbageList pr = s_garbage A" using abs by (simp add: proc_abs_def)
  with st g [OF abs] g [OF garbage_abs [OF abs]] enqueue_run_abs [OF abs, of t] abs show ?thesis
    by (cases e) (auto simp: Let_def after_slice_def)
qed

lemma run_slice_abs:
  assumes abs: "proc_abs pr A" and a: "a_slice body t A s = (A', s')"
  shows "\<exists>pr'. run_slice body t pr s = Inr (pr', s') \<and> proc_abs pr' A'"
proof -
  obtain e added s1 where b: "body t s = (e, added, s1)" by (cases "body t s")
  let ?p0 = "pr\<lparr>m_taskProcessor := (m_taskProcessor pr)(t \<mapsto> m_id pr), m_switchCount := m_switchCount pr + 1\<rparr>"
  define A2 where "A2 = (case e of
        Yields \<Rightarrow> (a_add added A)\<lparr>s_run := s_run (a_add added A) @ [t]\<rparr>
      | Holds \<Rightarrow> a_add added A
      | _ \<Rightarrow> (a_add added A)\<lparr>s_garbage := (if length (s_garbage (a_add added A)) > 16 then [] else s_garbage (a_add added A)) @ [t]\<rparr>)"
  from abs have "proc_abs ?p0 A" by simp
  from addTasks_abs [OF this, of added] obtain p1
    where 1: "addTasks added ?p0 = Inr p1" "proc_abs p1 (a_add added A)" by blast
  let ?p1 = "p1\<lparr>m_taskState := (m_taskState p1)(t := end_state e)\<rparr>"
  have "proc_abs ?p1 (a_add added A)" "m_taskState ?p1 t = end_state e" using 1(2) by simp_all
  from after_slice_abs [OF this] obtain p2 where 2: "after_slice t ?p1 = Inr p2" "proc_abs p2 A2"
    unfolding A2_def by blast
  from 2(2) have "proc_abs (p2\<lparr>m_curTask := None\<rparr>) (A2\<lparr>s_cur := None\<rparr>)" by (simp add: proc_abs_def)
  from getNextTask_abs [OF this, of False] obtain p3
    where 3: "getNextTask False (p2\<lparr>m_curTask := None\<rparr>) = Inr p3" "proc_abs p3 (a_next False (A2\<lparr>s_cur := None\<rparr>))" by blast
  have "A' = a_next False (A2\<lparr>s_cur := None\<rparr>)" "s' = s1" using a b by (auto simp: a_slice_def A2_def Let_def)
  with 1(1) 2(1) 3 b show ?thesis by (simp add: run_slice_def Let_def)
qed

lemma idle_abs:
  assumes abs: "proc_abs pr A" and a: "a_idle arrivals A s = (A', s')"
  shows "\<exists>p1 pr'. idle arrivals pr s = Inr (p1, s') \<and> concatenate_new p1 = Inr pr' \<and> proc_abs pr' A'"
proof (cases "s_notified A")
  case True
  let ?p = "pr\<lparr>m_notified := False\<rparr>" and ?A = "A\<lparr>s_notified := False\<rparr>"
  have "proc_abs ?p ?A" using abs by (simp add: proc_abs_def)
  from concatenate_new_abs [OF this] a abs True show ?thesis
    by (auto simp: idle_def a_idle_def proc_abs_def)
next
  case False
  obtain ts s1 where ts: "arrivals s = (ts, s1)" by (cases "arrivals s")
  let ?p = "pr\<lparr>m_idled := True\<rparr>"
  have "two_queues (m_queues ?p) (m_runableQueue ?p) (m_newQueue ?p) (s_run A) (s_new A)" using abs by (simp add: proc_abs_def)
  from addTasks_queues [OF this, of ts] obtain p1 where 1: "addTasks ts ?p = Inr p1"
    "proc_abs (p1\<lparr>m_idled := False\<rparr>) (A\<lparr>s_new := s_new A @ ts\<rparr>)"
    using abs by (auto simp: proc_abs_def)
  from concatenate_new_abs [OF 1(2)] 1(1) a abs False ts show ?thesis
    by (auto simp: idle_def a_idle_def proc_abs_def Let_def)
qed

lemma run_step_abs:
  assumes abs: "proc_abs pr A" and a: "a_step body arrivals stopping (pc, A, s) = (pc', A', s')"
  shows "\<exists>pr'. run_step body arrivals stopping (pc, pr, s) = Inr (pc', pr', s') \<and> proc_abs pr' A'"
proof (cases pc)
  case Outer
  show ?thesis
  proof (cases "stopping s")
    case False
    from getNextTask_abs [OF abs, of True] obtain p1
      where 1: "getNextTask True pr = Inr p1" "proc_abs p1 (a_next True A)" by blast
    have cur: "m_curTask p1 = s_cur (a_next True A)" using 1(2) by (simp add: proc_abs_def)
    show ?thesis
    proof (cases "s_cur (a_next True A)")
      case None
      then have i: "a_idle arrivals ((a_next True A)\<lparr>s_garbage := []\<rparr>) s = (A', s')" "pc' = Outer"
        using a Outer False by (auto simp: a_step_def Let_def)
      from idle_abs [OF garbage_abs [OF 1(2)] i(1)] 1(1) cur None i(2) Outer False show ?thesis
        by (auto simp: run_step_def)
    next
      case (Some t)
      with a Outer False 1 cur show ?thesis by (auto simp: run_step_def a_step_def Let_def proc_abs_def)
    qed
  qed (use abs a Outer in \<open>auto simp: run_step_def a_step_def\<close>)
next
  case Inner
  have "m_curTask pr = s_cur A" using abs by (simp add: proc_abs_def)
  then show ?thesis using abs a Inner
    by (cases "s_cur A"; cases "stopping s") (auto simp: run_step_def a_step_def dest: run_slice_abs [OF abs])
qed (use abs a in \<open>auto simp: run_step_def a_step_def\<close>)

lemma run_steps_abs:
  "proc_abs pr A \<Longrightarrow> (a_step body arrivals stopping ^^ n) (pc, A, s) = (pc', A', s') \<Longrightarrow>
   \<exists>pr'. run_steps body arrivals stopping n (pc, pr, s) = Inr (pc', pr', s') \<and> proc_abs pr' A'"
proof (induction n arbitrary: pc pr A s)
  case (Suc n)
  obtain pc1 A1 s1 where 1: "a_step body arrivals stopping (pc, A, s) = (pc1, A1, s1)" by (metis prod_cases3)
  from run_step_abs [OF Suc.prems(1) 1] obtain p1
    where 2: "run_step body arrivals stopping (pc, pr, s) = Inr (pc1, p1, s1)" "proc_abs p1 A1" by blast
  have "(a_step body arrivals stopping ^^ n) (pc1, A1, s1) = (pc', A', s')"
    using Suc.prems(2) 1 by (simp add: funpow_Suc_right del: funpow.simps)
  from Suc.IH [OF 2(2) this] 2(1) show ?case by simp
qed auto

subsection \<open>The order of the tasks\<close>

text \<open>A processor that is awake and holds the runnable tasks \<open>xs\<close> and the new tasks \<open>ys\<close>.\<close>

definition proc_holds :: "processor \<Rightarrow> task list \<Rightarrow> task list \<Rightarrow> bool" where
  "proc_holds pr xs ys \<longleftrightarrow> two_queues (m_queues pr) (m_runableQueue pr) (m_newQueue pr) xs ys \<and> \<not> m_idled pr"

definition opt_list :: "'b option \<Rightarrow> 'b list" where
  "opt_list x = (case x of None \<Rightarrow> [] | Some y \<Rightarrow> [y])"

definition view :: "processor \<Rightarrow> task list \<Rightarrow> task list \<Rightarrow> sched" where
  "view pr xs ys = \<lparr>s_run = xs, s_new = ys, s_cur = m_curTask pr, s_remain = m_addNewRemain pr,
     s_garbage = m_garbageList pr, s_notified = m_notified pr\<rparr>"

lemma proc_holds_abs: "proc_holds pr xs ys \<Longrightarrow> proc_abs pr (view pr xs ys)"
  by (simp add: proc_holds_def proc_abs_def view_def)

lemma abs_proc_holds: "proc_abs pr A \<Longrightarrow> proc_holds pr (s_run A) (s_new A) \<and> m_curTask pr = s_cur A \<and> m_garbageList pr = s_garbage A"
  by (simp add: proc_holds_def proc_abs_def)

lemma a_slice_order:
  "body t s = (e, added, s1) \<Longrightarrow> a_slice body t A s = (A', s') \<Longrightarrow>
   opt_list (s_cur A') @ s_run A' @ s_new A' = s_run A @ (if e = Yields then [t] else []) @ s_new A @ added
     \<and> s' = s1 \<and> (e \<in> {Returns, Throws} \<longrightarrow> t \<in> set (s_garbage A'))"
  by (auto simp: a_slice_def a_next_def a_add_def opt_list_def Let_def split: slice_end.splits list.splits if_splits)

lemma a_slice_busy:
  "body t s = (e, added, s1) \<Longrightarrow> a_slice body t A s = (A', s') \<Longrightarrow>
   s_run A @ (if e = Yields then [t] else []) = x # xs \<Longrightarrow>
   s_cur A' = Some x \<and> s_run A' = xs \<and> s_new A' = s_new A @ added"
  by (auto simp: a_slice_def a_next_def a_add_def Let_def split: slice_end.splits list.splits if_splits)

lemma a_inner_busy:
  assumes "s_cur A = Some c" "\<not> stopping s" "body c s = (e, added, s1)"
    and "s_run A @ (if e = Yields then [c] else []) = x # xs"
  shows "\<exists>A'. a_step body arrivals stopping (Inner, A, s) = (Inner, A', s1)
    \<and> s_cur A' = Some x \<and> s_run A' = xs \<and> s_new A' = s_new A @ added"
proof -
  obtain A' s' where a: "a_slice body c A s = (A', s')" by (cases "a_slice body c A s")
  from a_slice_busy [OF assms(3) a assms(4)] a_slice_order [OF assms(3) a] a assms(1,2) show ?thesis
    by (simp add: a_step_def)
qed

lemma a_wait:
  assumes go: "\<And>s. \<not> stopping s"
  shows "s_cur A = Some c \<Longrightarrow> k < length (s_run A) \<Longrightarrow>
    \<exists>A' s'. (a_step body arrivals stopping ^^ Suc k) (Inner, A, s) = (Inner, A', s') \<and> s_cur A' = Some (s_run A ! k)"
proof (induction k arbitrary: A c s)
  case 0
  obtain e added s1 where b: "body c s = (e, added, s1)" by (cases "body c s")
  from 0 obtain x r where r: "s_run A = x # r" by (cases "s_run A") auto
  with a_inner_busy [where body = body and stopping = stopping, OF "0.prems"(1) go [of s] b, of x "r @ (if e = Yields then [c] else [])" arrivals] show ?case by auto
next
  case (Suc k)
  obtain e added s1 where b: "body c s = (e, added, s1)" by (cases "body c s")
  from Suc.prems(2) obtain x r where r: "s_run A = x # r" "k < length r" by (cases "s_run A") auto
  with a_inner_busy [where body = body and stopping = stopping, OF Suc.prems(1) go [of s] b, of x "r @ (if e = Yields then [c] else [])" arrivals] obtain A1
    where 1: "a_step body arrivals stopping (Inner, A, s) = (Inner, A1, s1)" "s_cur A1 = Some x"
      "s_run A1 = r @ (if e = Yields then [c] else [])" by auto
  from Suc.IH [OF 1(2), of s1] r 1(3) obtain A' s'
    where "(a_step body arrivals stopping ^^ Suc k) (Inner, A1, s1) = (Inner, A', s')" "s_cur A' = Some (r ! k)"
    by (auto simp: nth_append)
  with 1(1) r(1) show ?case by (simp add: funpow_Suc_right [of "Suc k"] del: funpow.simps)
qed

lemma a_starve:
  assumes go: "\<And>s. \<not> stopping s" and y: "\<And>s. fst (body t s) = Yields"
  shows "s_cur A = Some c \<Longrightarrow> t \<in> set (c # s_run A) \<Longrightarrow>
    \<exists>A' s' c' zs. (a_step body arrivals stopping ^^ n) (Inner, A, s) = (Inner, A', s')
      \<and> s_cur A' = Some c' \<and> t \<in> set (c' # s_run A') \<and> s_new A' = s_new A @ zs"
proof (induction n arbitrary: A c s)
  case 0 then show ?case by auto
next
  case (Suc n)
  obtain e added s1 where b: "body c s = (e, added, s1)" by (cases "body c s")
  have mem: "t \<in> set (s_run A @ (if e = Yields then [c] else []))" using Suc.prems(2) b y [of s] by auto
  then obtain x xs where r: "s_run A @ (if e = Yields then [c] else []) = x # xs"
    by (cases "s_run A @ (if e = Yields then [c] else [])") auto
  from a_inner_busy [where body = body and stopping = stopping, OF Suc.prems(1) go [of s] b r, of arrivals] obtain A1 where
    1: "a_step body arrivals stopping (Inner, A, s) = (Inner, A1, s1)" "s_cur A1 = Some x" "s_run A1 = xs"
       "s_new A1 = s_new A @ added" by blast
  from Suc.IH [OF 1(2), of s1] mem r 1(3) obtain A' s' c' zs where
    "(a_step body arrivals stopping ^^ n) (Inner, A1, s1) = (Inner, A', s')" "s_cur A' = Some c'"
    "t \<in> set (c' # s_run A')" "s_new A' = s_new A1 @ zs" by auto
  with 1 show ?case by (auto simp: funpow_Suc_right simp del: funpow.simps)
qed

subsection \<open>Dispatch\<close>

lemma find_active_first:
  "ps \<noteq> [] \<Longrightarrow> activated (ps ! (idx mod length ps)) \<Longrightarrow> k > 0 \<Longrightarrow>
   find_active activated ps k idx p = Some (ps ! (idx mod length ps))"
  by (cases k) (simp_all add: Let_def)

text \<open>
  A task goes to its own processor, or to an active one of this scheduler, or to the main one. With all
  processors active the scan ends at once, so every task that comes from outside goes to the processor
  \<open>m_lastActiveIdx\<close> names, and nothing ever advances that index.
\<close>

lemma dispatch_target:
  "dispatch activated sched_of this task_proc current sc = p \<Longrightarrow>
   task_proc = Some p \<and> activated p \<or> activated p \<and> sched_of p = this \<or> p = m_mainProcessor sc"
  by (auto simp: dispatch_def Let_def split: if_splits option.splits)

lemma dispatch_from_outside:
  assumes "m_processors sc \<noteq> []" and "\<And>p. p \<in> set (m_processors sc) \<Longrightarrow> activated p \<and> sched_of p = this"
  shows "dispatch activated sched_of this None None sc = m_processors sc ! (m_lastActiveIdx sc mod length (m_processors sc))"
  using assms find_active_first [of "m_processors sc" activated "m_lastActiveIdx sc" "length (m_processors sc)" None]
  by (simp add: dispatch_def Let_def)

subsection \<open>Properties\<close>

text \<open>
  \<open>run\<close> on the two linked queues does what the scheduler on two lists does, step by step and for any
  number of steps: no step is undefined, and the queues hold the lists, whatever the tasks do.
\<close>

theorem processor_refines:
  assumes "proc_abs pr A" and "(a_step body arrivals stopping ^^ n) (pc, A, s) = (pc', A', s')"
  shows "\<exists>pr'. run_steps body arrivals stopping n (pc, pr, s) = Inr (pc', pr', s') \<and> proc_abs pr' A'"
  using assms by (rule run_steps_abs)

definition demo :: processor where
  "demo = (new_Processor 0)\<lparr>m_curTask := Some 1, m_addNewRemain := 1,
     m_queues := \<lparr>q_nodes = [0 \<mapsto> \<lparr>q_data = 2, q_next = None\<rparr>, 1 \<mapsto> \<lparr>q_data = 3, q_next = None\<rparr>], q_fresh = 2\<rparr>,
     m_runableQueue := \<lparr>q_head = Some 0, q_tail = Some 0\<rparr>, m_newQueue := \<lparr>q_head = Some 1, q_tail = Some 1\<rparr>\<rparr>"

lemma demo_holds: "proc_holds demo [2] [3]"
  unfolding proc_holds_def demo_def new_Processor_def
  by (simp, rule two_queuesI [of _ _ "[0]" _ _ "[1]"]) (simp_all add: heap_ok_def q_rep_def contents_of_def)

theorem processor_refines_witness:
  "\<exists>pr'. run_steps (\<lambda>t s. (Yields, [], s)) (\<lambda>s. ([], s)) (\<lambda>_. False) 1 (Inner, demo, ()) = Inr (Inner, pr', ())
     \<and> m_curTask pr' = Some 2"
proof -
  let ?A' = "(view demo [2] [3])\<lparr>s_run := [1], s_cur := Some 2\<rparr>"
  have "(a_step (\<lambda>t s. (Yields, [], s)) (\<lambda>s. ([], s)) (\<lambda>_. False) ^^ 1) (Inner, view demo [2] [3], ()) = (Inner, ?A', ())"
    by (simp add: a_step_def a_slice_def a_next_def a_add_def view_def demo_def new_Processor_def)
  from processor_refines [OF proc_holds_abs [OF demo_holds] this] show ?thesis by (auto simp: proc_abs_def)
qed

text \<open>
  C14: a slice loses and duplicates no task: the next task, the runnable and the new tasks are, in this order, the
  old runnable tasks, the task that ran if it yielded, the old new tasks and the tasks it handed over. A task
  that held is in no queue, one that ended is in the garbage list.
\<close>

theorem processor_slice_order:
  assumes "proc_holds pr xs ys" and "m_curTask pr = Some t" and "\<not> stopping s" and "body t s = (e, added, s')"
  shows "\<exists>pr' xs' ys'. run_step body arrivals stopping (Inner, pr, s) = Inr (Inner, pr', s') \<and> proc_holds pr' xs' ys'
    \<and> opt_list (m_curTask pr') @ xs' @ ys' = xs @ (if e = Yields then [t] else []) @ ys @ added
    \<and> (e \<in> {Returns, Throws} \<longrightarrow> t \<in> set (m_garbageList pr'))"
proof -
  let ?A = "view pr xs ys"
  obtain A' s1 where a: "a_slice body t ?A s = (A', s1)" by (cases "a_slice body t ?A s")
  have st: "a_step body arrivals stopping (Inner, ?A, s) = (Inner, A', s1)"
    using assms(2,3) a by (simp add: a_step_def view_def)
  from run_step_abs [OF proc_holds_abs [OF assms(1)] st] obtain pr'
    where 1: "run_step body arrivals stopping (Inner, pr, s) = Inr (Inner, pr', s1)" "proc_abs pr' A'" by blast
  from a_slice_order [OF assms(4) a] abs_proc_holds [OF 1(2)] 1(1) show ?thesis
    by (intro exI [of _ pr'] exI [of _ "s_run A'"] exI [of _ "s_new A'"]) (simp add: view_def)
qed

theorem processor_slice_order_witness:
  "\<exists>pr' xs' ys'. run_step (\<lambda>t s. (Holds, [7], s)) (\<lambda>s. ([], s)) (\<lambda>_. False) (Inner, demo, ()) = Inr (Inner, pr', ())
     \<and> opt_list (m_curTask pr') @ xs' @ ys' = [2, 3, 7]"
proof -
  have "m_curTask demo = Some 1" by (simp add: demo_def)
  from processor_slice_order [OF demo_holds this, of "\<lambda>_. False" "()" "\<lambda>t s. (Holds, [7], s)" Holds "[7]" "()" "\<lambda>s. ([], s)"]
  show ?thesis by auto
qed

text \<open>
  C23: as long as the scheduler is not stopped, the task at position \<open>k\<close> of the runnable queue is the current one
  after \<open>k + 1\<close> slices, whatever the tasks before it do.
\<close>

theorem processor_bounded_wait:
  assumes "proc_holds pr xs ys" and "m_curTask pr = Some c" and "k < length xs" and "\<And>s. \<not> stopping s"
  shows "\<exists>pr' s'. run_steps body arrivals stopping (Suc k) (Inner, pr, s) = Inr (Inner, pr', s')
    \<and> m_curTask pr' = Some (xs ! k)"
proof -
  from a_wait [of stopping "view pr xs ys" c k body arrivals s] assms obtain A' s'
    where a: "(a_step body arrivals stopping ^^ Suc k) (Inner, view pr xs ys, s) = (Inner, A', s')" "s_cur A' = Some (xs ! k)"
    by (auto simp: view_def)
  from run_steps_abs [OF proc_holds_abs [OF assms(1)] a(1)] abs_proc_holds a(2) show ?thesis by metis
qed

theorem processor_bounded_wait_witness:
  "\<exists>pr' s'. run_steps (\<lambda>t s. (Yields, [], s)) (\<lambda>s. ([], s)) (\<lambda>_. False) (Suc 0) (Inner, demo, ()) = Inr (Inner, pr', s')
    \<and> m_curTask pr' = Some 2"
proof -
  have "m_curTask demo = Some 1" by (simp add: demo_def)
  from processor_bounded_wait [OF demo_holds this, of 0 "\<lambda>_. False" "\<lambda>t s. (Yields, [], s)" "\<lambda>s. ([], s)" "()"]
  show ?thesis by simp
qed

text \<open>
  One task that always yields starves the new queue: from then on, however long \<open>run\<close> goes on, no task that
  was created or woken is ever moved to the runnable queue; new ones only line up behind it.
\<close>

theorem processor_starves_new:
  assumes "proc_holds pr xs ys" and "m_curTask pr = Some c" and "t \<in> set (c # xs)"
    and "\<And>s. fst (body t s) = Yields" and "\<And>s. \<not> stopping s"
  shows "\<exists>pr' s' xs' zs. run_steps body arrivals stopping n (Inner, pr, s) = Inr (Inner, pr', s') \<and> proc_holds pr' xs' (ys @ zs)"
proof -
  have "s_cur (view pr xs ys) = Some c" "t \<in> set (c # s_run (view pr xs ys))" using assms(2,3) by (simp_all add: view_def)
  from a_starve [where body = body and stopping = stopping and arrivals = arrivals and n = n and s = s, OF assms(5) assms(4) this] obtain A' s' zs
    where a: "(a_step body arrivals stopping ^^ n) (Inner, view pr xs ys, s) = (Inner, A', s')" "s_new A' = ys @ zs"
    by (auto simp: view_def)
  from run_steps_abs [OF proc_holds_abs [OF assms(1)] a(1)] abs_proc_holds a(2) show ?thesis by metis
qed

theorem processor_starves_new_witness:
  "\<exists>pr' s' xs' zs. run_steps (\<lambda>t s. (Yields, [], s)) (\<lambda>s. ([], s)) (\<lambda>_. False) 1000 (Inner, demo, ()) = Inr (Inner, pr', s')
     \<and> proc_holds pr' xs' ([3] @ zs)"
proof -
  have "m_curTask demo = Some 1" by (simp add: demo_def)
  from processor_starves_new [OF demo_holds this, of 1 "\<lambda>t s. (Yields, [], s)" "\<lambda>_. False" "\<lambda>s. ([], s)" 1000 "()"]
  show ?thesis by simp
qed

end
