(* ===== verification/Handshake.thy ===== *)
theory Handshake
  imports Processor
begin

section \<open>Going to sleep and being woken\<close>

text \<open>
  How \<open>addTask\<close>, \<open>tickle\<close> and \<open>idle\<close> work together under several threads, for the two kinds of processor:
  \<open>Processor\<close> (src/spike/coroutine/Processor.cpp), whose sections run under \<open>m_mutex\<close>, and \<open>EventLoop\<close>
  (src/spike/net/EventLoop.cpp), which overrides both functions without a lock. A step is one critical
  section, or one access of a shared flag. The new queue is represented by the number of its tasks.
\<close>

text \<open>
  Where the thread of the processor is: running its loop, between finding no task and \<open>idle\<close>, (for the event
  loop) between reading \<open>m_notified\<close> and writing \<open>m_idled\<close>, or asleep.
\<close>

datatype proc_pc = Running | FoundNothing | NotNotified | Asleep

text \<open>Where a producer is: outside, past \<open>enqueue\<close>, or (event loop) past a test of \<open>tickle\<close> that read what is noted.\<close>

datatype prod_pc = Away | Enqueued | SawIdled bool

record handshake =
  h_tasks :: nat
  h_idled :: bool
  h_notified :: bool
  h_signal :: bool
  h_proc :: proc_pc
  h_prod :: "nat \<Rightarrow> prod_pc"

definition h_init :: handshake where
  "h_init = \<lparr>h_tasks = 0, h_idled = False, h_notified = False, h_signal = False, h_proc = Running, h_prod = (\<lambda>_. Away)\<rparr>"

subsection \<open>Processor\<close>

text \<open>The locked section of \<open>tickle\<close>: the signal reaches the thread only when it sleeps.\<close>

definition h_tickle :: "handshake \<Rightarrow> handshake" where
  "h_tickle s = (if h_idled s then (if h_proc s = Asleep then s\<lparr>h_signal := True\<rparr> else s)
     else if \<not> h_notified s then s\<lparr>h_notified := True\<rparr> else s)"

text \<open>The locked section of \<open>idle\<close> up to the wait, which releases the mutex and sleeps in one step.\<close>

definition h_idle :: "handshake \<Rightarrow> handshake" where
  "h_idle s = (if h_notified s then s\<lparr>h_notified := False, h_proc := Running\<rparr>
     else s\<lparr>h_idled := True, h_proc := Asleep\<rparr>)"

inductive hstep :: "handshake \<Rightarrow> handshake \<Rightarrow> bool" where
  h_take: "h_proc s = Running \<Longrightarrow> h_tasks s > 0 \<Longrightarrow> hstep s (s\<lparr>h_tasks := 0\<rparr>)"
| h_none: "h_proc s = Running \<Longrightarrow> h_tasks s = 0 \<Longrightarrow> hstep s (s\<lparr>h_proc := FoundNothing\<rparr>)"
| h_idles: "h_proc s = FoundNothing \<Longrightarrow> hstep s (h_idle s)"
| h_wakes: "h_proc s = Asleep \<Longrightarrow> hstep s (s\<lparr>h_idled := False, h_signal := False, h_proc := Running\<rparr>)"
| h_enqueue: "h_prod s t = Away \<Longrightarrow>
    hstep s (s\<lparr>h_tasks := Suc (h_tasks s), h_prod := (h_prod s)(t := Enqueued)\<rparr>)"
| h_tickles: "h_prod s t = Enqueued \<Longrightarrow> hstep s ((h_tickle s)\<lparr>h_prod := (h_prod s)(t := Away)\<rparr>)"

definition h_inv :: "handshake \<Rightarrow> bool" where
  "h_inv s \<longleftrightarrow> h_idled s = (h_proc s = Asleep) \<and> (h_signal s \<longrightarrow> h_proc s = Asleep)
     \<and> (h_tasks s > 0 \<longrightarrow> (\<forall>t. h_prod s t = Away) \<longrightarrow>
          (h_proc s = FoundNothing \<longrightarrow> h_notified s) \<and> (h_proc s = Asleep \<longrightarrow> h_signal s))
     \<and> h_proc s \<noteq> NotNotified \<and> (\<forall>t b. h_prod s t \<noteq> SawIdled b)"

inductive_cases hstepE: "hstep s s'"

lemma h_inv_init: "h_inv h_init"
  by (simp add: h_inv_def h_init_def)

lemma h_inv_step: "hstep s s' \<Longrightarrow> h_inv s \<Longrightarrow> h_inv s'"
  by (erule hstepE) (auto simp: h_inv_def h_idle_def h_tickle_def split: if_splits)

lemma h_inv_reachable: "hstep\<^sup>*\<^sup>* h_init s \<Longrightarrow> h_inv s"
  by (induction rule: rtranclp_induct) (auto intro: h_inv_init h_inv_step)

subsection \<open>EventLoop\<close>

text \<open>
  The same without the mutex. \<open>h_signal\<close> is the counter of the event descriptor: it stays set until \<open>poll\<close>
  returns. \<open>e_timeout\<close> is the end of the ten seconds that \<open>poll\<close> waits at most.
\<close>

inductive estep :: "handshake \<Rightarrow> handshake \<Rightarrow> bool" where
  e_take: "h_proc s = Running \<Longrightarrow> h_tasks s > 0 \<Longrightarrow> estep s (s\<lparr>h_tasks := 0\<rparr>)"
| e_none: "h_proc s = Running \<Longrightarrow> h_tasks s = 0 \<Longrightarrow> estep s (s\<lparr>h_proc := FoundNothing\<rparr>)"
| e_test: "h_proc s = FoundNothing \<Longrightarrow>
    estep s (if h_notified s then s\<lparr>h_notified := False, h_proc := Running\<rparr> else s\<lparr>h_proc := NotNotified\<rparr>)"
| e_sleep: "h_proc s = NotNotified \<Longrightarrow> estep s (s\<lparr>h_idled := True, h_proc := Asleep\<rparr>)"
| e_wakes: "h_proc s = Asleep \<Longrightarrow> h_signal s \<Longrightarrow>
    estep s (s\<lparr>h_idled := False, h_signal := False, h_proc := Running\<rparr>)"
| e_timeout: "h_proc s = Asleep \<Longrightarrow> estep s (s\<lparr>h_idled := False, h_proc := Running\<rparr>)"
| e_enqueue: "h_prod s t = Away \<Longrightarrow>
    estep s (s\<lparr>h_tasks := Suc (h_tasks s), h_prod := (h_prod s)(t := Enqueued)\<rparr>)"
| e_read: "h_prod s t = Enqueued \<Longrightarrow> estep s (s\<lparr>h_prod := (h_prod s)(t := SawIdled (h_idled s))\<rparr>)"
| e_signal: "h_prod s t = SawIdled True \<Longrightarrow> estep s (s\<lparr>h_signal := True, h_prod := (h_prod s)(t := Away)\<rparr>)"
| e_notify: "h_prod s t = SawIdled False \<Longrightarrow> estep s (s\<lparr>h_notified := True, h_prod := (h_prod s)(t := Away)\<rparr>)"

text \<open>Asleep with work to do, and nobody about to say so.\<close>

definition lost_wakeup :: "handshake \<Rightarrow> bool" where
  "lost_wakeup s \<longleftrightarrow> h_proc s = Asleep \<and> h_tasks s > 0 \<and> \<not> h_signal s \<and> (\<forall>t. h_prod s t = Away)"

text \<open>
  The producer runs between the test of \<open>m_notified\<close> and the write of \<open>m_idled\<close>.
\<close>

definition lost_state :: handshake where
  "lost_state = h_init\<lparr>h_tasks := 1, h_idled := True, h_notified := True, h_proc := Asleep\<rparr>"

lemma lost_state_reachable: "estep\<^sup>*\<^sup>* h_init lost_state"
proof -
  let ?s1 = "h_init\<lparr>h_proc := FoundNothing\<rparr>"
  let ?s2 = "?s1\<lparr>h_proc := NotNotified\<rparr>"
  let ?s3 = "?s2\<lparr>h_tasks := 1, h_prod := (h_prod ?s2)(0 := Enqueued)\<rparr>"
  let ?s4 = "?s3\<lparr>h_prod := (h_prod ?s3)(0 := SawIdled False)\<rparr>"
  let ?s5 = "?s4\<lparr>h_notified := True, h_prod := (h_prod ?s4)(0 := Away)\<rparr>"
  let ?s6 = "?s5\<lparr>h_idled := True, h_proc := Asleep\<rparr>"
  have "estep h_init ?s1" by (rule e_none) (simp_all add: h_init_def)
  moreover have "estep ?s1 ?s2" using e_test [of ?s1] by (simp add: h_init_def)
  moreover have "estep ?s2 ?s3" using e_enqueue [of ?s2 0] by (simp add: h_init_def)
  moreover have "estep ?s3 ?s4" using e_read [of ?s3 0] by (simp add: h_init_def)
  moreover have "estep ?s4 ?s5" by (rule e_notify) simp
  moreover have "estep ?s5 ?s6" by (rule e_sleep) simp
  ultimately have "estep\<^sup>*\<^sup>* h_init ?s6" by (meson r_into_rtranclp rtranclp_trans)
  moreover have "?s6 = lost_state" by (simp add: lost_state_def h_init_def fun_upd_idem)
  ultimately show ?thesis by simp
qed

subsection \<open>Properties\<close>

text \<open>
  C22: \<open>Processor\<close> loses no wake-up: whenever there are tasks in the new queue and every producer has left
  \<open>addTask\<close>, its thread is running, or about to call \<open>idle\<close> with the notification set, or asleep with the
  signal on its way.
\<close>

theorem processor_no_lost_wakeup:
  assumes "hstep\<^sup>*\<^sup>* h_init s" and "h_tasks s > 0" and "\<And>t. h_prod s t = Away"
  shows "h_proc s = Running \<or> (h_proc s = FoundNothing \<and> h_notified s) \<or> (h_proc s = Asleep \<and> h_signal s)"
  using h_inv_reachable [OF assms(1)] assms(2,3) by (cases "h_proc s") (auto simp: h_inv_def)

theorem processor_no_lost_wakeup_witness:
  "h_notified (h_init\<lparr>h_proc := FoundNothing, h_tasks := 1, h_notified := True\<rparr>)"
proof -
  let ?s0 = "h_init\<lparr>h_proc := FoundNothing\<rparr>" and ?s2 = "h_init\<lparr>h_proc := FoundNothing, h_tasks := 1, h_notified := True\<rparr>"
  let ?s1 = "?s0\<lparr>h_tasks := 1, h_prod := (h_prod ?s0)(0 := Enqueued)\<rparr>"
  have "hstep h_init ?s0" by (rule h_none) (simp_all add: h_init_def)
  moreover have "hstep ?s0 ?s1" using h_enqueue [of ?s0 0] by (simp add: h_init_def)
  moreover have "hstep ?s1 ?s2"
    using h_tickles [of ?s1 0] by (simp add: h_init_def h_tickle_def fun_upd_idem)
  ultimately have "hstep\<^sup>*\<^sup>* h_init ?s2" by (meson r_into_rtranclp rtranclp_trans)
  from processor_no_lost_wakeup [OF this] show ?thesis by (simp add: h_init_def)
qed

text \<open>
  C37: \<open>EventLoop\<close> can lose a wake-up: some interleaving of one producer leaves the loop asleep with a task
  queued, no signal and nobody about to signal, until the ten seconds of \<open>poll\<close> are over.
\<close>

theorem eventloop_lost_wakeup:
  "\<exists>s. estep\<^sup>*\<^sup>* h_init s \<and> lost_wakeup s"
  using lost_state_reachable by (rule_tac x = lost_state in exI) (simp add: lost_wakeup_def lost_state_def h_init_def)

end
