(* ===== verification/IoChannel.thy ===== *)
theory IoChannel
  imports Processor
begin

section \<open>Channels and the poller\<close>

text \<open>
  \<open>IoChannel\<close> (src/spike/net/IoChannel.cpp) is what a file descriptor is waited on with, \<open>EpollPoller\<close>
  (src/spike/net/Poller.cpp) the owner of the channels of one event loop. Channels are shared objects: they live in
  a store that maps their address to their fields, and a poller refers to them by address. The calls of
  \<open>epoll_ctl\<close> are recorded in the order they are made; the kernel's side of them is replayed from that record.
\<close>

type_synonym chan = u64

datatype IoChannelState = NEW | EXIST | DISCARD

abbreviation (input) NONE :: u32 where "NONE \<equiv> 0"
abbreviation (input) READ :: u32 where "READ \<equiv> 1"
abbreviation (input) WRITE :: u32 where "WRITE \<equiv> 4"

abbreviation (input) EPOLLIN :: u32 where "EPOLLIN \<equiv> 0x1"
abbreviation (input) EPOLLPRI :: u32 where "EPOLLPRI \<equiv> 0x2"
abbreviation (input) EPOLLOUT :: u32 where "EPOLLOUT \<equiv> 0x4"
abbreviation (input) EPOLLERR :: u32 where "EPOLLERR \<equiv> 0x8"
abbreviation (input) EPOLLHUP :: u32 where "EPOLLHUP \<equiv> 0x10"
abbreviation (input) EPOLLRDHUP :: u32 where "EPOLLRDHUP \<equiv> 0x2000"
abbreviation (input) EPOLLET :: u32 where "EPOLLET \<equiv> 0x80000000"

record IoChannel =
  m_fd :: int
  m_state :: IoChannelState
  m_events :: u32
  m_task :: "task option"

subsection \<open>IoChannel\<close>

definition isNoneEvent :: "'a IoChannel_scheme \<Rightarrow> bool" where
  "isNoneEvent ch \<longleftrightarrow> m_events ch = NONE"

definition isWriting :: "'a IoChannel_scheme \<Rightarrow> bool" where
  "isWriting ch \<longleftrightarrow> m_events ch AND WRITE \<noteq> 0"

definition isReading :: "'a IoChannel_scheme \<Rightarrow> bool" where
  "isReading ch \<longleftrightarrow> m_events ch AND READ \<noteq> 0"

text \<open>\<open>cur\<close> is the task that runs, if any. The recorded task is replaced, not added to.\<close>

definition addEvent :: "task option \<Rightarrow> u32 \<Rightarrow> 'a IoChannel_scheme \<Rightarrow> bool \<times> 'a IoChannel_scheme" where
  "addEvent cur event ch =
     (if m_events ch AND event \<noteq> 0 then (False, ch)
      else
        let ch = (case cur of Some t \<Rightarrow> ch\<lparr>m_task := Some t\<rparr> | None \<Rightarrow> ch)
        in (True, ch\<lparr>m_events := m_events ch OR event\<rparr>))"

definition cancelEvent :: "u32 \<Rightarrow> 'a IoChannel_scheme \<Rightarrow> bool \<times> 'a IoChannel_scheme" where
  "cancelEvent event ch =
     (if m_events ch AND event = 0 then (False, ch) else (True, ch\<lparr>m_events := m_events ch AND NOT event\<rparr>))"

definition clearEvent :: "'a IoChannel_scheme \<Rightarrow> bool \<times> 'a IoChannel_scheme" where
  "clearEvent ch = (if m_events ch = NONE then (False, ch) else (True, ch\<lparr>m_events := NONE\<rparr>))"

text \<open>\<open>trigger\<close>: the tasks it wakes, at most one.\<close>

definition trigger :: "u32 \<Rightarrow> 'a IoChannel_scheme \<Rightarrow> task list" where
  "trigger op ch =
     (let op = (if op AND EPOLLHUP \<noteq> 0 \<and> op AND EPOLLIN = 0
                then op OR ((EPOLLIN OR EPOLLOUT) AND m_events ch) else op);
          op = (if op AND EPOLLERR \<noteq> 0 then op OR ((EPOLLIN OR EPOLLOUT) AND m_events ch) else op)
      in if op AND (EPOLLIN OR EPOLLPRI OR EPOLLRDHUP OR EPOLLOUT) \<noteq> 0
         then (case m_task ch of Some t \<Rightarrow> [t] | None \<Rightarrow> []) else [])"

definition close_channel :: "'a IoChannel_scheme \<Rightarrow> task list" where
  "close_channel ch = trigger EPOLLERR ch"

fun stateToString :: "IoChannelState \<Rightarrow> string" where
  "stateToString DISCARD = ''DISCARD''"
| "stateToString EXIST = ''EXIST''"
| "stateToString NEW = ''NEW''"

definition eventsToString :: "u32 \<Rightarrow> string" where
  "eventsToString ev =
     (if ev AND EPOLLIN \<noteq> 0 then ''IN '' else []) @ (if ev AND EPOLLPRI \<noteq> 0 then ''PRI '' else [])
     @ (if ev AND EPOLLOUT \<noteq> 0 then ''OUT '' else []) @ (if ev AND EPOLLHUP \<noteq> 0 then ''HUP '' else [])
     @ (if ev AND EPOLLRDHUP \<noteq> 0 then ''RDHUP '' else []) @ (if ev AND EPOLLERR \<noteq> 0 then ''ERR '' else [])"

subsection \<open>EpollPoller\<close>

datatype ctl_op = EPOLL_CTL_ADD | EPOLL_CTL_DEL | EPOLL_CTL_MOD

text \<open>One call: operation, descriptor, events, and the pointer kept in \<open>data\<close>.\<close>

datatype ctl = Ctl (ctl_op: ctl_op) (ctl_fd: int) (ctl_events: u32) (ctl_ptr: chan)

record poller =
  m_wakefd :: u32
  m_channel_map :: "int \<rightharpoonup> chan"
  m_event_vec :: nat
  ctl_log :: "ctl list"

definition new_poller :: "u32 \<Rightarrow> poller" where
  "new_poller wakefd = \<lparr>m_wakefd = wakefd, m_channel_map = Map.empty, m_event_vec = 16, ctl_log = []\<rparr>"

definition hasChannel :: "(chan \<Rightarrow> 'a IoChannel_scheme) \<Rightarrow> chan \<Rightarrow> poller \<Rightarrow> bool" where
  "hasChannel st c po \<longleftrightarrow> m_channel_map po (m_fd (st c)) = Some c"

definition update :: "ctl_op \<Rightarrow> (chan \<Rightarrow> 'a IoChannel_scheme) \<Rightarrow> chan \<Rightarrow> poller \<Rightarrow> poller" where
  "update op st c po = po\<lparr>ctl_log := ctl_log po @ [Ctl op (m_fd (st c)) (m_events (st c) OR EPOLLET) c]\<rparr>"

definition assert_that :: "bool \<Rightarrow> 'b res \<Rightarrow> 'b res" where
  "assert_that P r = (if P then r else Inl AssertFailed)"

definition updateChannel :: "(chan \<Rightarrow> 'a IoChannel_scheme) \<Rightarrow> chan \<Rightarrow> poller \<Rightarrow> ((chan \<Rightarrow> 'a IoChannel_scheme) \<times> poller) res" where
  "updateChannel st c po =
     (let fd = m_fd (st c); state = m_state (st c)
      in if state = NEW \<or> state = DISCARD
         then
           bindE (if state = NEW
                  then assert_that (m_channel_map po fd = None) (Inr (po\<lparr>m_channel_map := (m_channel_map po)(fd \<mapsto> c)\<rparr>))
                  else assert_that (m_channel_map po fd \<noteq> None) (assert_that (m_channel_map po fd = Some c) (Inr po))) (\<lambda>po.
             let st = st(c := (st c)\<lparr>m_state := EXIST\<rparr>) in Inr (st, update EPOLL_CTL_ADD st c po))
         else
           assert_that (m_channel_map po fd \<noteq> None) (assert_that (m_channel_map po fd = Some c) (assert_that (state = EXIST)
             (if isNoneEvent (st c)
              then let po = update EPOLL_CTL_DEL st c po in Inr (st(c := (st c)\<lparr>m_state := DISCARD\<rparr>), po)
              else Inr (st, update EPOLL_CTL_MOD st c po)))))"

definition removeChannel :: "(chan \<Rightarrow> 'a IoChannel_scheme) \<Rightarrow> chan \<Rightarrow> poller \<Rightarrow> ((chan \<Rightarrow> 'a IoChannel_scheme) \<times> poller) res" where
  "removeChannel st c po =
     (let fd = m_fd (st c); state = m_state (st c)
      in assert_that (m_channel_map po fd \<noteq> None) (assert_that (m_channel_map po fd = Some c)
         (assert_that (isNoneEvent (st c)) (assert_that (state = EXIST \<or> state = DISCARD)
           (let po = po\<lparr>m_channel_map := (m_channel_map po)(fd := None)\<rparr>;
                po = (if state = EXIST then update EPOLL_CTL_DEL st c po else po)
            in Inr (st(c := (st c)\<lparr>m_state := NEW\<rparr>), po))))))"

text \<open>
  \<open>poll\<close> on what \<open>epoll_wait\<close> returned: pairs of events and data. The wake-up descriptor is told apart by the
  lower 32 bits of the data, which for every other entry is the address of a channel.
\<close>

fun poll_events :: "(chan \<Rightarrow> 'a IoChannel_scheme) \<Rightarrow> u32 \<Rightarrow> (u32 \<times> u64) list \<Rightarrow> task list" where
  "poll_events st wakefd [] = []"
| "poll_events st wakefd ((events, data) # evs) =
     (if (ucast data :: u32) = wakefd then [] else trigger events (st data)) @ poll_events st wakefd evs"

definition poll :: "(chan \<Rightarrow> 'a IoChannel_scheme) \<Rightarrow> (u32 \<times> u64) list \<Rightarrow> poller \<Rightarrow> task list \<times> poller" where
  "poll st evs po =
     (if evs = [] then ([], po)
      else (poll_events st (m_wakefd po) evs,
            if length evs = m_event_vec po then po\<lparr>m_event_vec := m_event_vec po * 2\<rparr> else po))"

subsection \<open>The kernel's side\<close>

text \<open>
  The interest list, replayed from the record: a call with the wrong operation fails and changes nothing
  (\<open>EEXIST\<close>, \<open>ENOENT\<close>). \<open>ctl_legal\<close> says that no call failed that way.
\<close>

definition ctl_ok :: "(int \<rightharpoonup> u32 \<times> chan) \<Rightarrow> ctl \<Rightarrow> bool" where
  "ctl_ok I k \<longleftrightarrow> (I (ctl_fd k) = None) = (ctl_op k = EPOLL_CTL_ADD)"

definition ctl_effect :: "(int \<rightharpoonup> u32 \<times> chan) \<Rightarrow> ctl \<Rightarrow> (int \<rightharpoonup> u32 \<times> chan)" where
  "ctl_effect I k = (if ctl_ok I k
     then I(ctl_fd k := (if ctl_op k = EPOLL_CTL_DEL then None else Some (ctl_events k, ctl_ptr k)))
     else I)"

definition interest :: "ctl list \<Rightarrow> (int \<rightharpoonup> u32 \<times> chan)" where
  "interest ks = foldl ctl_effect Map.empty ks"

fun ctl_legal :: "(int \<rightharpoonup> u32 \<times> chan) \<Rightarrow> ctl list \<Rightarrow> bool" where
  "ctl_legal I [] \<longleftrightarrow> True"
| "ctl_legal I (k # ks) \<longleftrightarrow> ctl_ok I k \<and> ctl_legal (ctl_effect I k) ks"

lemma interest_snoc [simp]: "interest (ks @ [k]) = ctl_effect (interest ks) k"
  by (simp add: interest_def)

lemma ctl_legal_append: "ctl_legal I (ks @ ls) \<longleftrightarrow> ctl_legal I ks \<and> ctl_legal (foldl ctl_effect I ks) ls"
  by (induction ks arbitrary: I) auto

lemma ctl_legal_snoc [simp]:
  "ctl_legal Map.empty (ks @ [k]) \<longleftrightarrow> ctl_legal Map.empty ks \<and> ctl_ok (interest ks) k"
  by (simp add: ctl_legal_append interest_def)

end
