(* ===== verification/Hook.thy ===== *)
theory Hook
  imports IoChannel
begin

section \<open>Descriptors and the hooked system calls\<close>

text \<open>
  \<open>FdInfo\<close> and \<open>FdManager\<close> (src/spike/coroutine/FdInfo.cpp) and the system calls that
  src/spike/coroutine/Hook.cpp puts in the place of the originals. An original call is an argument: its
  result, or the list of the results of its successive calls, each with the value of \<open>errno\<close> it leaves.
  Timers are the pending closures of the timer manager, by number; an expired timer first leaves the set and
  its callback runs later, on the thread of the manager.
\<close>

type_synonym ioresult = "int \<times> int"

abbreviation (input) EINTR :: int where "EINTR \<equiv> 4"
abbreviation (input) EBADF :: int where "EBADF \<equiv> 9"
abbreviation (input) EAGAIN :: int where "EAGAIN \<equiv> 11"
abbreviation (input) ETIMEDOUT :: int where "ETIMEDOUT \<equiv> 110"
abbreviation (input) EINPROGRESS :: int where "EINPROGRESS \<equiv> 115"
abbreviation (input) SOL_SOCKET :: int where "SOL_SOCKET \<equiv> 1"
abbreviation (input) SO_RCVTIMEO :: int where "SO_RCVTIMEO \<equiv> 20"
abbreviation (input) SO_SNDTIMEO :: int where "SO_SNDTIMEO \<equiv> 21"
abbreviation (input) O_NONBLOCK :: u32 where "O_NONBLOCK \<equiv> 0x800"

subsection \<open>FdInfo\<close>

record FdInfo = IoChannel +
  m_isSocket :: bool
  m_sysNonblock :: bool
  m_userNonblock :: bool
  m_recvTimeout :: u64
  m_sendTimeout :: u64
  m_tcpConnectTimeout :: u64

text \<open>The constructor; \<open>is_sock\<close> is what \<open>fstat\<close> says, \<open>setfl\<close> what \<open>F_SETFL\<close> makes of the flags.\<close>

definition new_FdInfo :: "int \<Rightarrow> bool \<Rightarrow> FdInfo" where
  "new_FdInfo fd is_sock = \<lparr>m_fd = fd, m_state = NEW, m_events = 0, m_task = None, m_isSocket = is_sock,
     m_sysNonblock = is_sock, m_userNonblock = False, m_recvTimeout = -1, m_sendTimeout = -1, m_tcpConnectTimeout = -1\<rparr>"

definition new_FdInfo_flags :: "(u32 \<Rightarrow> u32 \<Rightarrow> u32) \<Rightarrow> bool \<Rightarrow> u32 \<Rightarrow> u32" where
  "new_FdInfo_flags setfl is_sock flag =
     (if is_sock \<and> flag AND O_NONBLOCK = 0 then setfl flag (flag OR O_NONBLOCK) else flag)"

definition setSocketTimeout :: "int \<Rightarrow> u64 \<Rightarrow> FdInfo \<Rightarrow> FdInfo" where
  "setSocketTimeout type ms fi =
     (if type = SO_RCVTIMEO then fi\<lparr>m_recvTimeout := ms\<rparr>
      else if type = SO_SNDTIMEO then fi\<lparr>m_sendTimeout := ms\<rparr> else fi)"

definition getSocketTimeout :: "int \<Rightarrow> FdInfo \<Rightarrow> u64" where
  "getSocketTimeout type fi =
     (if type = SO_RCVTIMEO then m_recvTimeout fi
      else if type = SO_SNDTIMEO then m_sendTimeout fi else 0)"

subsection \<open>The state\<close>

text \<open>What a timer runs: the timeout of an operation held by a task, or the end of a sleep.\<close>

datatype closure = IoTimeout task chan u32 | WakeTask task

text \<open>The local variables of a held \<open>do_io\<close> or \<open>connect\<close>; \<open>f_expired\<close> is written by the timeout through a reference.\<close>

record io_frame =
  f_chan :: chan
  f_event :: u32
  f_to :: u64
  f_timer :: "nat option"
  f_expired :: bool

record hook =
  h_chans :: "chan \<Rightarrow> FdInfo"
  h_buckets :: "int \<Rightarrow> int \<rightharpoonup> chan option"
  h_poller :: poller
  h_flags :: "int \<Rightarrow> u32"
  h_timers :: "nat \<rightharpoonup> u64 \<times> closure"
  h_nextTimer :: nat
  h_due :: "closure list"
  h_frames :: "task \<rightharpoonup> io_frame"
  h_woken :: "task list"

definition set_chan :: "chan \<Rightarrow> FdInfo \<Rightarrow> hook \<Rightarrow> hook" where
  "set_chan c fi ho = ho\<lparr>h_chans := (h_chans ho)(c := fi)\<rparr>"

definition wake_all :: "task list \<Rightarrow> hook \<Rightarrow> hook" where
  "wake_all ts ho = ho\<lparr>h_woken := h_woken ho @ ts\<rparr>"

definition hook_update :: "chan \<Rightarrow> hook \<Rightarrow> hook res" where
  "hook_update c ho = bindE (updateChannel (h_chans ho) c (h_poller ho)) (\<lambda>(st, po).
     Inr (ho\<lparr>h_chans := st, h_poller := po\<rparr>))"

definition hook_remove :: "chan \<Rightarrow> hook \<Rightarrow> hook res" where
  "hook_remove c ho = bindE (removeChannel (h_chans ho) c (h_poller ho)) (\<lambda>(st, po).
     Inr (ho\<lparr>h_chans := st, h_poller := po\<rparr>))"

definition hook_poll :: "(u32 \<times> u64) list \<Rightarrow> hook \<Rightarrow> hook" where
  "hook_poll evs ho = (let (ts, po) = poll (h_chans ho) evs (h_poller ho) in wake_all ts (ho\<lparr>h_poller := po\<rparr>))"

subsection \<open>FdManager\<close>

definition bucketIdx :: "int \<Rightarrow> int" where
  "bucketIdx fd = fd AND 1023"

definition getSlot :: "int \<Rightarrow> hook \<Rightarrow> chan option option" where
  "getSlot fd ho = h_buckets ho (bucketIdx fd) fd"

definition fd_get :: "int \<Rightarrow> hook \<Rightarrow> chan option" where
  "fd_get fd ho = (case getSlot fd ho of None \<Rightarrow> None | Some info \<Rightarrow> info)"

definition set_slot :: "int \<Rightarrow> chan option \<Rightarrow> hook \<Rightarrow> hook" where
  "set_slot fd info ho = ho\<lparr>h_buckets := (h_buckets ho)(bucketIdx fd := (h_buckets ho (bucketIdx fd))(fd \<mapsto> info))\<rparr>"

definition close_info :: "chan option \<Rightarrow> hook \<Rightarrow> hook" where
  "close_info info ho = (case info of None \<Rightarrow> ho | Some c \<Rightarrow> wake_all (close_channel (h_chans ho c)) ho)"

definition fd_insert :: "int \<Rightarrow> chan \<Rightarrow> hook \<Rightarrow> hook" where
  "fd_insert fd c ho =
     (let ho = (case getSlot fd ho of None \<Rightarrow> set_slot fd None ho | Some _ \<Rightarrow> ho);
          closedInfo = fd_get fd ho
      in close_info closedInfo (set_slot fd (Some c) ho))"

text \<open>\<open>c\<close> is the address the new object gets.\<close>

definition fd_create :: "(u32 \<Rightarrow> u32 \<Rightarrow> u32) \<Rightarrow> chan \<Rightarrow> bool \<Rightarrow> int \<Rightarrow> hook \<Rightarrow> hook" where
  "fd_create setfl c is_sock fd ho =
     fd_insert fd c (set_chan c (new_FdInfo fd is_sock)
       (ho\<lparr>h_flags := (h_flags ho)(fd := new_FdInfo_flags setfl is_sock (h_flags ho fd))\<rparr>))"

definition fd_del :: "int \<Rightarrow> hook \<Rightarrow> hook" where
  "fd_del fd ho = (case getSlot fd ho of None \<Rightarrow> ho | Some info \<Rightarrow> close_info info (set_slot fd None ho))"

subsection \<open>Timers\<close>

text \<open>A timer keeps the milliseconds it was asked for and its closure.\<close>

definition add_timer :: "u64 \<Rightarrow> closure \<Rightarrow> hook \<Rightarrow> nat \<times> hook" where
  "add_timer ms cl ho = (h_nextTimer ho,
     ho\<lparr>h_timers := (h_timers ho)(h_nextTimer ho \<mapsto> (ms, cl)), h_nextTimer := Suc (h_nextTimer ho)\<rparr>)"

definition cancel_timer :: "nat option \<Rightarrow> hook \<Rightarrow> hook" where
  "cancel_timer timer ho = (case timer of None \<Rightarrow> ho | Some k \<Rightarrow> ho\<lparr>h_timers := (h_timers ho)(k := None)\<rparr>)"

text \<open>\<open>listExpiredCallback\<close> takes the closure out of the set; \<open>doFunc\<close> runs it later.\<close>

definition expire_timer :: "nat \<Rightarrow> hook \<Rightarrow> hook" where
  "expire_timer k ho = (case h_timers ho k of None \<Rightarrow> ho
     | Some (ms, cl) \<Rightarrow> ho\<lparr>h_timers := (h_timers ho)(k := None), h_due := h_due ho @ [cl]\<rparr>)"

text \<open>The timeout writes \<open>expired\<close> in the frame of the held task: once that has returned the reference dangles.\<close>

definition run_closure :: "closure \<Rightarrow> hook \<Rightarrow> hook res" where
  "run_closure cl ho = (case cl of
      WakeTask t \<Rightarrow> Inr (wake_all [t] ho)
    | IoTimeout t c event \<Rightarrow>
        let ho = set_chan c (snd (cancelEvent event (h_chans ho c))) ho
        in bindE (hook_update c ho) (\<lambda>ho. case h_frames ho t of
             None \<Rightarrow> Inl DanglingPtr
           | Some fr \<Rightarrow> Inr (ho\<lparr>h_frames := (h_frames ho)(t \<mapsto> fr\<lparr>f_expired := True\<rparr>)\<rparr>)))"

definition run_due :: "hook \<Rightarrow> hook res" where
  "run_due ho = (case h_due ho of [] \<Rightarrow> Inr ho | cl # cls \<Rightarrow> run_closure cl (ho\<lparr>h_due := cls\<rparr>))"

subsection \<open>do\_io\<close>

text \<open>When the original function is called once and its result returned as it is.\<close>

definition do_io_direct :: "task option \<Rightarrow> int \<Rightarrow> hook \<Rightarrow> bool" where
  "do_io_direct cur fd ho \<longleftrightarrow> cur = None \<or>
     (case fd_get fd ho of None \<Rightarrow> True
      | Some c \<Rightarrow> \<not> m_isSocket (h_chans ho c) \<or> m_userNonblock (h_chans ho c))"

text \<open>The calls of the original function up to the first that was not interrupted.\<close>

fun after_eintr :: "ioresult list \<Rightarrow> (ioresult \<times> ioresult list) option" where
  "after_eintr [] = None"
| "after_eintr ((n, err) # rs) = (if n = -1 \<and> err = EINTR then after_eintr rs else Some ((n, err), rs))"

definition would_block :: "ioresult \<Rightarrow> bool" where
  "would_block r \<longleftrightarrow> \<not> (fst r \<noteq> -1 \<or> snd r \<noteq> EAGAIN)"

text \<open>From the failed try to \<open>CoHold\<close>: arm the timer, record the task, tell the poller.\<close>

definition io_hold :: "task \<Rightarrow> chan \<Rightarrow> u32 \<Rightarrow> u64 \<Rightarrow> hook \<Rightarrow> hook res" where
  "io_hold t c event to ho =
     (let (timer, ho) = (if to \<noteq> -1 then (let (k, ho) = add_timer to (IoTimeout t c event) ho in (Some k, ho)) else (None, ho));
          ho = set_chan c (snd (addEvent (Some t) event (h_chans ho c))) ho
      in bindE (hook_update c ho) (\<lambda>ho.
         Inr (ho\<lparr>h_frames := (h_frames ho)(t \<mapsto> \<lparr>f_chan = c, f_event = event, f_to = to, f_timer = timer, f_expired = False\<rparr>)\<rparr>)))"

text \<open>After the wake-up: cancel the timer and look at \<open>expired\<close>. \<open>None\<close> is another round.\<close>

definition io_resume :: "task \<Rightarrow> hook \<Rightarrow> (ioresult option \<times> hook) res" where
  "io_resume t ho = (case h_frames ho t of
      None \<Rightarrow> Inl DanglingPtr
    | Some fr \<Rightarrow>
        let ho = cancel_timer (f_timer fr) ho; ho = ho\<lparr>h_frames := (h_frames ho)(t := None)\<rparr>
        in Inr (if f_expired fr then Some (-1, ETIMEDOUT) else None, ho))"

lemma after_eintr_length: "after_eintr rs = Some (r, rest) \<Longrightarrow> length rest < length rs"
  by (induction rs rule: after_eintr.induct) (auto split: if_splits)

text \<open>
  The loop of \<open>do_io\<close>: \<open>rs\<close> are the results of the successive calls of the original function and \<open>env\<close> is what
  the other threads do while the task is held. A list of results that ends too early is reported as \<open>Diverge\<close>.
\<close>

function do_io_loop :: "(hook \<Rightarrow> hook res) \<Rightarrow> task \<Rightarrow> chan \<Rightarrow> u32 \<Rightarrow> u64 \<Rightarrow> ioresult list \<Rightarrow> hook
    \<Rightarrow> (ioresult \<times> ioresult list \<times> hook) res" where
  "do_io_loop env t c event to rs ho =
     (case after_eintr rs of
        None \<Rightarrow> Inl Diverge
      | Some (r, rest) \<Rightarrow>
          if \<not> would_block r then Inr (r, rest, ho)
          else bindE (io_hold t c event to ho) (\<lambda>ho.
               bindE (env ho) (\<lambda>ho.
               bindE (io_resume t ho) (\<lambda>(out, ho). case out of
                  Some e \<Rightarrow> Inr (e, rest, ho)
                | None \<Rightarrow> do_io_loop env t c event to rest ho))))"
  by pat_completeness auto
termination
  by (relation "measure (\<lambda>(env, t, c, event, to, rs, ho). length rs)") (auto dest: after_eintr_length)

declare do_io_loop.simps [simp del]

definition do_io :: "(hook \<Rightarrow> hook res) \<Rightarrow> task option \<Rightarrow> int \<Rightarrow> u32 \<Rightarrow> int \<Rightarrow> ioresult list \<Rightarrow> hook
    \<Rightarrow> (ioresult \<times> ioresult list \<times> hook) res" where
  "do_io env cur fd event timeout_so rs ho =
     (if do_io_direct cur fd ho then (case rs of [] \<Rightarrow> Inl Diverge | r # rest \<Rightarrow> Inr (r, rest, ho))
      else
        let c = the (fd_get fd ho); to = getSocketTimeout timeout_so (h_chans ho c)
        in do_io_loop env (the cur) c event to rs ho)"

text \<open>The calls that are \<open>do_io\<close>: the readers wait for \<open>READ\<close>, the writers for \<open>WRITE\<close>.\<close>

definition hook_read :: "(hook \<Rightarrow> hook res) \<Rightarrow> task option \<Rightarrow> int \<Rightarrow> ioresult list \<Rightarrow> hook \<Rightarrow> (ioresult \<times> ioresult list \<times> hook) res" where
  "hook_read env cur fd rs ho = do_io env cur fd READ SO_RCVTIMEO rs ho"

definition hook_write :: "(hook \<Rightarrow> hook res) \<Rightarrow> task option \<Rightarrow> int \<Rightarrow> ioresult list \<Rightarrow> hook \<Rightarrow> (ioresult \<times> ioresult list \<times> hook) res" where
  "hook_write env cur fd rs ho = do_io env cur fd WRITE SO_SNDTIMEO rs ho"

definition hook_accept :: "(u32 \<Rightarrow> u32 \<Rightarrow> u32) \<Rightarrow> chan \<Rightarrow> (hook \<Rightarrow> hook res) \<Rightarrow> task option \<Rightarrow> int \<Rightarrow> ioresult list \<Rightarrow> hook
    \<Rightarrow> (ioresult \<times> ioresult list \<times> hook) res" where
  "hook_accept setfl c env cur s rs ho = bindE (do_io env cur s READ SO_RCVTIMEO rs ho) (\<lambda>(r, rest, ho).
     Inr (r, rest, if fst r \<ge> 0 then fd_create setfl c True (fst r) ho else ho))"

subsection \<open>connect\<close>

text \<open>
  \<open>first\<close> is the result of the original \<open>connect\<close>, \<open>so_error\<close> what \<open>getsockopt(SO_ERROR)\<close> returns and stores afterwards.
\<close>

definition hook_connect :: "(hook \<Rightarrow> hook res) \<Rightarrow> task option \<Rightarrow> int \<Rightarrow> ioresult \<Rightarrow> (ioresult \<times> int) \<Rightarrow> hook \<Rightarrow> (ioresult \<times> hook) res" where
  "hook_connect env cur fd first so_error ho = (case cur of
      None \<Rightarrow> Inr (first, ho)
    | Some t \<Rightarrow> (case fd_get fd ho of
          None \<Rightarrow> Inr ((-1, EBADF), ho)
        | Some c \<Rightarrow>
            if \<not> m_isSocket (h_chans ho c) \<or> m_userNonblock (h_chans ho c) then Inr (first, ho)
            else if fst first = 0 then Inr ((0, snd first), ho)
            else if fst first \<noteq> -1 \<or> snd first \<noteq> EINPROGRESS then Inr (first, ho)
            else bindE (io_hold t c WRITE (m_tcpConnectTimeout (h_chans ho c)) ho) (\<lambda>ho.
                 bindE (env ho) (\<lambda>ho.
                 bindE (io_resume t ho) (\<lambda>(out, ho). case out of
                    Some e \<Rightarrow> Inr (e, ho)
                  | None \<Rightarrow>
                      let (ret, error) = so_error
                      in if fst ret = -1 then Inr (ret, ho)
                         else if error = 0 then Inr ((0, snd ret), ho)
                         else Inr ((-1, error), ho))))))"

subsection \<open>Sleeping\<close>

text \<open>The milliseconds that are handed to \<open>addTimer\<close>: \<open>seconds * 1000\<close> is computed on \<open>unsigned int\<close>.\<close>

definition sleep_ms :: "u32 \<Rightarrow> u64" where
  "sleep_ms seconds = ucast (seconds * 1000)"

definition usleep_ms :: "u32 \<Rightarrow> u64" where
  "usleep_ms usec = ucast (usec div 1000)"

text \<open>\<open>int timeout_ms = tv_sec * 1000 + tv_nsec / 1000 / 1000\<close>, converted to \<open>uint64_t\<close> in the call.\<close>

definition nanosleep_ms :: "int \<Rightarrow> int \<Rightarrow> u64 res" where
  "nanosleep_ms tv_sec tv_nsec =
     (let ms = tv_sec * 1000 + (if tv_nsec < 0 then - ((- tv_nsec) div 1000000) else tv_nsec div 1000000)
      in if ms < - (2 ^ 63) \<or> ms \<ge> 2 ^ 63 then Inl SignedOverflow
         else Inr (scast (word_of_int ms :: 32 word)))"

definition hook_sleep :: "u64 \<Rightarrow> task \<Rightarrow> hook \<Rightarrow> nat \<times> hook" where
  "hook_sleep ms t ho = add_timer ms (WakeTask t) ho"

subsection \<open>Creating and closing descriptors\<close>

text \<open>\<open>pipe\<close>: \<open>res\<close> is the original result, \<open>fds\<close> the two descriptors it stored, \<open>is_sock\<close> what \<open>fstat\<close> says of each.\<close>

definition hook_pipe :: "(u32 \<Rightarrow> u32 \<Rightarrow> u32) \<Rightarrow> (int \<Rightarrow> bool) \<Rightarrow> chan \<times> chan \<Rightarrow> int \<Rightarrow> int \<times> int \<Rightarrow> hook \<Rightarrow> int \<times> hook" where
  "hook_pipe setfl is_sock cs res fds ho = (res,
     if res = 0
     then fd_create setfl (snd cs) (is_sock (snd fds)) (snd fds) (fd_create setfl (fst cs) (is_sock (fst fds)) (fst fds) ho)
     else ho)"

definition hook_socket :: "(u32 \<Rightarrow> u32 \<Rightarrow> u32) \<Rightarrow> (int \<Rightarrow> bool) \<Rightarrow> chan \<Rightarrow> int \<Rightarrow> hook \<Rightarrow> int \<times> hook" where
  "hook_socket setfl is_sock c fd ho = (fd, if fd > 0 then fd_create setfl c (is_sock fd) fd ho else ho)"

text \<open>
  \<open>close\<close>: \<open>on_loop\<close> says whether the calling thread has a current processor; \<open>loop->hasChannel\<close> through a null
  \<open>loop\<close> is the fault.
\<close>

definition hook_close :: "bool \<Rightarrow> int \<Rightarrow> hook \<Rightarrow> hook res" where
  "hook_close on_loop fd ho = (case fd_get fd ho of
      None \<Rightarrow> Inr ho
    | Some c \<Rightarrow>
        let ho = set_chan c (snd (clearEvent (h_chans ho c))) ho
        in if \<not> on_loop then Inl NullDeref
           else bindE (if hasChannel (h_chans ho) c (h_poller ho) then hook_remove c ho else Inr ho) (\<lambda>ho.
                Inr (fd_del fd ho)))"

subsection \<open>Flags and options\<close>

text \<open>
  \<open>fcntl(F_SETFL)\<close>, \<open>fcntl(F_GETFL)\<close> and \<open>ioctl(FIONBIO)\<close>; the flags of the descriptors are \<open>h_flags\<close>, and the other
  requests are passed on as they are.
\<close>

definition fcntl_setfl :: "(u32 \<Rightarrow> u32 \<Rightarrow> u32) \<Rightarrow> int \<Rightarrow> u32 \<Rightarrow> hook \<Rightarrow> hook" where
  "fcntl_setfl setfl fd arg ho =
     (let sys = (\<lambda>arg ho. ho\<lparr>h_flags := (h_flags ho)(fd := setfl (h_flags ho fd) arg)\<rparr>)
      in case fd_get fd ho of
           None \<Rightarrow> sys arg ho
         | Some c \<Rightarrow>
             if \<not> m_isSocket (h_chans ho c) then sys arg ho
             else
               let ho = set_chan c ((h_chans ho c)\<lparr>m_userNonblock := (arg AND O_NONBLOCK \<noteq> 0)\<rparr>) ho;
                   arg = (if m_sysNonblock (h_chans ho c) then arg OR O_NONBLOCK else arg AND NOT O_NONBLOCK)
               in sys arg ho)"

definition fcntl_getfl :: "int \<Rightarrow> hook \<Rightarrow> u32" where
  "fcntl_getfl fd ho =
     (let arg = h_flags ho fd
      in case fd_get fd ho of
           None \<Rightarrow> arg
         | Some c \<Rightarrow>
             if \<not> m_isSocket (h_chans ho c) then arg
             else if m_userNonblock (h_chans ho c) then arg OR O_NONBLOCK else arg AND NOT O_NONBLOCK)"

definition ioctl_fionbio :: "int \<Rightarrow> int \<Rightarrow> hook \<Rightarrow> hook" where
  "ioctl_fionbio d arg ho =
     (let user_nonblock = (arg \<noteq> 0);
          ho = (case fd_get d ho of None \<Rightarrow> ho
                | Some c \<Rightarrow> set_chan c ((h_chans ho c)\<lparr>m_userNonblock := user_nonblock\<rparr>) ho)
      in ho\<lparr>h_flags := (h_flags ho)(d := (if user_nonblock then h_flags ho d OR O_NONBLOCK
           else h_flags ho d AND NOT O_NONBLOCK))\<rparr>)"

text \<open>\<open>setsockopt\<close>: \<open>res\<close> is the original result, the time is that of the option. \<open>long\<close> arithmetic that overflows is undefined.\<close>

definition timeval_ms :: "int \<Rightarrow> int \<Rightarrow> u64 res" where
  "timeval_ms tv_sec tv_usec =
     (let ms = tv_sec * 1000 + (if tv_usec < 0 then - ((- tv_usec) div 1000) else tv_usec div 1000)
      in if ms < - (2 ^ 63) \<or> ms \<ge> 2 ^ 63 then Inl SignedOverflow else Inr (word_of_int ms))"

definition hook_setsockopt :: "int \<Rightarrow> int \<Rightarrow> int \<Rightarrow> int \<Rightarrow> int \<times> int \<Rightarrow> hook \<Rightarrow> (int \<times> hook) res" where
  "hook_setsockopt res fd level optname v ho =
     (if res = 0 \<and> level = SOL_SOCKET \<and> (optname = SO_RCVTIMEO \<or> optname = SO_SNDTIMEO)
      then (case fd_get fd ho of
             None \<Rightarrow> Inr (res, ho)
           | Some c \<Rightarrow> bindE (timeval_ms (fst v) (snd v)) (\<lambda>ms.
               Inr (res, set_chan c (setSocketTimeout optname ms (h_chans ho c)) ho)))
      else Inr (res, ho))"

end
