(* ===== verification/IoChannel_Props.thy ===== *)
theory IoChannel_Props
  imports IoChannel
begin

section \<open>The poller keeps the channels and the kernel in step\<close>

text \<open>
  The invariant of one event loop: the map and the states of the channels agree, every call of \<open>epoll_ctl\<close>
  so far was legal, and the interest list of the kernel has exactly the channels in state \<open>EXIST\<close>.
\<close>

definition poller_ok :: "(chan \<Rightarrow> 'a IoChannel_scheme) \<Rightarrow> poller \<Rightarrow> bool" where
  "poller_ok st po \<longleftrightarrow>
     (\<forall>fd c. m_channel_map po fd = Some c \<longleftrightarrow> m_fd (st c) = fd \<and> m_state (st c) \<noteq> NEW)
     \<and> ctl_legal Map.empty (ctl_log po)
     \<and> (\<forall>fd c. (\<exists>ev. interest (ctl_log po) fd = Some (ev, c)) \<longleftrightarrow> m_channel_map po fd = Some c \<and> m_state (st c) = EXIST)"

named_theorems chan_defs \<open>definitions of the channel and poller operations\<close>
lemmas [chan_defs] = updateChannel_def removeChannel_def update_def assert_that_def isNoneEvent_def hasChannel_def

lemma IoChannelState_cases: "s = NEW \<or> s = EXIST \<or> s = DISCARD"
  by (cases s) simp_all

lemma poller_ok_map: "poller_ok st po \<Longrightarrow> m_channel_map po (m_fd (st c)) = Some c \<longleftrightarrow> m_state (st c) \<noteq> NEW"
  by (auto simp: poller_ok_def)

lemma poller_ok_unique:
  "poller_ok st po \<Longrightarrow> m_state (st c) \<noteq> NEW \<Longrightarrow> m_state (st d) \<noteq> NEW \<Longrightarrow> m_fd (st d) = m_fd (st c) \<Longrightarrow> d = c"
  using poller_ok_map [of st po c] poller_ok_map [of st po d] by simp

lemma interest_none:
  assumes "poller_ok st po"
  shows "interest (ctl_log po) fd = None \<longleftrightarrow> (\<forall>c. m_channel_map po fd = Some c \<longrightarrow> m_state (st c) \<noteq> EXIST)"
proof -
  have "interest (ctl_log po) fd \<noteq> None \<longleftrightarrow> (\<exists>c ev. interest (ctl_log po) fd = Some (ev, c))" by auto
  also have "\<dots> \<longleftrightarrow> (\<exists>c. m_channel_map po fd = Some c \<and> m_state (st c) = EXIST)" using assms by (auto simp: poller_ok_def)
  finally show ?thesis by auto
qed

text \<open>Operations on a channel that keep its descriptor and its state do not concern the poller.\<close>

lemma poller_ok_cong:
  "m_fd ch = m_fd (st c) \<Longrightarrow> m_state ch = m_state (st c) \<Longrightarrow> poller_ok (st(c := ch)) po = poller_ok st po"
proof -
  assume "m_fd ch = m_fd (st c)" "m_state ch = m_state (st c)"
  then have "m_fd ((st(c := ch)) d) = m_fd (st d)" "m_state ((st(c := ch)) d) = m_state (st d)" for d by auto
  then show ?thesis by (simp add: poller_ok_def del: fun_upd_apply)
qed

lemma events_keep [simp]:
  "m_fd (snd (addEvent cur ev ch)) = m_fd ch" "m_state (snd (addEvent cur ev ch)) = m_state ch"
  "m_fd (snd (cancelEvent ev ch)) = m_fd ch" "m_state (snd (cancelEvent ev ch)) = m_state ch"
  "m_fd (snd (clearEvent ch)) = m_fd ch" "m_state (snd (clearEvent ch)) = m_state ch"
  by (auto simp: addEvent_def cancelEvent_def clearEvent_def Let_def split: option.splits)

lemma ctl_step:
  "ctl_ok I k \<Longrightarrow> ctl_effect I k fd = (if fd = ctl_fd k then (if ctl_op k = EPOLL_CTL_DEL then None
     else Some (ctl_events k, ctl_ptr k)) else I fd)"
  by (simp add: ctl_effect_def)

text \<open>\<open>updateChannel\<close> by the state of the channel.\<close>

lemma update_add:
  assumes ok: "poller_ok st po" and st: "m_state (st c) = NEW \<and> m_channel_map po (m_fd (st c)) = None \<or> m_state (st c) = DISCARD"
  defines "st' \<equiv> st(c := (st c)\<lparr>m_state := EXIST\<rparr>)"
    and "po' \<equiv> po\<lparr>m_channel_map := (m_channel_map po)(m_fd (st c) \<mapsto> c),
        ctl_log := ctl_log po @ [Ctl EPOLL_CTL_ADD (m_fd (st c)) (m_events (st c) OR EPOLLET) c]\<rparr>"
  shows "updateChannel st c po = Inr (st', po') \<and> poller_ok st' po'"
proof -
  let ?fd = "m_fd (st c)" and ?k = "Ctl EPOLL_CTL_ADD (m_fd (st c)) (m_events (st c) OR EPOLLET) c"
  have disc: "m_channel_map po ?fd = Some c" if "m_state (st c) = DISCARD" using poller_ok_map [OF ok, of c] that by simp
  have other: "m_state (st d) = NEW" if "m_fd (st d) = ?fd" "d \<noteq> c" for d
    using st disc poller_ok_map [OF ok, of d] that by auto
  have ctl: "ctl_ok (interest (ctl_log po)) ?k"
    using interest_none [OF ok, of ?fd] st disc by (auto simp: ctl_ok_def)
  have upd: "updateChannel st c po = Inr (st', po')"
    using st disc by (auto simp: chan_defs Let_def st'_def po'_def fun_upd_idem)
  have map: "m_channel_map po' fd = Some d \<longleftrightarrow> m_fd (st' d) = fd \<and> m_state (st' d) \<noteq> NEW" for fd d
    using ok st disc other [of d] by (auto simp: poller_ok_def po'_def st'_def)
  have "(\<exists>ev. interest (ctl_log po') fd = Some (ev, d)) \<longleftrightarrow> m_channel_map po' fd = Some d \<and> m_state (st' d) = EXIST" for fd d
    using ok st disc ctl_step [OF ctl, of fd] other [of d] by (auto simp: poller_ok_def po'_def st'_def)
  with map upd ok ctl show ?thesis by (auto simp: poller_ok_def po'_def)
qed

lemma update_del:
  assumes ok: "poller_ok st po" and st: "m_state (st c) = EXIST" "m_events (st c) = 0"
  defines "st' \<equiv> st(c := (st c)\<lparr>m_state := DISCARD\<rparr>)"
    and "po' \<equiv> po\<lparr>ctl_log := ctl_log po @ [Ctl EPOLL_CTL_DEL (m_fd (st c)) EPOLLET c]\<rparr>"
  shows "updateChannel st c po = Inr (st', po') \<and> poller_ok st' po'"
proof -
  let ?fd = "m_fd (st c)" and ?k = "Ctl EPOLL_CTL_DEL (m_fd (st c)) EPOLLET c"
  have mp: "m_channel_map po ?fd = Some c" using poller_ok_map [OF ok, of c] st by simp
  have ctl: "ctl_ok (interest (ctl_log po)) ?k" using interest_none [OF ok, of ?fd] st mp by (auto simp: ctl_ok_def)
  have "(\<exists>ev. interest (ctl_log po') fd = Some (ev, d)) \<longleftrightarrow> m_channel_map po' fd = Some d \<and> m_state (st' d) = EXIST" for fd d
    using ok ctl_step [OF ctl, of fd] mp poller_ok_unique [OF ok, of c d] by (auto simp: poller_ok_def po'_def st'_def)
  moreover have "updateChannel st c po = Inr (st', po')"
    using st mp by (simp add: chan_defs Let_def st'_def po'_def)
  ultimately show ?thesis using ok ctl st by (auto simp: poller_ok_def po'_def st'_def)
qed

lemma update_mod:
  assumes ok: "poller_ok st po" and st: "m_state (st c) = EXIST" "m_events (st c) \<noteq> 0"
  defines "po' \<equiv> po\<lparr>ctl_log := ctl_log po @ [Ctl EPOLL_CTL_MOD (m_fd (st c)) (m_events (st c) OR EPOLLET) c]\<rparr>"
  shows "updateChannel st c po = Inr (st, po') \<and> poller_ok st po'"
proof -
  let ?fd = "m_fd (st c)" and ?k = "Ctl EPOLL_CTL_MOD (m_fd (st c)) (m_events (st c) OR EPOLLET) c"
  have mp: "m_channel_map po ?fd = Some c" using poller_ok_map [OF ok, of c] st by simp
  have ctl: "ctl_ok (interest (ctl_log po)) ?k" using interest_none [OF ok, of ?fd] st mp by (auto simp: ctl_ok_def)
  have "(\<exists>ev. interest (ctl_log po') fd = Some (ev, d)) \<longleftrightarrow> m_channel_map po' fd = Some d \<and> m_state (st d) = EXIST" for fd d
    using ok ctl_step [OF ctl, of fd] mp st poller_ok_unique [OF ok, of c d] by (auto simp: poller_ok_def po'_def)
  moreover have "updateChannel st c po = Inr (st, po')"
    using st mp by (simp add: chan_defs Let_def po'_def)
  ultimately show ?thesis using ok ctl by (auto simp: poller_ok_def po'_def)
qed

lemma remove_ok:
  assumes ok: "poller_ok st po" and st: "m_state (st c) \<noteq> NEW" "m_events (st c) = 0"
  defines "st' \<equiv> st(c := (st c)\<lparr>m_state := NEW\<rparr>)"
    and "po' \<equiv> po\<lparr>m_channel_map := (m_channel_map po)(m_fd (st c) := None),
        ctl_log := ctl_log po @ (if m_state (st c) = EXIST then [Ctl EPOLL_CTL_DEL (m_fd (st c)) EPOLLET c] else [])\<rparr>"
  shows "removeChannel st c po = Inr (st', po') \<and> poller_ok st' po'"
proof -
  let ?fd = "m_fd (st c)" and ?k = "Ctl EPOLL_CTL_DEL (m_fd (st c)) EPOLLET c"
  have mp: "m_channel_map po ?fd = Some c" using poller_ok_map [OF ok, of c] st by simp
  have ctl: "ctl_ok (interest (ctl_log po)) ?k" if "m_state (st c) = EXIST"
    using interest_none [OF ok, of ?fd] that mp by (auto simp: ctl_ok_def)
  have map: "m_channel_map po' fd = Some d \<longleftrightarrow> m_fd (st' d) = fd \<and> m_state (st' d) \<noteq> NEW" for fd d
    using ok mp poller_ok_unique [OF ok, of c d] by (auto simp: poller_ok_def po'_def st'_def)
  have "(\<exists>ev. interest (ctl_log po') fd = Some (ev, d)) \<longleftrightarrow> m_channel_map po' fd = Some d \<and> m_state (st' d) = EXIST" for fd d
  proof (cases "m_state (st c) = EXIST")
    case True
    then show ?thesis using ok ctl_step [OF ctl [OF True], of fd] mp poller_ok_unique [OF ok, of c d]
      by (auto simp: poller_ok_def po'_def st'_def)
  next
    case False
    have "(\<exists>ev. interest (ctl_log po) fd = Some (ev, d)) \<longleftrightarrow> m_channel_map po fd = Some d \<and> m_state (st d) = EXIST"
      using ok by (simp add: poller_ok_def)
    with False mp show ?thesis by (auto simp: po'_def st'_def)
  qed
  moreover have "removeChannel st c po = Inr (st', po')"
    using st mp IoChannelState_cases [of "m_state (st c)"] by (auto simp: chan_defs Let_def st'_def po'_def)
  ultimately show ?thesis using ok ctl map by (auto simp: poller_ok_def po'_def)
qed

subsection \<open>Who is woken\<close>

text \<open>A channel records one task: a second waiter on the same descriptor takes the place of the first.\<close>

lemma trigger_task: "trigger op ch = [] \<or> (\<exists>t. m_task ch = Some t \<and> trigger op ch = [t])"
proof (cases "m_task ch")
  case None then show ?thesis unfolding trigger_def Let_def by (simp only: option.case if_cancel simp_thms)
next
  case (Some t)
  have "(if b then [t] else []) = [] \<or> (\<exists>u. Some t = Some u \<and> (if b then [t] else []) = [u])" for b by simp
  with Some show ?thesis unfolding trigger_def Let_def by (simp only: option.case)
qed

lemma second_waiter_replaces:
  assumes "m_events ch = 0" and "t \<noteq> u"
    and "ch' = snd (addEvent (Some u) WRITE (snd (addEvent (Some t) READ ch)))"
  shows "t \<notin> set (trigger op ch')" and "m_events ch' = READ OR WRITE"
proof -
  have "snd (addEvent (Some t) READ ch) = ch\<lparr>m_task := Some t, m_events := READ\<rparr>"
    using assms(1) by (simp add: addEvent_def)
  then have ch': "ch' = ch\<lparr>m_task := Some u, m_events := READ OR WRITE\<rparr>"
    unfolding assms(3) by (simp add: addEvent_def)
  show "m_events ch' = READ OR WRITE" by (simp add: ch')
  show "t \<notin> set (trigger op ch')" using assms(2) trigger_task [of op ch'] by (auto simp: ch')
qed

text \<open>
  \<open>close\<close> in Hook.cpp clears the events of a channel before it closes it: then the error it triggers
  matches nothing, and the task that waits there is not woken.
\<close>

lemma close_cleared_silent: "close_channel (snd (clearEvent ch)) = []"
  by (auto simp: close_channel_def trigger_def clearEvent_def Let_def)

lemma close_pending_wakes:
  assumes "m_events ch AND (READ OR WRITE) \<noteq> 0" and "m_task ch = Some t"
  shows "close_channel ch = [t]"
proof -
  have "(8 OR (5 AND ev)) AND 8199 = ev AND 5" for ev :: u32
    by (simp add: bit.conj_disj_distrib2 and.assoc and.left_commute [of 5] and.commute)
  with assms show ?thesis by (simp add: close_channel_def trigger_def Let_def)
qed

text \<open>A channel that one event loop knows cannot be used on another one.\<close>

lemma second_loop_asserts:
  "m_state (st c) \<noteq> NEW \<Longrightarrow> m_channel_map po (m_fd (st c)) \<noteq> Some c \<Longrightarrow> updateChannel st c po = Inl AssertFailed"
  by (auto simp: chan_defs Let_def)

lemma poll_wakes:
  "t \<in> set (poll_events st w evs) \<longleftrightarrow> (\<exists>ev data. (ev, data) \<in> set evs \<and> (ucast data :: u32) \<noteq> w \<and> t \<in> set (trigger ev (st data)))"
  by (induction evs) (fastforce split: if_splits)+

subsection \<open>Properties\<close>

text \<open>
  C21: from any well-formed state \<open>updateChannel\<close> fails an assertion exactly when a new channel meets another one on
  its descriptor; otherwise it and \<open>removeChannel\<close> keep the map, the channel states and the kernel's interest list
  well-formed and in step: an update with events leaves the descriptor in the list with these events, one without
  takes a known descriptor out, and \<open>removeChannel\<close> of an idle known channel never asserts and forgets it.
\<close>

theorem poller_well_formed:
  assumes "poller_ok st po"
  shows "((\<exists>e. updateChannel st c po = Inl e) \<longleftrightarrow> m_state (st c) = NEW \<and> m_channel_map po (m_fd (st c)) \<noteq> None)
    \<and> (\<forall>st' po'. updateChannel st c po = Inr (st', po') \<longrightarrow> poller_ok st' po'
        \<and> interest (ctl_log po') (m_fd (st c)) =
            (if m_events (st c) = 0 \<and> m_state (st c) = EXIST then None else Some (m_events (st c) OR EPOLLET, c)))
    \<and> (hasChannel st c po \<and> isNoneEvent (st c) \<longleftrightarrow> (\<exists>r. removeChannel st c po = Inr r))
    \<and> (\<forall>st' po'. removeChannel st c po = Inr (st', po') \<longrightarrow> poller_ok st' po'
        \<and> \<not> hasChannel st' c po' \<and> interest (ctl_log po') (m_fd (st c)) = None)"
proof -
  let ?fd = "m_fd (st c)"
  note none = interest_none [OF assms, of ?fd]
  have U: "\<exists>st' po'. updateChannel st c po = Inr (st', po') \<and> poller_ok st' po'
      \<and> interest (ctl_log po') ?fd = (if m_events (st c) = 0 \<and> m_state (st c) = EXIST then None else Some (m_events (st c) OR EPOLLET, c))"
    if "\<not> (m_state (st c) = NEW \<and> m_channel_map po ?fd \<noteq> None)"
  proof (cases "m_state (st c) = EXIST")
    case True
    with update_del [OF assms, of c] update_mod [OF assms, of c] none poller_ok_map [OF assms, of c] show ?thesis
      by (cases "m_events (st c) = 0") (auto simp: ctl_effect_def ctl_ok_def)
  next
    case False
    with that update_add [OF assms, of c] none poller_ok_map [OF assms, of c] IoChannelState_cases [of "m_state (st c)"]
    show ?thesis by (auto simp: ctl_effect_def ctl_ok_def)
  qed
  have V: "updateChannel st c po = Inl AssertFailed" if "m_state (st c) = NEW" "m_channel_map po ?fd \<noteq> None"
    using that by (auto simp: chan_defs Let_def)
  have has: "hasChannel st c po \<longleftrightarrow> m_state (st c) \<noteq> NEW" using poller_ok_map [OF assms, of c] by (simp add: hasChannel_def)
  have R: "\<exists>st' po'. removeChannel st c po = Inr (st', po') \<and> poller_ok st' po' \<and> m_fd (st' c) = ?fd \<and> m_channel_map po' ?fd = None"
    if "m_state (st c) \<noteq> NEW" "m_events (st c) = 0" using remove_ok [OF assms that] by auto
  have W: "\<exists>e. removeChannel st c po = Inl e" if "\<not> (m_state (st c) \<noteq> NEW \<and> m_events (st c) = 0)"
    using that poller_ok_map [OF assms, of c] by (auto simp: chan_defs Let_def)
  have Z: "interest (ctl_log po') ?fd = None" if "poller_ok st' po'" "m_channel_map po' ?fd = None" for st' :: "chan \<Rightarrow> 'a IoChannel_scheme" and po'
    using interest_none [OF that(1), of ?fd] that(2) by simp
  show ?thesis
  proof (intro conjI)
    show "(\<exists>e. updateChannel st c po = Inl e) \<longleftrightarrow> m_state (st c) = NEW \<and> m_channel_map po ?fd \<noteq> None" using U V by fastforce
    show "\<forall>st' po'. updateChannel st c po = Inr (st', po') \<longrightarrow> poller_ok st' po'
        \<and> interest (ctl_log po') ?fd = (if m_events (st c) = 0 \<and> m_state (st c) = EXIST then None else Some (m_events (st c) OR EPOLLET, c))"
      using U V by fastforce
    show "hasChannel st c po \<and> isNoneEvent (st c) \<longleftrightarrow> (\<exists>r. removeChannel st c po = Inr r)"
      using R W has by (fastforce simp: isNoneEvent_def)
    show "\<forall>st' po'. removeChannel st c po = Inr (st', po') \<longrightarrow> poller_ok st' po' \<and> \<not> hasChannel st' c po' \<and> interest (ctl_log po') ?fd = None"
      using R W Z by (fastforce simp: hasChannel_def)
  qed
qed

definition demo_chan :: "chan \<Rightarrow> IoChannel" where
  "demo_chan = (\<lambda>c. \<lparr>m_fd = sint c, m_state = NEW, m_events = (if c = 5 then 1 else 0), m_task = None\<rparr>)"

lemma poller_ok_new: "(\<And>c. m_state (st c) = NEW) \<Longrightarrow> poller_ok st (new_poller w)"
  by (simp add: poller_ok_def new_poller_def interest_def)

theorem poller_well_formed_witness:
  "\<exists>st' po'. updateChannel demo_chan 5 (new_poller 3) = Inr (st', po') \<and> poller_ok st' po'
     \<and> interest (ctl_log po') (sint (5 :: chan)) = Some (0x80000001, 5)"
proof -
  have "poller_ok demo_chan (new_poller 3)" by (rule poller_ok_new) (simp add: demo_chan_def)
  note P = poller_well_formed [OF this, of 5]
  have "\<not> (\<exists>e. updateChannel demo_chan 5 (new_poller 3) = Inl e)" using P by (simp add: demo_chan_def new_poller_def)
  then obtain st' po' where u: "updateChannel demo_chan 5 (new_poller 3) = Inr (st', po')"
    by (cases "updateChannel demo_chan 5 (new_poller 3)") auto
  with P show ?thesis by (simp add: demo_chan_def)
qed

end
