(* ===== verification/Hook_Props.thy ===== *)
theory Hook_Props
  imports Hook IoChannel_Props
begin

section \<open>What the hooked calls guarantee, and what they lose\<close>

subsection \<open>The table of descriptors\<close>

text \<open>What the hooks rely on: a table from descriptors to objects, with the laws of a map.\<close>

locale fd_table =
  fixes get :: "int \<Rightarrow> 's \<Rightarrow> 'c option" and put :: "int \<Rightarrow> 'c \<Rightarrow> 's \<Rightarrow> 's" and del :: "int \<Rightarrow> 's \<Rightarrow> 's"
  assumes get_put: "get fd' (put fd c s) = (if fd' = fd then Some c else get fd' s)"
    and get_del: "get fd' (del fd s) = (if fd' = fd then None else get fd' s)"
begin

lemma get_puts: "get fd (fold (\<lambda>(fd, c). put fd c) kvs s) = (case map_of (rev kvs) fd of Some c \<Rightarrow> Some c | None \<Rightarrow> get fd s)"
proof (induction kvs arbitrary: s)
  case (Cons kv kvs)
  obtain fd' c where "kv = (fd', c)" by (cases kv)
  with Cons.IH [of "put fd' c s"] show ?case by (auto simp: get_put map_add_def split: option.splits)
qed simp

lemma del_put: "get fd (del fd (put fd c s)) = None" "fd' \<noteq> fd \<Longrightarrow> get fd' (del fd (put fd c s)) = get fd' s"
  by (simp_all add: get_put get_del)

end

lemma close_info_get [simp]: "fd_get fd (close_info i ho) = fd_get fd ho" "getSlot fd (close_info i ho) = getSlot fd ho"
  by (auto simp: fd_get_def getSlot_def close_info_def wake_all_def split: option.splits)

lemma set_slot_get [simp]: "getSlot fd' (set_slot fd info ho) = (if fd' = fd then Some info else getSlot fd' ho)"
  by (auto simp: getSlot_def set_slot_def)

lemma set_slot_chans [simp]: "h_chans (set_slot fd info ho) = h_chans ho"
  by (simp add: set_slot_def)

interpretation fdt: fd_table fd_get fd_insert fd_del
proof
  fix fd' fd :: int and c ho
  show "fd_get fd' (fd_insert fd c ho) = (if fd' = fd then Some c else fd_get fd' ho)"
    by (auto simp: fd_insert_def Let_def fd_get_def split: option.splits)
  show "fd_get fd' (fd_del fd ho) = (if fd' = fd then None else fd_get fd' ho)"
    by (auto simp: fd_del_def fd_get_def split: option.splits)
qed

lemma fd_get_create [simp]: "fd_get fd' (fd_create setfl c is_sock fd ho) = (if fd' = fd then Some c else fd_get fd' ho)"
  unfolding fd_create_def fdt.get_put by (simp add: fd_get_def getSlot_def set_chan_def)

subsection \<open>Closing\<close>

lemma hook_remove_simp:
  "hook_remove c ho = Inr ho' \<Longrightarrow> h_woken ho' = h_woken ho \<and> h_buckets ho' = h_buckets ho \<and> m_events (h_chans ho' c) = m_events (h_chans ho c)"
  by (auto simp: hook_remove_def bindE_eq_Inr removeChannel_def assert_that_def Let_def split: if_splits)

text \<open>Closing a descriptor leaves a task that waits on it asleep.\<close>

lemma hook_close_silent:
  assumes "hook_close on_loop fd ho = Inr ho'" shows "h_woken ho' = h_woken ho"
proof (cases "fd_get fd ho")
  case None with assms show ?thesis by (simp add: hook_close_def)
next
  case (Some c)
  let ?ho = "set_chan c (snd (clearEvent (h_chans ho c))) ho"
  from assms Some obtain ho1
    where 1: "(if hasChannel (h_chans ?ho) c (h_poller ?ho) then hook_remove c ?ho else Inr ?ho) = Inr ho1" "ho' = fd_del fd ho1"
    by (auto simp: hook_close_def Let_def bindE_eq_Inr split: if_splits)
  have "h_woken ho1 = h_woken ho \<and> h_buckets ho1 = h_buckets ho \<and> m_events (h_chans ho1 c) = 0"
    using 1(1) hook_remove_simp [of c ?ho ho1] by (auto simp: set_chan_def clearEvent_def split: if_splits)
  moreover from this Some have "getSlot fd ho1 = Some (Some c)"
    by (auto simp: fd_get_def getSlot_def split: option.splits)
  moreover have "close_channel ch = []" if "m_events ch = 0" for ch :: FdInfo
    using close_cleared_silent [of ch] that by (simp add: clearEvent_def)
  ultimately show ?thesis using 1(2) by (simp add: fd_del_def close_info_def wake_all_def set_slot_def)
qed

text \<open>Closing a registered descriptor on a thread that runs no processor is a null dereference.\<close>

lemma hook_close_off_loop: "fd_get fd ho = Some c \<Longrightarrow> hook_close False fd ho = Inl NullDeref"
  by (simp add: hook_close_def Let_def)

subsection \<open>Sleeping\<close>

lemma sleep_ms_wraps: "unat (sleep_ms s) = unat s * 1000 mod 2 ^ 32"
proof -
  have "unat (ucast (seconds :: u32) :: u64) = unat seconds" for seconds
    using unsigned_less [of seconds, where ?'a = nat] by (simp add: unsigned_ucast_eq take_bit_nat_eq_self)
  then show ?thesis by (simp add: sleep_ms_def unat_word_ariths)
qed

lemma sleep_ms_49_days: "sleep_ms 4294968 = 704"
  by (simp add: sleep_ms_def)

subsection \<open>Waiting\<close>

text \<open>What holds for a task \<open>t\<close> that is about to wait for \<open>event\<close> on the channel \<open>c\<close>.\<close>

definition may_wait :: "task \<Rightarrow> chan \<Rightarrow> u32 \<Rightarrow> hook \<Rightarrow> bool" where
  "may_wait t c event ho \<longleftrightarrow> poller_ok (h_chans ho) (h_poller ho)
     \<and> (m_state (h_chans ho c) = NEW \<longrightarrow> m_channel_map (h_poller ho) (m_fd (h_chans ho c)) = None)
     \<and> (ucast c :: u32) \<noteq> m_wakefd (h_poller ho)
     \<and> (m_events (h_chans ho c) AND event = 0 \<or> m_task (h_chans ho c) = Some t)
     \<and> (\<forall>k\<ge>h_nextTimer ho. h_timers ho k = None)"

text \<open>The channel after \<open>addEvent\<close>: the task is recorded and the event set.\<close>

lemma addEvent_recorded:
  assumes "m_events ch AND event = 0 \<or> m_task ch = Some t"
  shows "m_task (snd (addEvent (Some t) event ch)) = Some t"
    and "m_events (snd (addEvent (Some t) event ch)) = m_events ch OR (if m_events ch AND event = 0 then event else 0)"
  using assms by (auto simp: addEvent_def)

lemma update_events:
  assumes "poller_ok st po" and "m_state (st c) = NEW \<longrightarrow> m_channel_map po (m_fd (st c)) = None"
    and "m_events (st c) \<noteq> 0"
  shows "\<exists>po'. updateChannel st c po = Inr (st(c := (st c)\<lparr>m_state := EXIST\<rparr>), po')
    \<and> poller_ok (st(c := (st c)\<lparr>m_state := EXIST\<rparr>)) po' \<and> m_wakefd po' = m_wakefd po
    \<and> interest (ctl_log po') (m_fd (st c)) = Some (m_events (st c) OR EPOLLET, c)"
proof -
  note none = interest_none [OF assms(1), of "m_fd (st c)"]
  consider "m_state (st c) = NEW \<or> m_state (st c) = DISCARD" | "m_state (st c) = EXIST" using IoChannelState_cases by blast
  then show ?thesis
  proof cases
    case 1
    with assms(2) have "m_state (st c) = NEW \<and> m_channel_map po (m_fd (st c)) = None \<or> m_state (st c) = DISCARD" by blast
    with update_add [OF assms(1) this] none poller_ok_map [OF assms(1), of c] show ?thesis
      by (auto simp: ctl_effect_def ctl_ok_def)
  next
    case 2
    then have "st(c := (st c)\<lparr>m_state := EXIST\<rparr>) = st" by (simp add: fun_upd_idem)
    with update_mod [OF assms(1) 2 assms(3)] none poller_ok_map [OF assms(1), of c] 2 show ?thesis
      by (auto simp: ctl_effect_def ctl_ok_def)
  qed
qed

lemma io_hold_ok:
  assumes W: "may_wait t c event ho" and ev: "event \<noteq> 0"
  shows "\<exists>ho'. io_hold t c event to ho = Inr ho' \<and> may_wait t c event ho'
    \<and> m_task (h_chans ho' c) = Some t \<and> m_fd (h_chans ho' c) = m_fd (h_chans ho c)
    \<and> m_events (h_chans ho' c) = m_events (h_chans ho c) OR (if m_events (h_chans ho c) AND event = 0 then event else 0)
    \<and> m_state (h_chans ho' c) = EXIST
    \<and> interest (ctl_log (h_poller ho')) (m_fd (h_chans ho c)) = Some (m_events (h_chans ho' c) OR EPOLLET, c)
    \<and> h_frames ho' = (h_frames ho)(t \<mapsto> \<lparr>f_chan = c, f_event = event, f_to = to,
         f_timer = (if to = -1 then None else Some (h_nextTimer ho)), f_expired = False\<rparr>)
    \<and> h_woken ho' = h_woken ho \<and> h_due ho' = h_due ho
    \<and> h_timers ho' = (if to = -1 then h_timers ho else (h_timers ho)(h_nextTimer ho \<mapsto> (to, IoTimeout t c event)))
    \<and> h_nextTimer ho' = (if to = -1 then h_nextTimer ho else Suc (h_nextTimer ho))"
proof -
  let ?ch = "snd (addEvent (Some t) event (h_chans ho c))" and ?st = "(h_chans ho)(c := snd (addEvent (Some t) event (h_chans ho c)))"
  let ?n = "m_events (h_chans ho c) OR (if m_events (h_chans ho c) AND event = 0 then event else 0)"
  have rec: "m_task ?ch = Some t" "m_events ?ch = ?n" using W addEvent_recorded [of "h_chans ho c" event t] by (auto simp: may_wait_def)
  have ok: "poller_ok ?st (h_poller ho)"
    using W by (subst poller_ok_cong) (auto simp: may_wait_def)
  have ne: "?n \<noteq> 0"
  proof (cases "m_events (h_chans ho c) AND event = 0")
    case True
    have "?n AND event = event" using True by (simp add: bit.conj_disj_distrib2)
    with ev show ?thesis by auto
  qed auto
  have ev': "?n AND event \<noteq> 0"
    using ev by (cases "m_events (h_chans ho c) AND event = 0") (simp_all add: bit.conj_disj_distrib2)
  have "m_state (?st c) = NEW \<longrightarrow> m_channel_map (h_poller ho) (m_fd (?st c)) = None" using W by (simp add: may_wait_def)
  moreover have "m_events (?st c) \<noteq> 0" using rec(2) ne by simp
  ultimately obtain po' where
    u: "updateChannel ?st c (h_poller ho) = Inr (?st(c := (?st c)\<lparr>m_state := EXIST\<rparr>), po')"
      "poller_ok (?st(c := (?st c)\<lparr>m_state := EXIST\<rparr>)) po'" "m_wakefd po' = m_wakefd (h_poller ho)"
      "interest (ctl_log po') (m_fd (?st c)) = Some (m_events (?st c) OR EPOLLET, c)"
    using update_events [OF ok] by blast
  have i: "interest (ctl_log po') (m_fd (h_chans ho c)) = Some (?n OR EPOLLET, c)" using u(4) rec(2) by simp
  define st' where "st' = ?st(c := (?st c)\<lparr>m_state := EXIST\<rparr>)"
  have c': "st' c = ?ch\<lparr>m_state := EXIST\<rparr>" by (simp add: st'_def)
  have upd: "updateChannel ?st c (h_poller ho) = Inr (st', po')" "poller_ok st' po'" using u(1,2) by (simp_all only: st'_def)
  show ?thesis
    using upd u(3) i W rec ev' c' by (auto simp: io_hold_def Let_def add_timer_def set_chan_def hook_update_def may_wait_def)
qed

text \<open>An event on the channel wakes the task that is recorded there.\<close>

definition deliver :: "u32 \<Rightarrow> chan \<Rightarrow> hook \<Rightarrow> hook res" where
  "deliver e c ho = Inr (hook_poll [(e, c)] ho)"

lemma trigger_ready:
  assumes "e AND (EPOLLIN OR EPOLLOUT) \<noteq> 0" and "m_task ch = Some t" shows "trigger e ch = [t]"
proof -
  have "e AND 5 = (e AND 8199) AND 5" by (simp add: and.assoc)
  with assms(1) have e: "e AND 8199 \<noteq> 0" by auto
  have "(e OR x) AND 8199 \<noteq> 0" for x :: u32
    using e by (simp add: bit.conj_disj_distrib2 or_eq_0_iff)
  with e show ?thesis using assms(2) by (auto simp: trigger_def Let_def or.assoc)
qed

text \<open>
  A timeout that was taken out of the timer set before its operation returned, and runs after, writes
  through a dangling reference: \<open>timer->cancel()\<close> cannot stop it any more.
\<close>

lemma late_timeout_dangles: "h_frames ho t = None \<Longrightarrow> \<exists>f. run_closure (IoTimeout t c event) ho = Inl f"
proof -
  assume n: "h_frames ho t = None"
  let ?ho = "set_chan c (snd (cancelEvent event (h_chans ho c))) ho"
  have "h_frames ho' t = None" if "hook_update c ?ho = Inr ho'" for ho'
    using that n by (auto simp: hook_update_def bindE_eq_Inr set_chan_def)
  then show ?thesis by (cases "hook_update c ?ho") (auto simp: run_closure_def Let_def)
qed

subsection \<open>A blocking call, in rounds\<close>

definition interrupted :: "ioresult \<Rightarrow> bool" where
  "interrupted r \<longleftrightarrow> fst r = -1 \<and> snd r = EINTR"

lemma after_eintr_Cons: "after_eintr (r # rs) = (if interrupted r then after_eintr rs else Some (r, rs))"
  by (cases r) (simp add: interrupted_def)

lemma do_io_loop_skip: "interrupted r \<Longrightarrow> do_io_loop env t c event to (r # rs) ho = do_io_loop env t c event to rs ho"
  by (simp add: do_io_loop.simps [of env t c event to] after_eintr_Cons)

lemma do_io_loop_done:
  "\<not> interrupted r \<Longrightarrow> \<not> would_block r \<Longrightarrow> do_io_loop env t c event to (r # rs) ho = Inr (r, rs, ho)"
  by (simp add: do_io_loop.simps [of env t c event to "r # rs"] after_eintr_Cons)

lemma do_io_loop_wait:
  "\<not> interrupted r \<Longrightarrow> would_block r \<Longrightarrow> do_io_loop env t c event to (r # rs) ho =
     bindE (io_hold t c event to ho) (\<lambda>ho. bindE (env ho) (\<lambda>ho. bindE (io_resume t ho) (\<lambda>(out, ho). case out of
        Some e \<Rightarrow> Inr (e, rs, ho) | None \<Rightarrow> do_io_loop env t c event to rs ho)))"
  by (simp add: do_io_loop.simps [of env t c event to "r # rs"] after_eintr_Cons)

text \<open>One round: hold, the event, the wake-up. Nothing is left of the timer, and the task was woken once.\<close>

lemma io_round:
  assumes W: "may_wait t c event ho" and ev: "event \<noteq> 0" and e: "e AND (EPOLLIN OR EPOLLOUT) \<noteq> 0"
  shows "\<exists>ho1 ho2 ho3. io_hold t c event to ho = Inr ho1 \<and> deliver e c ho1 = Inr ho2 \<and> io_resume t ho2 = Inr (None, ho3)
    \<and> may_wait t c event ho3 \<and> h_woken ho3 = h_woken ho @ [t] \<and> h_timers ho3 = h_timers ho \<and> h_due ho3 = h_due ho"
proof -
  from io_hold_ok [OF W ev] obtain ho1 where h: "io_hold t c event to ho = Inr ho1" "may_wait t c event ho1"
    "m_task (h_chans ho1 c) = Some t" "m_state (h_chans ho1 c) = EXIST"
    "h_frames ho1 = (h_frames ho)(t \<mapsto> \<lparr>f_chan = c, f_event = event, f_to = to,
         f_timer = (if to = -1 then None else Some (h_nextTimer ho)), f_expired = False\<rparr>)"
    "h_woken ho1 = h_woken ho" "h_due ho1 = h_due ho"
    "h_timers ho1 = (if to = -1 then h_timers ho else (h_timers ho)(h_nextTimer ho \<mapsto> (to, IoTimeout t c event)))"
    "h_nextTimer ho1 = (if to = -1 then h_nextTimer ho else Suc (h_nextTimer ho))" by blast
  let ?ho2 = "hook_poll [(e, c)] ho1"
  have wake: "(ucast c :: u32) \<noteq> m_wakefd (h_poller ho1)" using h(2) by (simp add: may_wait_def)
  have k: "h_timers ho (h_nextTimer ho) = None" using W by (simp add: may_wait_def)
  obtain vec where 2: "?ho2 = ho1\<lparr>h_poller := (h_poller ho1)\<lparr>m_event_vec := vec\<rparr>, h_woken := h_woken ho @ [t]\<rparr>"
  proof
    show "?ho2 = ho1\<lparr>h_poller := (h_poller ho1)\<lparr>m_event_vec := (if Suc 0 = m_event_vec (h_poller ho1) then m_event_vec (h_poller ho1) * 2
        else m_event_vec (h_poller ho1))\<rparr>, h_woken := h_woken ho @ [t]\<rparr>"
      using wake trigger_ready [OF e h(3)] h(6) by (simp add: hook_poll_def poll_def wake_all_def)
  qed
  have ok: "poller_ok st (po\<lparr>m_event_vec := vec\<rparr>) = poller_ok st po" for st :: "chan \<Rightarrow> FdInfo" and po
    by (simp add: poller_ok_def)
  let ?ho3 = "?ho2\<lparr>h_timers := h_timers ho, h_frames := (h_frames ho1)(t := None)\<rparr>"
  have "io_resume t ?ho2 = Inr (None, ?ho3)"
    using h(5,8) k unfolding 2 by (auto simp: io_resume_def Let_def cancel_timer_def fun_upd_idem)
  moreover have "may_wait t c event ?ho3"
    using h(2,9) W unfolding 2 by (auto simp: may_wait_def ok)
  ultimately show ?thesis using h(1,7) 2 by (auto simp: deliver_def)
qed

lemma do_io_rounds:
  assumes ev: "event \<noteq> 0" and e: "e AND (EPOLLIN OR EPOLLOUT) \<noteq> 0"
    and r: "\<not> interrupted r" "\<not> would_block r"
  shows "may_wait t c event ho \<Longrightarrow> (\<And>p. p \<in> set pre \<Longrightarrow> interrupted p \<or> would_block p) \<Longrightarrow>
    \<exists>ho'. do_io_loop (deliver e c) t c event to (pre @ r # rest) ho = Inr (r, rest, ho') \<and> may_wait t c event ho'
      \<and> h_woken ho' = h_woken ho @ replicate (length (filter would_block pre)) t
      \<and> h_timers ho' = h_timers ho \<and> h_due ho' = h_due ho"
proof (induction pre arbitrary: ho)
  case Nil
  with do_io_loop_done [OF r] show ?case by simp
next
  case (Cons p pre)
  have pre: "\<And>p. p \<in> set pre \<Longrightarrow> interrupted p \<or> would_block p" using Cons.prems(2) by simp
  show ?case
  proof (cases "interrupted p")
    case True
    then have "\<not> would_block p" by (auto simp: interrupted_def would_block_def)
    with Cons.IH [OF Cons.prems(1) pre] do_io_loop_skip [OF True] show ?thesis by simp
  next
    case False
    then have b: "would_block p" using Cons.prems(2) [of p] by simp
    from io_round [OF Cons.prems(1) ev e] obtain ho1 ho2 ho3 where
      1: "io_hold t c event to ho = Inr ho1" "deliver e c ho1 = Inr ho2" "io_resume t ho2 = Inr (None, ho3)"
      and 3: "may_wait t c event ho3" "h_woken ho3 = h_woken ho @ [t]" "h_timers ho3 = h_timers ho" "h_due ho3 = h_due ho" by blast
    from Cons.IH [OF 3(1) pre] 1 3(2-4) b do_io_loop_wait [OF False b] show ?thesis by simp
  qed
qed

subsection \<open>Properties\<close>


definition demo_hook :: hook where
  "demo_hook = \<lparr>h_chans = (\<lambda>_. new_FdInfo 7 True), h_buckets = (\<lambda>_. [7 \<mapsto> Some 0x1000]), h_poller = new_poller 3,
     h_flags = (\<lambda>_. 0x802), h_timers = Map.empty, h_nextTimer = 0, h_due = [], h_frames = Map.empty, h_woken = []\<rparr>"

lemma demo_hook_waits: "fd_get 7 demo_hook = Some 0x1000" "m_isSocket (h_chans demo_hook 0x1000)"
  "\<not> m_userNonblock (h_chans demo_hook 0x1000)" "may_wait 1 0x1000 READ demo_hook"
proof -
  have "poller_ok (\<lambda>_. new_FdInfo 7 True) (new_poller 3)" by (rule poller_ok_new) (simp add: new_FdInfo_def)
  then show "fd_get 7 demo_hook = Some 0x1000" "m_isSocket (h_chans demo_hook 0x1000)"
    "\<not> m_userNonblock (h_chans demo_hook 0x1000)" "may_wait 1 0x1000 READ demo_hook"
    by (simp_all add: demo_hook_def may_wait_def new_FdInfo_def fd_get_def getSlot_def new_poller_def)
qed


text \<open>
  A timeout is never reported. When it expires, the callback takes the event back and the descriptor out of
  the interest list and notes the expiry, but it wakes nobody: the task is still held, no timer is left, no event
  the kernel reports can wake it any more, and only if it ran again would it return \<open>ETIMEDOUT\<close>.
\<close>

theorem do_io_timeout_hangs:
  assumes "may_wait t c event ho" and "event \<noteq> 0" and "m_events (h_chans ho c) = 0" and "to \<noteq> -1" and "h_due ho = []"
  shows "\<exists>ho1 ho2. io_hold t c event to ho = Inr ho1 \<and> run_due (expire_timer (h_nextTimer ho) ho1) = Inr ho2
    \<and> h_woken ho2 = h_woken ho \<and> h_timers ho2 = h_timers ho \<and> h_due ho2 = []
    \<and> (\<forall>fd ev. interest (ctl_log (h_poller ho2)) fd \<noteq> Some (ev, c))
    \<and> (\<exists>ho3. io_resume t ho2 = Inr (Some (-1, ETIMEDOUT), ho3))"
proof -
  from io_hold_ok [OF assms(1,2)] assms(3,4) obtain ho1 where
    h: "io_hold t c event to ho = Inr ho1" "may_wait t c event ho1"
      "m_events (h_chans ho1 c) = event" "m_state (h_chans ho1 c) = EXIST"
      "h_frames ho1 t = Some \<lparr>f_chan = c, f_event = event, f_to = to, f_timer = Some (h_nextTimer ho), f_expired = False\<rparr>"
      "h_woken ho1 = h_woken ho" "h_due ho1 = h_due ho"
      "h_timers ho1 = (h_timers ho)(h_nextTimer ho \<mapsto> (to, IoTimeout t c event))" by fastforce
  have k: "h_timers ho (h_nextTimer ho) = None" using assms(1) by (simp add: may_wait_def)
  let ?st = "(h_chans ho1)(c := (h_chans ho1 c)\<lparr>m_events := 0\<rparr>)"
  have ok: "poller_ok ?st (h_poller ho1)" using h(2) by (subst poller_ok_cong) (simp_all add: may_wait_def)
  from update_del [OF ok, of c] h(4) obtain st' po' where
    u: "updateChannel ?st c (h_poller ho1) = Inr (st', po')" "poller_ok st' po'" "m_state (st' c) = DISCARD" by auto
  have none: "interest (ctl_log po') fd \<noteq> Some (ev, c)" for fd ev
    using u(2,3) unfolding poller_ok_def by (metis IoChannelState.distinct(5))
  let ?fr = "\<lparr>f_chan = c, f_event = event, f_to = to, f_timer = Some (h_nextTimer ho), f_expired = True\<rparr>"
  let ?h3 = "ho1\<lparr>h_timers := h_timers ho, h_due := []\<rparr>"
  let ?ho2 = "?h3\<lparr>h_chans := st', h_poller := po', h_frames := (h_frames ho1)(t \<mapsto> ?fr)\<rparr>"
  have "expire_timer (h_nextTimer ho) ho1 = ho1\<lparr>h_timers := h_timers ho, h_due := [IoTimeout t c event]\<rparr>"
    using h(7,8) assms(5) k by (simp add: expire_timer_def fun_upd_idem)
  then have "run_due (expire_timer (h_nextTimer ho) ho1) = run_closure (IoTimeout t c event) ?h3" by (simp add: run_due_def)
  moreover have "set_chan c (snd (cancelEvent event (h_chans ?h3 c))) ?h3 = ?h3\<lparr>h_chans := ?st\<rparr>"
    using h(3) assms(2) by (simp add: set_chan_def cancelEvent_def)
  moreover have "hook_update c (?h3\<lparr>h_chans := ?st\<rparr>) = Inr (?h3\<lparr>h_chans := st', h_poller := po'\<rparr>)"
    using u(1) by (simp add: hook_update_def)
  ultimately have "run_due (expire_timer (h_nextTimer ho) ho1) = Inr ?ho2"
    using h(5) by (simp add: run_closure_def Let_def)
  moreover have "\<exists>ho3. io_resume t ?ho2 = Inr (Some (-1, ETIMEDOUT), ho3)" by (simp add: io_resume_def Let_def)
  ultimately show ?thesis using h(1,6) none by (intro exI [of _ ho1] exI [of _ ?ho2]) simp
qed

theorem do_io_timeout_hangs_witness:
  "\<exists>ho1 ho2. io_hold 1 0x1000 READ 50 demo_hook = Inr ho1 \<and> run_due (expire_timer 0 ho1) = Inr ho2 \<and> h_woken ho2 = []"
proof -
  have "m_events (h_chans demo_hook 0x1000) = 0" "h_due demo_hook = []" "h_nextTimer demo_hook = 0" "h_woken demo_hook = []"
    by (simp_all add: demo_hook_def new_FdInfo_def)
  with do_io_timeout_hangs [OF demo_hook_waits(4), of 50] show ?thesis by fastforce
qed

text \<open>
  C36: a socket stays non-blocking in the kernel while the program sees the mode it set: after \<open>F_SETFL\<close> with any
  argument, \<open>F_GETFL\<close> shows the program's own \<open>O_NONBLOCK\<close> and the descriptor still has it; \<open>ioctl(FIONBIO)\<close> breaks
  this: clearing the mode there makes the descriptor really blocking, while the hooks go on as if it were not.
\<close>

theorem nonblock_virtual:
  assumes "fd_get fd ho = Some c" and "m_isSocket (h_chans ho c)" and "m_sysNonblock (h_chans ho c)"
    and "\<And>old arg. setfl old arg AND O_NONBLOCK = arg AND O_NONBLOCK"
  shows "fcntl_getfl fd (fcntl_setfl setfl fd arg ho) AND O_NONBLOCK = arg AND O_NONBLOCK
    \<and> h_flags (fcntl_setfl setfl fd arg ho) fd AND O_NONBLOCK = O_NONBLOCK
    \<and> do_io_direct (Some t) fd (fcntl_setfl setfl fd arg ho) = (arg AND O_NONBLOCK \<noteq> 0)
    \<and> h_flags (ioctl_fionbio fd 0 ho) fd AND O_NONBLOCK = 0 \<and> \<not> do_io_direct (Some t) fd (ioctl_fionbio fd 0 ho)"
proof -
  have get: "fd_get fd' (h\<lparr>h_chans := x\<rparr>) = fd_get fd' h" for fd' h x by (simp add: fd_get_def getSlot_def)
  have get': "fd_get fd' (h\<lparr>h_flags := fl\<rparr>) = fd_get fd' h" for fd' h fl by (simp add: fd_get_def getSlot_def)
  have "x AND 2 ^ k = 0 \<or> x AND 2 ^ k = 2 ^ k" for x :: u32 and k
    by (cases "bit x k") (auto intro!: bit_word_eqI simp: bit_simps)
  from this [of _ 11] have nb: "x AND 0x800 = 0 \<or> x AND 0x800 = 0x800" for x :: u32 by simp
  have c: "(x AND NOT 0x800) AND 0x800 = 0" "(x OR 0x800) AND 0x800 = 0x800" for x :: u32
    by (simp_all add: and.assoc bit.conj_disj_distrib2)
  show ?thesis
    using assms nb [of arg] c
    by (auto simp: fcntl_getfl_def fcntl_setfl_def ioctl_fionbio_def Let_def get get' set_chan_def do_io_direct_def)
qed

theorem nonblock_virtual_witness:
  "fcntl_getfl 7 (fcntl_setfl (\<lambda>old arg. arg) 7 0 demo_hook) AND O_NONBLOCK = 0
    \<and> h_flags (fcntl_setfl (\<lambda>old arg. arg) 7 0 demo_hook) 7 AND O_NONBLOCK = O_NONBLOCK"
proof -
  have "m_sysNonblock (h_chans demo_hook 0x1000)" by (simp add: demo_hook_def new_FdInfo_def)
  from nonblock_virtual [OF demo_hook_waits(1,2) this, of "\<lambda>old arg. arg" 0] show ?thesis by simp
qed

end
