(* ===== verification/Configer.thy ===== *)
theory Configer
  imports Prelude "HOL-Library.AList"
begin

section \<open>Configuration variables (base/Configer)\<close>

text \<open>
  \<open>ConfigerVar\<close>, the registry of \<open>Configer\<close> and the reading of a YAML document. The variables live in a store;
  a type \<open>T\<close> is a tag, its values are of one type, and \<open>LexicalCast\<close> from and to strings is an argument, a failed
  cast is \<open>None\<close>. A callback is the label of a function: what it is called with is a list of events. The
  document is a node of yaml-cpp, of which the code uses the functions in \<open>yaml\<close>.
\<close>

subsection \<open>Variables\<close>

record ('t, 'v) ConfigerVar =
  cv_name :: string
  cv_description :: string
  cv_type :: 't
  m_val :: 'v
  m_callback_map :: "(nat \<times> nat) list"

record ('t, 'v) casts =
  from_string :: "'t \<Rightarrow> string \<Rightarrow> 'v option"
  to_string :: "'t \<Rightarrow> 'v \<Rightarrow> string option"

datatype 'v notified = Notified nat 'v 'v

definition new_ConfigerVar :: "'t \<Rightarrow> string \<Rightarrow> 'v \<Rightarrow> string \<Rightarrow> ('t, 'v) ConfigerVar" where
  "new_ConfigerVar t name default_val description =
     \<lparr>cv_name = name, cv_description = description, cv_type = t, m_val = default_val, m_callback_map = []\<rparr>"

text \<open>The read section of \<open>setValue\<close>: whether the value changes, and the calls.\<close>

definition set_notify :: "'v \<Rightarrow> ('t, 'v) ConfigerVar \<Rightarrow> (bool \<times> 'v notified list)" where
  "set_notify v var =
     (if v = m_val var then (False, []) else (True, map (\<lambda>(_, f). Notified f (m_val var) v) (m_callback_map var)))"

definition setValue :: "'v \<Rightarrow> ('t, 'v) ConfigerVar \<Rightarrow> ('t, 'v) ConfigerVar \<times> 'v notified list" where
  "setValue v var =
     (let (changed, calls) = set_notify v var
      in (if changed then var\<lparr>m_val := v\<rparr> else var, calls))"

definition fromString :: "('t, 'v) casts \<Rightarrow> string \<Rightarrow> ('t, 'v) ConfigerVar \<Rightarrow> bool \<times> ('t, 'v) ConfigerVar \<times> 'v notified list" where
  "fromString casts s var = (case from_string casts (cv_type var) s of
       Some v \<Rightarrow> (let (var, calls) = setValue v var in (True, var, calls))
     | None \<Rightarrow> (False, var, []))"

definition toString :: "('t, 'v) casts \<Rightarrow> ('t, 'v) ConfigerVar \<Rightarrow> string" where
  "toString casts var = (case to_string casts (cv_type var) (m_val var) of Some s \<Rightarrow> s | None \<Rightarrow> [])"

text \<open>\<open>s_func_id\<close> is one counter per type.\<close>

definition addListener :: "nat \<Rightarrow> nat \<Rightarrow> ('t, 'v) ConfigerVar \<Rightarrow> nat \<times> nat \<times> ('t, 'v) ConfigerVar" where
  "addListener s_func_id callback var =
     (let s_func_id = Suc s_func_id
      in (s_func_id, s_func_id, var\<lparr>m_callback_map := AList.update s_func_id callback (m_callback_map var)\<rparr>))"

definition delListener :: "nat \<Rightarrow> ('t, 'v) ConfigerVar \<Rightarrow> ('t, 'v) ConfigerVar" where
  "delListener key var = var\<lparr>m_callback_map := AList.delete key (m_callback_map var)\<rparr>"

definition clearListener :: "('t, 'v) ConfigerVar \<Rightarrow> ('t, 'v) ConfigerVar" where
  "clearListener var = var\<lparr>m_callback_map := []\<rparr>"

definition getListener :: "nat \<Rightarrow> ('t, 'v) ConfigerVar \<Rightarrow> nat option" where
  "getListener key var = map_of (m_callback_map var) key"

subsection \<open>The registry\<close>

record ('t, 'v) Configer =
  cf_var :: "nat \<Rightarrow> ('t, 'v) ConfigerVar"
  cf_next :: nat
  s_configs :: "(string \<times> nat) list"

text \<open>\<open>dynamic_pointer_cast\<close> gives null for another type.\<close>

definition Lookup_typed :: "'t \<Rightarrow> string \<Rightarrow> ('t, 'v) Configer \<Rightarrow> nat option" where
  "Lookup_typed t name cf = (case map_of (s_configs cf) name of
       None \<Rightarrow> None
     | Some p \<Rightarrow> if cv_type (cf_var cf p) = t then Some p else None)"

definition LookupBase :: "string \<Rightarrow> ('t, 'v) Configer \<Rightarrow> nat option" where
  "LookupBase name cf = map_of (s_configs cf) name"

text \<open>\<open>regex_match\<close> with the pattern \<open>^[\w.].*|\<close>: nothing, or a word character or a dot and no end of line behind it.\<close>

definition word_char :: "char \<Rightarrow> bool" where
  "word_char c \<longleftrightarrow> (let n = (of_char c :: nat) in 48 \<le> n \<and> n \<le> 57 \<or> 65 \<le> n \<and> n \<le> 90 \<or> 97 \<le> n \<and> n \<le> 122 \<or> n = 95)"

definition valid_name :: "string \<Rightarrow> bool" where
  "valid_name name = (case name of
       [] \<Rightarrow> True
     | c # cs \<Rightarrow> (word_char c \<or> c = CHR ''.'') \<and> CHR 0x0A \<notin> set cs \<and> CHR 0x0D \<notin> set cs)"

definition AddConfigerVar :: "string \<Rightarrow> ('t, 'v) ConfigerVar \<Rightarrow> ('t, 'v) Configer \<Rightarrow> nat \<times> ('t, 'v) Configer" where
  "AddConfigerVar name var cf =
     (let p = cf_next cf
      in (p, cf\<lparr>cf_var := (cf_var cf)(p := var), cf_next := Suc p, s_configs := AList.update name p (s_configs cf)\<rparr>))"

definition Configer_Lookup :: "'t \<Rightarrow> string \<Rightarrow> 'v \<Rightarrow> string \<Rightarrow> ('t, 'v) Configer \<Rightarrow> (nat \<times> ('t, 'v) Configer) res" where
  "Configer_Lookup t name default_value description cf = (case Lookup_typed t name cf of
       Some p \<Rightarrow> Inr (p, cf)
     | None \<Rightarrow>
         if valid_name name then Inr (AddConfigerVar name (new_ConfigerVar t name default_value description) cf)
         else Inl (LogicError ''invalid_argument''))"

definition Visit :: "('t, 'v) Configer \<Rightarrow> nat list" where
  "Visit cf = map snd (s_configs cf)"

subsection \<open>Reading a document\<close>

record 'n yaml =
  IsMap :: "'n \<Rightarrow> bool"
  entries :: "'n \<Rightarrow> (string \<times> 'n) list"
  IsScalar :: "'n \<Rightarrow> bool"
  Scalar :: "'n \<Rightarrow> string"
  emitted :: "'n \<Rightarrow> string"

text \<open>The recursion over the document; the fuel bounds its depth. The result is the list of the pairs of path and node.\<close>

definition join_path :: "string \<Rightarrow> string \<Rightarrow> string" where
  "join_path prefix key = (if prefix = [] then key else prefix @ ''.'' @ key)"

fun recursiveAnalysis :: "'n yaml \<Rightarrow> nat \<Rightarrow> string \<Rightarrow> 'n \<Rightarrow> (string \<times> 'n) list res"
  and analyse_entries :: "'n yaml \<Rightarrow> nat \<Rightarrow> string \<Rightarrow> (string \<times> 'n) list \<Rightarrow> (string \<times> 'n) list res" where
  "recursiveAnalysis y 0 prefix node = Inl Diverge"
| "recursiveAnalysis y (Suc depth) prefix node =
     (if \<not> valid_name prefix then Inl (LogicError ''invalid_argument'')
      else if IsMap y node then
        bindE (analyse_entries y depth prefix (entries y node)) (\<lambda>output. Inr ((prefix, node) # output))
      else Inr [(prefix, node)])"
| "analyse_entries y depth prefix [] = Inr []"
| "analyse_entries y depth prefix ((key, child) # rest) =
     bindE (recursiveAnalysis y depth (join_path prefix key) child) (\<lambda>out.
       bindE (analyse_entries y depth prefix rest) (\<lambda>out'. Inr (out @ out')))"

definition node_text :: "'n yaml \<Rightarrow> 'n \<Rightarrow> string" where
  "node_text y node = (if IsScalar y node then Scalar y node else emitted y node)"

fun load_nodes :: "('t, 'v) casts \<Rightarrow> 'n yaml \<Rightarrow> (string \<times> 'n) list \<Rightarrow> ('t, 'v) Configer \<Rightarrow> ('t, 'v) Configer \<times> 'v notified list" where
  "load_nodes casts y [] cf = (cf, [])"
| "load_nodes casts y ((key, node) # rest) cf =
     (if key = [] then load_nodes casts y rest cf
      else case LookupBase key cf of
          None \<Rightarrow> load_nodes casts y rest cf
        | Some p \<Rightarrow>
            let (_, var, calls) = fromString casts (node_text y node) (cf_var cf p);
                (cf, calls') = load_nodes casts y rest (cf\<lparr>cf_var := (cf_var cf)(p := var)\<rparr>)
            in (cf, calls @ calls'))"

definition LoadFromYaml :: "('t, 'v) casts \<Rightarrow> 'n yaml \<Rightarrow> nat \<Rightarrow> 'n \<Rightarrow> ('t, 'v) Configer \<Rightarrow> (('t, 'v) Configer \<times> 'v notified list) res" where
  "LoadFromYaml casts y depth root cf =
     bindE (recursiveAnalysis y depth [] root) (\<lambda>all_nodes. Inr (load_nodes casts y all_nodes cf))"

subsection \<open>Threads that set one variable\<close>

text \<open>
  \<open>setValue\<close> takes the lock twice: once to compare and to call, once to write. A thread is at \<open>SetStart v\<close>, between its two
  sections at \<open>SetWrite v\<close>, or done; \<open>calls\<close> is what the callbacks have been called with so far.
\<close>

datatype 'v set_at = SetStart 'v | SetWrite 'v | SetDone

inductive set_step :: "('t, 'v) ConfigerVar \<times> 'v set_at list \<times> 'v notified list \<Rightarrow> ('t, 'v) ConfigerVar \<times> 'v set_at list \<times> 'v notified list \<Rightarrow> bool" where
  set_read: "i < length ts \<Longrightarrow> ts ! i = SetStart v \<Longrightarrow> set_notify v var = (changed, new) \<Longrightarrow>
     set_step (var, ts, calls) (var, ts[i := if changed then SetWrite v else SetDone], calls @ new)"
| set_write: "i < length ts \<Longrightarrow> ts ! i = SetWrite v \<Longrightarrow> set_step (var, ts, calls) (var\<lparr>m_val := v\<rparr>, ts[i := SetDone], calls)"

end
