(* ===== verification/Configer_Props.thy ===== *)
theory Configer_Props
  imports Configer
begin

section \<open>What a configuration file sets\<close>

subsection \<open>The paths of a document\<close>

text \<open>A node and its path: the keys of the maps on the way to it, joined by dots.\<close>

inductive at_path :: "'n yaml \<Rightarrow> string \<Rightarrow> 'n \<Rightarrow> string \<Rightarrow> 'n \<Rightarrow> bool" for y :: "'n yaml" where
  here: "at_path y prefix node prefix node"
| below: "IsMap y node \<Longrightarrow> (key, child) \<in> set (entries y node) \<Longrightarrow> at_path y (join_path prefix key) child path n \<Longrightarrow>
    at_path y prefix node path n"

lemma analysis_paths:
  "recursiveAnalysis y depth prefix node = Inr out \<Longrightarrow> set out = {(path, n). at_path y prefix node path n}"
  "analyse_entries y depth prefix rest = Inr out \<Longrightarrow>
     set out = {(path, n). \<exists>(key, child) \<in> set rest. at_path y (join_path prefix key) child path n}"
proof (induction y depth prefix node and y depth prefix rest arbitrary: out and out
    rule: recursiveAnalysis_analyse_entries.induct)
  case (1 y prefix node)
  then show ?case by simp
next
  case (2 y depth prefix node)
  show ?case
  proof (cases "IsMap y node")
    case True
    with "2.prems" obtain o1 where o1: "analyse_entries y depth prefix (entries y node) = Inr o1" "out = (prefix, node) # o1"
      and v: "valid_name prefix" by (auto simp: bindE_eq_Inr split: if_splits)
    from "2.IH" [of o1] v True o1(1) have s: "set o1 = {(path, n). \<exists>(key, child) \<in> set (entries y node). at_path y (join_path prefix key) child path n}"
      by simp
    show ?thesis unfolding o1(2)
      using True by (auto simp: s intro: at_path.intros elim: at_path.cases)
  next
    case False
    with "2.prems" have "out = [(prefix, node)]" by (auto split: if_splits)
    with False show ?thesis by (auto intro: at_path.here elim: at_path.cases)
  qed
next
  case (3 y depth prefix)
  then show ?case by simp
next
  case (4 y depth prefix key child rest)
  then show ?case by (fastforce simp: bindE_eq_Inr)
qed

text \<open>A document of finite depth, with valid names only, is analysed when the fuel is more than its depth.\<close>

lemma analysis_total:
  assumes "\<And>n key child. IsMap y n \<Longrightarrow> (key, child) \<in> set (entries y n) \<Longrightarrow> height child < height n"
  shows "height node < depth \<Longrightarrow> (\<And>path n. at_path y prefix node path n \<Longrightarrow> valid_name path) \<Longrightarrow>
      \<exists>out. recursiveAnalysis y depth prefix node = Inr out"
    and "(\<forall>(key, child) \<in> set rest. height child < depth) \<Longrightarrow>
      (\<And>key child path n. (key, child) \<in> set rest \<Longrightarrow> at_path y (join_path prefix key) child path n \<Longrightarrow> valid_name path) \<Longrightarrow>
      \<exists>out. analyse_entries y depth prefix rest = Inr out"
  using assms
proof (induction y depth prefix node and y depth prefix rest rule: recursiveAnalysis_analyse_entries.induct)
  case (1 y prefix node)
  then show ?case by simp
next
  case (2 y depth prefix node)
  have v: "valid_name prefix" by (rule "2.prems"(2) [OF at_path.here])
  show ?case
  proof (cases "IsMap y node")
    case True
    have h: "\<forall>(key, child) \<in> set (entries y node). height child < depth" using "2.prems"(1,3) True by fastforce
    have p: "valid_name path" if "(key, child) \<in> set (entries y node)" "at_path y (join_path prefix key) child path n" for key child path n
      by (rule "2.prems"(2) [OF at_path.below [OF True that]])
    have "\<exists>out. analyse_entries y depth prefix (entries y node) = Inr out"
    proof (rule "2.IH")
      show "\<not> \<not> valid_name prefix" using v by simp
    qed (fact True h p "2.prems"(3))+
    then show ?thesis using v True by auto
  next
    case False
    with v show ?thesis by simp
  qed
next
  case (3 y depth prefix)
  then show ?case by simp
next
  case (4 y depth prefix key child rest)
  have c: "height child < depth" using "4.prems"(1) by simp
  have p: "valid_name path" if "at_path y (join_path prefix key) child path n" for path n
    using "4.prems"(2) that by (meson list.set_intros(1))
  have r: "\<forall>(key, child) \<in> set rest. height child < depth" using "4.prems"(1) by simp
  have q: "valid_name path" if "(key, child) \<in> set rest" "at_path y (join_path prefix key) child path n" for key child path n
    using "4.prems"(2) that by (meson list.set_intros(2))
  have "\<exists>out. recursiveAnalysis y depth (join_path prefix key) child = Inr out"
    by (rule "4.IH"(1)) (fact c p "4.prems"(3))+
  then obtain o1 where o1: "recursiveAnalysis y depth (join_path prefix key) child = Inr o1" ..
  have "\<exists>out. analyse_entries y depth prefix rest = Inr out"
    by (rule "4.IH"(2)) (fact o1 r q "4.prems"(3))+
  with o1 show ?case by auto
qed

subsection \<open>What is set\<close>

text \<open>The value of the variable \<open>name\<close> after the nodes: the last one with its path that can be cast.\<close>

definition cast_node :: "('t, 'v) casts \<Rightarrow> 'n yaml \<Rightarrow> 't \<Rightarrow> 'n \<Rightarrow> 'v \<Rightarrow> 'v" where
  "cast_node casts y t node v = (case from_string casts t (node_text y node) of Some v' \<Rightarrow> v' | None \<Rightarrow> v)"

definition final_value :: "('t, 'v) casts \<Rightarrow> 'n yaml \<Rightarrow> (string \<times> 'n) list \<Rightarrow> string \<Rightarrow> 't \<Rightarrow> 'v \<Rightarrow> 'v" where
  "final_value casts y nodes name t =
     fold (\<lambda>(key, node) v. if key = name then cast_node casts y t node v else v) nodes"

lemma final_value_Cons:
  "final_value casts y (kn # nodes) name t v
     = final_value casts y nodes name t (if fst kn = name then cast_node casts y t (snd kn) v else v)"
  by (simp add: final_value_def case_prod_beta)

lemma fromString_var:
  "fst (snd (fromString casts s var)) = var\<lparr>m_val := (case from_string casts (cv_type var) s of Some v \<Rightarrow> v | None \<Rightarrow> m_val var)\<rparr>"
  by (auto simp: fromString_def setValue_def set_notify_def split: option.splits)

definition load_one :: "('t, 'v) casts \<Rightarrow> 'n yaml \<Rightarrow> string \<times> 'n \<Rightarrow> ('t, 'v) Configer \<Rightarrow> ('t, 'v) Configer" where
  "load_one casts y kn cf = (if fst kn = [] then cf else case LookupBase (fst kn) cf of
       None \<Rightarrow> cf
     | Some p \<Rightarrow> cf\<lparr>cf_var := (cf_var cf)(p := fst (snd (fromString casts (node_text y (snd kn)) (cf_var cf p))))\<rparr>)"

lemma load_nodes_fold: "fst (load_nodes casts y nodes cf) = fold (load_one casts y) nodes cf"
proof (induction nodes arbitrary: cf)
  case (Cons kn nodes)
  then show ?case by (cases kn) (auto simp: load_one_def case_prod_beta Let_def split: option.split)
qed simp

lemma load_one_configs [simp]: "s_configs (load_one casts y kn cf) = s_configs cf"
  by (simp add: load_one_def split: option.split)

lemma load_one_value:
  assumes "distinct (map snd (s_configs cf))" and "map_of (s_configs cf) name = Some p" and "name \<noteq> []"
  shows "cf_var (load_one casts y kn cf) p = (if fst kn = name
     then (cf_var cf p)\<lparr>m_val := cast_node casts y (cv_type (cf_var cf p)) (snd kn) (m_val (cf_var cf p))\<rparr> else cf_var cf p)"
proof (cases "fst kn = name")
  case True
  with assms show ?thesis by (simp add: load_one_def LookupBase_def fromString_var cast_node_def)
next
  case False
  have "q \<noteq> p" if "map_of (s_configs cf) (fst kn) = Some q" for q
  proof
    assume "q = p"
    with that assms(2) have "(fst kn, p) \<in> set (s_configs cf)" "(name, p) \<in> set (s_configs cf)" by (auto dest: map_of_SomeD)
    with assms(1) False show False by (fastforce simp: distinct_map inj_on_def)
  qed
  with False show ?thesis by (auto simp: load_one_def LookupBase_def split: option.split)
qed

lemma load_nodes_value:
  assumes "distinct (map snd (s_configs cf))" and "map_of (s_configs cf) name = Some p" and "name \<noteq> []"
  shows "s_configs (fold (load_one casts y) nodes cf) = s_configs cf \<and> cf_var (fold (load_one casts y) nodes cf) p
    = (cf_var cf p)\<lparr>m_val := final_value casts y nodes name (cv_type (cf_var cf p)) (m_val (cf_var cf p))\<rparr>"
  using assms
proof (induction nodes arbitrary: cf)
  case Nil
  then show ?case by (simp add: final_value_def)
next
  case (Cons kn nodes)
  have "distinct (map snd (s_configs (load_one casts y kn cf)))" "map_of (s_configs (load_one casts y kn cf)) name = Some p"
    using Cons.prems by simp_all
  from Cons.IH [OF this Cons.prems(3)] show ?case
    by (cases "fst kn = name") (simp_all add: load_one_value [OF Cons.prems] final_value_Cons)
qed

subsection \<open>Callbacks\<close>

text \<open>
  A callback that stores the new value, as those for the buffer sizes of the HTTP parser do: \<open>copy\<close> maps its label to what it
  has stored. \<open>in_step\<close>: every such copy is the value of its variable, and no two variables share a callback.
\<close>

fun store_call :: "'v notified \<Rightarrow> (nat \<Rightarrow> 'v) \<Rightarrow> (nat \<Rightarrow> 'v)" where
  "store_call (Notified f old new) copy = copy(f := new)"

definition callbacks :: "('t, 'v) ConfigerVar \<Rightarrow> nat set" where
  "callbacks var = snd ` set (m_callback_map var)"

definition in_step :: "('t, 'v) Configer \<Rightarrow> (nat \<Rightarrow> 'v) \<Rightarrow> bool" where
  "in_step cf copy \<longleftrightarrow> (\<forall>p. \<forall>f \<in> callbacks (cf_var cf p). copy f = m_val (cf_var cf p))
     \<and> (\<forall>p q. p \<noteq> q \<longrightarrow> callbacks (cf_var cf p) \<inter> callbacks (cf_var cf q) = {})"

lemma store_calls:
  "fold store_call (map (\<lambda>(_, f). Notified f old v) cs) copy = (\<lambda>f. if f \<in> snd ` set cs then v else copy f)"
  by (induction cs arbitrary: copy) (auto simp: fun_eq_iff)

lemma fromString_in_step:
  assumes "in_step cf copy" and "fromString casts s (cf_var cf p) = (ok, var, calls)"
  shows "in_step (cf\<lparr>cf_var := (cf_var cf)(p := var)\<rparr>) (fold store_call calls copy)"
proof (cases "from_string casts (cv_type (cf_var cf p)) s")
  case None
  with assms(2) have "var = cf_var cf p" "calls = []" by (simp_all add: fromString_def)
  with assms(1) show ?thesis by simp
next
  case (Some v)
  show ?thesis
  proof (cases "v = m_val (cf_var cf p)")
    case True
    with assms(2) Some have "var = cf_var cf p" "calls = []" by (simp_all add: fromString_def setValue_def set_notify_def)
    with assms(1) show ?thesis by simp
  next
    case False
    have var: "var = (cf_var cf p)\<lparr>m_val := v\<rparr>"
      and calls: "calls = map (\<lambda>(_, f). Notified f (m_val (cf_var cf p)) v) (m_callback_map (cf_var cf p))"
      using assms(2) Some False by (auto simp: fromString_def setValue_def set_notify_def)
    have "callbacks ((cf_var cf p)\<lparr>m_val := v\<rparr>) = callbacks (cf_var cf p)" by (simp add: callbacks_def)
    with assms(1) show ?thesis unfolding var calls store_calls in_step_def
      by (auto simp: callbacks_def [of "cf_var cf p", symmetric] disjoint_iff)
  qed
qed

lemma load_nodes_in_step:
  "in_step cf copy \<Longrightarrow> load_nodes casts y nodes cf = (cf', calls) \<Longrightarrow> in_step cf' (fold store_call calls copy)"
proof (induction nodes arbitrary: cf copy cf' calls)
  case (Cons kn nodes)
  obtain key node where kn: "kn = (key, node)" by (cases kn)
  show ?case
  proof (cases "key = [] \<or> LookupBase key cf = None")
    case True
    with Cons kn show ?thesis by (auto split: option.splits)
  next
    case False
    then obtain p where p: "key \<noteq> []" "LookupBase key cf = Some p" by auto
    obtain ok var c1 where f: "fromString casts (node_text y node) (cf_var cf p) = (ok, var, c1)" by (metis prod_cases3)
    obtain cf2 c2 where l: "load_nodes casts y nodes (cf\<lparr>cf_var := (cf_var cf)(p := var)\<rparr>) = (cf2, c2)" by fastforce
    have "cf' = cf2" "calls = c1 @ c2" using Cons.prems(2) by (auto simp: kn p f l)
    then show ?thesis using Cons.IH [OF fromString_in_step [OF Cons.prems(1) f] l] by simp
  qed
qed simp

text \<open>
  A name that is registered for another type: \<open>Lookup\<close> does not return null, as its comment says, but puts a new
  variable in its place; whoever has the old one is no longer reached by a configuration file.
\<close>

lemma Lookup_replaces:
  assumes "map_of (s_configs cf) name = Some p" and "cv_type (cf_var cf p) \<noteq> t" and "p < cf_next cf" and "valid_name name"
  shows "\<exists>q cf'. Configer_Lookup t name v d cf = Inr (q, cf') \<and> q \<noteq> p \<and> LookupBase name cf' = Some q"
  using assms by (auto simp: Configer_Lookup_def Lookup_typed_def AddConfigerVar_def LookupBase_def update_conv' Let_def)

subsection \<open>Properties\<close>


text \<open>A document with one section: \<open>http: {size: 8192}\<close>, a node being its depth below the root.\<close>

definition demo_yaml :: "nat yaml" where
  "demo_yaml = \<lparr>IsMap = (\<lambda>n. n < 2), entries = (\<lambda>n. if n = 0 then [(''http'', 1)] else if n = 1 then [(''size'', 2)] else []),
     IsScalar = (\<lambda>n. n = 2), Scalar = (\<lambda>n. ''8192''), emitted = (\<lambda>n. [])\<rparr>"

definition demo_casts :: "(unit, nat) casts" where
  "demo_casts = \<lparr>from_string = (\<lambda>_ s. if list_all is_digit s then Some (read_nat s) else None), to_string = (\<lambda>_ n. Some (show_nat n))\<rparr>"

definition demo_cf :: "(unit, nat) Configer" where
  "demo_cf = \<lparr>cf_var = (\<lambda>p. \<lparr>cv_name = ''http.size'', cv_description = [], cv_type = (), m_val = 4096,
     m_callback_map = if p = 0 then [(1, 7)] else []\<rparr>), cf_next = 1, s_configs = [(''http.size'', 0)]\<rparr>"

lemma demo_level:
  "at_path demo_yaml prefix 2 path m \<Longrightarrow> path = prefix \<and> m = 2"
  "at_path demo_yaml prefix (Suc 0) path m \<Longrightarrow> path = prefix \<and> m = 1 \<or> at_path demo_yaml (join_path prefix ''size'') 2 path m"
  "at_path demo_yaml prefix 0 path m \<Longrightarrow> path = prefix \<and> m = 0 \<or> at_path demo_yaml (join_path prefix ''http'') (Suc 0) path m"
  by (erule at_path.cases; simp add: demo_yaml_def)+

lemma demo_paths: "at_path demo_yaml [] 0 path m \<Longrightarrow> path \<in> {[], ''http'', ''http.size''}"
  by (auto simp: join_path_def dest!: demo_level)


text \<open>
  Two threads that set one variable: both call the callbacks before either writes, and the value that is written last is
  not the one the callbacks were called with last; a copy that a callback keeps stays wrong.
\<close>

theorem setValue_race:
  "\<exists>var calls. set_step\<^sup>*\<^sup>* (cf_var demo_cf 0, [SetStart 1, SetStart 2], []) (var, [SetDone, SetDone], calls)
     \<and> m_val var = 1 \<and> fold store_call calls (\<lambda>_. 4096) 7 = 2"
proof -
  let ?v = "cf_var demo_cf 0"
  have s1: "set_step (?v, [SetStart 1, SetStart 2], []) (?v, [SetWrite 1, SetStart 2], [Notified 7 4096 1])"
    using set_step.set_read [of 0 "[SetStart 1, SetStart 2]" 1 ?v True "[Notified 7 4096 1]" "[]"] by (simp add: set_notify_def demo_cf_def)
  have s2: "set_step (?v, [SetWrite 1, SetStart 2], [Notified 7 4096 1]) (?v, [SetWrite 1, SetWrite 2], [Notified 7 4096 1, Notified 7 4096 2])"
    using set_step.set_read [of 1 "[SetWrite 1, SetStart 2]" 2 ?v True "[Notified 7 4096 2]" "[Notified 7 4096 1]"]
    by (simp add: set_notify_def demo_cf_def)
  have s3: "set_step (?v, [SetWrite 1, SetWrite 2], c) (?v\<lparr>m_val := 2\<rparr>, [SetWrite 1, SetDone], c)" for c
    using set_step.set_write [of 1 "[SetWrite 1, SetWrite 2]" 2 ?v c] by simp
  have s4: "set_step (?v\<lparr>m_val := 2\<rparr>, [SetWrite 1, SetDone], c) (?v\<lparr>m_val := 2, m_val := 1\<rparr>, [SetDone, SetDone], c)" for c
    using set_step.set_write [of 0 "[SetWrite 1, SetDone]" 1 "?v\<lparr>m_val := 2\<rparr>" c] by simp
  have "set_step\<^sup>*\<^sup>* (?v, [SetStart 1, SetStart 2], []) (?v\<lparr>m_val := 2, m_val := 1\<rparr>, [SetDone, SetDone], [Notified 7 4096 1, Notified 7 4096 2])"
    using s1 s2 s3 s4 by (meson converse_rtranclp_into_rtranclp rtranclp.rtrancl_refl)
  then show ?thesis by (intro exI conjI) (assumption | simp)+
qed

end
