(* ===== verification/Socket.thy ===== *)
theory Socket
  imports Hook Address ByteArray "HOL-Library.Signed_Division"
begin

section \<open>Sockets, streams and the TCP server\<close>

text \<open>
  \<open>Socket\<close> (src/spike/net/Socket.cpp) over the hooked system calls, \<open>SocketStream\<close> (src/spike/net/SocketStream.cpp), which
  moves the bytes of a \<open>ByteArray\<close> through a socket, and \<open>TcpServer\<close> (src/spike/net/Server.cpp).
  What the original system calls return during one operation is an argument of it, the record \<open>sys\<close>, each
  as a function of what the call is given. \<open>n_open\<close> is the set of the
  descriptors that the system has given to the program and not taken back.
\<close>

datatype request =
    Send "byte list" int
  | SendMsg "byte list" int
  | SendTo "byte list" int address
  | SendMsgTo "byte list" int address
  | Recv nat int
  | RecvMsg nat int
  | RecvFrom nat int address
  | RecvMsgFrom nat int address

text \<open>
  \<open>setfl\<close>, \<open>fstat_sock\<close>, \<open>alloc_info\<close> and \<open>accept_info\<close> belong to the creation of an \<open>FdInfo\<close>, \<open>on_loop\<close>, \<open>cur_task\<close> and \<open>others\<close>
  to the thread; the rest are the original calls. \<open>getsockopt_f\<close> gives the result and the value stored, or \<open>errno\<close>.
\<close>

record sys =
  setfl :: "u32 \<Rightarrow> u32 \<Rightarrow> u32"
  fstat_sock :: "int \<Rightarrow> bool"
  alloc_info :: chan
  accept_info :: chan
  on_loop :: bool
  cur_task :: "task option"
  others :: "hook \<Rightarrow> hook res"
  socket_f :: "int \<Rightarrow> int \<Rightarrow> int \<Rightarrow> int"
  accept_f :: "int \<Rightarrow> ioresult list"
  bind_f :: "int \<Rightarrow> address \<Rightarrow> int"
  listen_f :: "int \<Rightarrow> int \<Rightarrow> int"
  connect_f :: "int \<Rightarrow> address \<Rightarrow> ioresult"
  so_error :: "ioresult \<times> int"
  setsockopt_f :: "int \<Rightarrow> int \<Rightarrow> int \<Rightarrow> int"
  getsockopt_f :: "int \<Rightarrow> int \<Rightarrow> int \<Rightarrow> int \<times> int"
  getpeername_f :: "int \<Rightarrow> byte list option"
  getsockname_f :: "int \<Rightarrow> byte list option"
  transfer_f :: "int \<Rightarrow> request \<Rightarrow> ioresult list"
  data_in :: "byte list"
  from_in :: "byte list"

record net =
  n_hook :: hook
  n_open :: "int set"

record Socket =
  sk_fd :: int
  sk_family :: int
  sk_type :: int
  sk_protocol :: int
  m_isConnected :: bool
  m_localAddress :: "address option"
  m_peerAddress :: "address option"

abbreviation (input) TCP :: int where "TCP \<equiv> 1"
abbreviation (input) UDP :: int where "UDP \<equiv> 2"
abbreviation (input) SO_REUSEADDR :: int where "SO_REUSEADDR \<equiv> 2"
abbreviation (input) SO_ERROR :: int where "SO_ERROR \<equiv> 4"
abbreviation (input) IPPROTO_TCP :: int where "IPPROTO_TCP \<equiv> 6"
abbreviation (input) TCP_NODELAY :: int where "TCP_NODELAY \<equiv> 1"

subsection \<open>Options\<close>

text \<open>\<open>v\<close> is the time value of the two timeout options, which the hook looks at.\<close>

definition setOption :: "sys \<Rightarrow> int \<Rightarrow> int \<Rightarrow> int \<times> int \<Rightarrow> Socket \<Rightarrow> net \<Rightarrow> (bool \<times> net) res" where
  "setOption sys level option v sock net =
     bindE (hook_setsockopt (setsockopt_f sys (sk_fd sock) level option) (sk_fd sock) level option v (n_hook net)) (\<lambda>(res, ho).
       Inr (res = 0, net\<lparr>n_hook := ho\<rparr>))"

definition getOption :: "sys \<Rightarrow> int \<Rightarrow> int \<Rightarrow> Socket \<Rightarrow> int option" where
  "getOption sys level option sock =
     (let (rt, v) = getsockopt_f sys (sk_fd sock) level option in if rt \<noteq> 0 then None else Some v)"

definition initSock :: "sys \<Rightarrow> Socket \<Rightarrow> net \<Rightarrow> net res" where
  "initSock sys sock net =
     bindE (setOption sys SOL_SOCKET SO_REUSEADDR (1, 0) sock net) (\<lambda>(_, net).
       if sk_type sock = TCP
       then bindE (setOption sys IPPROTO_TCP TCP_NODELAY (1, 0) sock net) (\<lambda>(_, net). Inr net)
       else Inr net)"

definition setTimeout :: "int \<Rightarrow> sys \<Rightarrow> int \<Rightarrow> Socket \<Rightarrow> net \<Rightarrow> net res" where
  "setTimeout option sys v sock net =
     bindE (setOption sys SOL_SOCKET option (to_int (v sdiv 1000), to_int (v smod 1000 * 1000)) sock net) (\<lambda>(_, net). Inr net)"

definition setSendTimeout :: "sys \<Rightarrow> int \<Rightarrow> Socket \<Rightarrow> net \<Rightarrow> net res" where
  "setSendTimeout = setTimeout SO_SNDTIMEO"

definition setRecvTimeout :: "sys \<Rightarrow> int \<Rightarrow> Socket \<Rightarrow> net \<Rightarrow> net res" where
  "setRecvTimeout = setTimeout SO_RCVTIMEO"

definition getTimeout :: "int \<Rightarrow> Socket \<Rightarrow> net \<Rightarrow> int" where
  "getTimeout option sock net = (case fd_get (sk_fd sock) (n_hook net) of
       Some c \<Rightarrow> sint (getSocketTimeout option (h_chans (n_hook net) c))
     | None \<Rightarrow> -1)"

definition getSendTimeout :: "Socket \<Rightarrow> net \<Rightarrow> int" where
  "getSendTimeout = getTimeout SO_SNDTIMEO"

definition getRecvTimeout :: "Socket \<Rightarrow> net \<Rightarrow> int" where
  "getRecvTimeout = getTimeout SO_RCVTIMEO"

definition socket_error :: "sys \<Rightarrow> Socket \<Rightarrow> int" where
  "socket_error sys sock = snd (getsockopt_f sys (sk_fd sock) SOL_SOCKET SO_ERROR)"

subsection \<open>Creating and closing\<close>

definition opened :: "int \<Rightarrow> net \<Rightarrow> net" where
  "opened fd net = (if fd \<ge> 0 then net\<lparr>n_open := insert fd (n_open net)\<rparr> else net)"

definition new_Socket :: "sys \<Rightarrow> int \<Rightarrow> int \<Rightarrow> int \<Rightarrow> net \<Rightarrow> (Socket \<times> net) res" where
  "new_Socket sys family type protocol net =
     (let (fd, ho) = hook_socket (setfl sys) (fstat_sock sys) (alloc_info sys) (socket_f sys family type protocol) (n_hook net);
          net = opened fd (net\<lparr>n_hook := ho\<rparr>);
          sock = \<lparr>sk_fd = fd, sk_family = family, sk_type = type, sk_protocol = protocol, m_isConnected = False,
                  m_localAddress = None, m_peerAddress = None\<rparr>
      in bindE (initSock sys sock net) (\<lambda>net. Inr (sock, net)))"

definition connected_socket :: "(Socket \<times> net) res \<Rightarrow> (Socket \<times> net) res" where
  "connected_socket r = bindE r (\<lambda>(sock, net). Inr (sock\<lparr>m_isConnected := True\<rparr>, net))"

definition CreateTCP :: "sys \<Rightarrow> address \<Rightarrow> net \<Rightarrow> (Socket \<times> net) res" where
  "CreateTCP sys address net = new_Socket sys (getFamily address) TCP 0 net"

definition CreateUDP :: "sys \<Rightarrow> address \<Rightarrow> net \<Rightarrow> (Socket \<times> net) res" where
  "CreateUDP sys address net = connected_socket (new_Socket sys (getFamily address) UDP 0 net)"

definition CreateTCPSocket :: "sys \<Rightarrow> net \<Rightarrow> (Socket \<times> net) res" where
  "CreateTCPSocket sys net = new_Socket sys (uint AF_INET) TCP 0 net"

definition CreateUDPSocket :: "sys \<Rightarrow> net \<Rightarrow> (Socket \<times> net) res" where
  "CreateUDPSocket sys net = connected_socket (new_Socket sys (uint AF_INET) UDP 0 net)"

definition CreateTCPSocket6 :: "sys \<Rightarrow> net \<Rightarrow> (Socket \<times> net) res" where
  "CreateTCPSocket6 sys net = new_Socket sys (uint AF_INET6) TCP 0 net"

definition CreateUDPSocket6 :: "sys \<Rightarrow> net \<Rightarrow> (Socket \<times> net) res" where
  "CreateUDPSocket6 sys net = connected_socket (new_Socket sys (uint AF_INET6) UDP 0 net)"

definition CreateUnixTCPSocket :: "sys \<Rightarrow> net \<Rightarrow> (Socket \<times> net) res" where
  "CreateUnixTCPSocket sys net = new_Socket sys (uint AF_UNIX) TCP 0 net"

text \<open>This one does not set \<open>m_isConnected\<close>.\<close>

definition CreateUnixUDPSocket :: "sys \<Rightarrow> net \<Rightarrow> (Socket \<times> net) res" where
  "CreateUnixUDPSocket sys net = new_Socket sys (uint AF_UNIX) UDP 0 net"

text \<open>\<open>close\<close> and the destructor, which closes.\<close>

definition Socket_close :: "sys \<Rightarrow> Socket \<Rightarrow> net \<Rightarrow> (bool \<times> Socket \<times> net) res" where
  "Socket_close sys sock net =
     (if \<not> m_isConnected sock \<and> sk_fd sock = -1 then Inr (True, sock, net)
      else
        let sock = sock\<lparr>m_isConnected := False\<rparr>
        in if sk_fd sock \<noteq> -1
           then bindE (hook_close (on_loop sys) (sk_fd sock) (n_hook net)) (\<lambda>ho.
                  Inr (False, sock\<lparr>sk_fd := -1\<rparr>, net\<lparr>n_hook := ho, n_open := n_open net - {sk_fd sock}\<rparr>))
           else Inr (False, sock, net))"

definition destroy_Socket :: "sys \<Rightarrow> Socket \<Rightarrow> net \<Rightarrow> net res" where
  "destroy_Socket sys sock net = bindE (Socket_close sys sock net) (\<lambda>(_, _, net). Inr net)"

subsection \<open>Addresses\<close>

definition address_for :: "int \<Rightarrow> address" where
  "address_for family =
     (if family = uint AF_INET then IPv4Address (new_IPv4Address 0 0)
      else if family = uint AF_INET6 then IPv6Address new_IPv6Address0
      else if family = uint AF_UNIX then new_UnixAddress0
      else UnknownAddress (new_UnknownAddress family))"

text \<open>The system stores an address in the structure of \<open>a\<close>, at most as many bytes as its length.\<close>

definition stored :: "address \<Rightarrow> byte list \<Rightarrow> address res" where
  "stored a bytes =
     (let m = overwrite (addr_bytes a) 0 (take (getAddrLen a) bytes)
      in case a of
           IPv4Address _ \<Rightarrow> bindE (copy_in m) (\<lambda>s. Inr (IPv4Address s))
         | IPv6Address _ \<Rightarrow> bindE (copy_in6 m) (\<lambda>s. Inr (IPv6Address s))
         | UnixAddress _ len \<Rightarrow> Inr (UnixAddress \<lparr>sun_family = of_mem_bytes (take 2 m), sun_path = drop 2 m\<rparr> len)
         | UnknownAddress _ \<Rightarrow> bindE (copy_any m) (\<lambda>s. Inr (UnknownAddress s)))"

definition asked_address :: "byte list option \<Rightarrow> int \<Rightarrow> address option res" where
  "asked_address answer family = (case answer of
       None \<Rightarrow> Inr None
     | Some bytes \<Rightarrow> bindE (stored (address_for family) bytes) (\<lambda>result. Inr (Some (case result of
           UnixAddress s len \<Rightarrow> if family = uint AF_UNIX then setAddrLen s len (length bytes) else UnixAddress s len
         | a \<Rightarrow> a))))"

definition peerAddress :: "sys \<Rightarrow> Socket \<Rightarrow> (address \<times> Socket) res" where
  "peerAddress sys sock = (case m_peerAddress sock of
       Some a \<Rightarrow> Inr (a, sock)
     | None \<Rightarrow> bindE (asked_address (getpeername_f sys (sk_fd sock)) (sk_family sock)) (\<lambda>result. case result of
           None \<Rightarrow> Inr (UnknownAddress (new_UnknownAddress (sk_family sock)), sock)
         | Some a \<Rightarrow> Inr (a, sock\<lparr>m_peerAddress := Some a\<rparr>)))"

definition localAddress :: "sys \<Rightarrow> Socket \<Rightarrow> (address \<times> Socket) res" where
  "localAddress sys sock = (case m_localAddress sock of
       Some a \<Rightarrow> Inr (a, sock)
     | None \<Rightarrow> bindE (asked_address (getsockname_f sys (sk_fd sock)) (sk_family sock)) (\<lambda>result. case result of
           None \<Rightarrow> Inr (UnknownAddress (new_UnknownAddress (sk_family sock)), sock)
         | Some a \<Rightarrow> Inr (a, sock\<lparr>m_localAddress := Some a\<rparr>)))"

subsection \<open>Connections\<close>

definition Socket_bind :: "sys \<Rightarrow> address \<Rightarrow> Socket \<Rightarrow> (bool \<times> Socket) res" where
  "Socket_bind sys addr sock =
     (if getFamily addr \<noteq> sk_family sock then Inr (False, sock)
      else if bind_f sys (sk_fd sock) addr \<noteq> 0 then Inr (False, sock)
      else bindE (localAddress sys sock) (\<lambda>(_, sock). Inr (True, sock)))"

definition Socket_listen :: "sys \<Rightarrow> int \<Rightarrow> Socket \<Rightarrow> bool" where
  "Socket_listen sys backlog sock \<longleftrightarrow> listen_f sys (sk_fd sock) backlog = 0"

definition set_connect_timeout :: "u64 \<Rightarrow> Socket \<Rightarrow> net \<Rightarrow> net res" where
  "set_connect_timeout timeout_ms sock net =
     (if timeout_ms = -1 then Inr net
      else case fd_get (sk_fd sock) (n_hook net) of
          None \<Rightarrow> Inl NullDeref
        | Some c \<Rightarrow> Inr (net\<lparr>n_hook := set_chan c ((h_chans (n_hook net) c)\<lparr>m_tcpConnectTimeout := timeout_ms\<rparr>) (n_hook net)\<rparr>))"

definition after_connect :: "sys \<Rightarrow> int \<Rightarrow> Socket \<Rightarrow> net \<Rightarrow> (bool \<times> Socket \<times> net) res" where
  "after_connect sys res sock net =
     (if res \<noteq> 0 then bindE (Socket_close sys sock net) (\<lambda>(_, sock, net). Inr (False, sock, net))
      else bindE (peerAddress sys (sock\<lparr>m_isConnected := True\<rparr>)) (\<lambda>(_, sock).
           bindE (localAddress sys sock) (\<lambda>(_, sock). Inr (True, sock, net))))"

definition Socket_connect :: "sys \<Rightarrow> address \<Rightarrow> u64 \<Rightarrow> Socket \<Rightarrow> net \<Rightarrow> (bool \<times> Socket \<times> net) res" where
  "Socket_connect sys addr timeout_ms sock net =
     (if getFamily addr \<noteq> sk_family sock then Inr (False, sock, net)
      else
        bindE (set_connect_timeout timeout_ms sock net) (\<lambda>net.
        bindE (hook_connect (others sys) (cur_task sys) (sk_fd sock) (connect_f sys (sk_fd sock) addr) (so_error sys) (n_hook net))
          (\<lambda>(r, ho). after_connect sys (fst r) sock (net\<lparr>n_hook := ho\<rparr>))))"

definition Socket_init :: "sys \<Rightarrow> int \<Rightarrow> Socket \<Rightarrow> net \<Rightarrow> (bool \<times> Socket \<times> net) res" where
  "Socket_init sys fd sock net = (case fd_get fd (n_hook net) of
       None \<Rightarrow> Inr (False, sock, net)
     | Some c \<Rightarrow>
         if \<not> m_isSocket (h_chans (n_hook net) c) then Inr (False, sock, net)
         else
           let sock = sock\<lparr>sk_fd := fd, m_isConnected := True\<rparr>
           in bindE (initSock sys sock net) (\<lambda>net.
              bindE (localAddress sys sock) (\<lambda>(_, sock).
              bindE (peerAddress sys sock) (\<lambda>(_, sock). Inr (True, sock, net)))))"

definition Socket_accept :: "sys \<Rightarrow> Socket \<Rightarrow> net \<Rightarrow> (Socket option \<times> net) res" where
  "Socket_accept sys sock net =
     bindE (new_Socket sys (sk_family sock) (sk_type sock) (sk_protocol sock) net) (\<lambda>(sk, net).
     bindE (hook_accept (setfl sys) (accept_info sys) (others sys) (cur_task sys) (sk_fd sock) (accept_f sys (sk_fd sock)) (n_hook net))
       (\<lambda>(r, rest, ho).
          let newsock = fst r; net = opened newsock (net\<lparr>n_hook := ho\<rparr>)
          in if newsock = -1 then bindE (destroy_Socket sys sk net) (\<lambda>net. Inr (None, net))
             else bindE (Socket_init sys newsock sk net) (\<lambda>(ok, sk, net).
                  if ok then Inr (Some sk, net)
                  else bindE (destroy_Socket sys sk net) (\<lambda>net. Inr (None, net)))))"

subsection \<open>Transfers\<close>

definition send_request :: "sys \<Rightarrow> request \<Rightarrow> Socket \<Rightarrow> net \<Rightarrow> (int \<times> net) res" where
  "send_request sys rq sock net =
     (if m_isConnected sock
      then bindE (hook_write (others sys) (cur_task sys) (sk_fd sock) (transfer_f sys (sk_fd sock) rq) (n_hook net)) (\<lambda>(r, rest, ho).
             Inr (to_int (fst r), net\<lparr>n_hook := ho\<rparr>))
      else Inr (-1, net))"

definition recv_request :: "sys \<Rightarrow> request \<Rightarrow> Socket \<Rightarrow> net \<Rightarrow> (int \<times> byte list \<times> net) res" where
  "recv_request sys rq sock net =
     (if m_isConnected sock
      then bindE (hook_read (others sys) (cur_task sys) (sk_fd sock) (transfer_f sys (sk_fd sock) rq) (n_hook net)) (\<lambda>(r, rest, ho).
             Inr (to_int (fst r), take (nat (fst r)) (data_in sys), net\<lparr>n_hook := ho\<rparr>))
      else Inr (-1, [], net))"

definition Socket_send :: "sys \<Rightarrow> byte list \<Rightarrow> int \<Rightarrow> Socket \<Rightarrow> net \<Rightarrow> (int \<times> net) res" where
  "Socket_send sys buffer flags = send_request sys (Send buffer flags)"

definition Socket_send_iov :: "sys \<Rightarrow> byte list \<Rightarrow> int \<Rightarrow> Socket \<Rightarrow> net \<Rightarrow> (int \<times> net) res" where
  "Socket_send_iov sys gathered flags = send_request sys (SendMsg gathered flags)"

definition Socket_sendTo :: "sys \<Rightarrow> byte list \<Rightarrow> address \<Rightarrow> int \<Rightarrow> Socket \<Rightarrow> net \<Rightarrow> (int \<times> net) res" where
  "Socket_sendTo sys buffer to flags = send_request sys (SendTo buffer flags to)"

definition Socket_sendTo_iov :: "sys \<Rightarrow> byte list \<Rightarrow> address \<Rightarrow> int \<Rightarrow> Socket \<Rightarrow> net \<Rightarrow> (int \<times> net) res" where
  "Socket_sendTo_iov sys gathered to flags = send_request sys (SendMsgTo gathered flags to)"

definition Socket_recv :: "sys \<Rightarrow> nat \<Rightarrow> int \<Rightarrow> Socket \<Rightarrow> net \<Rightarrow> (int \<times> byte list \<times> net) res" where
  "Socket_recv sys len flags = recv_request sys (Recv len flags)"

definition Socket_recv_iov :: "sys \<Rightarrow> nat \<Rightarrow> int \<Rightarrow> Socket \<Rightarrow> net \<Rightarrow> (int \<times> byte list \<times> net) res" where
  "Socket_recv_iov sys len flags = recv_request sys (RecvMsg len flags)"

text \<open>The length that the system gives for the address of the sender stays in a local variable.\<close>

definition with_sender :: "sys \<Rightarrow> address \<Rightarrow> (int \<times> byte list \<times> net) res \<Rightarrow> (int \<times> byte list \<times> address \<times> net) res" where
  "with_sender sys from r = bindE r (\<lambda>(n, bs, net).
     if n < 0 then Inr (n, bs, from, net) else bindE (stored from (from_in sys)) (\<lambda>from. Inr (n, bs, from, net)))"

definition Socket_recvFrom :: "sys \<Rightarrow> nat \<Rightarrow> address \<Rightarrow> int \<Rightarrow> Socket \<Rightarrow> net \<Rightarrow> (int \<times> byte list \<times> address \<times> net) res" where
  "Socket_recvFrom sys len from flags sock net = with_sender sys from (recv_request sys (RecvFrom len flags from) sock net)"

definition Socket_recvFrom_iov :: "sys \<Rightarrow> nat \<Rightarrow> address \<Rightarrow> int \<Rightarrow> Socket \<Rightarrow> net \<Rightarrow> (int \<times> byte list \<times> address \<times> net) res" where
  "Socket_recvFrom_iov sys len from flags sock net = with_sender sys from (recv_request sys (RecvMsgFrom len flags from) sock net)"

subsection \<open>SocketStream\<close>

record SocketStream =
  m_socket :: "Socket option"
  m_owner :: bool

definition stream_connected :: "SocketStream \<Rightarrow> bool" where
  "stream_connected st = (case m_socket st of None \<Rightarrow> False | Some sock \<Rightarrow> m_isConnected sock)"

definition stream_resv :: "sys \<Rightarrow> nat \<Rightarrow> SocketStream \<Rightarrow> net \<Rightarrow> (int \<times> byte list \<times> net) res" where
  "stream_resv sys len st net =
     (if \<not> stream_connected st then Inr (-1, [], net) else Socket_recv sys len 0 (the (m_socket st)) net)"

definition iov_bytes :: "iovec list \<Rightarrow> nat" where
  "iov_bytes iovs = sum_list (map iov_len iovs)"

text \<open>\<open>resv\<close> and \<open>send\<close> of a \<open>ByteArray\<close>: the vectors of its blocks go to \<open>recvmsg\<close> and \<open>sendmsg\<close>.\<close>

definition stream_resv_ba :: "sys \<Rightarrow> byte_array \<Rightarrow> nat \<Rightarrow> SocketStream \<Rightarrow> net \<Rightarrow> (int \<times> byte_array \<times> net) res" where
  "stream_resv_ba sys ba len st net =
     (if stream_connected st
      then bindE (getWriteBuffers ba len) (\<lambda>(ba, _, iovs).
           bindE (Socket_recv_iov sys (iov_bytes iovs) 0 (the (m_socket st)) net) (\<lambda>(rt, bs, net).
           bindE (scatter (heap ba) iovs bs) (\<lambda>h.
             let ba = ba\<lparr>heap := h\<rparr>
             in if rt > 0 then bindE (addWritePosition ba rt) (\<lambda>ba. Inr (rt, ba, net)) else Inr (rt, ba, net))))
      else Inr (-1, ba, net))"

definition stream_send :: "sys \<Rightarrow> byte list \<Rightarrow> SocketStream \<Rightarrow> net \<Rightarrow> (int \<times> net) res" where
  "stream_send sys buffer st net =
     (if \<not> stream_connected st then Inr (-1, net) else Socket_send sys buffer 0 (the (m_socket st)) net)"

definition stream_send_ba :: "sys \<Rightarrow> byte_array \<Rightarrow> nat \<Rightarrow> SocketStream \<Rightarrow> net \<Rightarrow> (int \<times> byte_array \<times> net) res" where
  "stream_send_ba sys ba len st net =
     (if stream_connected st
      then bindE (getReadBuffers ba len) (\<lambda>(_, iovs).
           bindE (gather (heap ba) iovs) (\<lambda>bs.
           bindE (Socket_send_iov sys bs 0 (the (m_socket st)) net) (\<lambda>(rt, net).
             if rt > 0 then bindE (addReadPosition ba rt) (\<lambda>ba. Inr (rt, ba, net)) else Inr (rt, ba, net))))
      else Inr (-1, ba, net))"

definition stream_close :: "sys \<Rightarrow> SocketStream \<Rightarrow> net \<Rightarrow> (SocketStream \<times> net) res" where
  "stream_close sys st net = (case m_socket st of
       None \<Rightarrow> Inr (st, net)
     | Some sock \<Rightarrow> bindE (Socket_close sys sock net) (\<lambda>(_, sock, net). Inr (st\<lparr>m_socket := Some sock\<rparr>, net)))"

definition destroy_stream :: "sys \<Rightarrow> SocketStream \<Rightarrow> net \<Rightarrow> (SocketStream \<times> net) res" where
  "destroy_stream sys st net = (if m_owner st then stream_close sys st net else Inr (st, net))"

definition stream_address :: "(sys \<Rightarrow> Socket \<Rightarrow> (address \<times> Socket) res) \<Rightarrow> sys \<Rightarrow> SocketStream \<Rightarrow> (address option \<times> SocketStream) res" where
  "stream_address ask sys st = (case m_socket st of
       None \<Rightarrow> Inr (None, st)
     | Some sock \<Rightarrow> bindE (ask sys sock) (\<lambda>(a, sock). Inr (Some a, st\<lparr>m_socket := Some sock\<rparr>)))"

definition stream_address_string :: "(sys \<Rightarrow> Socket \<Rightarrow> (address \<times> Socket) res) \<Rightarrow> sys \<Rightarrow> SocketStream \<Rightarrow> (string \<times> SocketStream) res" where
  "stream_address_string ask sys st = bindE (stream_address ask sys st) (\<lambda>(addr, st). case addr of
       None \<Rightarrow> Inr ([], st)
     | Some a \<Rightarrow> bindE (addr_toString a) (\<lambda>s. Inr (s, st)))"

subsection \<open>TcpServer\<close>

text \<open>
  The sockets are shared objects: a store maps their number to them, \<open>m_socket_vec\<close> and the tasks refer to them. An object that
  neither refers to any more is destroyed. \<open>m_accepter\<close> and \<open>m_worker\<close> are the tasks given to the two schedulers.
\<close>

record server =
  m_started :: bool
  m_socket_vec :: "nat list"
  m_recvTimeout_ms :: u64
  m_ssl :: bool
  m_accepter :: "nat list"
  m_worker :: "nat list"
  sv_objects :: "nat \<Rightarrow> Socket"
  sv_next :: nat

definition new_TcpServer :: "u64 \<Rightarrow> server" where
  "new_TcpServer timeout = \<lparr>m_started = False, m_socket_vec = [], m_recvTimeout_ms = timeout, m_ssl = False, m_accepter = [], m_worker = [],
     sv_objects = (\<lambda>_. undefined), sv_next = 0\<rparr>"

definition add_object :: "Socket \<Rightarrow> server \<Rightarrow> nat \<times> server" where
  "add_object sock sv = (sv_next sv, sv\<lparr>sv_objects := (sv_objects sv)(sv_next sv := sock), sv_next := Suc (sv_next sv)\<rparr>)"

fun close_all :: "sys \<Rightarrow> nat list \<Rightarrow> net \<Rightarrow> server \<Rightarrow> (net \<times> server) res" where
  "close_all sys [] net sv = Inr (net, sv)"
| "close_all sys (i # ids) net sv =
     bindE (Socket_close sys (sv_objects sv i) net) (\<lambda>(_, sock, net).
       close_all sys ids net (sv\<lparr>sv_objects := (sv_objects sv)(i := sock)\<rparr>))"

text \<open>\<open>m_socket_vec.clear()\<close>\<close>

definition clear_sockets :: "sys \<Rightarrow> net \<Rightarrow> server \<Rightarrow> (net \<times> server) res" where
  "clear_sockets sys net sv =
     close_all sys (filter (\<lambda>i. i \<notin> set (m_accepter sv) \<union> set (m_worker sv)) (m_socket_vec sv)) net (sv\<lparr>m_socket_vec := []\<rparr>)"

fun ask_all :: "sys \<Rightarrow> nat list \<Rightarrow> server \<Rightarrow> server res" where
  "ask_all sys [] sv = Inr sv"
| "ask_all sys (i # ids) sv =
     bindE (localAddress sys (sv_objects sv i)) (\<lambda>(_, sock). ask_all sys ids (sv\<lparr>sv_objects := (sv_objects sv)(i := sock)\<rparr>))"

definition SOMAXCONN :: int where "SOMAXCONN = 4096"

definition TcpServer_bind :: "sys \<Rightarrow> address \<Rightarrow> bool \<Rightarrow> net \<Rightarrow> server \<Rightarrow> (bool \<times> net \<times> server) res" where
  "TcpServer_bind sys addr ssl net sv =
     (let sv = sv\<lparr>m_ssl := ssl\<rparr>;
          fail = (\<lambda>sock net. bindE (destroy_Socket sys sock net) (\<lambda>net. bindE (clear_sockets sys net sv) (\<lambda>(net, sv). Inr (False, net, sv))))
      in bindE (CreateTCP sys addr net) (\<lambda>(sock, net).
         bindE (Socket_bind sys addr sock) (\<lambda>(ok, sock).
           if \<not> ok then fail sock net
           else if \<not> Socket_listen sys SOMAXCONN sock then fail sock net
           else
             let (i, sv) = add_object sock sv; sv = sv\<lparr>m_socket_vec := m_socket_vec sv @ [i]\<rparr>
             in bindE (ask_all sys (m_socket_vec sv) sv) (\<lambda>sv. Inr (True, net, sv)))))"

definition TcpServer_start :: "server \<Rightarrow> server" where
  "TcpServer_start sv = sv\<lparr>m_started := True, m_accepter := m_accepter sv @ m_socket_vec sv\<rparr>"

definition TcpServer_stop :: "sys \<Rightarrow> net \<Rightarrow> server \<Rightarrow> (net \<times> server) res" where
  "TcpServer_stop sys net sv =
     (if \<not> m_started sv then Inr (net, sv)
      else bindE (close_all sys (m_socket_vec sv) net (sv\<lparr>m_started := False\<rparr>)) (\<lambda>(net, sv). clear_sockets sys net sv))"

text \<open>
  One turn of the loop of \<open>accept\<close>: the trace message calls \<open>client->peerAddress()\<close> before the test of \<open>client\<close>.
\<close>

definition accept_turn :: "sys \<Rightarrow> nat \<Rightarrow> net \<Rightarrow> server \<Rightarrow> (net \<times> server) res" where
  "accept_turn sys i net sv =
     bindE (Socket_accept sys (sv_objects sv i) net) (\<lambda>(client, net). case client of
         None \<Rightarrow> Inl NullDeref
       | Some sock \<Rightarrow>
           bindE (peerAddress sys sock) (\<lambda>(_, sock).
           bindE (setRecvTimeout sys (sint (m_recvTimeout_ms sv)) sock net) (\<lambda>net.
             let (k, sv) = add_object sock sv
             in Inr (net, sv\<lparr>m_worker := m_worker sv @ [k]\<rparr>))))"

text \<open>
  The loop, on the answers of the system in its turns; when they are used up the task is held in the next
  \<open>accept\<close>. A loop that ends drops its reference to the socket.
\<close>

fun accept_loop :: "sys list \<Rightarrow> nat \<Rightarrow> net \<Rightarrow> server \<Rightarrow> (net \<times> server) res" where
  "accept_loop syss i net sv =
     (if \<not> m_started sv then Inr (net, sv\<lparr>m_accepter := remove1 i (m_accepter sv)\<rparr>)
      else case syss of
          [] \<Rightarrow> Inr (net, sv)
        | sys # rest \<Rightarrow> bindE (accept_turn sys i net sv) (\<lambda>(net, sv). accept_loop rest i net sv))"

declare accept_loop.simps [simp del]

end
