(* ===== verification/Socket_Props.thy ===== *)
theory Socket_Props
  imports Socket Hook_Props ByteArray_Props
begin

section \<open>What sockets hold, move and leave behind\<close>

subsection \<open>A call that succeeds at once\<close>

lemma do_io_now [simp]: "0 \<le> fst r \<Longrightarrow> do_io env cur fd ev to (r # rest) ho = Inr (r, rest, ho)"
  by (cases r) (auto simp: do_io_def do_io_loop.simps would_block_def Let_def)

subsection \<open>Addresses never fail\<close>

lemma stored_ok: "addr_ok a \<Longrightarrow> length (addr_bytes a) = n \<Longrightarrow> getAddrLen a \<le> n \<Longrightarrow> (case a of IPv6Address _ \<Rightarrow> 28 | _ \<Rightarrow> 16) \<le> n \<Longrightarrow>
    \<exists>a'. stored a bytes = Inr a'"
  by (cases a) (simp_all add: stored_def Let_def copy_in_def copy_in6_def copy_any_def)

lemma stored_address_for: "\<exists>a. stored (address_for family) bytes = Inr a"
proof -
  have big: "\<not> sun_path_size < 14" by (simp add: sun_path_size_def)
  have "\<exists>a. stored new_UnixAddress0 bytes = Inr a"
    using big by (intro stored_ok [OF _ refl]) (simp_all add: new_UnixAddress0_def addr_ok_def addr_bytes_def getAddrLen_def sun_path_offset_def)
  moreover have "\<exists>a. stored (IPv4Address (new_IPv4Address 0 0)) bytes = Inr a" "\<exists>a. stored (IPv6Address new_IPv6Address0) bytes = Inr a"
    "\<exists>a. stored (UnknownAddress (new_UnknownAddress family)) bytes = Inr a"
    by (rule stored_ok [OF _ refl]; simp add: addr_ok_def addr_bytes_def getAddrLen_def new_IPv4Address_def new_IPv6Address0_def new_UnknownAddress_def)+
  ultimately show ?thesis by (simp add: address_for_def)
qed

lemma asked_address_ok: "\<exists>r. asked_address answer family = Inr r"
proof (cases answer)
  case (Some bytes)
  obtain a where "stored (address_for family) bytes = Inr a" using stored_address_for by blast
  with Some show ?thesis by (simp add: asked_address_def)
qed (simp add: asked_address_def)

lemma peerAddress_ok: "\<exists>a p. peerAddress sys sock = Inr (a, sock\<lparr>m_peerAddress := p\<rparr>)"
proof (cases "m_peerAddress sock")
  case None
  obtain r where "asked_address (getpeername_f sys (sk_fd sock)) (sk_family sock) = Inr r" using asked_address_ok by blast
  with None show ?thesis by (cases r) (auto simp: peerAddress_def intro: exI [of _ None])
next
  case (Some a)
  then have "peerAddress sys sock = Inr (a, sock\<lparr>m_peerAddress := Some a\<rparr>)" by (simp add: peerAddress_def)
  then show ?thesis by blast
qed

lemma localAddress_ok: "\<exists>a p. localAddress sys sock = Inr (a, sock\<lparr>m_localAddress := p\<rparr>)"
proof (cases "m_localAddress sock")
  case None
  obtain r where "asked_address (getsockname_f sys (sk_fd sock)) (sk_family sock) = Inr r" using asked_address_ok by blast
  with None show ?thesis by (cases r) (auto simp: localAddress_def intro: exI [of _ None])
next
  case (Some a)
  then have "localAddress sys sock = Inr (a, sock\<lparr>m_localAddress := Some a\<rparr>)" by (simp add: localAddress_def)
  then show ?thesis by blast
qed

subsection \<open>Descriptors\<close>

lemma setOption_open: "setOption sys level option v sock net = Inr (b, net') \<Longrightarrow> n_open net' = n_open net"
  by (auto simp: setOption_def bindE_eq_Inr)

lemma initSock_open: "initSock sys sock net = Inr net' \<Longrightarrow> n_open net' = n_open net"
  by (auto simp: initSock_def bindE_eq_Inr dest!: setOption_open split: if_splits)

lemma setTimeout_open: "setTimeout option sys v sock net = Inr net' \<Longrightarrow> n_open net' = n_open net"
  by (auto simp: setTimeout_def bindE_eq_Inr dest!: setOption_open)

lemma transfer_open:
  "send_request sys rq sock net = Inr (n, net') \<Longrightarrow> n_open net' = n_open net"
  "recv_request sys rq sock net = Inr (n, bs, net') \<Longrightarrow> n_open net' = n_open net"
  by (auto simp: send_request_def recv_request_def bindE_eq_Inr split: if_splits)

lemma new_Socket_open:
  assumes "new_Socket sys family type protocol net = Inr (sock, net')"
  shows "sk_fd sock = socket_f sys family type protocol
    \<and> n_open net' = (if sk_fd sock \<ge> 0 then insert (sk_fd sock) (n_open net) else n_open net)"
proof -
  from assms obtain ho where "sk_fd sock = socket_f sys family type protocol"
    "initSock sys sock (opened (sk_fd sock) (net\<lparr>n_hook := ho\<rparr>)) = Inr net'"
    by (auto simp: new_Socket_def Let_def bindE_eq_Inr hook_socket_def)
  then show ?thesis using initSock_open by (auto simp: opened_def)
qed

lemma Socket_close_open:
  "Socket_close sys sock net = Inr (b, sock', net') \<Longrightarrow> -1 \<notin> n_open net \<Longrightarrow> sk_fd sock' = -1 \<and> n_open net' = n_open net - {sk_fd sock}"
  by (auto simp: Socket_close_def Let_def bindE_eq_Inr split: if_splits)

lemma destroy_Socket_open: "destroy_Socket sys sock net = Inr net' \<Longrightarrow> -1 \<notin> n_open net \<Longrightarrow> n_open net' = n_open net - {sk_fd sock}"
  by (auto simp: destroy_Socket_def bindE_eq_Inr dest!: Socket_close_open)

lemma Socket_bind_fd: "Socket_bind sys addr sock = Inr (b, sock') \<Longrightarrow> sk_fd sock' = sk_fd sock"
  using localAddress_ok [of sys sock] by (auto simp: Socket_bind_def bindE_eq_Inr split: if_splits)

lemma after_connect_open:
  assumes "after_connect sys res sock net = Inr (b, sock', net')" and "-1 \<notin> n_open net"
  shows "sk_fd sock' = sk_fd sock \<and> n_open net' = n_open net \<or> sk_fd sock' = -1 \<and> n_open net' = n_open net - {sk_fd sock}"
proof (cases "res = 0")
  case True
  obtain a p where p: "peerAddress sys (sock\<lparr>m_isConnected := True\<rparr>) = Inr (a, sock\<lparr>m_isConnected := True, m_peerAddress := p\<rparr>)"
    using peerAddress_ok [of sys "sock\<lparr>m_isConnected := True\<rparr>"] by auto
  obtain a' q where "localAddress sys (sock\<lparr>m_isConnected := True, m_peerAddress := p\<rparr>) = Inr (a', sock\<lparr>m_isConnected := True, m_peerAddress := p, m_localAddress := q\<rparr>)"
    using localAddress_ok [of sys "sock\<lparr>m_isConnected := True, m_peerAddress := p\<rparr>"] by auto
  with assms(1) True p show ?thesis by (auto simp: after_connect_def)
next
  case False
  with assms show ?thesis by (auto simp: after_connect_def bindE_eq_Inr dest!: Socket_close_open)
qed

lemma Socket_connect_open:
  assumes "Socket_connect sys addr timeout_ms sock net = Inr (b, sock', net')" and "-1 \<notin> n_open net"
  shows "sk_fd sock' = sk_fd sock \<and> n_open net' = n_open net \<or> sk_fd sock' = -1 \<and> n_open net' = n_open net - {sk_fd sock}"
proof (cases "getFamily addr = sk_family sock")
  case False
  with assms(1) show ?thesis by (simp add: Socket_connect_def)
next
  case True
  with assms(1) obtain net1 r ho where 1: "set_connect_timeout timeout_ms sock net = Inr net1"
    and 2: "after_connect sys r sock (net1\<lparr>n_hook := ho\<rparr>) = Inr (b, sock', net')"
    by (auto simp: Socket_connect_def bindE_eq_Inr)
  have "n_open net1 = n_open net" using 1 by (auto simp: set_connect_timeout_def split: if_splits option.splits)
  with after_connect_open [OF 2] assms(2) show ?thesis by simp
qed

text \<open>An \<open>accept\<close> that returns a socket leaves the descriptor that the new object was made with.\<close>

lemma fd_create_chans: "h_chans (fd_create sf c is_sock fd ho) = (h_chans ho)(c := new_FdInfo fd is_sock)"
  by (auto simp: fd_create_def fd_insert_def Let_def close_info_def wake_all_def set_chan_def split: option.splits)

lemma hook_accept_fd: "hook_accept sf c env cur s rs ho = Inr (r, rest, ho') \<Longrightarrow> 0 \<le> fst r \<Longrightarrow>
    fd_get (fst r) ho' = Some c \<and> m_isSocket (h_chans ho' c)"
  by (auto simp: hook_accept_def bindE_eq_Inr fd_create_chans new_FdInfo_def)

lemma Socket_init_open:
  assumes "Socket_init sys fd sock net = Inr (b, sock', net')"
  shows "n_open net' = n_open net \<and> (if b then sk_fd sock' = fd \<and> m_isConnected sock' else sock' = sock)"
proof -
  obtain a p where p: "localAddress sys (sock\<lparr>sk_fd := fd, m_isConnected := True\<rparr>) = Inr (a, sock\<lparr>sk_fd := fd, m_isConnected := True, m_localAddress := p\<rparr>)"
    using localAddress_ok [of sys "sock\<lparr>sk_fd := fd, m_isConnected := True\<rparr>"] by auto
  obtain a' q where "peerAddress sys (sock\<lparr>sk_fd := fd, m_isConnected := True, m_localAddress := p\<rparr>)
      = Inr (a', sock\<lparr>sk_fd := fd, m_isConnected := True, m_localAddress := p, m_peerAddress := q\<rparr>)"
    using peerAddress_ok [of sys "sock\<lparr>sk_fd := fd, m_isConnected := True, m_localAddress := p\<rparr>"] by auto
  with assms p show ?thesis
    by (auto simp: Socket_init_def Let_def bindE_eq_Inr dest!: initSock_open split: option.splits if_splits)
qed

lemma Socket_accept_open:
  assumes acc: "Socket_accept sys sock net = Inr (client, net')" and "-1 \<notin> n_open net"
    and a: "socket_f sys (sk_family sock) (sk_type sock) (sk_protocol sock) = a" "0 \<le> a" "a \<notin> n_open net"
  shows "case client of None \<Rightarrow> n_open net' = n_open net
    | Some sk \<Rightarrow> m_isConnected sk \<and> n_open net' = (if 0 \<le> sk_fd sk then {a, sk_fd sk} else {a}) \<union> n_open net"
proof -
  from acc obtain sk net1 r rest ho where
    1: "new_Socket sys (sk_family sock) (sk_type sock) (sk_protocol sock) net = Inr (sk, net1)"
    and 2: "hook_accept (setfl sys) (accept_info sys) (others sys) (cur_task sys) (sk_fd sock) (accept_f sys (sk_fd sock)) (n_hook net1) = Inr (r, rest, ho)"
    and 3: "(let newsock = fst r; net = opened newsock (net1\<lparr>n_hook := ho\<rparr>)
          in if newsock = -1 then bindE (destroy_Socket sys sk net) (\<lambda>net. Inr (None, net))
             else bindE (Socket_init sys newsock sk net) (\<lambda>(ok, sk, net).
                  if ok then Inr (Some sk, net)
                  else bindE (destroy_Socket sys sk net) (\<lambda>net. Inr (None, net)))) = Inr (client, net')"
    by (auto simp: Socket_accept_def bindE_eq_Inr)
  have n1: "sk_fd sk = a" "n_open net1 = insert a (n_open net)" using new_Socket_open [OF 1] a by simp_all
  let ?net = "opened (fst r) (net1\<lparr>n_hook := ho\<rparr>)"
  have no: "-1 \<notin> n_open ?net" "n_open ?net = (if 0 \<le> fst r then {a, fst r} else {a}) \<union> n_open net"
    using assms(2) a(2) n1 by (auto simp: opened_def)
  show ?thesis
  proof (cases "fst r = -1")
    case True
    with 3 no n1 a(2,3) show ?thesis by (auto simp: Let_def bindE_eq_Inr dest!: destroy_Socket_open)
  next
    case False
    with 3 obtain ok sk' net2 where i: "Socket_init sys (fst r) sk ?net = Inr (ok, sk', net2)"
      and c: "(if ok then Inr (Some sk', net2) else bindE (destroy_Socket sys sk' net2) (\<lambda>net. Inr (None, net))) = Inr (client, net')"
      by (auto simp: Let_def bindE_eq_Inr)
    show ?thesis
    proof (cases ok)
      case True
      with c Socket_init_open [OF i] no show ?thesis by auto
    next
      case False
      have "\<not> 0 \<le> fst r"
      proof
        assume p: "0 \<le> fst r"
        from hook_accept_fd [OF 2 this] have "fd_get (fst r) (n_hook ?net) = Some (accept_info sys)"
          "m_isSocket (h_chans (n_hook ?net) (accept_info sys))" using p by (simp_all add: opened_def)
        with i False show False by (auto simp: Socket_init_def Let_def bindE_eq_Inr)
      qed
      with False c Socket_init_open [OF i] no n1 a(2,3) show ?thesis
        by (auto simp: bindE_eq_Inr dest!: destroy_Socket_open)
    qed
  qed
qed

text \<open>A run of the operations on a set of sockets; \<open>leaks\<close> are the descriptors of the objects made in a successful \<open>accept\<close>.\<close>

inductive net_step :: "net \<times> (nat \<rightharpoonup> Socket) \<times> int list \<Rightarrow> net \<times> (nat \<rightharpoonup> Socket) \<times> int list \<Rightarrow> bool" where
  made: "new_Socket sys family type protocol net = Inr (sk, net') \<Longrightarrow> -1 \<le> sk_fd sk \<Longrightarrow> sk_fd sk \<notin> n_open net \<Longrightarrow> i \<notin> dom socks \<Longrightarrow>
    net_step (net, socks, leaks) (net', socks(i \<mapsto> sk), leaks)"
| closed: "socks i = Some sk \<Longrightarrow> Socket_close sys sk net = Inr (b, sk', net') \<Longrightarrow> net_step (net, socks, leaks) (net', socks(i \<mapsto> sk'), leaks)"
| destroyed: "socks i = Some sk \<Longrightarrow> destroy_Socket sys sk net = Inr net' \<Longrightarrow> net_step (net, socks, leaks) (net', socks(i := None), leaks)"
| connected: "socks i = Some sk \<Longrightarrow> Socket_connect sys addr ms sk net = Inr (b, sk', net') \<Longrightarrow>
    net_step (net, socks, leaks) (net', socks(i \<mapsto> sk'), leaks)"
| bound: "socks i = Some sk \<Longrightarrow> Socket_bind sys addr sk = Inr (b, sk') \<Longrightarrow> net_step (net, socks, leaks) (net, socks(i \<mapsto> sk'), leaks)"
| timeout: "socks i = Some sk \<Longrightarrow> setTimeout option sys v sk net = Inr net' \<Longrightarrow> net_step (net, socks, leaks) (net', socks, leaks)"
| sent: "socks i = Some sk \<Longrightarrow> send_request sys rq sk net = Inr (n, net') \<Longrightarrow> net_step (net, socks, leaks) (net', socks, leaks)"
| received: "socks i = Some sk \<Longrightarrow> recv_request sys rq sk net = Inr (n, bs, net') \<Longrightarrow> net_step (net, socks, leaks) (net', socks, leaks)"
| accepted: "socks i = Some sk \<Longrightarrow> Socket_accept sys sk net = Inr (Some sk', net') \<Longrightarrow>
    socket_f sys (sk_family sk) (sk_type sk) (sk_protocol sk) = a \<Longrightarrow> 0 \<le> a \<Longrightarrow> a \<notin> n_open net \<Longrightarrow>
    0 \<le> sk_fd sk' \<Longrightarrow> sk_fd sk' \<notin> insert a (n_open net) \<Longrightarrow> k \<notin> dom socks \<Longrightarrow>
    net_step (net, socks, leaks) (net', socks(k \<mapsto> sk'), leaks @ [a])"
| refused: "socks i = Some sk \<Longrightarrow> Socket_accept sys sk net = Inr (None, net') \<Longrightarrow>
    socket_f sys (sk_family sk) (sk_type sk) (sk_protocol sk) = a \<Longrightarrow> 0 \<le> a \<Longrightarrow> a \<notin> n_open net \<Longrightarrow>
    net_step (net, socks, leaks) (net', socks, leaks)"

text \<open>The descriptors of the sockets, and the account: every open descriptor is that of exactly one socket, or leaked.\<close>

definition fds :: "(nat \<rightharpoonup> Socket) \<Rightarrow> (nat \<rightharpoonup> int)" where
  "fds socks = (\<lambda>i. map_option sk_fd (socks i))"

definition held :: "(nat \<rightharpoonup> int) \<Rightarrow> int set" where
  "held f = {fd. fd \<noteq> -1 \<and> (\<exists>i. f i = Some fd)}"

definition uniq :: "(nat \<rightharpoonup> int) \<Rightarrow> bool" where
  "uniq f \<longleftrightarrow> (\<forall>i j x. f i = Some x \<and> f j = Some x \<and> x \<noteq> -1 \<longrightarrow> i = j)"

definition account :: "(nat \<rightharpoonup> int) \<Rightarrow> int set \<Rightarrow> int list \<Rightarrow> bool" where
  "account f open leaks \<longleftrightarrow> open = held f \<union> set leaks \<and> held f \<inter> set leaks = {} \<and> distinct leaks \<and> -1 \<notin> set leaks \<and> uniq f"

lemma fds_upd [simp]: "fds (socks(i := r)) = (fds socks)(i := map_option sk_fd r)"
  by (auto simp: fds_def)

lemma fds_same [simp]: "socks i = Some sk \<Longrightarrow> (fds socks)(i \<mapsto> sk_fd sk) = fds socks"
  by (simp add: fds_def fun_upd_idem)

lemma account_neg: "account f open leaks \<Longrightarrow> -1 \<notin> open"
  by (auto simp: account_def held_def)

lemma fds_Some: "socks i = Some sk \<Longrightarrow> fds socks i = Some (sk_fd sk)"
  by (simp add: fds_def)

lemma account_closed:
  assumes a: "account f open leaks" and i: "f i = Some x" and r: "r = None \<or> r = Some (-1)"
  shows "account (f(i := r)) (open - {x}) leaks"
proof -
  have f: "uniq f" using a by (simp add: account_def)
  have u: "j = i" if "f j = Some x" "x \<noteq> -1" for j using f i that by (auto simp: uniq_def)
  have h: "held (f(i := r)) = held f - {x}"
    using i r u unfolding held_def by (intro set_eqI) (auto, (metis option.inject)+)
  have x: "x = -1 \<or> x \<in> held f" using i by (auto simp: held_def)
  have uf: "uniq (f(i := r))" using f r unfolding uniq_def by (intro allI impI) (auto split: if_splits)
  from a have o: "open = held f \<union> set leaks" "held f \<inter> set leaks = {}" "distinct leaks" "-1 \<notin> set leaks" by (simp_all add: account_def)
  have "x \<notin> set leaks" using x o(1,2,4) by auto
  then show ?thesis using o(2,3,4) uf unfolding account_def h o(1) by auto
qed

lemma account_new:
  assumes a: "account f open leaks" and i: "f i = None" and x: "x \<notin> open"
  shows "account (f(i \<mapsto> x)) (if x = -1 then open else insert x open) leaks"
proof -
  from a have o: "open = held f \<union> set leaks" "held f \<inter> set leaks = {}" "distinct leaks" "-1 \<notin> set leaks" "uniq f"
    by (simp_all add: account_def)
  have h: "held (f(i \<mapsto> x)) = held f \<union> (if x = -1 then {} else {x})"
    using i unfolding held_def by (intro set_eqI) (auto, (metis option.distinct(1))+)
  have n: "f j \<noteq> Some x" if "x \<noteq> -1" for j using o(1) x that by (auto simp: held_def)
  have uf: "uniq (f(i \<mapsto> x))" using o(5) n unfolding uniq_def by (intro allI impI) (auto split: if_splits)
  show ?thesis
  proof (cases "x = -1")
    case True
    with o uf h show ?thesis by (simp add: account_def)
  next
    case False
    with o(2-4) x uf show ?thesis unfolding account_def h o(1) by auto
  qed
qed

lemma account_leak: "account f open leaks \<Longrightarrow> a \<notin> open \<Longrightarrow> a \<noteq> -1 \<Longrightarrow> account f (insert a open) (leaks @ [a])"
  by (auto simp: account_def)

lemma net_step_account:
  "net_step s s' \<Longrightarrow> account (fds (fst (snd s))) (n_open (fst s)) (snd (snd s))
     \<Longrightarrow> account (fds (fst (snd s'))) (n_open (fst s')) (snd (snd s'))"
proof (induction rule: net_step.induct)
  case (made sys family type protocol net sk net' i socks leaks)
  have "fds socks i = None" using made(4) by (auto simp: fds_def)
  from account_new [OF made(5) [simplified] this made(3)] show ?case
    using new_Socket_open [OF made(1)] made(2) by (auto simp del: fun_upd_apply)
next
  case (closed socks i sk sys net b sk' net' leaks)
  note c = Socket_close_open [OF closed(2) account_neg [OF closed(3) [simplified]]]
  show ?case using account_closed [OF closed(3) [simplified] fds_Some [of socks i sk, OF closed(1)], of "Some (-1)"] c by (simp del: fun_upd_apply)
next
  case (destroyed socks i sk sys net net' leaks)
  note d = destroy_Socket_open [OF destroyed(2) account_neg [OF destroyed(3) [simplified]]]
  show ?case using account_closed [OF destroyed(3) [simplified] fds_Some [of socks i sk, OF destroyed(1)], of None] d by (simp del: fun_upd_apply)
next
  case (connected socks i sk sys addr ms net b sk' net' leaks)
  note acc = connected(3) [simplified]
  from Socket_connect_open [OF connected(2) account_neg [OF acc]] show ?case
  proof
    assume "sk_fd sk' = sk_fd sk \<and> n_open net' = n_open net"
    with acc connected(1) show ?thesis by (simp del: fun_upd_apply)
  next
    assume "sk_fd sk' = -1 \<and> n_open net' = n_open net - {sk_fd sk}"
    with account_closed [OF acc fds_Some [of socks i sk, OF connected(1)], of "Some (-1)"] show ?thesis by (simp del: fun_upd_apply)
  qed
next
  case (bound socks i sk sys addr b sk' net leaks)
  then show ?case using Socket_bind_fd [OF bound(2)] by (simp del: fun_upd_apply)
next
  case (timeout socks i sk option sys v net net' leaks)
  then show ?case using setTimeout_open [OF timeout(2)] by simp
next
  case (sent socks i sk sys rq net n net' leaks)
  then show ?case using transfer_open(1) [OF sent(2)] by simp
next
  case (received socks i sk sys rq net n bs net' leaks)
  then show ?case using transfer_open(2) [OF received(2)] by simp
next
  case (accepted socks i sk sys net sk' net' a k leaks)
  note acc = accepted(9) [simplified]
  have k: "fds socks k = None" using accepted(8) by (auto simp: fds_def)
  have "a \<noteq> -1" using accepted(4) by simp
  from account_new [OF account_leak [OF acc accepted(5) this] k accepted(7)] Socket_accept_open [OF accepted(2) account_neg [OF acc] accepted(3,4,5)]
  show ?case using accepted(6) by (simp add: insert_commute del: fun_upd_apply)
next
  case (refused socks i sk sys net net' a leaks)
  with Socket_accept_open [OF refused(2) account_neg [OF refused(6) [simplified]] refused(3,4,5)] show ?case by simp
qed

subsection \<open>Operations that return\<close>

lemma hook_setsockopt_plain: "optname \<noteq> SO_RCVTIMEO \<Longrightarrow> optname \<noteq> SO_SNDTIMEO \<Longrightarrow> hook_setsockopt res fd level optname v ho = Inr (res, ho)"
  by (simp add: hook_setsockopt_def)

lemma initSock_simp [simp]: "initSock sys sock net = Inr net"
  by (simp add: initSock_def setOption_def hook_setsockopt_plain)

lemma to_int_bounds: "- (2 ^ 31) \<le> to_int v" "to_int v < 2 ^ 31"
  using sint_greater_eq [of "word_of_int v :: 32 word"] sint_less [of "word_of_int v :: 32 word"] by (simp_all add: to_int_def)

lemma timeval_ms_small:
  assumes "- (2 ^ 31) \<le> s" "s < 2 ^ 31" "- (2 ^ 31) \<le> u" "u < 2 ^ 31"
  shows "\<exists>ms. timeval_ms s u = Inr ms"
  using assms by (auto simp: timeval_ms_def Let_def)

lemma timeval_ms_pos:
  assumes "0 \<le> s" "s < 2 ^ 31" "0 \<le> u" "u < 2 ^ 31"
  shows "timeval_ms s u = Inr (word_of_int (s * 1000 + u div 1000))"
  using assms by (auto simp: timeval_ms_def Let_def)

lemma setTimeout_total: "\<exists>net'. setTimeout option sys v sock net = Inr net'"
proof -
  obtain ms where "timeval_ms (to_int (v sdiv 1000)) (to_int (v smod 1000 * 1000)) = Inr ms"
    using timeval_ms_small to_int_bounds by blast
  then show ?thesis by (auto simp: setTimeout_def setOption_def hook_setsockopt_def split: option.split)
qed

lemma new_Socket_simp: "\<exists>sk net'. new_Socket sys family type protocol net = Inr (sk, net')
    \<and> sk_fd sk = socket_f sys family type protocol \<and> sk_family sk = family"
  by (simp add: new_Socket_def Let_def hook_socket_def)

lemma accept_now:
  assumes "accept_f sys (sk_fd sock) = (b, e) # rest" and "0 \<le> b"
  shows "\<exists>sk net'. Socket_accept sys sock net = Inr (Some sk, net') \<and> sk_fd sk = b \<and> m_isConnected sk
    \<and> n_open net' = insert b (if 0 \<le> socket_f sys (sk_family sock) (sk_type sock) (sk_protocol sock)
        then insert (socket_f sys (sk_family sock) (sk_type sock) (sk_protocol sock)) (n_open net) else n_open net)"
proof -
  obtain sk net1 where n: "new_Socket sys (sk_family sock) (sk_type sock) (sk_protocol sock) net = Inr (sk, net1)"
    using new_Socket_simp by blast
  let ?ho = "fd_create (setfl sys) (accept_info sys) True b (n_hook net1)"
  let ?net = "net1\<lparr>n_hook := ?ho, n_open := insert b (n_open net1)\<rparr>"
  have i: "\<exists>sk' net'. Socket_init sys b sk ?net = Inr (True, sk', net')"
  proof -
    obtain a p where p: "localAddress sys (sk\<lparr>sk_fd := b, m_isConnected := True\<rparr>) = Inr (a, sk\<lparr>sk_fd := b, m_isConnected := True, m_localAddress := p\<rparr>)"
      using localAddress_ok [of sys "sk\<lparr>sk_fd := b, m_isConnected := True\<rparr>"] by auto
    obtain a' q where "peerAddress sys (sk\<lparr>sk_fd := b, m_isConnected := True, m_localAddress := p\<rparr>)
        = Inr (a', sk\<lparr>sk_fd := b, m_isConnected := True, m_localAddress := p, m_peerAddress := q\<rparr>)"
      using peerAddress_ok [of sys "sk\<lparr>sk_fd := b, m_isConnected := True, m_localAddress := p\<rparr>"] by auto
    with p show ?thesis by (simp add: Socket_init_def Let_def fd_create_chans new_FdInfo_def)
  qed
  then obtain sk' net' where "Socket_init sys b sk ?net = Inr (True, sk', net')" by blast
  note i = this Socket_init_open [OF this]
  have "Socket_accept sys sock net = Inr (Some sk', net')"
    using assms i(1) by (simp add: Socket_accept_def n hook_accept_def Let_def opened_def)
  with i(2) new_Socket_open [OF n] show ?thesis by auto
qed

subsection \<open>Failures\<close>

text \<open>Any error of \<open>accept\<close> is a null dereference in the accept loop of the server.\<close>

lemma accept_error_crashes:
  assumes "Socket_accept sys (sv_objects sv i) net = Inr (None, net')"
  shows "accept_turn sys i net sv = Inl NullDeref"
  by (simp add: accept_turn_def assms)

text \<open>On a thread without a processor, an address that is in use is a null dereference: the socket cannot be closed.\<close>

lemma bind_conflict_crashes:
  assumes "\<not> on_loop sys" and "0 < socket_f sys (getFamily addr) TCP 0"
    and "bind_f sys (socket_f sys (getFamily addr) TCP 0) addr \<noteq> 0"
  shows "TcpServer_bind sys addr ssl net sv = Inl NullDeref"
  using assms by (simp add: TcpServer_bind_def CreateTCP_def new_Socket_def hook_socket_def Let_def Socket_bind_def
      destroy_Socket_def Socket_close_def opened_def hook_close_off_loop)

text \<open>A datagram socket of the Unix family never sends.\<close>

lemma unix_udp_mute: "CreateUnixUDPSocket sys net = Inr (sock, net') \<Longrightarrow> Socket_sendTo sys' bs a fl sock net' = Inr (-1, net')"
  by (auto simp: CreateUnixUDPSocket_def new_Socket_def Let_def bindE_eq_Inr Socket_sendTo_def send_request_def hook_socket_def)

text \<open>A timeout of 25 days and more is cut off to 32 bits of seconds.\<close>

lemma timeout_25_days:
  "fd_get (sk_fd sock) (n_hook net) = Some c \<Longrightarrow> setsockopt_f sys (sk_fd sock) SOL_SOCKET SO_RCVTIMEO = 0 \<Longrightarrow>
     \<exists>net'. setRecvTimeout sys 2147483648000 sock net = Inr net' \<and> getRecvTimeout sock net' = -2147483648000"
  by (simp add: setRecvTimeout_def setTimeout_def setOption_def hook_setsockopt_def getRecvTimeout_def getTimeout_def getSocketTimeout_def
      setSocketTimeout_def set_chan_def fd_get_def getSlot_def timeval_ms_def to_int_def Let_def)

subsection \<open>Properties\<close>

text \<open>
  C9: in every run of operations on sockets, each descriptor that the program has open is that of exactly one socket, or was
  left behind by a successful \<open>accept\<close>, one for each: connecting, binding, sending, closing and destroying lose none.
\<close>

theorem descriptors_leak:
  assumes "net_step\<^sup>*\<^sup>* (net, Map.empty, []) (net', socks, leaks)" and "n_open net = {}"
  shows "n_open net' = held (fds socks) \<union> set leaks \<and> held (fds socks) \<inter> set leaks = {} \<and> distinct leaks \<and> uniq (fds socks)"
proof -
  have "account (fds (fst (snd s))) (n_open (fst s)) (snd (snd s))" if "net_step\<^sup>*\<^sup>* (net, Map.empty, []) s" for s
    using that
  proof (induction rule: rtranclp_induct)
    case base
    then show ?case using assms(2) by (simp add: account_def held_def fds_def uniq_def)
  qed (rule net_step_account)
  from this [OF assms(1)] show ?thesis by (simp add: account_def)
qed

definition demo_sys :: "int \<Rightarrow> int \<Rightarrow> sys" where
  "demo_sys a b = \<lparr>setfl = (\<lambda>old new. new), fstat_sock = (\<lambda>fd. True), alloc_info = 0x2000, accept_info = 0x3000, on_loop = True,
     cur_task = Some 1, others = Inr, socket_f = (\<lambda>_ _ _. a), accept_f = (\<lambda>_. [(b, 0)]), bind_f = (\<lambda>_ _. 0), listen_f = (\<lambda>_ _. 0),
     connect_f = (\<lambda>_ _. (0, 0)), so_error = ((0, 0), 0), setsockopt_f = (\<lambda>_ _ _. 0), getsockopt_f = (\<lambda>_ _ _. (0, 0)),
     getpeername_f = (\<lambda>_. None), getsockname_f = (\<lambda>_. None),
     transfer_f = (\<lambda>_ rq. case rq of SendMsg bs _ \<Rightarrow> [(int (length bs), 0)] | _ \<Rightarrow> [(3, 0)]), data_in = [7, 8, 9], from_in = []\<rparr>"

definition demo_sock :: "int \<Rightarrow> Socket" where
  "demo_sock fd = \<lparr>sk_fd = fd, sk_family = 2, sk_type = TCP, sk_protocol = 0, m_isConnected = True, m_localAddress = None, m_peerAddress = None\<rparr>"

definition demo_net :: net where
  "demo_net = \<lparr>n_hook = demo_hook, n_open = {}\<rparr>"

theorem descriptors_leak_witness:
  "\<exists>net' socks. net_step\<^sup>*\<^sup>* (demo_net, Map.empty, []) (net', socks, [4]) \<and> n_open net' = held (fds socks) \<union> set [4]"
proof -
  obtain sk1 net1 where 1: "new_Socket (demo_sys 3 0) 2 TCP 0 demo_net = Inr (sk1, net1)" "sk_fd sk1 = 3"
    using new_Socket_simp [of "demo_sys 3 0" 2 TCP 0 demo_net] by (auto simp: demo_sys_def)
  then have o1: "n_open net1 = {3}" using new_Socket_open [OF 1(1)] by (simp add: demo_net_def)
  obtain sk2 net2 where 2: "Socket_accept (demo_sys 4 5) sk1 net1 = Inr (Some sk2, net2)" "sk_fd sk2 = 5"
    using accept_now [of "demo_sys 4 5" sk1 5 0 "[]" net1] by (auto simp: demo_sys_def)
  have "net_step (demo_net, Map.empty, []) (net1, [0 \<mapsto> sk1], [])"
    using net_step.made [OF 1(1), of 0 Map.empty "[]"] 1(2) by (simp add: demo_net_def)
  moreover have "net_step (net1, [0 \<mapsto> sk1], []) (net2, [0 \<mapsto> sk1, 1 \<mapsto> sk2], [4])"
    using net_step.accepted [where socks = "[0 \<mapsto> sk1]" and i = 0 and k = 1 and leaks = "[]" and a = 4, OF _ 2(1)] 2(2) o1
    by (simp add: demo_sys_def)
  ultimately have r: "net_step\<^sup>*\<^sup>* (demo_net, Map.empty, []) (net2, [0 \<mapsto> sk1, 1 \<mapsto> sk2], [4])"
    by (meson converse_rtranclp_into_rtranclp rtranclp.rtrancl_refl)
  from descriptors_leak [OF this] have "n_open net2 = held (fds [0 \<mapsto> sk1, 1 \<mapsto> sk2]) \<union> set [4]" by (simp add: demo_net_def)
  with r show ?thesis by blast
qed

text \<open>
  A receive timeout of less than \<open>2 ^ 31\<close> seconds, in milliseconds, that the system takes is the one that is read back,
  and that the hooked calls wait for; the send timeout is as before.
\<close>

lemma sdiv_nonneg: "0 \<le> v \<Longrightarrow> v sdiv 1000 = v div (1000 :: int)" "0 \<le> v \<Longrightarrow> v smod 1000 = v mod (1000 :: int)"
  by (auto simp: signed_divide_int_def signed_modulo_int_def sgn_if)

theorem recv_timeout_roundtrip:
  assumes "fd_get (sk_fd sock) (n_hook net) = Some c" and "setsockopt_f sys (sk_fd sock) SOL_SOCKET SO_RCVTIMEO = 0"
    and "0 \<le> v" and "v < 2 ^ 31 * 1000"
  shows "\<exists>net'. setRecvTimeout sys v sock net = Inr net' \<and> getRecvTimeout sock net' = v \<and> getSendTimeout sock net' = getSendTimeout sock net
    \<and> getSocketTimeout SO_RCVTIMEO (h_chans (n_hook net') c) = word_of_int v"
proof -
  have q: "0 \<le> v div 1000" "v div 1000 < 2 ^ 31" "0 \<le> v mod 1000 * 1000" "v mod 1000 * 1000 < 2 ^ 31"
    "v div 1000 * 1000 + v mod 1000 * 1000 div 1000 = v" using assms(3,4) by auto
  have t: "timeval_ms (to_int (v sdiv 1000)) (to_int (v smod 1000 * 1000)) = Inr (word_of_int v)"
    unfolding sdiv_nonneg [OF assms(3)] to_int_id [OF q(1,2)] to_int_id [OF q(3,4)] timeval_ms_pos [OF q(1-4)] q(5) ..
  have s: "sint (word_of_int v :: u64) = v"
    using assms(3,4) by (simp add: sint_sbintrunc' signed_take_bit_int_eq_self)
  show ?thesis
    by (simp add: setRecvTimeout_def setTimeout_def setOption_def hook_setsockopt_def assms(1,2) t getRecvTimeout_def getSendTimeout_def
        getTimeout_def set_chan_def fd_get_def getSlot_def getSocketTimeout_def setSocketTimeout_def s
        assms(1) [unfolded fd_get_def getSlot_def])
qed

theorem recv_timeout_roundtrip_witness:
  "\<exists>net'. setRecvTimeout (demo_sys 3 0) 120000 (demo_sock 7) demo_net = Inr net' \<and> getRecvTimeout (demo_sock 7) net' = 120000"
proof -
  have "fd_get (sk_fd (demo_sock 7)) (n_hook demo_net) = Some 0x1000" "setsockopt_f (demo_sys 3 0) (sk_fd (demo_sock 7)) SOL_SOCKET SO_RCVTIMEO = 0"
    using demo_hook_waits(1) by (simp_all add: demo_net_def demo_sys_def demo_sock_def)
  from recv_timeout_roundtrip [OF this, of 120000] show ?thesis by auto
qed

text \<open>
  C10: while the server runs and \<open>accept\<close> returns the connections \<open>bs\<close>, each becomes one task of the workers, in the order of
  arrival and with its socket connected; and each leaves open, besides its own descriptor, the one of \<open>as\<close> that the new object was made with.
\<close>

definition accept_answers :: "sys \<Rightarrow> int \<Rightarrow> int \<Rightarrow> bool" where
  "accept_answers sys a b \<longleftrightarrow> (\<forall>f t p. socket_f sys f t p = a) \<and> 0 \<le> a \<and> 0 \<le> b \<and> (\<forall>fd. \<exists>e rest. accept_f sys fd = (b, e) # rest)"

lemma accept_turn_ok:
  assumes "accept_answers sys a b"
  shows "\<exists>net' sk. accept_turn sys i net sv = Inr (net', sv\<lparr>sv_objects := (sv_objects sv)(sv_next sv := sk), sv_next := Suc (sv_next sv),
      m_worker := m_worker sv @ [sv_next sv]\<rparr>) \<and> sk_fd sk = b \<and> m_isConnected sk \<and> n_open net' = {a, b} \<union> n_open net"
proof -
  obtain e rest where "accept_f sys (sk_fd (sv_objects sv i)) = (b, e) # rest"
    using assms unfolding accept_answers_def by blast
  from accept_now [OF this, of net] assms obtain sk net1 where 1: "Socket_accept sys (sv_objects sv i) net = Inr (Some sk, net1)"
    and sk: "sk_fd sk = b" "m_isConnected sk" "n_open net1 = {a, b} \<union> n_open net"
    by (auto simp: accept_answers_def insert_commute)
  obtain ad p where p: "peerAddress sys sk = Inr (ad, sk\<lparr>m_peerAddress := p\<rparr>)" using peerAddress_ok by blast
  obtain net2 where t: "setRecvTimeout sys (sint (m_recvTimeout_ms sv)) (sk\<lparr>m_peerAddress := p\<rparr>) net1 = Inr net2"
    unfolding setRecvTimeout_def using setTimeout_total by blast
  then have "n_open net2 = n_open net1" by (auto simp: setRecvTimeout_def dest: setTimeout_open)
  with sk show ?thesis by (auto simp: accept_turn_def 1 p t add_object_def intro!: exI [of _ "sk\<lparr>m_peerAddress := p\<rparr>"])
qed

lemma accept_loop_ok:
  "list_all2 (\<lambda>sys (a, b). accept_answers sys a b) syss conns \<Longrightarrow> m_started sv \<Longrightarrow>
   \<exists>net' sv'. accept_loop syss i net sv = Inr (net', sv') \<and> m_started sv' \<and> sv_next sv' = sv_next sv + length conns
     \<and> m_worker sv' = m_worker sv @ [sv_next sv ..< sv_next sv + length conns]
     \<and> map (\<lambda>k. sk_fd (sv_objects sv' k)) [sv_next sv ..< sv_next sv + length conns] = map snd conns
     \<and> list_all (\<lambda>k. m_isConnected (sv_objects sv' k)) [sv_next sv ..< sv_next sv + length conns]
     \<and> (\<forall>k < sv_next sv. sv_objects sv' k = sv_objects sv k)
     \<and> n_open net' = n_open net \<union> set (map fst conns) \<union> set (map snd conns)"
proof (induction syss conns arbitrary: net sv rule: list_all2_induct)
  case Nil
  then show ?case by (simp add: accept_loop.simps)
next
  case (Cons sys syss ab conns)
  obtain a b where ab: "ab = (a, b)" by (cases ab)
  let ?n = "sv_next sv"
  from accept_turn_ok [of sys a b i net sv] Cons.hyps(1) ab obtain net1 sk where
    t: "accept_turn sys i net sv = Inr (net1, sv\<lparr>sv_objects := (sv_objects sv)(?n := sk), sv_next := Suc ?n, m_worker := m_worker sv @ [?n]\<rparr>)"
    and sk: "sk_fd sk = b" "m_isConnected sk" "n_open net1 = {a, b} \<union> n_open net" by auto
  let ?sv = "sv\<lparr>sv_objects := (sv_objects sv)(?n := sk), sv_next := Suc ?n, m_worker := m_worker sv @ [?n]\<rparr>"
  from Cons.IH [of ?sv net1] Cons.prems obtain net' sv' where
    r: "accept_loop syss i net1 ?sv = Inr (net', sv')" and
    p: "m_started sv'" "sv_next sv' = Suc ?n + length conns" "m_worker sv' = m_worker sv @ ?n # [Suc ?n ..< Suc ?n + length conns]"
      "map (\<lambda>k. sk_fd (sv_objects sv' k)) [Suc ?n ..< Suc ?n + length conns] = map snd conns"
      "list_all (\<lambda>k. m_isConnected (sv_objects sv' k)) [Suc ?n ..< Suc ?n + length conns]"
      "\<forall>k < Suc ?n. sv_objects sv' k = ((sv_objects sv)(?n := sk)) k"
      "n_open net' = n_open net1 \<union> set (map fst conns) \<union> set (map snd conns)"
    by (auto simp del: upt_Suc)
  have up: "[?n ..< ?n + length (ab # conns)] = ?n # [Suc ?n ..< Suc ?n + length conns]" by (simp add: upt_rec)
  have "accept_loop (sys # syss) i net sv = Inr (net', sv')"
    using Cons.prems t r by (simp add: accept_loop.simps [of "sys # syss"])
  with p sk ab show ?case unfolding up by (auto simp del: upt_Suc)
qed

theorem tcp_accepts:
  assumes "list_all2 (\<lambda>sys (a, b). accept_answers sys a b) syss conns" and "m_started sv"
  shows "\<exists>net' sv'. accept_loop syss i net sv = Inr (net', sv')
     \<and> m_worker sv' = m_worker sv @ [sv_next sv ..< sv_next sv + length conns]
     \<and> map (\<lambda>k. sk_fd (sv_objects sv' k)) [sv_next sv ..< sv_next sv + length conns] = map snd conns
     \<and> list_all (\<lambda>k. m_isConnected (sv_objects sv' k)) [sv_next sv ..< sv_next sv + length conns]
     \<and> n_open net' = n_open net \<union> set (map fst conns) \<union> set (map snd conns)"
  using accept_loop_ok [OF assms, of i net] by blast

theorem tcp_accepts_witness:
  "\<exists>net' sv'. accept_loop [demo_sys 4 5, demo_sys 6 8] 0 demo_net (TcpServer_start (new_TcpServer 120000)) = Inr (net', sv')
     \<and> m_worker sv' = [0, 1] \<and> n_open net' = {4, 5, 6, 8}"
  using tcp_accepts [of "[demo_sys 4 5, demo_sys 6 8]" "[(4, 5), (6, 8)]" "TcpServer_start (new_TcpServer 120000)" 0 demo_net]
  by (auto simp: accept_answers_def demo_sys_def demo_net_def TcpServer_start_def new_TcpServer_def upt_rec insert_commute numeral_2_eq_2)

text \<open>
  C11: a connected stream moves bytes between the system and a \<open>ByteArray\<close> without loss: \<open>resv\<close> appends what \<open>recvmsg\<close> brought,
  \<open>send\<close> offers to \<open>sendmsg\<close> the first unread bytes, and what is unread afterwards begins where \<open>sendmsg\<close> stopped.
\<close>

lemma iov_bytes_total: "iov_bytes iovs = iov_total iovs"
  by (simp add: iov_bytes_def iov_total_def)

lemma stream_resv_ba_repr:
  assumes r: "ba_repr ba W k" and cw: "can_write ba len" and st: "m_socket st = Some sock" "m_isConnected sock"
    and tr: "transfer_f sys (sk_fd sock) (RecvMsg len 0) = (int n, e) # rest"
    and n: "0 < n" "n \<le> len" "n \<le> length (data_in sys)" "n < 2 ^ 31"
  shows "\<exists>ba' net'. stream_resv_ba sys ba len st net = Inr (int n, ba', net') \<and> ba_repr ba' (W @ take n (data_in sys)) k"
proof -
  let ?bs = "take n (data_in sys)"
  have l: "length ?bs = n" using n(3) by simp
  obtain b1 iovs h b2 where b: "getWriteBuffers ba len = Inr (b1, len, iovs)" "iov_total iovs = len" "scatter (heap b1) iovs ?bs = Inr h"
    "addWritePosition (b1\<lparr>heap := h\<rparr>) (int n) = Inr b2" "ba_repr b2 (W @ ?bs) k"
    using ba_recv_repr [OF r cw, of ?bs] n l by auto
  have "Socket_recv_iov sys len 0 sock net = Inr (int n, ?bs, net)"
    using st(2) tr n(4) by (simp add: Socket_recv_iov_def recv_request_def hook_read_def)
  with b n(1) st show ?thesis by (simp add: stream_resv_ba_def stream_connected_def iov_bytes_total)
qed

lemma stream_send_ba_repr:
  assumes r: "ba_repr ba W k" and st: "m_socket st = Some sock" "m_isConnected sock"
    and tr: "transfer_f sys (sk_fd sock) (SendMsg (take len (drop k W)) 0) = (int m, e) # rest"
    and m: "0 < m" "m \<le> length (take len (drop k W))" "m < 2 ^ 31"
  shows "\<exists>ba' net'. stream_send_ba sys ba len st net = Inr (int m, ba', net') \<and> ba_repr ba' W (k + m)"
proof -
  obtain iovs where i: "getReadBuffers ba len = Inr (min len (length W - k), iovs)" "gather (heap ba) iovs = Inr (take len (drop k W))"
    using getReadBuffers_repr [OF r, of len] by auto
  have "m \<le> length W - k" using m(2) by simp
  then have "k + m \<le> length W" using ba_repr_length [OF r] by linarith
  from ba_send_repr [OF r m(1) this] obtain b' where b: "addReadPosition ba (int m) = Inr b'" "ba_repr b' W (k + m)" by blast
  have "Socket_send_iov sys (take len (drop k W)) 0 sock net = Inr (int m, net)"
    using st(2) tr m(3) by (simp add: Socket_send_iov_def send_request_def hook_write_def)
  with i b m(1) st show ?thesis by (simp add: stream_send_ba_def stream_connected_def)
qed

theorem stream_moves:
  assumes "ba_repr ba W k" and "can_write ba len" and "m_socket st = Some sock" and "m_isConnected sock"
    and "transfer_f sys (sk_fd sock) (RecvMsg len 0) = (int n, e) # rest"
    and "0 < n" and "n \<le> len" and "n \<le> length (data_in sys)" and "n < 2 ^ 31"
    and "unread = drop k (W @ take n (data_in sys))"
    and "transfer_f sys' (sk_fd sock) (SendMsg (take len' unread) 0) = (int m, e') # rest'"
    and "0 < m" and "m \<le> length (take len' unread)" and "m < 2 ^ 31"
  shows "\<exists>ba1 net1 ba2 net2. stream_resv_ba sys ba len st net = Inr (int n, ba1, net1) \<and> ba_repr ba1 (W @ take n (data_in sys)) k
    \<and> stream_send_ba sys' ba1 len' st net1 = Inr (int m, ba2, net2) \<and> ba_repr ba2 (W @ take n (data_in sys)) (k + m)
    \<and> drop (k + m) (W @ take n (data_in sys)) = drop m unread"
proof -
  obtain ba1 net1 where 1: "stream_resv_ba sys ba len st net = Inr (int n, ba1, net1)" "ba_repr ba1 (W @ take n (data_in sys)) k"
    using stream_resv_ba_repr [OF assms(1-9)] by blast
  from stream_send_ba_repr [OF 1(2) assms(3,4), of sys' len' m e' rest' net1] assms(10-14) 1 show ?thesis
    by (auto simp: add.commute simp del: drop_append)
qed

definition demo_stream :: SocketStream where
  "demo_stream = \<lparr>m_socket = Some (demo_sock 5), m_owner = True\<rparr>"

theorem stream_moves_witness:
  "\<exists>ba1 net1 ba2 net2. stream_resv_ba (demo_sys 3 0) (ba_create (\<lambda>_ _. 0) 4) 6 demo_stream demo_net = Inr (3, ba1, net1)
    \<and> stream_send_ba (demo_sys 3 0) ba1 2 demo_stream net1 = Inr (2, ba2, net2) \<and> ba_repr ba2 [7, 8, 9] 2"
proof -
  have "m_socket demo_stream = Some (demo_sock 5)" "m_isConnected (demo_sock 5)"
    "transfer_f (demo_sys 3 0) (sk_fd (demo_sock 5)) (RecvMsg 6 0) = (int 3, 0) # []"
    "transfer_f (demo_sys 3 0) (sk_fd (demo_sock 5)) (SendMsg (take 2 [7, 8, 9]) 0) = (int 2, 0) # []"
    "data_in (demo_sys 3 0) = [7, 8, 9]" by (simp_all add: demo_stream_def demo_sock_def demo_sys_def)
  note d = this
  have "\<exists>ba1 net1 ba2 net2. stream_resv_ba (demo_sys 3 0) (ba_create (\<lambda>_ _. 0) 4) 6 demo_stream demo_net = Inr (int 3, ba1, net1)
    \<and> ba_repr ba1 ([] @ take 3 (data_in (demo_sys 3 0))) 0
    \<and> stream_send_ba (demo_sys 3 0) ba1 2 demo_stream net1 = Inr (int 2, ba2, net2) \<and> ba_repr ba2 ([] @ take 3 (data_in (demo_sys 3 0))) (0 + 2)
    \<and> drop (0 + 2) ([] @ take 3 (data_in (demo_sys 3 0))) = drop 2 [7, 8, 9]"
    by (rule stream_moves [OF create4 d(1-3) _ _ _ _ _ d(4)]) (simp_all add: d(5))
  then obtain ba1 net1 ba2 net2 where r: "stream_resv_ba (demo_sys 3 0) (ba_create (\<lambda>_ _. 0) 4) 6 demo_stream demo_net = Inr (int 3, ba1, net1)"
    "stream_send_ba (demo_sys 3 0) ba1 2 demo_stream net1 = Inr (int 2, ba2, net2)"
    "ba_repr ba2 ([] @ take 3 (data_in (demo_sys 3 0))) (0 + 2)" by (elim exE conjE)
  have "ba_repr ba2 [7, 8, 9] 2" using r(3) by (simp add: d(5) numeral_2_eq_2)
  with r(1,2) show ?thesis by (intro exI conjI) simp_all
qed

end
