(* ===== verification/HttpResponseParser.thy ===== *)
theory HttpResponseParser
  imports HttpSession HttpClientParser
begin

section \<open>Parsing responses\<close>

text \<open>
  \<open>HttpResponseParser\<close> of \<open>HttpParser.cpp\<close> over the response automaton. As for requests, \<open>mem\<close> is the memory
  from the first byte of the buffer on, and the callbacks are the events of the automaton, run in their order.
\<close>

record HttpResponseParser =
  rp_parser :: httpclient_parser
  rp_data :: HttpResponse
  rp_error :: int

definition set_response :: "(HttpResponse \<Rightarrow> HttpResponse) \<Rightarrow> HttpResponseParser \<Rightarrow> HttpResponseParser" where
  "set_response f parser = parser\<lparr>rp_data := f (rp_data parser)\<rparr>"

definition on_response_reason :: "byte list \<Rightarrow> nat \<Rightarrow> nat \<Rightarrow> HttpResponseParser \<Rightarrow> HttpResponseParser res" where
  "on_response_reason mem at len parser =
     bindE (mk_string mem at len) (\<lambda>s. Inr (set_response (\<lambda>d. d\<lparr>rs_reason := s\<rparr>) parser))"

text \<open>\<open>atoi\<close> does not look at the length.\<close>

definition on_response_status :: "byte list \<Rightarrow> nat \<Rightarrow> HttpResponseParser \<Rightarrow> HttpResponseParser res" where
  "on_response_status mem at parser = Inr (set_response (\<lambda>d. d\<lparr>rs_status := to_int (strtol 10 (drop at mem))\<rparr>) parser)"

definition on_response_version :: "byte list \<Rightarrow> nat \<Rightarrow> nat \<Rightarrow> HttpResponseParser \<Rightarrow> HttpResponseParser res" where
  "on_response_version mem at len parser =
     bindE (strncmp_eq (lit ''HTTP/1.1'') (drop at mem) len) (\<lambda>v11.
       if v11 then Inr (set_response (\<lambda>d. d\<lparr>rs_version := 0x11\<rparr>) parser)
       else bindE (strncmp_eq (lit ''HTTP/1.0'') (drop at mem) len) (\<lambda>v10.
         if v10 then Inr (set_response (\<lambda>d. d\<lparr>rs_version := 0x10\<rparr>) parser)
         else Inr (parser\<lparr>rp_error := 1001\<rparr>)))"

definition on_response_http_field :: "byte list \<Rightarrow> nat \<Rightarrow> nat \<Rightarrow> nat \<Rightarrow> nat \<Rightarrow> HttpResponseParser \<Rightarrow> HttpResponseParser res" where
  "on_response_http_field mem fld flen val vlen parser =
     (if flen = 0 then Inr parser
      else bindE (mk_string mem fld flen) (\<lambda>key. bindE (mk_string mem val vlen) (\<lambda>v.
        Inr (set_response (rs_setHeader key v) parser))))"

text \<open>The table of callbacks that the constructor installs; those for chunks and the end of the header are empty.\<close>

definition on_response_event :: "byte list \<Rightarrow> client_event \<Rightarrow> HttpResponseParser \<Rightarrow> HttpResponseParser res" where
  "on_response_event mem ev parser = (case ev of
     CField f flen v vlen \<Rightarrow> on_response_http_field mem f flen v vlen parser
   | CElement cb at len \<Rightarrow> (case cb of
        cl_reason_phrase \<Rightarrow> on_response_reason mem at len parser
      | cl_status_code \<Rightarrow> on_response_status mem at parser
      | cl_http_version \<Rightarrow> on_response_version mem at len parser
      | _ \<Rightarrow> Inr parser))"

fun on_response_events :: "byte list \<Rightarrow> client_event list \<Rightarrow> HttpResponseParser \<Rightarrow> HttpResponseParser res" where
  "on_response_events mem [] parser = Inr parser"
| "on_response_events mem (ev # evs) parser = bindE (on_response_event mem ev parser) (on_response_events mem evs)"

definition new_HttpResponseParser :: "httpclient_parser \<Rightarrow> HttpResponseParser" where
  "new_HttpResponseParser raw =
     \<lparr>rp_parser = (httpclient_parser_init raw)\<lparr>cl_installed := \<lambda>_. True\<rparr>, rp_data = new_HttpResponse 0x11 True, rp_error = 0\<rparr>"

text \<open>
  \<open>execute(data, len, chunck)\<close>. The automaton's \<open>int\<close> becomes a \<open>size_t\<close>: of \<open>-1\<close> the \<open>memmove\<close> starts one byte before the
  buffer.
\<close>

definition response_execute :: "byte list \<Rightarrow> nat \<Rightarrow> bool \<Rightarrow> HttpResponseParser \<Rightarrow> (nat \<times> HttpResponseParser \<times> byte list) res" where
  "response_execute mem len chunck parser =
     (let p = (if chunck then httpclient_parser_init (rp_parser parser) else rp_parser parser)
      in bindE (httpclient_parser_execute p mem len 0) (\<lambda>(result, p, evs).
         bindE (on_response_events mem evs (parser\<lparr>rp_parser := p\<rparr>)) (\<lambda>parser.
           if result < 0 then Inl HeapOverflow
           else let offset = nat result in Inr (offset, parser, overwrite mem 0 (take (len - offset) (drop offset mem))))))"

definition response_isFinished :: "HttpResponseParser \<Rightarrow> int" where
  "response_isFinished parser = httpclient_parser_finish (rp_parser parser)"

definition response_hasError :: "HttpResponseParser \<Rightarrow> bool" where
  "response_hasError parser \<longleftrightarrow> rp_error parser \<noteq> 0 \<or> httpclient_parser_has_error (rp_parser parser)"

definition response_getContentLength :: "(str \<Rightarrow> u64 option) \<Rightarrow> HttpResponseParser \<Rightarrow> u64" where
  "response_getContentLength lexical_cast parser = getAs lexical_cast (rs_headers (rp_data parser)) (lit ''content-length'') 0"

end
