(* ===== verification/HttpResponse_Names.thy ===== *)
theory HttpResponse_Names
  imports HttpResponseParser HttpClientParser_Props HttpSession_Props
begin

section \<open>The names of the fields of a response\<close>

subsection \<open>The names of fields\<close>

text \<open>
  The automaton looks for three names while it reads one. Its state is that of the prefix read so far, letters of either
  case, or 21 when none of the three begins so.
\<close>

definition name_edges :: "((nat \<times> byte) \<times> nat) list" where
  "name_edges =
    [((20, 99), 25), ((20, 116), 44), ((25, 111), 26), ((26, 110), 27), ((27, 110), 28), ((27, 116), 101), ((28, 101), 29),
     ((29, 99), 30), ((30, 116), 31), ((31, 105), 32), ((32, 111), 33), ((33, 110), 34), ((44, 114), 45), ((45, 97), 46),
     ((46, 110), 47), ((47, 115), 48), ((48, 102), 49), ((49, 101), 50), ((50, 114), 51), ((51, 45), 52), ((52, 101), 53),
     ((53, 110), 54), ((54, 99), 55), ((55, 111), 56), ((56, 100), 57), ((57, 105), 58), ((58, 110), 59), ((59, 103), 60),
     ((101, 101), 102), ((102, 110), 103), ((103, 116), 104), ((104, 45), 105), ((105, 108), 106), ((106, 101), 107),
     ((107, 110), 108), ((108, 103), 109), ((109, 116), 110), ((110, 104), 111)]"

definition name_next :: "nat \<Rightarrow> byte \<Rightarrow> nat" where
  "name_next s b = (case map_of name_edges (s, to_lower b) of Some n \<Rightarrow> n | None \<Rightarrow> 21)"

definition name_state :: "byte list \<Rightarrow> nat" where
  "name_state w = foldl name_next 20 w"

definition special_words :: "(nat \<times> string) list" where
  "special_words =
    [(20, ''''), (25, ''c''), (26, ''co''), (27, ''con''), (28, ''conn''), (29, ''conne''), (30, ''connec''), (31, ''connect''),
     (32, ''connecti''), (33, ''connectio''), (34, ''connection''), (44, ''t''), (45, ''tr''), (46, ''tra''), (47, ''tran''),
     (48, ''trans''), (49, ''transf''), (50, ''transfe''), (51, ''transfer''), (52, ''transfer-''), (53, ''transfer-e''),
     (54, ''transfer-en''), (55, ''transfer-enc''), (56, ''transfer-enco''), (57, ''transfer-encod''), (58, ''transfer-encodi''),
     (59, ''transfer-encodin''), (60, ''transfer-encoding''), (101, ''cont''), (102, ''conte''), (103, ''conten''),
     (104, ''content''), (105, ''content-''), (106, ''content-l''), (107, ''content-le''), (108, ''content-len''),
     (109, ''content-leng''), (110, ''content-lengt''), (111, ''content-length'')]"

text \<open>The characters of a name, as the automaton sees them.\<close>

definition name_int :: "int \<Rightarrow> bool" where
  "name_int x \<longleftrightarrow> x = 33 \<or> x = 124 \<or> x = 126 \<or> x = 42 \<or> x = 43 \<or> x = 45 \<or> x = 46 \<or> 35 \<le> x \<and> x \<le> 39 \<or> 48 \<le> x \<and> x \<le> 57
     \<or> 65 \<le> x \<and> x \<le> 90 \<or> 94 \<le> x \<and> x \<le> 122"

lemma name_int_cases: "name_int x \<Longrightarrow> (x = 33 \<Longrightarrow> P) \<Longrightarrow> (35 \<le> x \<Longrightarrow> x \<le> 39 \<Longrightarrow> P) \<Longrightarrow> (x = 42 \<Longrightarrow> P) \<Longrightarrow> (x = 43 \<Longrightarrow> P) \<Longrightarrow>
    (x = 45 \<Longrightarrow> P) \<Longrightarrow> (x = 46 \<Longrightarrow> P) \<Longrightarrow> (48 \<le> x \<Longrightarrow> x \<le> 57 \<Longrightarrow> P) \<Longrightarrow> (65 \<le> x \<Longrightarrow> x \<le> 90 \<Longrightarrow> P) \<Longrightarrow>
    (94 \<le> x \<Longrightarrow> x \<le> 122 \<Longrightarrow> P) \<Longrightarrow> (x = 124 \<Longrightarrow> P) \<Longrightarrow> (x = 126 \<Longrightarrow> P) \<Longrightarrow> P"
  by (auto simp: name_int_def)

lemma name_target_25: "name_int x \<Longrightarrow> client_target_of 25 x = CGo [] (if x = 79 \<or> x = 111 then 26 else 21)"
  by (erule name_int_cases) (simp_all add: client_target_of_def client_case_22_def cst_def)

lemma name_target_26: "name_int x \<Longrightarrow> client_target_of 26 x = CGo [] (if x = 78 \<or> x = 110 then 27 else 21)"
  by (erule name_int_cases) (simp_all add: client_target_of_def client_case_22_def cst_def)

lemma name_target_27: "name_int x \<Longrightarrow> client_target_of 27 x = CGo [] (if x = 78 \<or> x = 110 then 28 else (if x = 84 \<or> x = 116 then 101 else 21))"
  by (erule name_int_cases) (simp_all add: client_target_of_def client_case_27_def cst_def)

lemma name_target_28: "name_int x \<Longrightarrow> client_target_of 28 x = CGo [] (if x = 69 \<or> x = 101 then 29 else 21)"
  by (erule name_int_cases) (simp_all add: client_target_of_def client_case_27_def cst_def)

lemma name_target_29: "name_int x \<Longrightarrow> client_target_of 29 x = CGo [] (if x = 67 \<or> x = 99 then 30 else 21)"
  by (erule name_int_cases) (simp_all add: client_target_of_def client_case_27_def cst_def)

lemma name_target_30: "name_int x \<Longrightarrow> client_target_of 30 x = CGo [] (if x = 84 \<or> x = 116 then 31 else 21)"
  by (erule name_int_cases) (simp_all add: client_target_of_def client_case_27_def cst_def)

lemma name_target_31: "name_int x \<Longrightarrow> client_target_of 31 x = CGo [] (if x = 73 \<or> x = 105 then 32 else 21)"
  by (erule name_int_cases) (simp_all add: client_target_of_def client_case_27_def cst_def)

lemma name_target_32: "name_int x \<Longrightarrow> client_target_of 32 x = CGo [] (if x = 79 \<or> x = 111 then 33 else 21)"
  by (erule name_int_cases) (simp_all add: client_target_of_def client_case_32_def cst_def)

lemma name_target_33: "name_int x \<Longrightarrow> client_target_of 33 x = CGo [] (if x = 78 \<or> x = 110 then 34 else 21)"
  by (erule name_int_cases) (simp_all add: client_target_of_def client_case_32_def cst_def)

lemma name_target_34: "name_int x \<Longrightarrow> client_target_of 34 x = CGo [] 21"
  by (erule name_int_cases) (simp_all add: client_target_of_def client_case_32_def cst_def)

lemma name_target_44: "name_int x \<Longrightarrow> client_target_of 44 x = CGo [] (if x = 82 \<or> x = 114 then 45 else 21)"
  by (erule name_int_cases) (simp_all add: client_target_of_def client_case_44_def cst_def)

lemma name_target_45: "name_int x \<Longrightarrow> client_target_of 45 x = CGo [] (if x = 65 \<or> x = 97 then 46 else 21)"
  by (erule name_int_cases) (simp_all add: client_target_of_def client_case_44_def cst_def)

lemma name_target_46: "name_int x \<Longrightarrow> client_target_of 46 x = CGo [] (if x = 78 \<or> x = 110 then 47 else 21)"
  by (erule name_int_cases) (simp_all add: client_target_of_def client_case_44_def cst_def)

lemma name_target_47: "name_int x \<Longrightarrow> client_target_of 47 x = CGo [] (if x = 83 \<or> x = 115 then 48 else 21)"
  by (erule name_int_cases) (simp_all add: client_target_of_def client_case_44_def cst_def)

lemma name_target_48: "name_int x \<Longrightarrow> client_target_of 48 x = CGo [] (if x = 70 \<or> x = 102 then 49 else 21)"
  by (erule name_int_cases) (simp_all add: client_target_of_def client_case_44_def cst_def)

lemma name_target_49: "name_int x \<Longrightarrow> client_target_of 49 x = CGo [] (if x = 69 \<or> x = 101 then 50 else 21)"
  by (erule name_int_cases) (simp_all add: client_target_of_def client_case_49_def cst_def)

lemma name_target_50: "name_int x \<Longrightarrow> client_target_of 50 x = CGo [] (if x = 82 \<or> x = 114 then 51 else 21)"
  by (erule name_int_cases) (simp_all add: client_target_of_def client_case_49_def cst_def)

lemma name_target_51: "name_int x \<Longrightarrow> client_target_of 51 x = CGo [] (if x = 45 then 52 else 21)"
  by (erule name_int_cases) (simp_all add: client_target_of_def client_case_49_def cst_def)

lemma name_target_52: "name_int x \<Longrightarrow> client_target_of 52 x = CGo [] (if x = 69 \<or> x = 101 then 53 else 21)"
  by (erule name_int_cases) (simp_all add: client_target_of_def client_case_49_def cst_def)

lemma name_target_53: "name_int x \<Longrightarrow> client_target_of 53 x = CGo [] (if x = 78 \<or> x = 110 then 54 else 21)"
  by (erule name_int_cases) (simp_all add: client_target_of_def client_case_49_def cst_def)

lemma name_target_54: "name_int x \<Longrightarrow> client_target_of 54 x = CGo [] (if x = 67 \<or> x = 99 then 55 else 21)"
  by (erule name_int_cases) (simp_all add: client_target_of_def client_case_54_def cst_def)

lemma name_target_55: "name_int x \<Longrightarrow> client_target_of 55 x = CGo [] (if x = 79 \<or> x = 111 then 56 else 21)"
  by (erule name_int_cases) (simp_all add: client_target_of_def client_case_54_def cst_def)

lemma name_target_56: "name_int x \<Longrightarrow> client_target_of 56 x = CGo [] (if x = 68 \<or> x = 100 then 57 else 21)"
  by (erule name_int_cases) (simp_all add: client_target_of_def client_case_54_def cst_def)

lemma name_target_57: "name_int x \<Longrightarrow> client_target_of 57 x = CGo [] (if x = 73 \<or> x = 105 then 58 else 21)"
  by (erule name_int_cases) (simp_all add: client_target_of_def client_case_54_def cst_def)

lemma name_target_58: "name_int x \<Longrightarrow> client_target_of 58 x = CGo [] (if x = 78 \<or> x = 110 then 59 else 21)"
  by (erule name_int_cases) (simp_all add: client_target_of_def client_case_54_def cst_def)

lemma name_target_59: "name_int x \<Longrightarrow> client_target_of 59 x = CGo [] (if x = 71 \<or> x = 103 then 60 else 21)"
  by (erule name_int_cases) (simp_all add: client_target_of_def client_case_59_def cst_def)

lemma name_target_60: "name_int x \<Longrightarrow> client_target_of 60 x = CGo [] 21"
  by (erule name_int_cases) (simp_all add: client_target_of_def client_case_59_def cst_def)

lemma name_target_101: "name_int x \<Longrightarrow> client_target_of 101 x = CGo [] (if x = 69 \<or> x = 101 then 102 else 21)"
  by (erule name_int_cases) (simp_all add: client_target_of_def client_case_96_def cst_def)

lemma name_target_102: "name_int x \<Longrightarrow> client_target_of 102 x = CGo [] (if x = 78 \<or> x = 110 then 103 else 21)"
  by (erule name_int_cases) (simp_all add: client_target_of_def client_case_96_def cst_def)

lemma name_target_103: "name_int x \<Longrightarrow> client_target_of 103 x = CGo [] (if x = 84 \<or> x = 116 then 104 else 21)"
  by (erule name_int_cases) (simp_all add: client_target_of_def client_case_96_def cst_def)

lemma name_target_104: "name_int x \<Longrightarrow> client_target_of 104 x = CGo [] (if x = 45 then 105 else 21)"
  by (erule name_int_cases) (simp_all add: client_target_of_def client_case_104_def cst_def)

lemma name_target_105: "name_int x \<Longrightarrow> client_target_of 105 x = CGo [] (if x = 76 \<or> x = 108 then 106 else 21)"
  by (erule name_int_cases) (simp_all add: client_target_of_def client_case_104_def cst_def)

lemma name_target_106: "name_int x \<Longrightarrow> client_target_of 106 x = CGo [] (if x = 69 \<or> x = 101 then 107 else 21)"
  by (erule name_int_cases) (simp_all add: client_target_of_def client_case_104_def cst_def)

lemma name_target_107: "name_int x \<Longrightarrow> client_target_of 107 x = CGo [] (if x = 78 \<or> x = 110 then 108 else 21)"
  by (erule name_int_cases) (simp_all add: client_target_of_def client_case_104_def cst_def)

lemma name_target_108: "name_int x \<Longrightarrow> client_target_of 108 x = CGo [] (if x = 71 \<or> x = 103 then 109 else 21)"
  by (erule name_int_cases) (simp_all add: client_target_of_def client_case_104_def cst_def)

lemma name_target_109: "name_int x \<Longrightarrow> client_target_of 109 x = CGo [] (if x = 84 \<or> x = 116 then 110 else 21)"
  by (erule name_int_cases) (simp_all add: client_target_of_def client_case_109_def cst_def)

lemma name_target_110: "name_int x \<Longrightarrow> client_target_of 110 x = CGo [] (if x = 72 \<or> x = 104 then 111 else 21)"
  by (erule name_int_cases) (simp_all add: client_target_of_def client_case_109_def cst_def)

lemma name_target_111: "name_int x \<Longrightarrow> client_target_of 111 x = CGo [] 21"
  by (erule name_int_cases) (simp_all add: client_target_of_def client_case_109_def cst_def)

lemma name_target_21: "name_int x \<Longrightarrow> client_target_of 21 x = CGo [] 21"
  by (erule name_int_cases) (simp_all add: client_target_of_def client_case_19_def cst_def)

lemmas name_targets =
  name_target_25 name_target_26 name_target_27 name_target_28 name_target_29 name_target_30 name_target_31 name_target_32
  name_target_33 name_target_34 name_target_44 name_target_45 name_target_46 name_target_47 name_target_48 name_target_49
  name_target_50 name_target_51 name_target_52 name_target_53 name_target_54 name_target_55 name_target_56 name_target_57
  name_target_58 name_target_59 name_target_60 name_target_101 name_target_102 name_target_103 name_target_104
  name_target_105 name_target_106 name_target_107 name_target_108 name_target_109 name_target_110 name_target_111
  name_target_21

lemma wrap8:
  fixes x :: int
  assumes "0 \<le> x" "x < 256" shows "(x + 128) mod 256 - 128 = (if x < 128 then x else x - 256)"
proof (cases "x < 128")
  case False
  have "(x + 128) mod 256 = (x - 128) mod 256" using mod_add_self2 [of "x - 128" 256] by (simp add: ac_simps)
  with False assms show ?thesis by simp
qed (use assms in simp)

lemma sint_byte: "sint (b :: byte) = (if uint b < 128 then uint b else uint b - 256)"
proof -
  have "sint b = (uint b + 128) mod 256 - 128" using int_word_sint [of "uint b", where 'a = 8] by simp
  then show ?thesis using wrap8 [of "uint b"] uint_bounded [of b] by simp
qed

lemma uint_to_lower: "uint (to_lower b) = (if 65 \<le> uint b \<and> uint b \<le> 90 then uint b + 32 else uint b)"
proof -
  have u: "uint b = int (unat b)" by simp
  have r: "in_range b 65 90 \<longleftrightarrow> 65 \<le> uint b \<and> uint b \<le> 90" unfolding in_range_def using u by linarith
  show ?thesis
  proof (cases "in_range b 65 90")
    case True
    then have "uint b + 32 < 256" "0 \<le> uint b + 32" using r by simp_all
    then have "uint (b + 32) = uint b + 32" by (simp add: uint_word_ariths)
    with True r show ?thesis by (simp add: to_lower_def)
  next
    case False
    with r show ?thesis by (simp add: to_lower_def)
  qed
qed

lemma to_lower_letter: "97 \<le> l \<Longrightarrow> l \<le> 122 \<Longrightarrow> uint (to_lower b) = l \<longleftrightarrow> sint b = l - 32 \<or> sint b = l"
  using uint_bounded [of b] by (auto simp: uint_to_lower sint_byte)

lemma to_lower_dash: "uint (to_lower b) = 45 \<longleftrightarrow> sint b = 45"
  using uint_bounded [of b] by (auto simp: uint_to_lower sint_byte)

lemma to_lower_is:
  "to_lower b = 45 \<longleftrightarrow> sint b = 45"
  "to_lower b = 97 \<longleftrightarrow> sint b = 65 \<or> sint b = 97"
  "to_lower b = 99 \<longleftrightarrow> sint b = 67 \<or> sint b = 99"
  "to_lower b = 100 \<longleftrightarrow> sint b = 68 \<or> sint b = 100"
  "to_lower b = 101 \<longleftrightarrow> sint b = 69 \<or> sint b = 101"
  "to_lower b = 102 \<longleftrightarrow> sint b = 70 \<or> sint b = 102"
  "to_lower b = 103 \<longleftrightarrow> sint b = 71 \<or> sint b = 103"
  "to_lower b = 104 \<longleftrightarrow> sint b = 72 \<or> sint b = 104"
  "to_lower b = 105 \<longleftrightarrow> sint b = 73 \<or> sint b = 105"
  "to_lower b = 108 \<longleftrightarrow> sint b = 76 \<or> sint b = 108"
  "to_lower b = 110 \<longleftrightarrow> sint b = 78 \<or> sint b = 110"
  "to_lower b = 111 \<longleftrightarrow> sint b = 79 \<or> sint b = 111"
  "to_lower b = 114 \<longleftrightarrow> sint b = 82 \<or> sint b = 114"
  "to_lower b = 115 \<longleftrightarrow> sint b = 83 \<or> sint b = 115"
  "to_lower b = 116 \<longleftrightarrow> sint b = 84 \<or> sint b = 116"
  using to_lower_dash [of b] to_lower_letter [of 97 b] to_lower_letter [of 99 b] to_lower_letter [of 100 b] to_lower_letter [of 101 b] to_lower_letter [of 102 b] to_lower_letter [of 103 b] to_lower_letter [of 104 b] to_lower_letter [of 105 b] to_lower_letter [of 108 b] to_lower_letter [of 110 b] to_lower_letter [of 111 b] to_lower_letter [of 114 b] to_lower_letter [of 115 b] to_lower_letter [of 116 b]
  by (simp_all add: word_uint_eq_iff)


text \<open>One character of a name.\<close>

lemma case_if: "(case (if c then Some x else y) of None \<Rightarrow> d | Some n \<Rightarrow> n) = (if c then x else (case y of None \<Rightarrow> d | Some n \<Rightarrow> n))"
  by simp

lemma name_steps:
  "name_int (sint b) \<Longrightarrow> list_all (\<lambda>s. client_target_of s (sint b) = CGo [] (name_next s b)) (21 # map fst (tl special_words))"
  by (simp add: special_words_def name_next_def name_edges_def name_targets to_lower_is case_if)

lemma name_start:
  assumes "name_int (sint b)"
  shows "client_target_of 20 (sint b) = CGo [CStartField] (name_next 20 b)"
    and "client_target_of 43 (sint b) = CGo [CConnectionClose, CStartField] (name_next 20 b)"
  using assms by (erule_tac [!] name_int_cases)
    (simp_all add: client_target_of_def client_case_19_def client_case_36_def client_tr_defs name_next_def name_edges_def to_lower_is)

lemma name_words: "list_all (\<lambda>((p, t), n). map_of special_words n = map_option (\<lambda>w. w @ [char_of (unat t)]) (map_of special_words p)) name_edges"
  by code_simp

text \<open>A name that is not one of the three does not end in the state of one of them, and these do.\<close>

lemma name_state_snoc: "name_state (w @ [b]) = name_next (name_state w) b"
  by (simp add: name_state_def)

lemma name_state_word:
  "name_state w \<noteq> 21 \<Longrightarrow> map_of special_words (name_state w) = Some (map (\<lambda>b. char_of (unat (to_lower b))) w)"
proof (induction w rule: rev_induct)
  case Nil
  then show ?case by (simp add: name_state_def special_words_def)
next
  case (snoc b w)
  let ?p = "name_state w" and ?n = "name_state (w @ [b])"
  have e: "((?p, to_lower b), ?n) \<in> set name_edges"
    using snoc.prems by (auto simp: name_state_snoc name_next_def split: option.splits dest: map_of_SomeD)
  have "?p \<noteq> 21"
  proof
    assume "?p = 21"
    with e have "21 \<in> (fst \<circ> fst) ` set name_edges" by force
    then show False by (simp add: name_edges_def)
  qed
  with snoc.IH name_words e show ?case by (fastforce simp: list_all_iff)
qed

definition special_names :: "string list" where
  "special_names = [''connection'', ''content-length'', ''transfer-encoding'']"

definition plain_name :: "byte list \<Rightarrow> bool" where
  "plain_name w \<longleftrightarrow> w \<noteq> [] \<and> list_all (\<lambda>b. name_int (sint b)) w \<and> map (\<lambda>b. char_of (unat (to_lower b))) w \<notin> set special_names"

lemma plain_name_state: "plain_name w \<Longrightarrow> name_state w \<notin> {34, 111, 60}"
  using name_state_word [of w] by (auto simp: plain_name_def special_names_def special_words_def)

end
