(* ===== verification/HttpResponse_Props.thy ===== *)
theory HttpResponse_Props
  imports HttpResponse_Names
begin

section \<open>Responses read back\<close>

text \<open>
  The runs of the automaton over the lines of a response, and the response that the callbacks build from them: what
  \<open>HttpResponse::dump\<close> prints is what \<open>HttpResponseParser\<close> reads.
\<close>

subsection \<open>Runs over a segment\<close>

fun cemit :: "client_event list \<Rightarrow> nat \<times> nat \<times> httpclient_parser \<times> client_event list \<Rightarrow> nat \<times> nat \<times> httpclient_parser \<times> client_event list" where
  "cemit evs (s, p, P, es) = (s, p, P, evs @ es)"

lemma cemit_Nil [simp]: "cemit [] r = r"
  by (cases r) simp

lemma cemit_cemit [simp]: "cemit a (cemit b r) = cemit (a @ b) r"
  by (cases r) simp

lemma client_go:
  "client_target_of s (sint b) = CGo acts n \<Longrightarrow> client_perform_all mem p pe acts P = (P', evs) \<Longrightarrow>
   client_exec_loop mem pe s p (b # rest) P = cemit evs (client_exec_loop mem pe n (Suc p) rest P')"
  by (cases "client_exec_loop mem pe n (Suc p) rest P'") simp

lemma client_stay:
  "(\<And>b. b \<in> set w \<Longrightarrow> client_target_of s (sint b) = CGo [] s) \<Longrightarrow>
   client_exec_loop mem pe s p (w @ rest) P = client_exec_loop mem pe s (p + length w) rest P"
proof (induction w arbitrary: p)
  case (Cons b w)
  then show ?case using client_go [of s b "[]" s mem p pe P P "[]" "w @ rest"] by simp
qed simp

lemmas client_acts = client_perform_def client_element_def Let_def

lemmas client_targets = client_target_of_def client_tr_defs client_case_defs

text \<open>The name of a field, from its second character on.\<close>

lemma name_next_valid: "name_next s b \<in> set (21 # map fst (tl special_words))"
  by (auto simp: name_next_def name_edges_def special_words_def split: option.split dest: map_of_SomeD)

lemma name_state_valid: "w \<noteq> [] \<Longrightarrow> name_state w \<in> set (21 # map fst (tl special_words))"
  using name_next_valid by (cases w rule: rev_cases) (simp_all add: name_state_snoc del: set_simps)

lemma name_run:
  "list_all (\<lambda>b. name_int (sint b)) w \<Longrightarrow> v \<noteq> [] \<Longrightarrow>
   client_exec_loop mem pe (name_state v) p (w @ rest) P = client_exec_loop mem pe (name_state (v @ w)) (p + length w) rest P"
proof (induction w arbitrary: v p)
  case (Cons b w)
  have "client_target_of (name_state v) (sint b) = CGo [] (name_next (name_state v) b)"
    using name_steps [of b] name_state_valid [OF Cons.prems(2)] Cons.prems(1) unfolding list_all_iff by auto
  from client_go [OF this, of mem p pe P P "[]" "w @ rest"] Cons.IH [of "v @ [b]" "Suc p"] Cons.prems
  show ?case by (simp add: name_state_snoc)
qed simp

lemma name_colon: "list_all (\<lambda>s. s \<in> {34, 111, 60} \<or> client_target_of s 58 = CGo [CWriteField] 22) (21 # map fst (tl special_words))"
  by (simp add: special_words_def client_targets)

text \<open>A value, up to the end of its line.\<close>

definition value_byte :: "byte \<Rightarrow> bool" where
  "value_byte b \<longleftrightarrow> b \<noteq> 10 \<and> b \<noteq> 13"

definition value_text :: "byte list \<Rightarrow> bool" where
  "value_text v \<longleftrightarrow> list_all value_byte v \<and> (v = [] \<or> \<not> (hd v = 32 \<or> 9 \<le> sint (hd v) \<and> sint (hd v) \<le> 12))"

lemma value_byte_sint: "value_byte b \<Longrightarrow> sint b \<noteq> 10 \<and> sint b \<noteq> 13"
proof -
  have "sint b = 10 \<Longrightarrow> b = 10" "sint b = 13 \<Longrightarrow> b = 13" 
    using signed_word_eqI [of b 10] signed_word_eqI [of b 13] by simp_all
  then show "value_byte b \<Longrightarrow> sint b \<noteq> 10 \<and> sint b \<noteq> 13" by (auto simp: value_byte_def)
qed


lemma value_run:
  assumes v: "value_text v"
  shows "client_exec_loop mem pe 22 p (v @ 13 # rest) P
    = cemit (if cl_installed P cl_http_field then [CField (cl_field_start P) (cl_field_len P) p (length v)] else [])
        (client_exec_loop mem pe 24 (p + length v + 1) rest (P\<lparr>cl_mark := p\<rparr>))"
proof (cases v)
  case Nil
  have "client_target_of 22 (sint (13 :: byte)) = CGo [CMark, CWriteValue] 24" by (simp add: client_targets)
  from client_go [OF this] Nil show ?thesis by (simp add: client_acts)
next
  case (Cons b w)
  have b: "sint b \<noteq> 10" "sint b \<noteq> 13" "sint b \<noteq> 32" "\<not> (9 \<le> sint b \<and> sint b \<le> 12)" and w: "\<And>c. c \<in> set w \<Longrightarrow> sint c \<noteq> 10 \<and> sint c \<noteq> 13"
    using v Cons value_byte_sint signed_word_eqI [of b 32] by (auto simp: value_text_def list_all_iff)
  have "client_target_of 22 (sint b) = CGo [CMark] 23" using b by (simp add: client_target_of_def client_case_22_def client_tr_defs)
  from client_go [OF this, of mem p pe P "P\<lparr>cl_mark := p\<rparr>" "[]" "w @ 13 # rest"]
  have "client_exec_loop mem pe 22 p (v @ 13 # rest) P = client_exec_loop mem pe 23 (Suc p) (w @ 13 # rest) (P\<lparr>cl_mark := p\<rparr>)"
    by (simp add: Cons client_acts)
  also have "\<dots> = client_exec_loop mem pe 23 (Suc p + length w) (13 # rest) (P\<lparr>cl_mark := p\<rparr>)"
    using w by (intro client_stay) (simp add: client_target_of_def client_case_22_def client_tr_defs)
  also have "\<dots> = cemit (if cl_installed P cl_http_field then [CField (cl_field_start P) (cl_field_len P) p (length v)] else [])
        (client_exec_loop mem pe 24 (p + length v + 1) rest (P\<lparr>cl_mark := p\<rparr>))"
  proof -
    have "client_target_of 23 (sint (13 :: byte)) = CGo [CWriteValue] 24" by (simp add: client_targets)
    from client_go [OF this] show ?thesis by (simp add: client_acts Cons)
  qed
  finally show ?thesis .
qed

subsection \<open>The lines of a response\<close>

text \<open>What a callback sees of the memory.\<close>

datatype client_view = VField str str | VReason str | VStatus int | VVersion str | VNone

fun see :: "byte list \<Rightarrow> client_event \<Rightarrow> client_view" where
  "see mem (CField f flen v vlen) = VField (slice mem f flen) (slice mem v vlen)"
| "see mem (CElement cl_reason_phrase p n) = VReason (slice mem p n)"
| "see mem (CElement cl_status_code p n) = VStatus (to_int (strtol 10 (drop p mem)))"
| "see mem (CElement cl_http_version p n) = VVersion (slice mem p n)"
| "see mem (CElement _ p n) = VNone"

fun client_bounded :: "nat \<Rightarrow> client_event \<Rightarrow> bool" where
  "client_bounded k (CField f flen v vlen) \<longleftrightarrow> f + flen \<le> k \<and> v + vlen \<le> k"
| "client_bounded k (CElement cb p n) \<longleftrightarrow> p + n \<le> k"

text \<open>From state \<open>s\<close> before the segment to \<open>t\<close> behind it, wherever it stands, with the callbacks \<open>vs\<close>.\<close>

definition all_callbacks :: "httpclient_parser \<Rightarrow> bool" where
  "all_callbacks P \<longleftrightarrow> cl_installed P = (\<lambda>_. True)"

definition crun :: "nat \<Rightarrow> byte list \<Rightarrow> nat \<Rightarrow> client_view list \<Rightarrow> bool" where
  "crun s seg t vs \<longleftrightarrow> (\<forall>pre rest junk P. all_callbacks P \<longrightarrow> (\<exists>evs P'. all_callbacks P'
     \<and> (\<forall>pe. client_exec_loop (pre @ seg @ rest @ junk) pe s (length pre) (seg @ rest) P
         = cemit evs (client_exec_loop (pre @ seg @ rest @ junk) pe t (length pre + length seg) rest P'))
     \<and> map (see (pre @ seg @ rest @ junk)) evs = vs \<and> list_all (client_bounded (length pre + length seg)) evs))"

lemma client_bounded_le: "client_bounded k e \<Longrightarrow> k \<le> m \<Longrightarrow> client_bounded m e"
  by (cases "(k, e)" rule: client_bounded.cases) auto

lemma crun_append: "crun s a t vs \<Longrightarrow> crun t b u ws \<Longrightarrow> crun s (a @ b) u (vs @ ws)"
  unfolding crun_def
proof (intro allI impI)
  fix pre rest junk :: "byte list" and P
  assume a: "\<forall>pre rest junk P. all_callbacks P \<longrightarrow> (\<exists>evs P'. all_callbacks P'
     \<and> (\<forall>pe. client_exec_loop (pre @ a @ rest @ junk) pe s (length pre) (a @ rest) P
         = cemit evs (client_exec_loop (pre @ a @ rest @ junk) pe t (length pre + length a) rest P'))
     \<and> map (see (pre @ a @ rest @ junk)) evs = vs \<and> list_all (client_bounded (length pre + length a)) evs)"
    and b: "\<forall>pre rest junk P. all_callbacks P \<longrightarrow> (\<exists>evs P'. all_callbacks P'
     \<and> (\<forall>pe. client_exec_loop (pre @ b @ rest @ junk) pe t (length pre) (b @ rest) P
         = cemit evs (client_exec_loop (pre @ b @ rest @ junk) pe u (length pre + length b) rest P'))
     \<and> map (see (pre @ b @ rest @ junk)) evs = ws \<and> list_all (client_bounded (length pre + length b)) evs)"
    and P: "all_callbacks P"
  from a [rule_format, OF P, of pre "b @ rest" junk] obtain e1 P1 where 1: "all_callbacks P1"
    "\<And>pe. client_exec_loop (pre @ a @ b @ rest @ junk) pe s (length pre) (a @ b @ rest) P
         = cemit e1 (client_exec_loop (pre @ a @ b @ rest @ junk) pe t (length pre + length a) (b @ rest) P1)"
    "map (see (pre @ a @ b @ rest @ junk)) e1 = vs" "list_all (client_bounded (length pre + length a)) e1" by auto
  from b [rule_format, OF 1(1), of "pre @ a" rest junk] obtain e2 P2 where 2: "all_callbacks P2"
    "\<And>pe. client_exec_loop (pre @ a @ b @ rest @ junk) pe t (length pre + length a) (b @ rest) P1
         = cemit e2 (client_exec_loop (pre @ a @ b @ rest @ junk) pe u (length pre + length a + length b) rest P2)"
    "map (see (pre @ a @ b @ rest @ junk)) e2 = ws" "list_all (client_bounded (length pre + length a + length b)) e2" by auto
  have "list_all (client_bounded (length pre + length a + length b)) e1"
    using 1(4) client_bounded_le [of "length pre + length a" _ "length pre + length a + length b"] by (auto simp: list_all_iff)
  with 1 2 show "\<exists>evs P'. all_callbacks P'
     \<and> (\<forall>pe. client_exec_loop (pre @ (a @ b) @ rest @ junk) pe s (length pre) ((a @ b) @ rest) P
         = cemit evs (client_exec_loop (pre @ (a @ b) @ rest @ junk) pe u (length pre + length (a @ b)) rest P'))
     \<and> map (see (pre @ (a @ b) @ rest @ junk)) evs = vs @ ws \<and> list_all (client_bounded (length pre + length (a @ b))) evs"
    by (intro exI [of _ "e1 @ e2"] exI [of _ P2]) (simp add: add.assoc)
qed

lemma slice_at: "length pre = p \<Longrightarrow> length seg = n \<Longrightarrow> slice (pre @ seg @ rest) p n = seg"
  by (auto simp: slice_def)

text \<open>The line of a field whose name is none of the three.\<close>

definition field_line :: "str \<Rightarrow> str \<Rightarrow> str" where
  "field_line name v = name @ lit '': '' @ v @ crlf"

lemma crun_field:
  assumes n: "plain_name name" and v: "value_text v"
  shows "crun 20 (field_line name v) 20 [VField name v]"
  unfolding crun_def
proof (intro allI impI)
  fix pre rest junk :: "byte list" and P
  assume P: "all_callbacks P"
  let ?mem = "pre @ field_line name v @ rest @ junk" and ?p = "length pre"
  obtain b w where name: "name = b # w" using n by (cases name) (auto simp: plain_name_def)
  have chars: "name_int (sint b)" "list_all (\<lambda>b. name_int (sint b)) w" using n name by (simp_all add: plain_name_def)
  let ?P1 = "P\<lparr>cl_field_start := ?p\<rparr>"
  let ?P2 = "?P1\<lparr>cl_field_len := length name, cl_mark := Suc (?p + length name)\<rparr>"
  let ?v = "?p + length name + 2"
  have s: "name_state name \<in> set (21 # map fst (tl special_words))" "name_state name \<notin> {34, 111, 60}"
    using name_state_valid [of name] plain_name_state [OF n] name by simp_all
  have colon: "client_target_of (name_state name) (sint (58 :: byte)) = CGo [CWriteField] 22"
    using s name_colon unfolding list_all_iff by auto
  have blank: "client_target_of 22 (sint (32 :: byte)) = CGo [CMark] 22" by (simp add: client_targets)
  have lf: "client_target_of 24 (sint (10 :: byte)) = CGo [] 20" by (simp add: client_targets)
  have run: "client_exec_loop ?mem pe 20 ?p (field_line name v @ rest) P
      = cemit [CField ?p (length name) ?v (length v)] (client_exec_loop ?mem pe 20 (?v + length v + 2) rest (?P2\<lparr>cl_mark := ?v\<rparr>))" for pe
  proof -
    have "client_exec_loop ?mem pe 20 ?p (field_line name v @ rest) P
        = client_exec_loop ?mem pe (name_state [b]) (Suc ?p) (w @ 58 # 32 # v @ 13 # 10 # rest) ?P1"
      using client_go [OF name_start(1) [OF chars(1)], of ?mem ?p pe P ?P1 "[]" "w @ 58 # 32 # v @ 13 # 10 # rest"]
      by (simp add: name field_line_def crlf_def lit_def client_acts name_state_def)
    also have "\<dots> = client_exec_loop ?mem pe (name_state name) (?p + length name) (58 # 32 # v @ 13 # 10 # rest) ?P1"
      using name_run [OF chars(2), of "[b]"] by (simp add: name)
    also have "\<dots> = client_exec_loop ?mem pe 22 (Suc (?p + length name)) (32 # v @ 13 # 10 # rest) (?P1\<lparr>cl_field_len := length name\<rparr>)"
      using client_go [OF colon, of ?mem "?p + length name" pe ?P1 "?P1\<lparr>cl_field_len := length name\<rparr>" "[]"] by (simp add: client_acts)
    also have "\<dots> = client_exec_loop ?mem pe 22 ?v (v @ 13 # 10 # rest) ?P2"
      using client_go [OF blank, of ?mem "Suc (?p + length name)" pe "?P1\<lparr>cl_field_len := length name\<rparr>" ?P2 "[]"] by (simp add: client_acts)
    also have "\<dots> = cemit [CField ?p (length name) ?v (length v)] (client_exec_loop ?mem pe 20 (?v + length v + 2) rest (?P2\<lparr>cl_mark := ?v\<rparr>))"
      using value_run [OF v, of ?mem pe ?v "10 # rest" ?P2] P client_go [OF lf, of ?mem "?v + length v + 1" pe "?P2\<lparr>cl_mark := ?v\<rparr>" "?P2\<lparr>cl_mark := ?v\<rparr>" "[]" rest]
      by (simp add: all_callbacks_def)
    finally show ?thesis .
  qed
  have "slice ?mem ?p (length name) = name" "slice ?mem ?v (length v) = v"
    by (simp_all add: field_line_def slice_def lit_def crlf_def)
  with run P show "\<exists>evs P'. all_callbacks P'
     \<and> (\<forall>pe. client_exec_loop ?mem pe 20 ?p (field_line name v @ rest) P
         = cemit evs (client_exec_loop ?mem pe 20 (?p + length (field_line name v)) rest P'))
     \<and> map (see ?mem) evs = [VField name v] \<and> list_all (client_bounded (?p + length (field_line name v))) evs"
    by (intro exI [of _ "[CField ?p (length name) ?v (length v)]"] exI [of _ "?P2\<lparr>cl_mark := ?v\<rparr>"])
      (simp add: all_callbacks_def field_line_def lit_def crlf_def add.commute add.left_commute)
qed

text \<open>One step by evaluation, for the fixed words.\<close>

lemma client_step:
  "client_exec_loop mem pe s p (b # rest) P = (case client_target_of s (sint b) of
      CErr \<Rightarrow> (0, p, P, [])
    | CGo acts n \<Rightarrow> (case client_perform_all mem p pe acts P of (P', evs) \<Rightarrow> cemit evs (client_exec_loop mem pe n (Suc p) rest P'))
    | CBreak acts n \<Rightarrow> (case client_perform_all mem p pe acts P of (P', evs) \<Rightarrow> (n, p + 1, P', evs)))"
  by (auto simp: Let_def split: client_target.split prod.split)

declare client_exec_loop.simps [simp del]

lemma special_name_state: "name_state (lit ''connection'') = 34" "name_state (lit ''content-length'') = 111"
  by (simp_all add: name_state_def lit_def name_next_def name_edges_def to_lower_def in_range_def)

text \<open>From the start of a line, also behind \<open>connection: close\<close>, to the colon of a field name.\<close>

lemma name_line:
  assumes "name = b # w" and "list_all (\<lambda>b. name_int (sint b)) name" and "s = 20 \<or> s = 43" and "all_callbacks P"
  shows "\<exists>P'. all_callbacks P' \<and> cl_field_start P' = p \<and> (\<forall>mem pe rest. client_exec_loop mem pe s p (name @ rest) P
    = client_exec_loop mem pe (name_state name) (p + length name) rest P')"
proof -
  let ?P1 = "if s = 20 then P\<lparr>cl_field_start := p\<rparr> else P\<lparr>cl_close := True, cl_field_start := p\<rparr>"
  have c: "name_int (sint b)" "list_all (\<lambda>b. name_int (sint b)) w" using assms(1,2) by simp_all
  have "client_exec_loop mem pe s p (b # w @ rest) P = client_exec_loop mem pe (name_state [b]) (Suc p) (w @ rest) ?P1" for mem pe rest
    using assms(3) name_start [OF c(1)] by (auto simp: client_step [of _ _ _ _ b] client_acts name_state_def)
  then have "client_exec_loop mem pe s p (name @ rest) P = client_exec_loop mem pe (name_state name) (p + length name) rest ?P1" for mem pe rest
    using name_run [OF c(2), of "[b]" mem pe "Suc p" rest ?P1] by (simp add: assms(1))
  moreover have "all_callbacks ?P1" "cl_field_start ?P1 = p" using assms(4) by (simp_all add: all_callbacks_def)
  ultimately show ?thesis by blast
qed

lemma special_chars: "list_all (\<lambda>b. name_int (sint b)) (lit ''connection'')" "list_all (\<lambda>b. name_int (sint b)) (lit ''content-length'')"
  by (simp_all add: lit_def name_int_def)

lemma special_Cons: "lit ''connection'' = 99 # lit ''onnection''" "lit ''content-length'' = 99 # lit ''ontent-length''"
  by (simp_all add: lit_def)

lemma special_lengths: "length (lit ''connection'') = 10" "length (lit ''content-length'') = 14"
  by (simp_all add: lit_def)

lemma crunI:
  assumes "\<And>p P pre rest junk. all_callbacks P \<Longrightarrow> length pre = p \<Longrightarrow> \<exists>P' evs. all_callbacks P' \<and>
      (\<forall>pe. client_exec_loop (pre @ seg @ rest @ junk) pe s p (seg @ rest) P
        = cemit evs (client_exec_loop (pre @ seg @ rest @ junk) pe t (p + length seg) rest P'))
      \<and> list_all (client_bounded (p + length seg)) evs \<and> map (see (pre @ seg @ rest @ junk)) evs = vs"
  shows "crun s seg t vs"
  unfolding crun_def
proof (intro allI impI)
  fix pre rest junk :: "byte list" and P
  assume "all_callbacks P"
  from assms [OF this, of pre "length pre" rest junk] show "\<exists>evs P'. all_callbacks P'
     \<and> (\<forall>pe. client_exec_loop (pre @ seg @ rest @ junk) pe s (length pre) (seg @ rest) P
         = cemit evs (client_exec_loop (pre @ seg @ rest @ junk) pe t (length pre + length seg) rest P'))
     \<and> map (see (pre @ seg @ rest @ junk)) evs = vs \<and> list_all (client_bounded (length pre + length seg)) evs" by auto
qed

text \<open>A line with one of the three names, from the run behind the name.\<close>

lemma crun_special:
  assumes name: "name = b # w" "list_all (\<lambda>b. name_int (sint b)) name" and s: "s = 20 \<or> s = 43"
    and run: "\<And>P q mem rest. all_callbacks P \<Longrightarrow> cl_field_start P = q \<Longrightarrow> \<exists>P'. all_callbacks P' \<and>
      (\<forall>pe. client_exec_loop mem pe (name_state name) (q + length name) (lit '': '' @ v @ crlf @ rest) P
        = cemit [CField q (length name) (q + length name + 2) (length v)]
            (client_exec_loop mem pe t (q + length name + 2 + length v + 2) rest P'))"
  shows "crun s (field_line name v) t [VField name v]"
proof (rule crunI)
  fix p P and pre rest junk :: "byte list" assume P: "all_callbacks P" and p: "length pre = p"
  obtain P1 where P1: "all_callbacks P1" "cl_field_start P1 = p"
    and n: "\<And>mem pe rest. client_exec_loop mem pe s p (name @ rest) P = client_exec_loop mem pe (name_state name) (p + length name) rest P1"
    using name_line [OF name s P, of p] by auto
  let ?line = "field_line name v"
  let ?mem = "pre @ ?line @ rest @ junk"
  obtain P' where P': "all_callbacks P'"
    and r: "\<And>pe. client_exec_loop ?mem pe (name_state name) (p + length name) (lit '': '' @ v @ crlf @ rest) P1
        = cemit [CField p (length name) (p + length name + 2) (length v)]
            (client_exec_loop ?mem pe t (p + length name + 2 + length v + 2) rest P')"
    using run [OF P1, of ?mem rest] by auto
  have sl: "slice ?mem p (length name) = name" "slice ?mem (p + length name + 2) (length v) = v" "length ?line = length name + 2 + length v + 2"
    "?line @ rest = name @ lit '': '' @ v @ crlf @ rest"
    using p by (simp_all add: field_line_def slice_def lit_def crlf_def)
  have "client_exec_loop ?mem pe s p (?line @ rest) P
      = cemit [CField p (length name) (p + length name + 2) (length v)] (client_exec_loop ?mem pe t (p + length ?line) rest P')" for pe
  proof -
    have "client_exec_loop ?mem pe s p (?line @ rest) P = client_exec_loop ?mem pe (name_state name) (p + length name) (lit '': '' @ v @ crlf @ rest) P1"
      using n [of ?mem pe] by (simp only: sl(4))
    also have "\<dots> = cemit [CField p (length name) (p + length name + 2) (length v)] (client_exec_loop ?mem pe t (p + length name + 2 + length v + 2) rest P')"
      by (rule r)
    also have "p + length name + 2 + length v + 2 = p + length ?line" by (simp only: sl(3) add.assoc)
    finally show ?thesis .
  qed
  note run' = this
  show "\<exists>P' evs. all_callbacks P' \<and>
      (\<forall>pe. client_exec_loop ?mem pe s p (?line @ rest) P = cemit evs (client_exec_loop ?mem pe t (p + length ?line) rest P'))
      \<and> list_all (client_bounded (p + length ?line)) evs \<and> map (see ?mem) evs = [VField name v]"
  proof (intro exI conjI allI)
    show "all_callbacks P'" by (rule P')
    show "client_exec_loop ?mem pe s p (?line @ rest) P
      = cemit [CField p (length name) (p + length name + 2) (length v)] (client_exec_loop ?mem pe t (p + length ?line) rest P')" for pe by (rule run')
    show "list_all (client_bounded (p + length ?line)) [CField p (length name) (p + length name + 2) (length v)]" by (simp add: sl(3))
    show "map (see ?mem) [CField p (length name) (p + length name + 2) (length v)] = [VField name v]" by (simp only: list.map see.simps sl(1,2))
  qed
qed

lemma crun_close: "crun 20 (field_line (lit ''connection'') (lit ''close'')) 43 [VField (lit ''connection'') (lit ''close'')]"
proof (rule crun_special [OF special_Cons(1) special_chars(1)])
  fix P q and mem rest :: "byte list" assume "all_callbacks P" "cl_field_start P = q"
  then show "\<exists>P'. all_callbacks P' \<and>
      (\<forall>pe. client_exec_loop mem pe (name_state (lit ''connection'')) (q + length (lit ''connection'')) (lit '': '' @ lit ''close'' @ crlf @ rest) P
        = cemit [CField q (length (lit ''connection'')) (q + length (lit ''connection'') + 2) (length (lit ''close''))]
            (client_exec_loop mem pe 43 (q + length (lit ''connection'') + 2 + length (lit ''close'') + 2) rest P'))"
    unfolding special_name_state special_lengths
    by (intro exI [of _ "P\<lparr>cl_field_len := 10, cl_mark := q + 12\<rparr>"])
      (simp add: lit_def crlf_def client_step client_acts client_targets all_callbacks_def, simp add: add.commute eval_nat_numeral)
qed simp

lemma crun_keep_alive: "crun 20 (field_line (lit ''connection'') (lit ''keep-alive'')) 20 [VField (lit ''connection'') (lit ''keep-alive'')]"
proof (rule crun_special [OF special_Cons(1) special_chars(1)])
  fix P q and mem rest :: "byte list" assume "all_callbacks P" "cl_field_start P = q"
  then show "\<exists>P'. all_callbacks P' \<and>
      (\<forall>pe. client_exec_loop mem pe (name_state (lit ''connection'')) (q + length (lit ''connection'')) (lit '': '' @ lit ''keep-alive'' @ crlf @ rest) P
        = cemit [CField q (length (lit ''connection'')) (q + length (lit ''connection'') + 2) (length (lit ''keep-alive''))]
            (client_exec_loop mem pe 20 (q + length (lit ''connection'') + 2 + length (lit ''keep-alive'') + 2) rest P'))"
    unfolding special_name_state special_lengths
    by (intro exI [of _ "P\<lparr>cl_field_len := 10, cl_mark := q + 12\<rparr>"])
      (simp add: lit_def crlf_def client_step client_acts client_targets all_callbacks_def, simp add: add.commute eval_nat_numeral)
qed simp

text \<open>The digits of a number.\<close>

lemma lit_digits: "b \<in> set (lit (show_nat n)) \<Longrightarrow> 48 \<le> sint b \<and> sint b \<le> 57"
proof -
  assume "b \<in> set (lit (show_nat n))"
  then obtain d where d: "is_digit d" "b = of_char d" using show_nat_digits by (auto simp: lit_def)
  have "b = word_of_nat (of_char d)" using d(2) by (simp only: of_nat_of_char)
  moreover have "of_char d \<in> set [48..<58]" using d(1) unfolding set_upt atLeastLessThan_iff is_digit_def by linarith
  moreover have "list_all (\<lambda>n. 48 \<le> sint (word_of_nat n :: byte) \<and> sint (word_of_nat n :: byte) \<le> 57) [48..<58]" by code_simp
  ultimately show ?thesis unfolding list_all_iff by blast
qed

lemma digit_val_bounds: "48 \<le> sint b \<and> sint b \<le> 57 \<Longrightarrow> digit_val b < 10"
proof -
  have "48 \<le> sint b \<and> sint b \<le> 57 \<longrightarrow> digit_val b < 10" by (rule byte_all) code_simp
  then show "48 \<le> sint b \<and> sint b \<le> 57 \<Longrightarrow> digit_val b < 10" by simp
qed

lemma digit_val_digit: "d < 10 \<Longrightarrow> digit_val (of_char (digit d)) = d"
proof -
  have "list_all (\<lambda>d. digit_val (of_char (digit d)) = d) [0..<10]" by code_simp
  then show "d < 10 \<Longrightarrow> digit_val (of_char (digit d)) = d" by (simp add: list_all_iff)
qed

lemma strtol_show_nat: "digit_val c \<ge> 10 \<Longrightarrow> strtol_digits 10 0 (lit (show_nat n) @ c # tail) = n"
proof (induction n arbitrary: c tail rule: show_nat.induct)
  case (1 n)
  show ?case
  proof (cases "n < 10")
    case True
    with "1.prems" show ?thesis by (subst show_nat.simps) (simp add: lit_def digit_val_digit)
  next
    case False
    have d: "digit_val b < 10" if "b \<in> set (lit (show_nat (n div 10)))" for b using lit_digits [OF that] digit_val_bounds by blast
    have "digit_val (13 :: byte) \<ge> 10" by code_simp
    from "1.IH" [OF False this, of "[]"] d have "strtol_digits 10 0 (lit (show_nat (n div 10))) = n div 10"
      using strtol_digits_append [OF d, of "lit (show_nat (n div 10))" 0 "[13]"] by (simp add: digit_val_def)
    moreover have "lit (show_nat n) @ c # tail = lit (show_nat (n div 10)) @ of_char (digit (n mod 10)) # c # tail"
      using False by (subst show_nat.simps) (simp add: lit_def)
    ultimately show ?thesis
      using "1.prems" strtol_digits_append [OF d, of "lit (show_nat (n div 10))" 0 "of_char (digit (n mod 10)) # c # tail"]
      by (simp add: digit_val_digit)
  qed
qed

lemma strtol_nat:
  assumes "n < 2 ^ 63" and "digit_val c \<ge> 10" shows "strtol 10 (lit (show_nat n) @ c # tail) = int n"
proof -
  obtain b bs where s: "lit (show_nat n) = b # bs" by (cases "lit (show_nat n)") auto
  have plain: "48 \<le> sint x \<and> sint x \<le> 57 \<longrightarrow> \<not> is_space x \<and> x \<noteq> 45 \<and> x \<noteq> 43" for x
    by (rule byte_all) code_simp
  have "skip_0x 10 (lit (show_nat n) @ c # tail) = lit (show_nat n) @ c # tail" by (simp add: skip_0x_def split: list.split)
  moreover have "\<not> is_space b \<and> b \<noteq> 45 \<and> b \<noteq> 43" using plain [of b] lit_digits [of b n] s by simp
  ultimately show ?thesis using assms(1) strtol_show_nat [OF assms(2), of n tail] s by (simp add: strtol_def Let_def)
qed

lemma digits_run:
  assumes "\<And>b :: byte. 48 \<le> sint b \<and> sint b \<le> 57 \<Longrightarrow> client_target_of s (sint b) = CGo [CMark] t"
    and "\<And>b :: byte. 48 \<le> sint b \<and> sint b \<le> 57 \<Longrightarrow> client_target_of t (sint b) = CGo [] t"
  shows "client_exec_loop mem pe s p (lit (show_nat n) @ rest) P = client_exec_loop mem pe t (p + length (show_nat n)) rest (P\<lparr>cl_mark := p\<rparr>)"
proof -
  obtain b bs where s: "lit (show_nat n) = b # bs" by (cases "lit (show_nat n)") auto
  have d: "48 \<le> sint c \<and> sint c \<le> 57" if "c = b \<or> c \<in> set bs" for c using lit_digits [of c n] s that by auto
  have "client_exec_loop mem pe s p (b # bs @ rest) P = client_exec_loop mem pe t (Suc p) (bs @ rest) (P\<lparr>cl_mark := p\<rparr>)"
    using assms(1) [of b] d by (simp add: client_step client_acts)
  moreover have "client_exec_loop mem pe t (Suc p) (bs @ rest) (P\<lparr>cl_mark := p\<rparr>) = client_exec_loop mem pe t (Suc p + length bs) rest (P\<lparr>cl_mark := p\<rparr>)"
    using assms(2) d by (intro client_stay) blast
  moreover have "length (show_nat n) = Suc (length bs)" using s by (metis length_Cons length_map lit_def)
  ultimately show ?thesis by (simp add: s)
qed

lemma crun_length:
  assumes s: "s = 20 \<or> s = 43"
  shows "crun s (field_line (lit ''content-length'') (lit (show_nat n))) 20 [VField (lit ''content-length'') (lit (show_nat n))]"
proof (rule crun_special [OF special_Cons(2) special_chars(2) s])
  fix P q and mem rest :: "byte list" assume P: "all_callbacks P" "cl_field_start P = q"
  let ?v = "lit (show_nat n)" and ?k = "length (show_nat n)"
  let ?P2 = "P\<lparr>cl_field_len := 14, cl_mark := q + 16\<rparr>"
  let ?P3 = "?P2\<lparr>cl_content_len := to_int (strtol 10 (drop (q + 16) mem))\<rparr>"
  have t: "client_target_of 112 (sint b) = CGo [CMark] 119" "client_target_of 119 (sint b) = CGo [] 119"
    if "48 \<le> sint b \<and> sint b \<le> 57" for b :: byte
    using that by (simp_all add: client_target_of_def client_case_109_def client_case_118_def client_tr_defs)
  have run: "client_exec_loop mem pe 111 (q + 14) (lit '': '' @ ?v @ crlf @ rest) P
      = cemit [CField q 14 (q + 16) ?k] (client_exec_loop mem pe 20 (q + 16 + ?k + 2) rest ?P3)" for pe
  proof -
    have "client_exec_loop mem pe 111 (q + 14) (lit '': '' @ ?v @ crlf @ rest) P
        = client_exec_loop mem pe 112 (q + 16) (?v @ crlf @ rest) (P\<lparr>cl_field_len := 14, cl_mark := q + 15\<rparr>)"
    proof -
      have c: "client_target_of 111 (sint (58 :: byte)) = CGo [CWriteField] 112" "client_target_of 112 (sint (32 :: byte)) = CGo [CMark] 112"
        by (simp_all add: client_targets)
      show ?thesis using P
          client_go [OF c(1), of mem "q + 14" pe P "P\<lparr>cl_field_len := 14\<rparr>" "[]" "32 # ?v @ crlf @ rest"]
          client_go [OF c(2), of mem "Suc (q + 14)" pe "P\<lparr>cl_field_len := 14\<rparr>" "P\<lparr>cl_field_len := 14, cl_mark := Suc (q + 14)\<rparr>" "[]" "?v @ crlf @ rest"]
        by (simp add: client_acts lit_def add.commute)
    qed
    also have "\<dots> = client_exec_loop mem pe 119 (q + 16 + ?k) (crlf @ rest) ?P2"
      using digits_run [OF t, of mem pe "q + 16" n "crlf @ rest"] by simp
    also have "\<dots> = cemit [CField q 14 (q + 16) ?k] (client_exec_loop mem pe 20 (q + 16 + ?k + 2) rest ?P3)"
      using P by (simp add: crlf_def client_step [of _ _ 119] client_step [of _ _ 24] client_acts client_targets all_callbacks_def)
    finally show ?thesis .
  qed
  show "\<exists>P'. all_callbacks P' \<and>
      (\<forall>pe. client_exec_loop mem pe (name_state (lit ''content-length'')) (q + length (lit ''content-length'')) (lit '': '' @ ?v @ crlf @ rest) P
        = cemit [CField q (length (lit ''content-length'')) (q + length (lit ''content-length'') + 2) (length ?v)]
            (client_exec_loop mem pe 20 (q + length (lit ''content-length'') + 2 + length ?v + 2) rest P'))"
    unfolding special_name_state special_lengths
    using run P by (intro exI [of _ ?P3]) (simp add: all_callbacks_def lit_def add.commute [of 16 q])
qed

text \<open>The first line.\<close>

definition status_line :: "byte \<Rightarrow> nat \<Rightarrow> str \<Rightarrow> str" where
  "status_line minor n r = lit ''HTTP/1.'' @ minor # lit '' '' @ lit (show_nat n) @ lit '' '' @ r @ crlf"

lemma status_prefix:
  assumes m: "minor \<in> {48, 49}" and P: "all_callbacks P"
  shows "client_exec_loop mem pe 1 p (lit ''HTTP/1.'' @ minor # lit '' '' @ rest) P
    = cemit [CElement cl_http_version p 8] (client_exec_loop mem pe 16 (p + 9) rest (P\<lparr>cl_mark := p\<rparr>))"
  using assms by (auto simp: lit_def client_step client_acts client_targets all_callbacks_def, simp_all add: eval_nat_numeral)

lemma status_reason:
  assumes r: "r \<noteq> []" "list_all value_byte r" and P: "all_callbacks P"
  shows "client_exec_loop mem pe 18 p (r @ crlf @ rest) P
    = cemit [CElement cl_reason_phrase p (length r)] (client_exec_loop mem pe 20 (p + length r + 2) rest (P\<lparr>cl_mark := p\<rparr>))"
proof -
  obtain b w where bw: "r = b # w" using r(1) by (cases r) auto
  have b: "sint b \<noteq> 10" and w: "\<And>c. c \<in> set w \<Longrightarrow> sint c \<noteq> 10 \<and> sint c \<noteq> 13"
    using r(2) bw value_byte_sint by (auto simp: list_all_iff)
  have s: "client_target_of 18 (sint b) = CGo [CMark] 19" using b by (simp add: client_target_of_def client_case_7_def client_tr_defs)
  have t: "client_target_of 19 (sint (13 :: byte)) = CGo [CReasonPhrase] 24" "client_target_of 24 (sint (10 :: byte)) = CGo [] 20"
    by (simp_all add: client_targets)
  let ?P = "P\<lparr>cl_mark := p\<rparr>"
  have "client_exec_loop mem pe 18 p (r @ crlf @ rest) P = client_exec_loop mem pe 19 (Suc p) (w @ crlf @ rest) ?P"
    using client_go [OF s, of mem p pe P ?P "[]" "w @ crlf @ rest"] by (simp add: bw client_acts)
  also have "\<dots> = client_exec_loop mem pe 19 (Suc p + length w) (crlf @ rest) ?P"
    using w by (intro client_stay) (simp add: client_target_of_def client_case_19_def client_tr_defs)
  also have "\<dots> = cemit [CElement cl_reason_phrase p (length r)] (client_exec_loop mem pe 24 (Suc (p + length r)) (10 # rest) ?P)"
    using client_go [OF t(1), of mem "Suc p + length w" pe ?P ?P "[CElement cl_reason_phrase p (length r)]" "10 # rest"] P
    by (simp add: crlf_def client_acts bw all_callbacks_def)
  also have "client_exec_loop mem pe 24 (Suc (p + length r)) (10 # rest) ?P = client_exec_loop mem pe 20 (p + length r + 2) rest ?P"
    using client_go [OF t(2), of mem "Suc (p + length r)" pe ?P ?P "[]" rest] by simp
  finally show ?thesis .
qed

lemma digit_val_blank: "digit_val (32 :: byte) \<ge> 10"
  by code_simp

lemma status_run:
  fixes n :: nat
  assumes m: "minor \<in> {48, 49}" and r: "r \<noteq> []" "list_all value_byte r" and P: "all_callbacks P"
  defines "k \<equiv> length (show_nat n)"
  shows "client_exec_loop mem pe 1 p (status_line minor n r @ rest) P
    = cemit [CElement cl_http_version p 8, CElement cl_status_code (p + 9) k, CElement cl_reason_phrase (p + 10 + k) (length r)]
        (client_exec_loop mem pe 20 (p + length (status_line minor n r)) rest
          (P\<lparr>cl_status := to_int (strtol 10 (drop (p + 9) mem)), cl_mark := p + 10 + k\<rparr>))"
proof -
  let ?n = "lit (show_nat n)" and ?P1 = "P\<lparr>cl_mark := p\<rparr>" and ?P2 = "P\<lparr>cl_mark := p + 9\<rparr>"
  let ?P3 = "P\<lparr>cl_mark := p + 9, cl_status := to_int (strtol 10 (drop (p + 9) mem))\<rparr>"
  have t: "client_target_of 16 (sint b) = CGo [CMark] 17" "client_target_of 17 (sint b) = CGo [] 17"
    if "48 \<le> sint b \<and> sint b \<le> 57" for b :: byte
    using that by (simp_all add: client_target_of_def client_case_7_def client_tr_defs)
  have u: "client_target_of 17 (sint (32 :: byte)) = CGo [CStatusCode] 18" by (simp add: client_targets)
  have "client_exec_loop mem pe 1 p (status_line minor n r @ rest) P
      = cemit [CElement cl_http_version p 8] (client_exec_loop mem pe 16 (p + 9) (?n @ 32 # r @ crlf @ rest) ?P1)"
    using status_prefix [OF m P, of mem pe p "?n @ 32 # r @ crlf @ rest"] by (simp add: status_line_def lit_def)
  also have "client_exec_loop mem pe 16 (p + 9) (?n @ 32 # r @ crlf @ rest) ?P1 = client_exec_loop mem pe 17 (p + 9 + k) (32 # r @ crlf @ rest) ?P2"
    using digits_run [OF t, of mem pe "p + 9" n "32 # r @ crlf @ rest" ?P1] by (simp add: k_def)
  also have "\<dots> = cemit [CElement cl_status_code (p + 9) k] (client_exec_loop mem pe 18 (Suc (p + 9 + k)) (r @ crlf @ rest) ?P3)"
    using client_go [OF u, of mem "p + 9 + k" pe ?P2 ?P3 "[CElement cl_status_code (p + 9) k]" "r @ crlf @ rest"] P
    by (simp add: client_acts all_callbacks_def)
  also have "Suc (p + 9 + k) = p + 10 + k" by simp
  also have "client_exec_loop mem pe 18 (p + 10 + k) (r @ crlf @ rest) ?P3 = cemit [CElement cl_reason_phrase (p + 10 + k) (length r)]
      (client_exec_loop mem pe 20 (p + 10 + k + length r + 2) rest (?P3\<lparr>cl_mark := p + 10 + k\<rparr>))"
    using P by (intro status_reason [OF r]) (simp add: all_callbacks_def)
  also have "p + 10 + k + length r + 2 = p + length (status_line minor n r)" by (simp add: status_line_def k_def lit_def crlf_def)
  finally show ?thesis by simp
qed

lemma crun_status:
  assumes m: "minor \<in> {48, 49}" and r: "r \<noteq> []" "list_all value_byte r" and n: "n < 2 ^ 63"
  shows "crun 1 (status_line minor n r) 20 [VVersion (lit ''HTTP/1.'' @ [minor]), VStatus (to_int (int n)), VReason r]"
proof (rule crunI)
  fix p P and pre rest junk :: "byte list" assume P: "all_callbacks P" and p: "length pre = p"
  let ?line = "status_line minor n r" and ?k = "length (show_nat n)"
  let ?mem = "pre @ ?line @ rest @ junk"
  let ?evs = "[CElement cl_http_version p 8, CElement cl_status_code (p + 9) ?k, CElement cl_reason_phrase (p + 10 + ?k) (length r)]"
  let ?P' = "P\<lparr>cl_status := to_int (strtol 10 (drop (p + 9) ?mem)), cl_mark := p + 10 + ?k\<rparr>"
  have d: "drop (p + 9) ?mem = lit (show_nat n) @ 32 # r @ crlf @ rest @ junk" using p by (simp add: status_line_def lit_def)
  have v: "map (see ?mem) ?evs = [VVersion (lit ''HTTP/1.'' @ [minor]), VStatus (to_int (int n)), VReason r]"
  proof -
    have a: "slice ?mem p 8 = lit ''HTTP/1.'' @ [minor]"
      using slice_at [of pre p "lit ''HTTP/1.'' @ [minor]" 8] p by (simp add: status_line_def lit_def)
    have b: "slice ?mem (p + 10 + ?k) (length r) = r"
      using slice_at [of "pre @ lit ''HTTP/1.'' @ minor # lit '' '' @ lit (show_nat n) @ lit '' ''" "p + 10 + ?k" r "length r" "crlf @ rest @ junk"] p
      by (simp add: status_line_def lit_def)
    show ?thesis unfolding list.map see.simps a b d strtol_nat [OF n digit_val_blank] by (rule refl)
  qed
  have b: "list_all (client_bounded (p + length ?line)) ?evs" by (simp add: status_line_def lit_def crlf_def)
  show "\<exists>P' evs. all_callbacks P' \<and>
      (\<forall>pe. client_exec_loop ?mem pe 1 p (?line @ rest) P = cemit evs (client_exec_loop ?mem pe 20 (p + length ?line) rest P'))
      \<and> list_all (client_bounded (p + length ?line)) evs
      \<and> map (see ?mem) evs = [VVersion (lit ''HTTP/1.'' @ [minor]), VStatus (to_int (int n)), VReason r]"
  proof (intro exI conjI allI)
    show "all_callbacks ?P'" using P by (simp add: all_callbacks_def)
    show "client_exec_loop ?mem pe 1 p (?line @ rest) P = cemit ?evs (client_exec_loop ?mem pe 20 (p + length ?line) rest ?P')" for pe
      by (rule status_run [OF m r P])
  qed (fact b v)+
qed

text \<open>The empty line, and the end of the head.\<close>

lemma end_run:
  assumes s: "s = 20 \<or> s = 43" and P: "all_callbacks P"
  shows "\<exists>P'. client_exec_loop mem pe s p (crlf @ body) P = (120, p + 2, P', [CElement cl_header_done (p + 2) (pe - (p + 1) - 1)])"
proof -
  have c: "client_target_of 20 13 = CGo [] 3" "client_target_of 43 13 = CGo [CConnectionClose] 3"
    "client_target_of 3 10 = CBreak [CDone] 120" by (simp_all add: client_targets)
  from s show ?thesis
    using P by (elim disjE) (simp_all add: crlf_def client_step c client_acts all_callbacks_def)
qed

subsection \<open>What the callbacks make of them\<close>

fun apply_view :: "client_view \<Rightarrow> HttpResponse \<Rightarrow> HttpResponse" where
  "apply_view (VField n v) rs = rs_setHeader n v rs"
| "apply_view (VReason r) rs = rs\<lparr>rs_reason := r\<rparr>"
| "apply_view (VStatus n) rs = rs\<lparr>rs_status := n\<rparr>"
| "apply_view (VVersion s) rs = rs\<lparr>rs_version := (if s = lit ''HTTP/1.1'' then 0x11 else 0x10)\<rparr>"
| "apply_view VNone rs = rs"

fun view_ok :: "client_view \<Rightarrow> bool" where
  "view_ok (VField n v) \<longleftrightarrow> n \<noteq> []"
| "view_ok (VVersion s) \<longleftrightarrow> s = lit ''HTTP/1.1'' \<or> s = lit ''HTTP/1.0''"
| "view_ok _ \<longleftrightarrow> True"

lemma response_slice: "at + len \<le> k \<Longrightarrow> k \<le> length mem \<Longrightarrow> k < 2 ^ 63 \<Longrightarrow> mk_string mem at len = Inr (slice mem at len)"
  by (simp add: mk_string_def slice_def)

lemma version_at:
  assumes "slice mem at len = lit s" and "at + len \<le> length mem" and "length s = 8"
  shows "\<exists>rest. drop at mem = lit s @ rest \<and> len = 8"
proof -
  have "length (slice mem at len) = 8" unfolding assms(1) using assms(3) by (simp add: lit_def)
  with assms(2) have "len = 8" by (simp add: slice_def)
  moreover have "drop at mem = slice mem at len @ drop len (drop at mem)" by (simp only: slice_def append_take_drop_id)
  ultimately show ?thesis using assms(1) by metis
qed

lemma version_event:
  assumes "client_bounded k (CElement cl_http_version at len)" and "k \<le> length mem" and "view_ok (VVersion (slice mem at len))"
  shows "on_response_version mem at len parser = Inr (set_response (apply_view (VVersion (slice mem at len))) parser)"
proof -
  have b: "at + len \<le> length mem" using assms(1,2) by simp
  have differ: "lit ''HTTP/1.0'' \<noteq> lit ''HTTP/1.1''" by (simp add: lit_def)
  from assms(3) show ?thesis
  proof (simp only: view_ok.simps, elim disjE)
    assume s: "slice mem at len = lit ''HTTP/1.1''"
    from version_at [OF s b] obtain rest where "drop at mem = lit ''HTTP/1.1'' @ rest" "len = 8" by auto
    with s show ?thesis using http_versions_differ(2) by (simp add: on_response_version_def set_response_def)
  next
    assume s: "slice mem at len = lit ''HTTP/1.0''"
    from version_at [OF s b] obtain rest where "drop at mem = lit ''HTTP/1.0'' @ rest" "len = 8" by auto
    with s show ?thesis using http_versions_differ(1,3) differ by (simp add: on_response_version_def set_response_def)
  qed
qed

lemma view_event:
  assumes "client_bounded k e" and "k \<le> length mem" and "k < 2 ^ 63" and "view_ok (see mem e)"
  shows "on_response_event mem e parser = Inr (set_response (apply_view (see mem e)) parser)"
proof (cases e)
  case (CField f flen v vlen)
  then show ?thesis using assms
    by (simp add: on_response_event_def on_response_http_field_def response_slice [of _ _ k]) (simp add: slice_def set_response_def)
next
  case (CElement cb at len)
  then show ?thesis using assms version_event [of k at len mem parser]
    by (cases cb) (simp_all add: on_response_event_def on_response_reason_def on_response_status_def response_slice [of _ _ k] set_response_def)
qed

lemma set_response_comp: "set_response f (set_response g parser) = set_response (f \<circ> g) parser"
  by (simp add: set_response_def)

lemma set_response_id [simp]: "set_response id parser = parser"
  by (simp add: set_response_def)

lemma view_events:
  "list_all (client_bounded k) evs \<Longrightarrow> k \<le> length mem \<Longrightarrow> k < 2 ^ 63 \<Longrightarrow> list_all view_ok (map (see mem) evs) \<Longrightarrow>
   on_response_events mem evs parser = Inr (set_response (fold apply_view (map (see mem) evs)) parser)"
  by (induction evs arbitrary: parser) (simp_all add: view_event [of k] set_response_comp)

subsection \<open>What \<open>dump\<close> prints\<close>

definition cookie_name :: str where "cookie_name = lit ''Set-Cookie''"

definition reason_text :: "HttpResponse \<Rightarrow> str" where
  "reason_text rs = (if rs_reason rs = [] then lit (HttpStatusToString (rs_status rs)) else rs_reason rs)"

text \<open>A response that the grammar of the automaton covers.\<close>

definition wf_response :: "HttpResponse \<Rightarrow> bool" where
  "wf_response rs \<longleftrightarrow> 0 \<le> rs_status rs \<and> rs_status rs < 2 ^ 31 \<and> (rs_version rs = 0x10 \<or> rs_version rs = 0x11)
     \<and> \<not> rs_websocket rs \<and> list_all value_byte (rs_reason rs)
     \<and> tree_sorted CaseInsensitiveLess fst (rs_headers rs)
     \<and> list_all (\<lambda>h. plain_name (fst h) \<and> value_text (snd h)) (rs_headers rs) \<and> list_all value_text (rs_cookies rs)"

definition plain_lines :: "HttpResponse \<Rightarrow> (str \<times> str) list" where
  "plain_lines rs = rs_headers rs @ map (Pair cookie_name) (rs_cookies rs)"

lemma crun_Nil: "crun s [] s []"
  by (rule crunI) (auto intro!: exI [of _ "[]"])

lemma crun_fields:
  "list_all (\<lambda>h. plain_name (fst h) \<and> value_text (snd h)) hs \<Longrightarrow>
   crun 20 (concat (map (\<lambda>h. field_line (fst h) (snd h)) hs)) 20 (map (\<lambda>h. VField (fst h) (snd h)) hs)"
proof (induction hs)
  case Nil
  show ?case by (simp add: crun_Nil)
next
  case (Cons h hs)
  then show ?case using crun_append [OF crun_field Cons.IH, of "fst h" "snd h"] by simp
qed

lemma crun_connection:
  "\<exists>s. (s = 20 \<or> s = 43) \<and> crun 20 (field_line connection_name (connection_value close)) s [VField connection_name (connection_value close)]"
  using crun_close crun_keep_alive by (cases close) (auto simp: connection_name_def connection_value_def)

lemma crun_lengths:
  assumes "s = 20 \<or> s = 43"
  shows "\<exists>t. (t = 20 \<or> t = 43) \<and> crun s (concat (map (\<lambda>h. field_line (fst h) (snd h)) (length_headers body))) t
    (map (\<lambda>h. VField (fst h) (snd h)) (length_headers body))"
  using assms crun_Nil [of s] crun_length [OF assms] by (auto simp: length_headers_def length_name_def)

definition response_head :: "HttpResponse \<Rightarrow> str" where
  "response_head rs = status_line (48 + (rs_version rs AND 0x0F)) (nat (rs_status rs)) (reason_text rs)
     @ concat (map (\<lambda>h. field_line (fst h) (snd h)) (plain_lines rs))
     @ field_line connection_name (connection_value (rs_close rs))
     @ concat (map (\<lambda>h. field_line (fst h) (snd h)) (length_headers (rs_body rs)))"

definition all_lines :: "HttpResponse \<Rightarrow> (str \<times> str) list" where
  "all_lines rs = plain_lines rs @ (connection_name, connection_value (rs_close rs)) # length_headers (rs_body rs)"

definition response_views :: "HttpResponse \<Rightarrow> client_view list" where
  "response_views rs = [VVersion (lit ''HTTP/1.'' @ [48 + (rs_version rs AND 0x0F)]), VStatus (rs_status rs), VReason (reason_text rs)]
     @ map (\<lambda>h. VField (fst h) (snd h)) (all_lines rs)"

lemma status_texts: "list_all (\<lambda>(s, m). m \<noteq> [] \<and> list_all (\<lambda>c. c \<noteq> CHR 0x0A \<and> c \<noteq> CHR 0x0D) m) HTTP_STATUS_MAP"
  by code_simp

lemma reason_ok:
  assumes "wf_response rs" shows "reason_text rs \<noteq> []" "list_all value_byte (reason_text rs)"
proof -
  let ?t = "HttpStatusToString (rs_status rs)"
  have t: "?t \<noteq> [] \<and> list_all (\<lambda>c. c \<noteq> CHR 0x0A \<and> c \<noteq> CHR 0x0D) ?t"
    using status_texts by (auto simp: HttpStatusToString_def list_all_iff split: option.split dest!: map_of_SomeD)
  have "value_byte (of_char c)" if "c \<noteq> CHR 0x0A" "c \<noteq> CHR 0x0D" for c
  proof -
    have "(of_char c :: byte) = 10 \<longleftrightarrow> c = CHR 0x0A" "(of_char c :: byte) = 13 \<longleftrightarrow> c = CHR 0x0D"
      by (cases c, simp add: of_char_def)+
    with that show ?thesis by (simp add: value_byte_def)
  qed
  with t assms show "reason_text rs \<noteq> []" "list_all value_byte (reason_text rs)"
    by (auto simp: reason_text_def wf_response_def lit_def list_all_iff)
qed

lemma crun_head:
  assumes wf: "wf_response rs"
  shows "\<exists>t. (t = 20 \<or> t = 43) \<and> crun 1 (response_head rs) t (response_views rs)"
proof -
  have m: "48 + (rs_version rs AND 0x0F) \<in> {48, 49}" using wf by (auto simp: wf_response_def)
  have st: "0 \<le> rs_status rs" "rs_status rs < 2 ^ 31" using wf by (auto simp: wf_response_def)
  then have i: "int (nat (rs_status rs)) = rs_status rs" "nat (rs_status rs) < 2 ^ 63" "to_int (rs_status rs) = rs_status rs"
    by (auto intro: to_int_id)
  have "plain_name cookie_name" by code_simp
  then have lines: "list_all (\<lambda>h. plain_name (fst h) \<and> value_text (snd h)) (plain_lines rs)"
    using wf by (auto simp: wf_response_def plain_lines_def list_all_iff)
  obtain s where s: "s = 20 \<or> s = 43" "crun 20 (field_line connection_name (connection_value (rs_close rs))) s
      [VField connection_name (connection_value (rs_close rs))]"
    using crun_connection by blast
  obtain t where t: "t = 20 \<or> t = 43" "crun s (concat (map (\<lambda>h. field_line (fst h) (snd h)) (length_headers (rs_body rs)))) t
      (map (\<lambda>h. VField (fst h) (snd h)) (length_headers (rs_body rs)))"
    using crun_lengths [OF s(1)] by blast
  from crun_append [OF crun_status [OF m reason_ok [OF wf] i(2)] crun_append [OF crun_fields [OF lines] crun_append [OF s(2) t(2)]]] t(1)
  have "crun 1 (response_head rs) t (response_views rs)"
    by (simp add: response_head_def response_views_def all_lines_def i st(1))
  with t(1) show ?thesis by blast
qed

lemma dump_fields:
  "list_all (\<lambda>h. \<not> eqv CaseInsensitiveLess (fst h) connection_name) hs \<Longrightarrow>
   concat (map (dump_header False) hs) = concat (map (\<lambda>h. field_line (fst h) (snd h)) hs)"
  by (induction hs) (simp_all add: dump_header_def strcasecmp_zero connection_name_def field_line_def)

lemma dump_added:
  "lit ''Set-Cookie: '' @ c @ crlf = field_line cookie_name c"
  "dump_connection False close = field_line connection_name (connection_value close)"
  "dump_body body = concat (map (\<lambda>h. field_line (fst h) (snd h)) (length_headers body)) @ crlf @ body"
  by (simp_all add: field_line_def cookie_name_def dump_connection_def connection_name_def connection_value_def
      dump_body_def length_headers_def length_name_def lit_def)

lemma dump_status:
  "v = 0x10 \<or> v = 0x11 \<Longrightarrow>
   lit ''HTTP/'' @ dump_version v @ lit '' '' @ lit (show_nat n) @ lit '' '' @ r @ crlf @ rest = status_line (48 + (v AND 0x0F)) n r @ rest"
  by (simp add: version_digit status_line_def) (simp add: lit_def)

text \<open>A name outside the three is none of the two that \<open>dump\<close> adds.\<close>

lemma plain_lower_key:
  assumes n: "plain_name n" shows "map (\<lambda>b. char_of (unat b)) (lower_key n) \<notin> set special_names"
proof -
  have "\<not> name_int 0" by (simp add: name_int_def)
  then have "b \<noteq> 0" if "b \<in> set n" for b using n that by (auto simp: plain_name_def list_all_iff)
  then have "cstr n = n" by (auto simp: cstr_def takeWhile_eq_all_conv)
  then show ?thesis using n by (simp add: plain_name_def lower_key_def comp_def)
qed

lemma added_special:
  "map (\<lambda>b. char_of (unat b)) (lower_key connection_name) \<in> set special_names"
  "map (\<lambda>b. char_of (unat b)) (lower_key length_name) \<in> set special_names"
  by code_simp+

lemma plain_not_added:
  assumes "plain_name n" shows "\<not> eqv CaseInsensitiveLess n connection_name" "\<not> eqv CaseInsensitiveLess n length_name"
  using plain_lower_key [OF assms] added_special unfolding header_eqv by metis+

lemma response_dump:
  assumes wf: "wf_response rs"
  shows "HttpResponse_dump rs = response_head rs @ crlf @ rs_body rs"
proof -
  have h: "list_all (\<lambda>h. \<not> eqv CaseInsensitiveLess (fst h) connection_name) (rs_headers rs)"
    using wf plain_not_added(1) by (auto simp: wf_response_def list_all_iff)
  have v: "rs_version rs = 0x10 \<or> rs_version rs = 0x11" and w: "\<not> rs_websocket rs"
    and st: "nat (rs_status rs mod 2 ^ 32) = nat (rs_status rs)"
    using wf by (auto simp: wf_response_def)
  have "HttpResponse_dump rs = lit ''HTTP/'' @ dump_version (rs_version rs) @ lit '' '' @ lit (show_nat (nat (rs_status rs))) @ lit '' ''
     @ reason_text rs @ crlf @ concat (map (\<lambda>h. field_line (fst h) (snd h)) (rs_headers rs))
     @ concat (map (field_line cookie_name) (rs_cookies rs))
     @ field_line connection_name (connection_value (rs_close rs))
     @ concat (map (\<lambda>h. field_line (fst h) (snd h)) (length_headers (rs_body rs))) @ crlf @ rs_body rs"
    using w by (simp only: HttpResponse_dump_def dump_fields [OF h] dump_added st reason_text_def)
  also have "\<dots> = response_head rs @ crlf @ rs_body rs"
    unfolding dump_status [OF v] by (simp add: response_head_def plain_lines_def comp_def)
  finally show ?thesis .
qed

subsection \<open>The headers that arrive\<close>

lemma fold_views:
  "fold apply_view (map (\<lambda>h. VField (fst h) (snd h)) hs) rs = rs\<lparr>rs_headers := set_headers (map plain hs) (rs_headers rs)\<rparr>"
  by (induction hs arbitrary: rs) (simp_all add: set_headers_def rs_setHeader_def plain_def)

lemma set_cookies_find:
  "tree_sorted CaseInsensitiveLess fst m \<Longrightarrow>
   map_find CaseInsensitiveLess k (set_headers (map plain (map (Pair n) vs)) m)
     = (if vs \<noteq> [] \<and> eqv CaseInsensitiveLess n k then Some (last vs) else map_find CaseInsensitiveLess k m)"
  by (induction vs arbitrary: m) (auto simp: set_headers_def plain_def header_map.sorted_assign header_map.map_find_assign)

definition sent_header :: "HttpResponse \<Rightarrow> str \<Rightarrow> str option" where
  "sent_header rs k =
     (if rs_body rs \<noteq> [] \<and> eqv CaseInsensitiveLess length_name k then Some (lit (show_nat (length (rs_body rs))))
      else if eqv CaseInsensitiveLess connection_name k then Some (connection_value (rs_close rs))
      else if rs_cookies rs \<noteq> [] \<and> eqv CaseInsensitiveLess cookie_name k then Some (last (rs_cookies rs))
      else map_find CaseInsensitiveLess k (rs_headers rs))"

lemma sent_headers_found:
  assumes wf: "wf_response rs"
  shows "map_find CaseInsensitiveLess k (set_headers (map plain (all_lines rs)) []) = sent_header rs k"
proof -
  let ?m0 = "set_headers (map plain (rs_headers rs)) []" and ?c = "[(connection_name, connection_value (rs_close rs))]"
  define m1 where "m1 = set_headers (map plain (map (Pair cookie_name) (rs_cookies rs))) ?m0"
  define m2 where "m2 = set_headers (map plain ?c) m1"
  have s: "tree_sorted CaseInsensitiveLess fst (rs_headers rs)" using wf by (simp add: wf_response_def)
  have m0: "tree_sorted CaseInsensitiveLess fst ?m0" by (rule set_headers_sorted) simp
  have m1: "tree_sorted CaseInsensitiveLess fst m1" unfolding m1_def by (rule set_headers_sorted [OF m0])
  have m2: "tree_sorted CaseInsensitiveLess fst m2" unfolding m2_def by (rule set_headers_sorted [OF m1])
  have split: "set_headers (map plain (all_lines rs)) [] = set_headers (map plain (length_headers (rs_body rs))) m2"
    by (simp add: all_lines_def plain_lines_def m1_def m2_def set_headers_append [symmetric])
  have f0: "map_find CaseInsensitiveLess k ?m0 = map_find CaseInsensitiveLess k (rs_headers rs)"
    unfolding set_headers_find [OF s tree_sorted_Nil] by (simp add: map_find_def split: option.split)
  have f1: "map_find CaseInsensitiveLess k m1 = (if rs_cookies rs \<noteq> [] \<and> eqv CaseInsensitiveLess cookie_name k
      then Some (last (rs_cookies rs)) else map_find CaseInsensitiveLess k (rs_headers rs))"
    unfolding m1_def set_cookies_find [OF m0] f0 by (rule refl)
  have f2: "map_find CaseInsensitiveLess k m2 = (if eqv CaseInsensitiveLess connection_name k
      then Some (connection_value (rs_close rs)) else map_find CaseInsensitiveLess k m1)"
    unfolding m2_def set_headers_find [OF added_headers_sorted(2) m1] find_single by simp
  show ?thesis
    unfolding split set_headers_find [OF added_headers_sorted(1) m2] find_length_headers f2 f1 sent_header_def by simp
qed

subsection \<open>The response that is read\<close>

lemma response_run:
  assumes wf: "wf_response rs" and P: "all_callbacks P" and pe: "pe = length (HttpResponse_dump rs)"
  shows "\<exists>evs P'. client_exec_loop (HttpResponse_dump rs @ junk) pe 1 0 (HttpResponse_dump rs) P = (120, length (response_head rs) + 2, P', evs)
    \<and> list_all (client_bounded pe) evs \<and> map (see (HttpResponse_dump rs @ junk)) evs = response_views rs @ [VNone]"
proof -
  let ?d = "HttpResponse_dump rs" and ?h = "response_head rs"
  have d: "?d = ?h @ crlf @ rs_body rs" by (rule response_dump [OF wf])
  obtain t where t: "t = 20 \<or> t = 43" "crun 1 ?h t (response_views rs)" using crun_head [OF wf] by blast
  from t(2) [unfolded crun_def, rule_format, OF P, of "[]" "crlf @ rs_body rs" junk] d obtain evs P0 where P0: "all_callbacks P0"
    and run: "client_exec_loop (?d @ junk) pe 1 0 ?d P = cemit evs (client_exec_loop (?d @ junk) pe t (length ?h) (crlf @ rs_body rs) P0)"
    and views: "map (see (?d @ junk)) evs = response_views rs" and bounded: "list_all (client_bounded (length ?h)) evs" by auto
  let ?e = "CElement cl_header_done (length ?h + 2) (pe - (length ?h + 1) - 1)"
  obtain P' where P': "client_exec_loop (?d @ junk) pe t (length ?h) (crlf @ rs_body rs) P0 = (120, length ?h + 2, P', [?e])"
    using end_run [OF t(1) P0] by blast
  have le: "length ?h + 2 \<le> pe" unfolding pe d by (simp add: crlf_def)
  have "client_bounded pe e" if "client_bounded (length ?h) e" for e using client_bounded_le [OF that] le by simp
  then have "list_all (client_bounded pe) (evs @ [?e])" using bounded le by (auto simp: list_all_iff)
  moreover have "map (see (?d @ junk)) (evs @ [?e]) = response_views rs @ [VNone]" using views by simp
  moreover have "client_exec_loop (?d @ junk) pe 1 0 ?d P = (120, length ?h + 2, P', evs @ [?e])" unfolding run P' by simp
  ultimately show ?thesis by blast
qed

lemma version_read: "v = 0x10 \<or> v = 0x11 \<Longrightarrow>
   (if lit ''HTTP/1.'' @ [48 + (v AND 0x0F)] = lit ''HTTP/1.1'' then 0x11 else 0x10) = (v :: u8)
   \<and> lit ''HTTP/1.'' @ [48 + (v AND 0x0F)] \<in> {lit ''HTTP/1.1'', lit ''HTTP/1.0''}"
  by (auto simp: lit_def)

lemma read_data:
  assumes "wf_response rs"
  shows "fold apply_view (response_views rs) (new_HttpResponse 0x11 True) = (new_HttpResponse 0x11 True)\<lparr>rs_version := rs_version rs,
    rs_status := rs_status rs, rs_reason := reason_text rs, rs_headers := set_headers (map plain (all_lines rs)) []\<rparr>"
  using assms version_read [of "rs_version rs"] by (simp add: response_views_def fold_views wf_response_def) (simp add: new_HttpResponse_def)

lemma views_ok:
  assumes wf: "wf_response rs" shows "list_all view_ok (response_views rs @ [VNone])"
proof -
  have "fst h \<noteq> []" if "h \<in> set (all_lines rs)" for h
    using that wf names_start
    by (auto simp: all_lines_def plain_lines_def length_headers_def cookie_name_def wf_response_def list_all_iff plain_name_def split: if_splits)
  then show ?thesis
    using version_read [of "rs_version rs"] wf by (auto simp: response_views_def wf_response_def list_all_iff)
qed

lemma response_execute_printed:
  assumes wf: "wf_response rs" and fits: "length (HttpResponse_dump rs) < 2 ^ 31"
  defines "d \<equiv> HttpResponse_dump rs" and "off \<equiv> length (response_head rs) + 2"
  shows "\<exists>P'. cl_cs P' = 120 \<and> response_execute (d @ 0 # junk) (length d) chunck (new_HttpResponseParser raw)
    = Inr (off, (new_HttpResponseParser raw)\<lparr>rp_parser := P', rp_data := fold apply_view (response_views rs) (new_HttpResponse 0x11 True)\<rparr>,
        overwrite (d @ 0 # junk) 0 (rs_body rs))"
proof -
  let ?P = "(httpclient_parser_init raw)\<lparr>cl_installed := \<lambda>_. True\<rparr>" and ?mem = "d @ 0 # junk"
  have dump: "d = response_head rs @ crlf @ rs_body rs" unfolding d_def by (rule response_dump [OF wf])
  have P: "all_callbacks (reset_client ?P)" by (simp add: all_callbacks_def reset_client_def)
  obtain evs P' where run: "client_exec_loop ?mem (length d) 1 0 d (reset_client ?P) = (120, off, P', evs)"
    and ok: "list_all (client_bounded (length d)) evs" "map (see ?mem) evs = response_views rs @ [VNone]"
    using response_run [OF wf P refl, of "0 # junk"] unfolding d_def off_def by blast
  have ne: "d \<noteq> []" unfolding dump by (simp add: crlf_def)
  have enter: "client_enter ?mem (length d) (cl_cs ?P) 0 (drop 0 d) (reset_client ?P) = (120, off, P', evs)"
    using run ne by (simp add: client_enter_def httpclient_parser_init_def httpclient_parser_start_def)
  have len: "0 < length d" "length d < 2 ^ 31" using ne fits by (simp_all add: d_def)
  let ?P2 = "P'\<lparr>cl_cs := 120, cl_nread := off\<rparr>"
  have exec: "httpclient_parser_execute ?P ?mem (length d) 0 = Inr (int off, ?P2, evs)"
    using client_execute_eq(1) [OF len _ _ enter] by (simp add: httpclient_parser_init_def)
  have "rp_parser (new_HttpResponseParser raw) = ?P" "httpclient_parser_init ?P = ?P"
    by (simp_all add: new_HttpResponseParser_def httpclient_parser_init_def)
  then have p: "(if chunck then httpclient_parser_init (rp_parser (new_HttpResponseParser raw)) else rp_parser (new_HttpResponseParser raw)) = ?P"
    by simp
  note views_ok [OF wf]
  then have ev: "on_response_events ?mem evs parser = Inr (set_response (fold apply_view (response_views rs)) parser)" for parser
    using view_events [OF ok(1), of ?mem parser] ok(2) len by (simp add: set_response_def)
  have body: "take (length d - off) (drop off ?mem) = rs_body rs" by (simp add: dump off_def crlf_def)
  show ?thesis
    unfolding response_execute_def Let_def p exec
    by (intro exI [of _ ?P2]) (simp add: ev body del: take_append drop_append, simp add: set_response_def new_HttpResponseParser_def)
qed

text \<open>An empty buffer is not progress but \<open>-1\<close>, which \<open>execute\<close> takes for an offset.\<close>

lemma response_empty_overflow: "response_execute (0 # junk) 0 chunck (new_HttpResponseParser raw) = Inl HeapOverflow"
  by (simp add: response_execute_def new_HttpResponseParser_def httpclient_parser_execute_def client_enter_def
      httpclient_parser_init_def to_int_id Let_def)

text \<open>Of two cookies, the second is what the header map keeps.\<close>

lemma second_cookie_wins: "rs_cookies rs = [a, b] \<Longrightarrow> rs_body rs = [] \<Longrightarrow> sent_header rs cookie_name = Some b"
proof -
  have "\<not> eqv CaseInsensitiveLess connection_name cookie_name" "eqv CaseInsensitiveLess cookie_name cookie_name" by code_simp+
  then show "rs_cookies rs = [a, b] \<Longrightarrow> rs_body rs = [] \<Longrightarrow> sent_header rs cookie_name = Some b" by (simp add: sent_header_def)
qed

text \<open>
  C5: What \<open>HttpResponse::dump\<close> prints of a response, \<open>HttpResponseParser\<close> reads: \<open>execute\<close> consumes the head and moves the
  body to the start of the buffer, the parser is finished without an error, and the version, the status, the reason
  and the headers are those of the response, but that of several cookies only the last is left.
\<close>

theorem http_response_survives:
  assumes wf: "wf_response rs" and fits: "length (HttpResponse_dump rs) < 2 ^ 31"
  shows "\<exists>parser mem. response_execute (HttpResponse_dump rs @ 0 # junk) (length (HttpResponse_dump rs)) chunck (new_HttpResponseParser raw)
      = Inr (length (HttpResponse_dump rs) - length (rs_body rs), parser, mem)
    \<and> take (length (rs_body rs)) mem = rs_body rs
    \<and> response_isFinished parser = 1 \<and> \<not> response_hasError parser
    \<and> rs_version (rp_data parser) = rs_version rs \<and> rs_status (rp_data parser) = rs_status rs
    \<and> rs_reason (rp_data parser) = reason_text rs
    \<and> (\<forall>k. map_find CaseInsensitiveLess k (rs_headers (rp_data parser)) = sent_header rs k)"
proof -
  let ?d = "HttpResponse_dump rs" and ?rs = "fold apply_view (response_views rs) (new_HttpResponse 0x11 True)"
  obtain P' where P': "cl_cs P' = 120" "response_execute (?d @ 0 # junk) (length ?d) chunck (new_HttpResponseParser raw)
    = Inr (length (response_head rs) + 2, (new_HttpResponseParser raw)\<lparr>rp_parser := P', rp_data := ?rs\<rparr>,
        overwrite (?d @ 0 # junk) 0 (rs_body rs))"
    using response_execute_printed [OF wf fits] by blast
  have "length ?d - length (rs_body rs) = length (response_head rs) + 2" unfolding response_dump [OF wf] by (simp add: crlf_def)
  then show ?thesis
    using P' read_data [OF wf] sent_headers_found [OF wf]
    by (simp add: overwrite_def response_isFinished_def response_hasError_def httpclient_parser_finish_def new_HttpResponseParser_def
        httpclient_parser_has_error_def httpclient_parser_is_finished_def httpclient_parser_error_def httpclient_parser_first_final_def)
qed

definition sample_response :: HttpResponse where
  "sample_response = \<lparr>rs_status = 404, rs_version = 0x10, rs_close = True, rs_websocket = False, rs_body = lit ''gone'',
     rs_reason = [], rs_headers = [(lit ''Server'', lit ''lim'')], rs_cookies = [lit ''a=1'', lit ''b=2'']\<rparr>"

lemma http_response_survives_witness:
  "\<exists>parser mem. response_execute (HttpResponse_dump sample_response @ [0]) (length (HttpResponse_dump sample_response)) True
      (new_HttpResponseParser client_fresh) = Inr (length (HttpResponse_dump sample_response) - 4, parser, mem)
    \<and> take 4 mem = lit ''gone'' \<and> rs_status (rp_data parser) = 404
    \<and> map_find CaseInsensitiveLess (lit ''set-cookie'') (rs_headers (rp_data parser)) = Some (lit ''b=2'')"
proof -
  have wf: "wf_response sample_response" by code_simp
  have "length (HttpResponse_dump sample_response) = 115" by code_simp
  then have fits: "length (HttpResponse_dump sample_response) < 2 ^ 31" by simp
  have c: "sent_header sample_response (lit ''set-cookie'') = Some (lit ''b=2'')" by code_simp
  have b: "rs_body sample_response = lit ''gone''" "length (lit ''gone'') = 4" "rs_status sample_response = 404"
    by (simp_all add: sample_response_def lit_def)
  from http_response_survives [OF wf fits, of "[]" True client_fresh] obtain parser mem where
    "response_execute (HttpResponse_dump sample_response @ [0]) (length (HttpResponse_dump sample_response)) True
      (new_HttpResponseParser client_fresh) = Inr (length (HttpResponse_dump sample_response) - length (rs_body sample_response), parser, mem)"
    "take (length (rs_body sample_response)) mem = rs_body sample_response" "rs_status (rp_data parser) = rs_status sample_response"
    "\<forall>k. map_find CaseInsensitiveLess k (rs_headers (rp_data parser)) = sent_header sample_response k"
    by blast
  then show ?thesis using c unfolding b by (intro exI [of _ parser] exI [of _ mem]) simp
qed

end
