(* ===== verification/Spec2Isabelle.thy ===== *)
theory Spec2Isabelle
  imports Serializer_Props Address_Props Timer_Threads HttpMessage_Props HttpSession_Props HttpClientParser_Props LogManager_Props AsyncAppender_Props
    LFQueue_Threads Processor_Props Handshake Hook_Props Configer_Props Socket_Props HttpResponse_Props
begin

text \<open>Verification library for lim_webserver.\<close>

end
